(* ===== verification/Js_Prelude.thy ===== *)
theory Js_Prelude
  imports Main "HOL-Library.AList" "HOL-Library.Sublist" "HOL-Library.Multiset"
begin

text \<open>
  The JavaScript idioms the components share. Optional values are \<open>option\<close> (both
  \<open>undefined\<close> and \<open>null\<close> are \<open>None\<close> where the source does not tell them apart);
  a JavaScript \<open>Set\<close> is a duplicate-free list in insertion order; a JavaScript
  \<open>Map\<close> or record is an association list in enumeration order, written with
  \<^const>\<open>AList.update\<close>, which like \<open>Map.set\<close> overwrites in place and
  otherwise appends; strings are character lists. Characters are single code units
  below 256; case conversion acts on the ASCII letters.
\<close>

section \<open>Optional values and truthiness\<close>

named_theorems js_simps \<open>unfolding rules of the JavaScript idioms\<close>

type_synonym ('k, 'v) js_map = "('k \<times> 'v) list"

definition truthy :: "string option \<Rightarrow> bool" where
  [js_simps]: "truthy v = (case v of None \<Rightarrow> False | Some s \<Rightarrow> s \<noteq> [])"

definition or_str :: "string option \<Rightarrow> string \<Rightarrow> string" where
  [js_simps]: "or_str v d = (if truthy v then the v else d)"

definition or_undefined :: "string \<Rightarrow> string option" where
  [js_simps]: "or_undefined s = (if s = [] then None else Some s)"

definition or_opt :: "string option \<Rightarrow> string option \<Rightarrow> string option" where
  [js_simps]: "or_opt a b = (if truthy a then a else b)"

definition or_nil :: "'a list option \<Rightarrow> 'a list" where
  [js_simps]: "or_nil v = (case v of None \<Rightarrow> [] | Some xs \<Rightarrow> xs)"

definition coalesce :: "'a option \<Rightarrow> 'a \<Rightarrow> 'a" where
  [js_simps]: "coalesce v d = (case v of None \<Rightarrow> d | Some x \<Rightarrow> x)"

lemma truthy_simps [simp]:
  "truthy None = False" "truthy (Some []) = False" "truthy (Some (c # s)) = True"
  by (simp_all add: truthy_def)

lemma truthy_iff: "truthy v \<longleftrightarrow> (\<exists>s. v = Some s \<and> s \<noteq> [])"
  by (auto simp: truthy_def split: option.splits)

lemma or_nil_simps [simp]: "or_nil None = []" "or_nil (Some xs) = xs"
  by (simp_all add: or_nil_def)

lemma coalesce_simps [simp]: "coalesce None d = d" "coalesce (Some x) d = x"
  by (simp_all add: coalesce_def)

definition nth_opt :: "'a list \<Rightarrow> nat \<Rightarrow> 'a option" where
  [js_simps]: "nth_opt xs i = (if i < length xs then Some (xs ! i) else None)"

lemma find_Some_mem: "find P xs = Some x \<Longrightarrow> x \<in> set xs \<and> P x"
  by (induction xs) (auto split: if_splits)

lemma find_None_all: "find P xs = None \<longleftrightarrow> (\<forall>x\<in>set xs. \<not> P x)"
  by (induction xs) auto

lemma find_Some_first:
  assumes "find P xs = Some x"
  obtains us vs where "xs = us @ x # vs" "P x" "\<forall>u\<in>set us. \<not> P u"
  using assms
proof (induction xs arbitrary: thesis)
  case Nil
  then show ?case by simp
next
  case (Cons y ys)
  show ?case
  proof (cases "P y")
    case True
    with Cons.prems(2) have "x = y" by simp
    with True show ?thesis by (intro Cons.prems(1)[of "[]" ys]) auto
  next
    case False
    with Cons.prems(2) have "find P ys = Some x" by simp
    then obtain us vs where "ys = us @ x # vs" "P x" "\<forall>u\<in>set us. \<not> P u"
      by (rule Cons.IH[rotated])
    with False show ?thesis by (intro Cons.prems(1)[of "y # us" vs]) auto
  qed
qed

lemma find_append_first: "\<forall>u\<in>set us. \<not> P u \<Longrightarrow> P x \<Longrightarrow> find P (us @ x # vs) = Some x"
  by (induction us) auto

section \<open>Sets in insertion order\<close>

definition set_add :: "'a list \<Rightarrow> 'a \<Rightarrow> 'a list" where
  "set_add xs x = (if x \<in> set xs then xs else xs @ [x])"

definition set_add_all :: "'a list \<Rightarrow> 'a list \<Rightarrow> 'a list" where
  "set_add_all xs ys = foldl set_add xs ys"

definition js_set :: "'a list \<Rightarrow> 'a list" where
  "js_set xs = set_add_all [] xs"

lemma set_set_add [simp]: "set (set_add xs x) = insert x (set xs)"
  by (auto simp: set_add_def)

lemma distinct_set_add [simp]: "distinct (set_add xs x) = distinct xs"
  by (auto simp: set_add_def)

lemma set_add_all_simps [simp]:
  "set_add_all xs [] = xs" "set_add_all xs (y # ys) = set_add_all (set_add xs y) ys"
  by (simp_all add: set_add_all_def)

lemma set_set_add_all [simp]: "set (set_add_all xs ys) = set xs \<union> set ys"
  by (induction ys arbitrary: xs) auto

lemma distinct_set_add_all [simp]: "distinct (set_add_all xs ys) = distinct xs"
  by (induction ys arbitrary: xs) auto

lemma set_js_set [simp]: "set (js_set xs) = set xs"
  by (simp add: js_set_def)

lemma distinct_js_set [simp]: "distinct (js_set xs)"
  by (simp add: js_set_def)

lemma set_add_all_distinct:
  "distinct ys \<Longrightarrow> set xs \<inter> set ys = {} \<Longrightarrow> set_add_all xs ys = xs @ ys"
proof (induction ys arbitrary: xs)
  case Nil
  then show ?case by simp
next
  case (Cons y ys)
  then have "set_add xs y = xs @ [y]" by (auto simp: set_add_def)
  moreover from Cons.prems have "set (xs @ [y]) \<inter> set ys = {}" by auto
  ultimately show ?case using Cons.IH[of "xs @ [y]"] Cons.prems(1) by simp
qed

lemma js_set_distinct [simp]: "distinct xs \<Longrightarrow> js_set xs = xs"
  by (simp add: js_set_def set_add_all_distinct)

section \<open>Maps in insertion order\<close>

definition js_map_of :: "('k \<times> 'v) list \<Rightarrow> ('k, 'v) js_map" where
  "js_map_of kvs = foldl (\<lambda>m kv. AList.update (fst kv) (snd kv) m) [] kvs"

lemma foldl_update_map_of:
  "map_of (foldl (\<lambda>m kv. AList.update (fst kv) (snd kv) m) m0 kvs) = map_of m0 ++ map_of (rev kvs)"
proof (induction kvs arbitrary: m0)
  case Nil
  then show ?case by simp
next
  case (Cons kv kvs)
  then show ?case
    by (cases kv) (simp add: AList.update_conv' map_add_def fun_eq_iff split: option.splits)
qed

lemma map_of_js_map_of: "map_of (js_map_of kvs) = map_of (rev kvs)"
  by (simp add: js_map_of_def foldl_update_map_of)

lemma foldl_update_keys_distinct:
  "distinct (map fst m0) \<Longrightarrow>
   distinct (map fst (foldl (\<lambda>m x. AList.update (f x) (g m x) m) m0 xs))"
  by (induction xs arbitrary: m0) (simp_all add: AList.distinct_update)

lemma distinct_js_map_of [simp]: "distinct (map fst (js_map_of kvs))"
  unfolding js_map_of_def using foldl_update_keys_distinct[of "[]" fst "\<lambda>m. snd" kvs] by simp

lemma foldl_update_keys:
  "fst ` set (foldl (\<lambda>m x. AList.update (f x) (g m x) m) m0 xs) = fst ` set m0 \<union> f ` set xs"
  by (induction xs arbitrary: m0) (simp_all add: AList.dom_update)

lemma foldl_update_mem:
  assumes "(k, v) \<in> set (foldl (\<lambda>m x. AList.update (f x) (g x) m) m0 xs)"
  shows "(k, v) \<in> set m0 \<or> (\<exists>x\<in>set xs. k = f x \<and> v = g x)"
  using assms
proof (induction xs arbitrary: m0)
  case Nil
  then show ?case by simp
next
  case (Cons x xs)
  have upd: "(k, v) \<in> set (AList.update a b m) \<Longrightarrow> (k, v) \<in> set m \<or> (k = a \<and> v = b)"
    for a b and m
    by (induction m) (auto split: if_splits)
  from Cons show ?case by (fastforce dest: upd)
qed

lemma alist_update_fresh: "k \<notin> fst ` set m \<Longrightarrow> AList.update k v m = m @ [(k, v)]"
  by (induction m) auto

lemma foldl_update_append:
  assumes "distinct (map f xs)" and "set (map f xs) \<inter> set (map fst m0) = {}"
  shows "foldl (\<lambda>m x. AList.update (f x) (g x) m) m0 xs = m0 @ map (\<lambda>x. (f x, g x)) xs"
  using assms
proof (induction xs arbitrary: m0)
  case Nil
  then show ?case by simp
next
  case (Cons x xs)
  from Cons.prems have upd: "AList.update (f x) (g x) m0 = m0 @ [(f x, g x)]"
    by (intro alist_update_fresh) auto
  have "foldl (\<lambda>m x. AList.update (f x) (g x) m) (m0 @ [(f x, g x)]) xs
      = (m0 @ [(f x, g x)]) @ map (\<lambda>x. (f x, g x)) xs"
    using Cons.prems by (intro Cons.IH) auto
  then show ?case by (simp add: upd)
qed

lemma map_of_distinct_rev: "distinct (map fst kvs) \<Longrightarrow> map_of (rev kvs) = map_of kvs"
  by (simp add: map_of_inject_set flip: rev_map)

section \<open>Strings\<close>

fun split_on :: "char \<Rightarrow> string \<Rightarrow> string list" where
  "split_on d [] = [[]]"
| "split_on d (c # s) =
     (if c = d then [] # split_on d s
      else case split_on d s of [] \<Rightarrow> [[c]] | w # ws \<Rightarrow> (c # w) # ws)"

fun join_with :: "string \<Rightarrow> string list \<Rightarrow> string" where
  "join_with sep [] = []"
| "join_with sep [w] = w"
| "join_with sep (w # v # ws) = w @ sep @ join_with sep (v # ws)"

lemma split_on_nonempty [simp]: "split_on d s \<noteq> []"
  by (induction s) (auto split: list.splits)

lemma split_on_no_sep: "d \<notin> set s \<Longrightarrow> split_on d s = [s]"
  by (induction s) auto

lemma split_on_append_sep:
  "d \<notin> set w \<Longrightarrow> split_on d (w @ d # s) = w # split_on d s"
  by (induction w) auto

lemma split_on_parts_no_sep: "w \<in> set (split_on d s) \<Longrightarrow> d \<notin> set w"
proof (induction s arbitrary: w)
  case Nil
  then show ?case by simp
next
  case (Cons c s)
  then show ?case by (cases "split_on d s") (auto split: if_splits)
qed

lemma join_split: "join_with [d] (split_on d s) = s"
proof (induction s)
  case Nil
  then show ?case by simp
next
  case (Cons c s)
  then show ?case
    by (cases "split_on d s"; cases "tl (split_on d s)") (auto simp: neq_Nil_conv)
qed

lemma split_join:
  "ws \<noteq> [] \<Longrightarrow> \<forall>w\<in>set ws. d \<notin> set w \<Longrightarrow> split_on d (join_with [d] ws) = ws"
  by (induction "[d]" ws rule: join_with.induct) (auto simp: split_on_no_sep split_on_append_sep)

fun index_of :: "char \<Rightarrow> string \<Rightarrow> nat option" where
  "index_of d [] = None"
| "index_of d (c # s) = (if c = d then Some 0 else map_option Suc (index_of d s))"

lemma index_of_None: "index_of d s = None \<longleftrightarrow> d \<notin> set s"
  by (induction s) auto

lemma index_of_append: "d \<notin> set w \<Longrightarrow> index_of d (w @ d # s) = Some (length w)"
  by (induction w) auto

lemma index_of_Some:
  "index_of d s = Some i \<Longrightarrow> i < length s \<and> s ! i = d \<and> d \<notin> set (take i s)"
  by (induction s arbitrary: i) (auto split: if_splits)

lemma index_of_split:
  assumes "index_of d s = Some i"
  shows "s = take i s @ d # drop (Suc i) s"
  using index_of_Some[OF assms] by (metis id_take_nth_drop)

definition lower_char :: "char \<Rightarrow> char" where
  "lower_char c = (let n = of_char c :: nat in if 65 \<le> n \<and> n \<le> 90 then char_of (n + 32) else c)"

definition upper_char :: "char \<Rightarrow> char" where
  "upper_char c = (let n = of_char c :: nat in if 97 \<le> n \<and> n \<le> 122 then char_of (n - 32) else c)"

definition to_lower :: "string \<Rightarrow> string" where
  "to_lower s = map lower_char s"

definition capitalise :: "string \<Rightarrow> string" where
  "capitalise s = (case s of [] \<Rightarrow> [] | c # r \<Rightarrow> upper_char c # r)"

definition is_space :: "char \<Rightarrow> bool" where
  "is_space c = (let n = of_char c :: nat in (9 \<le> n \<and> n \<le> 13) \<or> n = 32 \<or> n = 160)"

definition trim :: "string \<Rightarrow> string" where
  "trim s = rev (dropWhile is_space (rev (dropWhile is_space s)))"

lemma trim_Nil [simp]: "trim [] = []"
  by (simp add: trim_def)

lemma lower_char_idem [simp]: "lower_char (lower_char c) = lower_char c"
proof (cases "65 \<le> (of_char c :: nat) \<and> (of_char c :: nat) \<le> 90")
  case True
  then have "(of_char (char_of ((of_char c :: nat) + 32) :: char) :: nat) = of_char c + 32" by simp
  with True show ?thesis by (simp add: lower_char_def Let_def)
next
  case False
  then show ?thesis by (auto simp: lower_char_def Let_def)
qed

lemma to_lower_idem [simp]: "to_lower (to_lower s) = to_lower s"
  by (simp add: to_lower_def)

lemma trim_idem [simp]: "trim (trim s) = trim s"
proof -
  let ?u = "dropWhile is_space s"
  let ?v = "dropWhile is_space (rev ?u)"
  have hd_u: "?u = [] \<or> \<not> is_space (hd ?u)" using hd_dropWhile by blast
  obtain w where w: "?u = rev ?v @ w"
    by (metis rev_append rev_rev_ident takeWhile_dropWhile_id)
  have "dropWhile is_space (rev ?v) = rev ?v"
  proof (cases "rev ?v")
    case (Cons a l)
    with w have "?u = a # l @ w" by simp
    with hd_u have "\<not> is_space a" by simp
    with Cons show ?thesis by simp
  next
    case Nil
    then show ?thesis by (simp only: dropWhile.simps)
  qed
  then show ?thesis by (simp add: trim_def)
qed

text \<open>\<open>String(n)\<close> of a whole number.\<close>

definition digit_char :: "nat \<Rightarrow> char" where
  "digit_char d = char_of (48 + d)"

fun nat_str :: "nat \<Rightarrow> string" where
  "nat_str n = (if n < 10 then [digit_char n] else nat_str (n div 10) @ [digit_char (n mod 10)])"

declare nat_str.simps [simp del]

definition int_str :: "int \<Rightarrow> string" where
  "int_str i = (if i < 0 then CHR ''-'' # nat_str (nat (- i)) else nat_str (nat i))"

lemma nat_str_nonempty [simp]: "nat_str n \<noteq> []"
  by (subst nat_str.simps) simp

lemma of_char_digit: "d < 10 \<Longrightarrow> (of_char (digit_char d) :: nat) = 48 + d"
  by (simp add: digit_char_def)

lemma digit_char_inj: "a < 10 \<Longrightarrow> b < 10 \<Longrightarrow> digit_char a = digit_char b \<longleftrightarrow> a = b"
  by (metis of_char_digit add_left_cancel)

lemma nat_str_inj: "nat_str a = nat_str b \<longleftrightarrow> a = b"
proof (induction a arbitrary: b rule: nat_str.induct)
  case (1 a)
  show ?case
  proof (cases "a < 10 \<or> b < 10")
    case True
    then show ?thesis
      using nat_str_nonempty[of "a div 10"] nat_str_nonempty[of "b div 10"]
      by (auto simp: nat_str.simps[of a] nat_str.simps[of b] digit_char_inj simp del: nat_str_nonempty)
  next
    case False
    then have "nat_str a = nat_str b \<longleftrightarrow>
        nat_str (a div 10) = nat_str (b div 10) \<and> digit_char (a mod 10) = digit_char (b mod 10)"
      by (simp add: nat_str.simps[of a] nat_str.simps[of b])
    also have "\<dots> \<longleftrightarrow> a div 10 = b div 10 \<and> a mod 10 = b mod 10"
      using "1.IH" False by (simp add: digit_char_inj)
    also have "\<dots> \<longleftrightarrow> a = b" by (metis div_mult_mod_eq)
    finally show ?thesis .
  qed
qed

lemma nat_str_digits: "c \<in> set (nat_str n) \<Longrightarrow> 48 \<le> (of_char c :: nat) \<and> (of_char c :: nat) \<le> 57"
proof (induction n arbitrary: c rule: nat_str.induct)
  case (1 n)
  then show ?case
    by (subst (asm) nat_str.simps)
       (auto simp: of_char_digit split: if_splits)
qed

section \<open>Machines and what they keep\<close>

text \<open>A step relation and a predicate every step keeps; one that holds at the start; and a set
  that only grows. The stateful components interpret these on their own steps.\<close>

locale preserving =
  fixes step :: "'s \<Rightarrow> 's \<Rightarrow> bool" and inv :: "'s \<Rightarrow> bool"
  assumes step_keeps: "step s s' \<Longrightarrow> inv s \<Longrightarrow> inv s'"
begin

lemma steps_keep: "step\<^sup>*\<^sup>* s s' \<Longrightarrow> inv s \<Longrightarrow> inv s'"
  by (induction rule: rtranclp_induct) (auto dest: step_keeps)

end

locale machine = preserving +
  fixes start :: "'s \<Rightarrow> bool"
  assumes start_inv: "start s \<Longrightarrow> inv s"
begin

lemma reachable_inv: "start s \<Longrightarrow> step\<^sup>*\<^sup>* s s' \<Longrightarrow> inv s'"
  by (blast intro: start_inv steps_keep)

end

locale growing = preserving +
  fixes seen :: "'s \<Rightarrow> 'a set"
  assumes step_grows: "step s s' \<Longrightarrow> inv s \<Longrightarrow> seen s \<subseteq> seen s'"
begin

lemma steps_grow: "step\<^sup>*\<^sup>* s s' \<Longrightarrow> inv s \<Longrightarrow> seen s \<subseteq> seen s'"
proof (induction rule: rtranclp_induct)
  case (step y z)
  have "inv y" using step(1) step.prems by (rule steps_keep)
  then show ?case using step step_grows by blast
qed simp

end

section \<open>JSON values\<close>

text \<open>
  A parsed JSON value. A whole number is \<open>JInt\<close> (it prints as its decimal digits, as
  JavaScript prints whole numbers below \<open>10^21\<close>); any other number is \<open>JDec\<close> with its
  printed form. An object lists its members in enumeration order.
\<close>

datatype json =
    JNull
  | JBool bool
  | JInt int
  | JDec string
  | JStr string
  | JArr "json list"
  | JObj "(string \<times> json) list"

end
