(* ===== verification/Graph_Search.thy ===== *)
theory Graph_Search
  imports Js_Prelude
begin

text \<open>
  Directed graphs as the code keeps them, a map from a node to the set of nodes it
  waits on, and the two algorithms the step and component graphs run on them: the
  depth-first search with a stack and a seen set, and the removal of edges a longer
  path implies. The search is the loop written in \<open>PipelineGraph/dependencies.ts\<close>
  (\<open>reaches\<close>) and in \<open>WorkflowStudio/edit.ts\<close> (\<open>canDependOn\<close>). The locale
  \<open>wait_graph\<close> is the contract of the graphs the code builds; the step graph, the
  studio graph and the component graph interpret it.
\<close>

section \<open>Graphs and the stack search\<close>

type_synonym 'a graph = "('a, 'a list) js_map"

definition succs :: "'a graph \<Rightarrow> 'a \<Rightarrow> 'a list" where
  "succs g n = or_nil (map_of g n)"

definition edge_rel :: "'a graph \<Rightarrow> ('a \<times> 'a) set" where
  "edge_rel g = {(n, d). d \<in> set (succs g n)}"

definition nodes :: "'a graph \<Rightarrow> 'a set" where
  "nodes g = fst ` set g"

lemma succs_not_node [simp]: "n \<notin> nodes g \<Longrightarrow> succs g n = []"
  by (simp add: succs_def nodes_def map_of_eq_None_iff[THEN iffD2])

lemma finite_nodes [simp]: "finite (nodes g)"
  by (simp add: nodes_def)

lemma edge_rel_iff [simp]: "(n, d) \<in> edge_rel g \<longleftrightarrow> d \<in> set (succs g n)"
  by (simp add: edge_rel_def)

lemma finite_edge_rel [simp]: "finite (edge_rel g)"
proof (rule finite_subset)
  show "edge_rel g \<subseteq> Sigma (nodes g) (\<lambda>n. set (succs g n))"
    by (auto simp: edge_rel_def) (metis empty_iff list.set(1) succs_not_node)
qed (simp add: finite_SigmaI)

text \<open>
  The stack holds its top first: \<open>stack.pop()\<close> takes the head, and
  \<open>stack.push(...ds)\<close> puts \<open>ds\<close> on top in reverse.
\<close>

function stack_search :: "'a graph \<Rightarrow> 'a \<Rightarrow> 'a list \<Rightarrow> 'a list \<Rightarrow> bool" where
  "stack_search g target seen [] = False"
| "stack_search g target seen (n # stack) =
     (if n = target then True
      else if n \<in> set seen then stack_search g target seen stack
      else stack_search g target (n # seen) (rev (succs g n) @ stack))"
  by pat_completeness auto
termination
proof (relation "measures [\<lambda>(g, target, seen, stack). card (nodes g - set seen),
                           \<lambda>(g, target, seen, stack). length stack]", goal_cases)
  case (3 g target seen n stack)
  show ?case
  proof (cases "n \<in> nodes g")
    case True
    with 3 have "card (nodes g - set (n # seen)) < card (nodes g - set seen)"
      by (intro psubset_card_mono) auto
    then show ?thesis by simp
  next
    case False
    then have "nodes g - set (n # seen) = nodes g - set seen" by auto
    with False show ?thesis by simp
  qed
qed auto

definition avoiding :: "('a \<times> 'a) set \<Rightarrow> 'a set \<Rightarrow> ('a \<times> 'a) set" where
  "avoiding R S = {(a, b) \<in> R. a \<notin> S}"

lemma avoiding_empty [simp]: "avoiding R {} = R"
  by (auto simp: avoiding_def)

lemma avoiding_mono: "S \<subseteq> T \<Longrightarrow> (avoiding R T)\<^sup>* \<subseteq> (avoiding R S)\<^sup>*"
  by (intro rtrancl_mono) (auto simp: avoiding_def)

lemma avoiding_last_visit:
  assumes "(m, t) \<in> (avoiding R S)\<^sup>*"
  shows "(m, t) \<in> (avoiding R (insert n S))\<^sup>* \<or>
    (\<exists>k. (n, k) \<in> R \<and> n \<notin> S \<and> (k, t) \<in> (avoiding R (insert n S))\<^sup>*)"
  using assms
proof (induction rule: converse_rtrancl_induct)
  case base
  then show ?case by simp
next
  case (step m m')
  from step.hyps(1) have m: "(m, m') \<in> R" "m \<notin> S" by (auto simp: avoiding_def)
  show ?case
  proof (cases "m = n")
    case True
    with m step.IH show ?thesis by blast
  next
    case False
    with m have "(m, m') \<in> avoiding R (insert n S)" by (simp add: avoiding_def)
    with step.IH show ?thesis by (blast intro: converse_rtrancl_into_rtrancl)
  qed
qed

lemma avoiding_stuck:
  assumes "(n, t) \<in> (avoiding R S)\<^sup>*" and "n \<in> S"
  shows "n = t"
  using assms by (auto simp: avoiding_def elim: converse_rtranclE)

lemma avoiding_expand:
  assumes "n \<notin> S" and "n \<noteq> t"
  shows "(n, t) \<in> (avoiding R S)\<^sup>* \<longleftrightarrow>
    (\<exists>k. (n, k) \<in> R \<and> (k, t) \<in> (avoiding R (insert n S))\<^sup>*)" (is "?L = ?E")
proof
  assume ?L
  from avoiding_last_visit[OF this, of n] consider
    "(n, t) \<in> (avoiding R (insert n S))\<^sup>*" | ?E by blast
  then show ?E
    using avoiding_stuck[of n t R "insert n S"] assms(2) by cases auto
next
  assume ?E
  then obtain k where k: "(n, k) \<in> R" "(k, t) \<in> (avoiding R (insert n S))\<^sup>*" by blast
  then have "(k, t) \<in> (avoiding R S)\<^sup>*" using avoiding_mono[of S "insert n S" R] by blast
  moreover have "(n, k) \<in> avoiding R S" using k(1) assms(1) by (simp add: avoiding_def)
  ultimately show ?L by (blast intro: converse_rtrancl_into_rtrancl)
qed

lemma stack_search_iff:
  "stack_search g t seen stack \<longleftrightarrow>
   (\<exists>n\<in>set stack. (n, t) \<in> (avoiding (edge_rel g) (set seen))\<^sup>*)"
proof (induction g t seen stack rule: stack_search.induct)
  case (1 g t seen)
  then show ?case by simp
next
  case (2 g t seen n stack)
  let ?R = "\<lambda>S. (avoiding (edge_rel g) S)\<^sup>*"
  consider (hit) "n = t" | (old) "n \<noteq> t" "n \<in> set seen" | (new) "n \<noteq> t" "n \<notin> set seen" by blast
  then show ?case
  proof cases
    case hit
    then show ?thesis by auto
  next
    case old
    then have "(n, t) \<notin> ?R (set seen)" by (auto dest: avoiding_stuck)
    with old 2 show ?thesis by simp
  next
    case new
    note sub = avoiding_mono[OF subset_insertI[of "set seen" n], of "edge_rel g"]
    have "(\<exists>m\<in>set stack. (m, t) \<in> ?R (insert n (set seen))) \<or>
          (\<exists>k\<in>set (succs g n). (k, t) \<in> ?R (insert n (set seen))) \<longleftrightarrow>
          (\<exists>m\<in>set (n # stack). (m, t) \<in> ?R (set seen))"
      using avoiding_expand[OF new(2,1), of "edge_rel g"]
        avoiding_last_visit[of _ t "edge_rel g" "set seen" n]
        sub
      by (simp only: set_simps insert_iff bex_simps edge_rel_iff) blast
    with new 2 show ?thesis by auto
  qed
qed

corollary stack_search_reachable:
  "stack_search g t [] [s] \<longleftrightarrow> (s, t) \<in> (edge_rel g)\<^sup>*"
  by (simp add: stack_search_iff)

section \<open>Removing implied edges\<close>

text \<open>An edge is implied when its target is reached from another successor of its source
  without passing through the source again.\<close>

definition implied :: "('a \<times> 'a) set \<Rightarrow> 'a \<Rightarrow> 'a \<Rightarrow> bool" where
  "implied R a b \<longleftrightarrow> (\<exists>d. (a, d) \<in> R \<and> d \<noteq> b \<and> (d, b) \<in> (avoiding R {a})\<^sup>*)"

definition reduction :: "('a \<times> 'a) set \<Rightarrow> ('a \<times> 'a) set" where
  "reduction R = {(a, b) \<in> R. \<not> implied R a b}"

lemma reduction_subset: "reduction R \<subseteq> R"
  by (auto simp: reduction_def)

lemma avoiding_subset_rtrancl: "(avoiding R S)\<^sup>* \<subseteq> R\<^sup>*"
  by (intro rtrancl_mono) (auto simp: avoiding_def)

lemma reduction_trancl:
  assumes "finite R" and "acyclic R"
  shows "(reduction R)\<^sup>+ = R\<^sup>+"
proof
  show "(reduction R)\<^sup>+ \<subseteq> R\<^sup>+"
    using reduction_subset by (metis subrelI trancl_mono)
next
  define between where "between = (\<lambda>a b. {x. (a, x) \<in> R\<^sup>+ \<and> (x, b) \<in> R\<^sup>+})"
  have fin: "finite (between a b)" for a b
  proof (rule finite_subset)
    show "between a b \<subseteq> snd ` (R\<^sup>+)" by (force simp: between_def)
  qed (simp add: assms(1) finite_trancl)
  have smaller: "card (between a d) < card (between a b) \<and> card (between d b) < card (between a b)"
    if "d \<in> between a b" for a b d
  proof -
    have "d \<notin> between a d" "d \<notin> between d b" using assms(2) by (auto simp: between_def acyclic_def)
    moreover have "between a d \<subseteq> between a b" "between d b \<subseteq> between a b"
      using that by (auto simp: between_def intro: trancl_trans)
    ultimately show ?thesis using that fin by (metis psubset_card_mono psubsetI)
  qed
  have "(a, b) \<in> (reduction R)\<^sup>+" if "(a, b) \<in> R\<^sup>+" for a b
    using that
  proof (induction "card (between a b)" arbitrary: a b rule: less_induct)
    case less
    show ?case
    proof (cases "between a b = {}")
      case False
      then obtain d where d: "d \<in> between a b" by blast
      then have "(a, d) \<in> R\<^sup>+" "(d, b) \<in> R\<^sup>+" by (auto simp: between_def)
      with less.hyps smaller[OF d] show ?thesis by (blast intro: trancl_trans)
    next
      case True
      from less.prems obtain c where "(a, c) \<in> R" "(c, b) \<in> R\<^sup>*" by (metis tranclD)
      with True have ab: "(a, b) \<in> R" by (auto simp: between_def rtrancl_eq_or_trancl)
      moreover have "\<not> implied R a b"
      proof
        assume "implied R a b"
        then obtain d where "(a, d) \<in> R" "d \<noteq> b" "(d, b) \<in> R\<^sup>*"
          using avoiding_subset_rtrancl[of R "{a}"] by (auto simp: implied_def)
        then have "d \<in> between a b" by (auto simp: between_def rtrancl_eq_or_trancl)
        with True show False by simp
      qed
      ultimately show ?thesis by (auto simp: reduction_def)
    qed
  qed
  then show "R\<^sup>+ \<subseteq> (reduction R)\<^sup>+" by auto
qed

lemma acyclic_avoids_source:
  assumes "acyclic R" and "(a, d) \<in> R" and "(d, b) \<in> R\<^sup>*"
  shows "(d, b) \<in> (avoiding R {a})\<^sup>*"
  using assms(3)
proof (induction rule: rtrancl_induct)
  case base
  then show ?case by simp
next
  case (step y z)
  have "y \<noteq> a"
  proof
    assume "y = a"
    with step.hyps(1) assms(2) have "(a, a) \<in> R\<^sup>+" by (simp add: rtrancl_into_trancl2)
    with assms(1) show False by (simp add: acyclic_def)
  qed
  with step have "(y, z) \<in> avoiding R {a}" by (simp add: avoiding_def)
  with step.IH show ?case by (rule rtrancl_into_rtrancl)
qed

lemma reduction_minimal:
  assumes "acyclic R" and "(a, b) \<in> reduction R"
  shows "(a, b) \<notin> (reduction R - {(a, b)})\<^sup>+"
proof
  assume "(a, b) \<in> (reduction R - {(a, b)})\<^sup>+"
  then obtain d where d: "(a, d) \<in> reduction R - {(a, b)}" "(d, b) \<in> (reduction R - {(a, b)})\<^sup>*"
    by (metis tranclD)
  have "(d, b) \<in> R\<^sup>*"
    using d(2) rtrancl_mono[of "reduction R - {(a, b)}" R] reduction_subset[of R] by blast
  with d(1) assms(1) have "implied R a b"
    using acyclic_avoids_source[of R a d b] reduction_subset[of R] by (auto simp: implied_def)
  with assms(2) show False by (simp add: reduction_def)
qed

section \<open>The contract of a wait graph\<close>

locale wait_graph =
  fixes g :: "'a graph"
  assumes distinct_nodes: "distinct (map fst g)"
    and closed: "d \<in> set (succs g n) \<Longrightarrow> d \<in> nodes g"
    and no_self: "n \<notin> set (succs g n)"
begin

lemma edge_nodes: "(n, d) \<in> edge_rel g \<Longrightarrow> n \<in> nodes g \<and> d \<in> nodes g"
  by (metis closed edge_rel_iff empty_iff list.set(1) succs_not_node)

lemma reachable_node: "(n, d) \<in> (edge_rel g)\<^sup>* \<Longrightarrow> n \<in> nodes g \<Longrightarrow> d \<in> nodes g"
  by (induction rule: rtrancl_induct) (use edge_nodes in blast)+

lemma add_edge_acyclic:
  assumes "acyclic (edge_rel g)" and "\<not> stack_search g to [] [from]"
  shows "acyclic (insert (to, from) (edge_rel g))"
  using assms unfolding stack_search_reachable by (simp add: acyclic_insert)

lemma wf_waits: "acyclic (edge_rel g) \<Longrightarrow> wf ((edge_rel g)\<inverse>)"
  by (intro finite_acyclic_wf_converse) auto

lemma ready_node:
  assumes "acyclic (edge_rel g)" and "n \<in> nodes g - P"
  shows "\<exists>m \<in> nodes g - P. set (succs g m) \<subseteq> P"
proof -
  from wf_waits[OF assms(1)] obtain m where m: "m \<in> nodes g - P" and least: "\<And>y. (y, m) \<in> (edge_rel g)\<inverse> \<Longrightarrow> y \<notin> nodes g - P"
    using assms(2) wfE_min by metis
  have "set (succs g m) \<subseteq> P" using least closed by fastforce
  with m show ?thesis by blast
qed

end

text \<open>Every graph the code fills name by name, each with waits that are other known
  names, keeps the contract.\<close>

lemma succs_foldl_update:
  assumes "d \<in> set (succs (foldl (\<lambda>m x. AList.update (f x) (w x) m) [] xs) n)"
  obtains x where "x \<in> set xs" "n = f x" "d \<in> set (w x)"
proof -
  let ?g = "foldl (\<lambda>m x. AList.update (f x) (w x) m) [] xs"
  from assms obtain ds where "map_of ?g n = Some ds" "d \<in> set ds"
    by (cases "map_of ?g n") (auto simp: succs_def)
  then have "(n, ds) \<in> set ?g" by (blast dest: map_of_SomeD)
  from foldl_update_mem[OF this] \<open>d \<in> set ds\<close> that show thesis by auto
qed

lemma nodes_foldl_update: "nodes (foldl (\<lambda>m x. AList.update (f x) (w x) m) [] xs) = f ` set xs"
  using foldl_update_keys[of f "\<lambda>m. w" "[]" xs] by (simp add: nodes_def)

lemma succs_foldl_update_eq:
  assumes "distinct (map f xs)" and "x \<in> set xs"
  shows "succs (foldl (\<lambda>m x. AList.update (f x) (w x) m) [] xs) (f x) = w x"
proof -
  have "map_of (map (\<lambda>x. (f x, w x)) xs) (f x) = Some (w x)"
    using assms by (intro map_of_is_SomeI) (auto simp: comp_def)
  then show ?thesis
    using foldl_update_append[of f xs "[]" w] assms(1) by (simp add: succs_def)
qed

lemma wait_graph_foldl_update:
  assumes "\<And>x. x \<in> set xs \<Longrightarrow> set (w x) \<subseteq> f ` set xs - {f x}"
  shows "wait_graph (foldl (\<lambda>m x. AList.update (f x) (w x) m) [] xs)"
proof
  let ?g = "foldl (\<lambda>m x. AList.update (f x) (w x) m) [] xs"
  show "distinct (map fst ?g)" using foldl_update_keys_distinct[of "[]" f "\<lambda>m. w" xs] by simp
  show "d \<in> nodes ?g" if "d \<in> set (succs ?g n)" for d n
    using that assms by (auto elim!: succs_foldl_update simp: nodes_foldl_update)
  show "n \<notin> set (succs ?g n)" for n
    using assms by (auto elim!: succs_foldl_update)
qed

end
