(* ===== verification/Step_Dependencies.thy ===== *)
theory Step_Dependencies
  imports Graph_Search
begin

text \<open>
  The step graph of \<open>components/PipelineGraph/dependencies.ts\<close>: the modes a run's steps
  run in, the edges drawn between steps (\<open>stepEdges\<close>), what a step waits on
  (\<open>waitsOn\<close>), the ordering of steps by their dependencies and the forward waits that
  never end. An input is the output name it reads, an output its name.
\<close>

section \<open>Steps and modes\<close>

record spec_step =
  st_name :: string
  st_dependsOn :: "string list option"
  st_inputs :: "string list option"
  st_outputs :: "string list option"

text \<open>The workflow steps of \<open>@velaux/data\<close>: a base step adds its type and, in
  \<open>st_rest\<close>, the members no operation here reads (alias, description, if, timeout,
  properties, meta); a step adds its own mode, its loop and a group's sub-steps.\<close>

record step_base = spec_step +
  st_type :: string
  st_rest :: "(string, json) js_map"

record for_each =
  fe_items :: "json option"
  fe_from :: "string option"
  fe_key :: "string list option"
  fe_mode :: "string option"

record wf_step = step_base +
  st_mode :: "string option"
  st_forEach :: "for_each option"
  st_subSteps :: "step_base list option"

record step_edge =
  edge_from :: string
  edge_to :: string

definition runMode :: "string option \<Rightarrow> string option \<Rightarrow> string" where
  "runMode recordMode workflowMode =
     (let mode = or_opt (Option.bind recordMode (\<lambda>r. nth_opt (split_on CHR ''-'' r) 0)) workflowMode
      in if mode = Some ''DAG'' then ''DAG'' else ''StepByStep'')"

definition groupMode :: "string option \<Rightarrow> string option \<Rightarrow> string option \<Rightarrow> string" where
  "groupMode own recordMode workflowSubMode =
     (let mode = or_opt own (or_opt (Option.bind recordMode (\<lambda>r. nth_opt (split_on CHR ''-'' r) 1))
                                    workflowSubMode)
      in if mode = Some ''StepByStep'' then ''StepByStep'' else ''DAG'')"

definition groupOpensItself :: "string option list option \<Rightarrow> bool" where
  "groupOpensItself phases =
     list_ex (\<lambda>p. truthy p \<and> the p \<in> set [''suspending'', ''running'', ''executing'', ''failed'',
                                            ''terminated'', ''stopped'']) (or_nil phases)"

section \<open>What a step waits on\<close>

definition producerOf :: "'a spec_step_scheme list \<Rightarrow> (string, string) js_map" where
  "producerOf spec =
     js_map_of (concat (map (\<lambda>s. map (\<lambda>out. (out, st_name s)) (or_nil (st_outputs s))) spec))"

text \<open>The dependencies collected for one step: those already in the set, its
  \<open>dependsOn\<close>, the producers of its inputs, without itself and without unknown names.\<close>

definition step_deps ::
  "string list \<Rightarrow> string list \<Rightarrow> (string, string) js_map \<Rightarrow> string \<Rightarrow> 'a spec_step_scheme option \<Rightarrow> string list"
  where
  "step_deps known deps0 producer name s =
     (let deps1 = set_add_all deps0 (or_nil (Option.bind s st_dependsOn));
          deps2 = foldl (\<lambda>deps inp. let from = map_of producer inp
                                    in if truthy from then set_add deps (the from) else deps)
                        deps1 (or_nil (Option.bind s st_inputs));
          deps3 = filter (\<lambda>d. d \<noteq> name) deps2
      in js_set (filter (\<lambda>d. d \<in> set known) deps3))"

definition waitsOn :: "'a spec_step_scheme list \<Rightarrow> string graph" where
  "waitsOn steps =
     (let known = map st_name steps; producer = producerOf steps
      in foldl (\<lambda>m s. AList.update (st_name s) (step_deps known [] producer (st_name s) (Some s)) m)
           [] steps)"

section \<open>The edges drawn between steps\<close>

definition stepWaits :: "string list \<Rightarrow> 'a spec_step_scheme list option \<Rightarrow> string \<Rightarrow> string graph" where
  "stepWaits names spec mode =
     (let specOf = js_map_of (map (\<lambda>s. (st_name s, s)) (or_nil spec));
          producer = producerOf (or_nil spec)
      in foldl (\<lambda>m (i, name).
            AList.update name
              (step_deps names (if mode \<noteq> ''DAG'' \<and> i > 0 then [names ! (i - 1)] else []) producer name
                 (map_of specOf name)) m)
           [] (enumerate 0 names))"

definition stepPosition :: "string list \<Rightarrow> string \<Rightarrow> nat" where
  "stepPosition names n = coalesce (map_of (js_map_of (zip names [0..<length names])) n) 0"

definition backward :: "string list \<Rightarrow> string \<Rightarrow> string \<Rightarrow> string \<Rightarrow> bool" where
  "backward names mode from to \<longleftrightarrow> mode \<noteq> ''DAG'' \<and> stepPosition names from > stepPosition names to"

definition forwardOf :: "string list \<Rightarrow> string \<Rightarrow> string graph \<Rightarrow> string \<Rightarrow> string list" where
  "forwardOf names mode waits step = filter (\<lambda>d. \<not> backward names mode d step) (succs waits step)"

definition forwardGraph :: "string list \<Rightarrow> string \<Rightarrow> string graph \<Rightarrow> string graph" where
  "forwardGraph names mode waits = map (\<lambda>(step, _). (step, forwardOf names mode waits step)) waits"

definition reaches :: "string list \<Rightarrow> string \<Rightarrow> string graph \<Rightarrow> string \<Rightarrow> string \<Rightarrow> bool" where
  "reaches names mode waits from to =
     stack_search (forwardGraph names mode waits) from [to]
       (rev (filter (\<lambda>d. d \<noteq> from) (forwardOf names mode waits to)))"

definition stepEdges ::
  "string list \<Rightarrow> 'a spec_step_scheme list option \<Rightarrow> string \<Rightarrow> step_edge list" where
  "stepEdges names spec mode =
     (let waits = stepWaits names spec mode
      in concat (map (\<lambda>to. map (\<lambda>from. \<lparr>edge_from = from, edge_to = to\<rparr>)
            (filter (\<lambda>from. backward names mode from to \<or> \<not> reaches names mode waits from to)
               (succs waits to))) names))"

section \<open>Ordering steps by their dependencies\<close>

function order_loop ::
  "string graph \<Rightarrow> 'a spec_step_scheme list \<Rightarrow> string list \<Rightarrow> 'a spec_step_scheme list
   \<Rightarrow> string list \<times> 'a spec_step_scheme list" where
  "order_loop waits steps placed ordered =
     (case find (\<lambda>s. st_name s \<notin> set placed \<and> list_all (\<lambda>d. d \<in> set placed) (succs waits (st_name s))) steps of
        None \<Rightarrow> (placed, ordered)
      | Some s \<Rightarrow> order_loop waits steps (set_add placed (st_name s)) (ordered @ [s]))"
  by pat_completeness auto
termination
proof (relation "measure (\<lambda>(waits, steps, placed, ordered). card (st_name ` set steps - set placed))", goal_cases)
  case (2 waits steps placed ordered s)
  then have "s \<in> set steps" "st_name s \<notin> set placed" by (auto dest: find_Some_mem)
  then have "card (st_name ` set steps - set (set_add placed (st_name s)))
      < card (st_name ` set steps - set placed)"
    by (intro psubset_card_mono) auto
  then show ?case by simp
qed simp

declare order_loop.simps [simp del]

definition orderByDependencies :: "'a spec_step_scheme list \<Rightarrow> 'a spec_step_scheme list" where
  "orderByDependencies steps =
     (let (placed, ordered) = order_loop (waitsOn steps) steps [] []
      in ordered @ filter (\<lambda>s. st_name s \<notin> set placed) steps)"

text \<open>A forward wait is a pair of the waiting step and the later step it waits on.\<close>

definition forwardWaits :: "'a spec_step_scheme list \<Rightarrow> (string \<times> string) list" where
  "forwardWaits steps =
     (let waits = waitsOn steps;
          index = js_map_of (zip (map st_name steps) [0..<length steps])
      in concat (map (\<lambda>(i, s). map (\<lambda>d. (st_name s, d))
             (filter (\<lambda>d. coalesce (map_option int (map_of index d)) (- 1) > int i) (succs waits (st_name s))))
           (enumerate 0 steps)))"

definition forwardWaitsIn :: "'a wf_step_scheme list \<Rightarrow> string \<Rightarrow> string \<Rightarrow> (string \<times> string) list" where
  "forwardWaitsIn steps mode subMode =
     (if mode = ''StepByStep'' then forwardWaits steps else []) @
     concat (map (\<lambda>s. if st_type s = ''step-group'' \<and> groupMode (st_mode s) None (Some subMode) = ''StepByStep''
                      then forwardWaits (or_nil (st_subSteps s)) else []) steps)"

text \<open>\<open>None\<close> is the TypeError of reading the name of a step out of range.\<close>

definition canMove :: "'a spec_step_scheme list \<Rightarrow> int \<Rightarrow> int \<Rightarrow> bool option" where
  "canMove steps index delta =
     (let other = index + delta
      in if other < 0 \<or> other \<ge> int (length steps) then Some False
         else if index < 0 \<or> index \<ge> int (length steps) then None
         else let (first, second) = (if delta < 0 then (steps ! nat other, steps ! nat index)
                                     else (steps ! nat index, steps ! nat other))
              in Some (st_name first \<notin> set (succs (waitsOn steps) (st_name second))))"

section \<open>What the wait sets hold\<close>

lemma set_foldl_producers:
  "set (foldl (\<lambda>deps inp. if truthy (map_of producer inp) then set_add deps (the (map_of producer inp))
        else deps) deps inps) =
   set deps \<union> {d. d \<noteq> [] \<and> (\<exists>inp\<in>set inps. map_of producer inp = Some d)}"
  by (induction inps arbitrary: deps) (auto simp: truthy_iff)

lemma set_step_deps:
  "d \<in> set (step_deps known deps0 producer name s) \<longleftrightarrow>
     d \<in> set known \<and> d \<noteq> name \<and>
     (d \<in> set deps0 \<or> d \<in> set (or_nil (Option.bind s st_dependsOn)) \<or>
      (d \<noteq> [] \<and> (\<exists>inp\<in>set (or_nil (Option.bind s st_inputs)). map_of producer inp = Some d)))"
  by (auto simp: step_deps_def set_foldl_producers Let_def)

interpretation studio_waits: wait_graph "waitsOn steps" for steps :: "'a spec_step_scheme list"
  unfolding waitsOn_def Let_def
  by (rule wait_graph_foldl_update) (auto simp: set_step_deps)

lemma stepWaits_foldl:
  "stepWaits names spec mode =
     foldl (\<lambda>m x. AList.update (snd x)
        (step_deps names (if mode \<noteq> ''DAG'' \<and> fst x > 0 then [names ! (fst x - 1)] else [])
           (producerOf (or_nil spec)) (snd x)
           (map_of (js_map_of (map (\<lambda>s. (st_name s, s)) (or_nil spec))) (snd x))) m)
      [] (enumerate 0 names)"
  by (simp add: stepWaits_def Let_def case_prod_beta')

lemma snd_set_enumerate [simp]: "snd ` set (enumerate n xs) = set xs"
  by (metis map_snd_enumerate set_map)

interpretation run_waits: wait_graph "stepWaits names spec mode"
  for names and spec :: "'a spec_step_scheme list option" and mode
  unfolding stepWaits_foldl
  by (rule wait_graph_foldl_update) (auto simp: set_step_deps)

lemma nodes_waitsOn [simp]: "nodes (waitsOn steps) = st_name ` set steps"
  by (simp add: waitsOn_def nodes_foldl_update Let_def)

lemma nodes_stepWaits [simp]: "nodes (stepWaits names spec mode) = set names"
  by (simp add: stepWaits_foldl nodes_foldl_update)

lemma succs_waitsOn:
  assumes "distinct (map st_name steps)" and "s \<in> set steps"
  shows "succs (waitsOn steps) (st_name s)
       = step_deps (map st_name steps) [] (producerOf steps) (st_name s) (Some s)"
  using assms unfolding waitsOn_def Let_def by (rule succs_foldl_update_eq)

section \<open>The drawn edges keep the waits\<close>

lemma map_of_zip_upt:
  assumes "distinct names" and "i < length names"
  shows "map_of (js_map_of (zip names [0..<length names])) (names ! i) = Some i"
proof -
  have "map_of (zip names [0..<length names]) (names ! i) = Some i"
    using assms by (metis add_0 length_upt map_of_zip_nth minus_nat.diff_0 nth_upt)
  then show ?thesis
    using assms(1) by (simp add: map_of_js_map_of map_of_distinct_rev)
qed

lemma stepPosition_nth: "distinct names \<Longrightarrow> i < length names \<Longrightarrow> stepPosition names (names ! i) = i"
  by (simp add: stepPosition_def map_of_zip_upt)

lemma stepPosition_inj:
  "distinct names \<Longrightarrow> a \<in> set names \<Longrightarrow> b \<in> set names \<Longrightarrow> stepPosition names a = stepPosition names b \<Longrightarrow> a = b"
  by (metis in_set_conv_nth stepPosition_nth)

lemma map_of_map_keyed: "map_of (map (\<lambda>(k, _). (k, f k)) g) n = (if n \<in> fst ` set g then Some (f n) else None)"
  by (induction g) (auto split: if_splits)

lemma succs_forwardGraph [simp]:
  "succs (forwardGraph names mode waits) step = forwardOf names mode waits step"
proof -
  have "succs waits step = []" if "step \<notin> fst ` set waits"
    using that by (simp flip: nodes_def)
  then show ?thesis
    by (auto simp: forwardGraph_def succs_def[of "map _ _"] map_of_map_keyed forwardOf_def)
qed

definition drawn :: "string list \<Rightarrow> 'a spec_step_scheme list option \<Rightarrow> string \<Rightarrow> (string \<times> string) set" where
  "drawn names spec mode = (\<lambda>e. (edge_to e, edge_from e)) ` set (stepEdges names spec mode)"

definition forward_rel :: "string list \<Rightarrow> 'a spec_step_scheme list option \<Rightarrow> string \<Rightarrow> (string \<times> string) set" where
  "forward_rel names spec mode = edge_rel (forwardGraph names mode (stepWaits names spec mode))"

definition backward_rel :: "string list \<Rightarrow> 'a spec_step_scheme list option \<Rightarrow> string \<Rightarrow> (string \<times> string) set" where
  "backward_rel names spec mode = {(to, from) \<in> edge_rel (stepWaits names spec mode). backward names mode from to}"

lemma waits_split:
  "edge_rel (stepWaits names spec mode) = backward_rel names spec mode \<union> forward_rel names spec mode"
  by (auto simp: backward_rel_def forward_rel_def forwardOf_def)

lemma reaches_iff_implied:
  "reaches names mode (stepWaits names spec mode) from to \<longleftrightarrow> implied (forward_rel names spec mode) to from"
  by (auto simp: reaches_def stack_search_iff implied_def forward_rel_def)

lemma drawn_iff:
  "(to, from) \<in> drawn names spec mode \<longleftrightarrow>
     (to, from) \<in> edge_rel (stepWaits names spec mode) \<and>
     (backward names mode from to \<or> \<not> reaches names mode (stepWaits names spec mode) from to)"
  using run_waits.edge_nodes[of to "from" names spec mode]
  by (force simp: drawn_def stepEdges_def Let_def image_iff)

lemma backward_rel_iff:
  "(to, from) \<in> backward_rel names spec mode \<longleftrightarrow>
     (to, from) \<in> edge_rel (stepWaits names spec mode) \<and> backward names mode from to"
  by (simp add: backward_rel_def)

lemma forward_rel_iff:
  "(to, from) \<in> forward_rel names spec mode \<longleftrightarrow>
     (to, from) \<in> edge_rel (stepWaits names spec mode) \<and> \<not> backward names mode from to"
  by (simp add: forward_rel_def forwardOf_def)

lemma drawn_eq:
  "drawn names spec mode = backward_rel names spec mode \<union> reduction (forward_rel names spec mode)"
proof (rule set_eqI)
  fix p :: "string \<times> string"
  obtain "to" "from" where p: "p = (to, from)" by (cases p)
  show "p \<in> drawn names spec mode \<longleftrightarrow>
      p \<in> backward_rel names spec mode \<union> reduction (forward_rel names spec mode)"
    unfolding p drawn_iff Un_iff backward_rel_iff reaches_iff_implied
    by (simp add: reduction_def forward_rel_iff del: edge_rel_iff) blast
qed

lemma trancl_union_half: "E \<subseteq> F\<^sup>+ \<Longrightarrow> (B \<union> E)\<^sup>+ \<subseteq> (B \<union> F)\<^sup>+"
proof -
  assume E: "E \<subseteq> F\<^sup>+"
  have "F\<^sup>+ \<subseteq> (B \<union> F)\<^sup>+" by (rule trancl_mono_subset) simp
  moreover have "B \<subseteq> (B \<union> F)\<^sup>+" by (rule subsetI) (simp add: r_into_trancl')
  ultimately have "B \<union> E \<subseteq> (B \<union> F)\<^sup>+" using E by blast
  then have "(B \<union> E)\<^sup>+ \<subseteq> ((B \<union> F)\<^sup>+)\<^sup>+" by (rule trancl_mono_subset)
  then show ?thesis by (simp only: trancl_id trans_trancl)
qed

lemma trancl_union_cong: "E\<^sup>+ = F\<^sup>+ \<Longrightarrow> (B \<union> E)\<^sup>+ = (B \<union> F)\<^sup>+"
  by (intro equalityI trancl_union_half) (metis r_into_trancl' subsetI)+

lemma drawn_trancl:
  assumes "acyclic (forward_rel names spec mode)"
  shows "(drawn names spec mode)\<^sup>+ = (edge_rel (stepWaits names spec mode))\<^sup>+"
  unfolding drawn_eq waits_split
  by (rule trancl_union_cong, rule reduction_trancl[OF _ assms]) (simp add: forward_rel_def)

lemma forward_rel_acyclic_in_order:
  assumes "distinct names" and "mode \<noteq> ''DAG''"
  shows "acyclic (forward_rel names spec mode)"
proof (rule acyclicI)
  have "stepPosition names d < stepPosition names s" if "(s, d) \<in> forward_rel names spec mode" for s d
  proof -
    from that have w: "d \<in> set (succs (stepWaits names spec mode) s)" "\<not> backward names mode d s"
      by (auto simp: forward_rel_def forwardOf_def)
    have "s \<in> set names" "d \<in> set names" using run_waits.edge_nodes[of s d names spec mode] w(1) by auto
    moreover have "s \<noteq> d" using run_waits.no_self w(1) by metis
    ultimately have "stepPosition names d \<noteq> stepPosition names s"
      using assms(1) stepPosition_inj[of names d s] by metis
    then show ?thesis using w(2) assms(2) by (simp add: backward_def)
  qed
  then have "forward_rel names spec mode \<subseteq> (measure (stepPosition names))\<inverse>" by auto
  then have "(forward_rel names spec mode)\<^sup>+ \<subseteq> ((measure (stepPosition names))\<inverse>)\<^sup>+"
    by (metis subrelI trancl_mono)
  moreover have "(x, x) \<notin> ((measure (stepPosition names))\<inverse>)\<^sup>+" for x
    by (metis acyclic_def acyclic_converse wf_acyclic wf_measure)
  ultimately show "\<forall>x. (x, x) \<notin> (forward_rel names spec mode)\<^sup>+" by blast
qed

lemma forward_rel_parallel [simp]: "forward_rel names spec ''DAG'' = edge_rel (stepWaits names spec ''DAG'')"
  by (auto simp: forward_rel_def forwardOf_def backward_def)

section \<open>Ordering: a permutation in dependency order\<close>

fun waits_before :: "string graph \<Rightarrow> string set \<Rightarrow> 'a spec_step_scheme list \<Rightarrow> bool" where
  "waits_before g A [] = True"
| "waits_before g A (s # ss) \<longleftrightarrow> set (succs g (st_name s)) \<subseteq> A \<and> waits_before g (insert (st_name s) A) ss"

lemma waits_before_append:
  "waits_before g A (xs @ ys) \<longleftrightarrow> waits_before g A xs \<and> waits_before g (A \<union> st_name ` set xs) ys"
  by (induction xs arbitrary: A) auto

lemma waits_before_nth:
  "waits_before g A xs \<longleftrightarrow>
   (\<forall>i<length xs. set (succs g (st_name (xs ! i))) \<subseteq> A \<union> st_name ` set (take i xs))"
proof (induction xs arbitrary: A)
  case Nil
  then show ?case by simp
next
  case (Cons x xs)
  show ?case
    by (simp add: Cons.IH All_less_Suc2 Un_insert_left[symmetric] del: Un_insert_left)
qed

lemma waits_before_mono: "waits_before g A xs \<Longrightarrow> A \<subseteq> B \<Longrightarrow> waits_before g B xs"
  by (induction xs arbitrary: A B) (auto, meson insert_mono)

definition ready :: "string graph \<Rightarrow> string list \<Rightarrow> 'a spec_step_scheme \<Rightarrow> bool" where
  "ready g placed s \<longleftrightarrow> st_name s \<notin> set placed \<and> list_all (\<lambda>d. d \<in> set placed) (succs g (st_name s))"

definition order_inv :: "string graph \<Rightarrow> 'a spec_step_scheme list \<Rightarrow> string list \<Rightarrow> 'a spec_step_scheme list \<Rightarrow> bool" where
  "order_inv g steps placed ordered \<longleftrightarrow>
     map st_name ordered = placed \<and> distinct placed \<and> set ordered \<subseteq> set steps \<and> waits_before g {} ordered"

lemma order_loop_step:
  "order_loop g steps placed ordered =
     (case find (ready g placed) steps of None \<Rightarrow> (placed, ordered)
      | Some s \<Rightarrow> order_loop g steps (set_add placed (st_name s)) (ordered @ [s]))"
  by (subst order_loop.simps) (simp add: ready_def[abs_def])

lemma order_inv_step:
  assumes "order_inv g steps placed ordered" and "find (ready g placed) steps = Some s"
  shows "order_inv g steps (set_add placed (st_name s)) (ordered @ [s])"
proof -
  from assms(2) have s: "s \<in> set steps" "st_name s \<notin> set placed" "set (succs g (st_name s)) \<subseteq> set placed"
    by (auto dest!: find_Some_mem simp: ready_def list_all_iff)
  moreover have "st_name ` set ordered = set placed"
    using assms(1) by (metis order_inv_def set_map)
  ultimately show ?thesis
    using assms(1) by (auto simp: order_inv_def set_add_def waits_before_append)
qed

lemma order_loop_inv:
  assumes "order_loop g steps placed ordered = (placed', ordered')" and "order_inv g steps placed ordered"
  shows "order_inv g steps placed' ordered' \<and> find (ready g placed') steps = None"
  using assms
proof (induction g steps placed ordered rule: order_loop.induct)
  case (1 g steps placed ordered)
  show ?case
  proof (cases "find (ready g placed) steps")
    case None
    with "1.prems" show ?thesis by (simp add: order_loop_step[of g steps placed ordered])
  next
    case (Some s)
    with "1.prems"(1) have "order_loop g steps (set_add placed (st_name s)) (ordered @ [s]) = (placed', ordered')"
      by (simp add: order_loop_step[of g steps placed ordered])
    then show ?thesis
      using "1.IH" Some order_inv_step[OF "1.prems"(2) Some] by (simp add: ready_def[abs_def])
  qed
qed

lemma orderByDependencies_split:
  obtains placed ordered where
    "orderByDependencies steps = ordered @ filter (\<lambda>s. st_name s \<notin> set placed) steps"
    "order_inv (waitsOn steps) steps placed ordered"
    "find (ready (waitsOn steps) placed) steps = None"
proof -
  obtain placed ordered where run: "order_loop (waitsOn steps) steps [] [] = (placed, ordered)"
    by (cases "order_loop (waitsOn steps) steps [] []")
  have "order_inv (waitsOn steps) steps [] []" by (simp add: order_inv_def)
  from order_loop_inv[OF run this] run that show thesis by (simp add: orderByDependencies_def)
qed

lemma placed_steps:
  assumes "order_inv g steps placed ordered" and "distinct (map st_name steps)"
  shows "set ordered = {s \<in> set steps. st_name s \<in> set placed}"
proof -
  from assms(1) have inv: "map st_name ordered = placed" "set ordered \<subseteq> set steps"
    by (simp_all add: order_inv_def)
  have "inj_on st_name (set steps)" using assms(2) by (simp add: distinct_map)
  moreover have "\<exists>u\<in>set ordered. st_name u = st_name s" if "st_name s \<in> set placed" for s :: "'a spec_step_scheme"
    using that inv(1) by force
  ultimately have "s \<in> set ordered" if "s \<in> set steps" "st_name s \<in> set placed" for s
    using that inv(2) by (metis inj_onD subsetD)
  then show ?thesis using inv by auto
qed

lemma orderByDependencies_mset:
  assumes "distinct (map st_name steps)"
  shows "mset (orderByDependencies steps) = mset steps"
proof -
  obtain placed ordered where o:
    "orderByDependencies steps = ordered @ filter (\<lambda>s. st_name s \<notin> set placed) steps"
    "order_inv (waitsOn steps) steps placed ordered"
    by (rule orderByDependencies_split)
  from assms have "distinct steps" by (simp add: distinct_map)
  moreover have "distinct ordered" using o(2) by (metis distinct_map order_inv_def)
  ultimately show ?thesis
    unfolding o(1) using placed_steps[OF o(2) assms]
    by (subst set_eq_iff_mset_eq_distinct[symmetric]) auto
qed

lemma orderByDependencies_all_placed:
  assumes "acyclic (edge_rel (waitsOn steps))"
  shows "waits_before (waitsOn steps) {} (orderByDependencies steps)"
proof -
  obtain placed ordered where o:
    "orderByDependencies steps = ordered @ filter (\<lambda>s. st_name s \<notin> set placed) steps"
    "order_inv (waitsOn steps) steps placed ordered"
    "find (ready (waitsOn steps) placed) steps = None"
    by (rule orderByDependencies_split)
  have "st_name s \<in> set placed" if "s \<in> set steps" for s
  proof (rule ccontr)
    assume "st_name s \<notin> set placed"
    with that have "st_name s \<in> nodes (waitsOn steps) - set placed" by auto
    from studio_waits.ready_node[OF assms this]
    obtain s' where "s' \<in> set steps" "ready (waitsOn steps) placed s'"
      by (auto simp: ready_def list_all_iff)
    with o(3) show False by (auto simp: find_None_all)
  qed
  then have "orderByDependencies steps = ordered" using o(1) by simp
  with o(2) show ?thesis by (simp add: order_inv_def)
qed

lemma order_loop_sorted:
  assumes "waits_before g {} (us @ vs)" and "distinct (map st_name (us @ vs))"
  shows "order_loop g (us @ vs) (map st_name us) us = (map st_name (us @ vs), us @ vs)"
  using assms
proof (induction vs arbitrary: us)
  case Nil
  have "find (ready g (map st_name us)) us = None" by (auto simp: find_None_all ready_def)
  then show ?case by (simp add: order_loop_step[of g us])
next
  case (Cons s vs)
  from Cons.prems have "find (ready g (map st_name us)) (us @ s # vs) = Some s"
    by (intro find_append_first) (auto simp: ready_def waits_before_append list_all_iff)
  moreover have "set_add (map st_name us) (st_name s) = map st_name (us @ [s])"
    using Cons.prems(2) by (auto simp: set_add_def)
  ultimately show ?case
    using Cons.IH[of "us @ [s]"] Cons.prems by (simp add: order_loop_step[of g "us @ s # vs"])
qed

lemma orderByDependencies_sorted_id:
  assumes "waits_before (waitsOn steps) {} steps" and "distinct (map st_name steps)"
  shows "orderByDependencies steps = steps"
  using order_loop_sorted[of "waitsOn steps" "[]" steps] assms by (simp add: orderByDependencies_def)

section \<open>Forward waits\<close>

lemma ball_enumerate: "(\<forall>x\<in>set (enumerate 0 xs). P x) \<longleftrightarrow> (\<forall>i<length xs. P (i, xs ! i))"
  by (force simp: in_set_enumerate_eq)

lemma mem_take_index:
  assumes "distinct names" and "d \<in> set names" and "i \<le> length names"
  shows "d \<in> set (take i names) \<longleftrightarrow> the (map_of (js_map_of (zip names [0..<length names])) d) < i"
proof -
  from assms(2) obtain k where k: "k < length names" "d = names ! k" by (auto simp: in_set_conv_nth)
  then have "d \<in> set (take i names) \<longleftrightarrow> k < i"
    using assms(1,3) by (auto simp: in_set_conv_nth nth_eq_iff_index_eq)
  with k assms(1) show ?thesis by (simp add: map_of_zip_upt)
qed

lemma forwardWaits_Nil:
  assumes "distinct (map st_name steps)"
  shows "forwardWaits steps = [] \<longleftrightarrow> waits_before (waitsOn steps) {} steps"
proof -
  let ?names = "map st_name steps"
  let ?ix = "map_of (js_map_of (zip ?names [0..<length steps]))"
  have one: "\<not> coalesce (map_option int (?ix d)) (- 1) > int i \<longleftrightarrow> d \<in> st_name ` set (take i steps)"
    if i: "i < length steps" and d: "d \<in> set (succs (waitsOn steps) (st_name (steps ! i)))" for i d
  proof -
    have known: "d \<in> set ?names" using studio_waits.closed[OF d] by simp
    then obtain k where k: "?ix d = Some k" and kl: "k < length steps" "d = ?names ! k"
      using assms map_of_zip_upt[of ?names] by (auto simp: in_set_conv_nth)
    have "d \<noteq> st_name (steps ! i)" using studio_waits.no_self d by metis
    then have "k \<noteq> i" using kl i by auto
    with k show ?thesis
      using mem_take_index[of ?names d i] assms known i by (auto simp: take_map)
  qed
  have "forwardWaits steps = [] \<longleftrightarrow>
      (\<forall>i<length steps. \<forall>d\<in>set (succs (waitsOn steps) (st_name (steps ! i))).
         \<not> coalesce (map_option int (?ix d)) (- 1) > int i)"
    by (simp add: forwardWaits_def Let_def filter_empty_conv ball_enumerate case_prod_beta)
  also have "\<dots> \<longleftrightarrow> waits_before (waitsOn steps) {} steps"
    unfolding waits_before_nth subset_iff Un_empty_left using one by (simp only: Ball_def) blast
  finally show ?thesis .
qed

text \<open>With one producer per output, the waits do not depend on the order of the steps.\<close>

definition one_producer :: "'a spec_step_scheme list \<Rightarrow> bool" where
  "one_producer steps \<longleftrightarrow> distinct (concat (map (\<lambda>s. or_nil (st_outputs s)) steps))"

lemma producerOf_perm:
  assumes "mset xs = mset ys" and "one_producer xs"
  shows "map_of (producerOf xs) = map_of (producerOf ys)"
proof -
  let ?kvs = "\<lambda>ss. concat (map (\<lambda>s. map (\<lambda>out. (out, st_name s)) (or_nil (st_outputs s))) ss)"
  have keys: "map fst (?kvs ss) = concat (map (\<lambda>s. or_nil (st_outputs s)) ss)" for ss :: "'a spec_step_scheme list"
    by (induction ss) (auto simp: comp_def)
  have eq: "mset (?kvs xs) = mset (?kvs ys)"
    using assms(1) by (simp add: mset_concat flip: sum_mset_sum_list)
  have d1: "distinct (map fst (?kvs xs))" using assms(2) by (simp only: keys one_producer_def)
  then have "distinct (map fst (?kvs ys))" using arg_cong[OF eq, of "image_mset fst"] mset_eq_imp_distinct_iff[of "map fst (?kvs xs)" "map fst (?kvs ys)"]
    by (simp only: mset_map)
  note d = d1 this
  have "map_of (?kvs xs) = map_of (?kvs ys)"
    using d map_of_inject_set[OF d] mset_eq_setD[OF eq] by blast
  with d show ?thesis by (simp add: producerOf_def map_of_js_map_of map_of_distinct_rev)
qed

lemma step_deps_cong:
  "set known = set known' \<Longrightarrow> map_of p = map_of p' \<Longrightarrow>
   step_deps known deps p n s = step_deps known' deps p' n s"
  by (simp add: step_deps_def)

lemma waitsOn_perm:
  assumes "mset xs = mset ys" and "distinct (map st_name xs)" and "one_producer xs"
  shows "succs (waitsOn xs) n = succs (waitsOn ys) n"
proof (cases "n \<in> st_name ` set xs")
  case True
  then obtain s where s: "s \<in> set xs" "n = st_name s" by auto
  have "distinct (map st_name ys)" using assms(1,2) by (metis mset_eq_imp_distinct_iff mset_map)
  moreover have "set xs = set ys" using assms(1) by (rule mset_eq_setD)
  moreover from this have "step_deps (map st_name xs) [] (producerOf xs) n (Some s)
      = step_deps (map st_name ys) [] (producerOf ys) n (Some s)"
    by (intro step_deps_cong) (simp_all add: producerOf_perm[OF assms(1,3)])
  ultimately show ?thesis
    using s succs_waitsOn[OF assms(2)] succs_waitsOn[of ys] by simp
next
  case False
  then show ?thesis using mset_eq_setD[OF assms(1)] by simp
qed

lemma waits_before_cong: "(\<And>n. succs g n = succs h n) \<Longrightarrow> waits_before g A xs = waits_before h A xs"
  by (induction xs arbitrary: A) simp_all


section \<open>Cycles\<close>

definition caught :: "('a \<times> 'a) set \<Rightarrow> 'a \<Rightarrow> bool" where
  "caught R n \<longleftrightarrow> (\<exists>c. (n, c) \<in> R\<^sup>* \<and> (c, c) \<in> R\<^sup>+)"

lemma acyclic_by_rank: "(\<And>n d. (n, d) \<in> R \<Longrightarrow> (f d :: nat) < f n) \<Longrightarrow> acyclic R"
proof -
  assume "\<And>n d. (n, d) \<in> R \<Longrightarrow> f d < f n"
  then have "R\<inverse> \<subseteq> measure f" by auto
  then have "wf (R\<inverse>)" by (rule wf_subset[OF wf_measure])
  then show "acyclic R" by (metis acyclic_converse wf_acyclic)
qed

lemma no_ready_caught:
  assumes "finite R" and "\<And>m. m \<in> U \<Longrightarrow> \<exists>d\<in>U. (m, d) \<in> R" and "n \<in> U"
  shows "caught R n"
proof (rule ccontr)
  assume free: "\<not> caught R n"
  let ?S = "{(a, b) \<in> R. (n, a) \<in> R\<^sup>*}"
  have "acyclic ?S"
  proof (rule acyclicI, rule allI, rule notI)
    fix c assume c: "(c, c) \<in> ?S\<^sup>+"
    then have "(c, c) \<in> R\<^sup>+" by (rule trancl_mono) auto
    moreover have "(n, c) \<in> R\<^sup>*" using c by (auto dest: tranclD)
    ultimately show False using free by (auto simp: caught_def)
  qed
  moreover have "finite ?S" by (rule finite_subset[OF _ assms(1)]) auto
  ultimately have "wf (?S\<inverse>)" by (rule finite_acyclic_wf_converse[rotated])
  then obtain m where m: "m \<in> {a \<in> U. (n, a) \<in> R\<^sup>*}"
    and least: "\<And>y. (y, m) \<in> ?S\<inverse> \<Longrightarrow> y \<notin> {a \<in> U. (n, a) \<in> R\<^sup>*}"
    using wfE_min[of "?S\<inverse>" n "{a \<in> U. (n, a) \<in> R\<^sup>*}"] assms(3) by auto
  from assms(2)[of m] m obtain d where "d \<in> U" "(m, d) \<in> R" by auto
  with m least[of d] show False by (auto intro: rtrancl_into_rtrancl)
qed

lemma placed_not_caught:
  assumes "waits_before g {} ordered" and "s \<in> set ordered"
  shows "\<not> caught (edge_rel g) (st_name s)"
proof -
  have "\<not> caught (edge_rel g) n" if "waits_before g A ordered" "\<forall>a\<in>A. \<not> caught (edge_rel g) a"
    "n \<in> st_name ` set ordered" for A n
    using that
  proof (induction ordered arbitrary: A)
    case Nil
    then show ?case by simp
  next
    case (Cons x xs)
    have x: "\<not> caught (edge_rel g) (st_name x)"
    proof
      assume "caught (edge_rel g) (st_name x)"
      then obtain c where c: "(st_name x, c) \<in> (edge_rel g)\<^sup>*" "(c, c) \<in> (edge_rel g)\<^sup>+"
        by (auto simp: caught_def)
      then have "(st_name x, c) \<in> (edge_rel g)\<^sup>+" by (metis rtranclD)
      then obtain d where d: "(st_name x, d) \<in> edge_rel g" "(d, c) \<in> (edge_rel g)\<^sup>*"
        by (auto dest: tranclD)
      from d(1) Cons.prems(1) have "d \<in> A" by auto
      with Cons.prems(2) c(2) d(2) show False by (auto simp: caught_def)
    qed
    show ?case
    proof (cases "n = st_name x")
      case False
      with Cons.prems x show ?thesis by (intro Cons.IH[of "insert (st_name x) A"]) auto
    qed (use x in simp)
  qed
  with assms show ?thesis by auto
qed

lemma orderByDependencies_caught:
  obtains front where
    "orderByDependencies steps = front @ filter (\<lambda>s. caught (edge_rel (waitsOn steps)) (st_name s)) steps"
    "waits_before (waitsOn steps) {} front"
proof -
  let ?g = "waitsOn steps"
  obtain placed ordered where o:
    "orderByDependencies steps = ordered @ filter (\<lambda>s. st_name s \<notin> set placed) steps"
    "order_inv ?g steps placed ordered" "find (ready ?g placed) steps = None"
    by (rule orderByDependencies_split)
  let ?U = "st_name ` set steps - set placed"
  have stuck: "\<exists>d\<in>?U. (m, d) \<in> edge_rel ?g" if "m \<in> ?U" for m
  proof -
    from that obtain s where s: "s \<in> set steps" "m = st_name s" "st_name s \<notin> set placed" by auto
    with o(3) obtain d where d: "d \<in> set (succs ?g m)" "d \<notin> set placed"
      by (auto simp: find_None_all ready_def list_all_iff)
    then show ?thesis using studio_waits.closed[OF d(1)] by auto
  qed
  have unplaced: "caught (edge_rel ?g) n" if "n \<in> ?U" for n
    by (rule no_ready_caught[OF finite_edge_rel stuck that])
  have placed: "\<not> caught (edge_rel ?g) n" if "n \<in> set placed" for n
  proof -
    from that o(2) obtain s where "s \<in> set ordered" "n = st_name s" by (auto simp: order_inv_def)
    then show ?thesis using o(2) placed_not_caught[of ?g ordered s] by (simp add: order_inv_def)
  qed
  have "filter (\<lambda>s. st_name s \<notin> set placed) steps = filter (\<lambda>s. caught (edge_rel ?g) (st_name s)) steps"
    using unplaced placed by (intro filter_cong) auto
  with o that show thesis by (metis order_inv_def)
qed

lemma step_before:
  assumes "distinct names" and "mode \<noteq> ''DAG''" and "Suc i < length names"
  shows "(names ! Suc i, names ! i) \<in> edge_rel (stepWaits names spec mode)"
proof -
  let ?w = "\<lambda>x. step_deps names (if mode \<noteq> ''DAG'' \<and> fst x > 0 then [names ! (fst x - 1)] else [])
           (producerOf (or_nil spec)) (snd x)
           (map_of (js_map_of (map (\<lambda>s. (st_name s, s)) (or_nil spec))) (snd x))"
  have "distinct (map snd (enumerate 0 names))" using assms(1) by simp
  moreover have "(Suc i, names ! Suc i) \<in> set (enumerate 0 names)"
    using assms(3) by (simp add: in_set_enumerate_eq)
  ultimately have "succs (stepWaits names spec mode) (names ! Suc i) = ?w (Suc i, names ! Suc i)"
    unfolding stepWaits_foldl using succs_foldl_update_eq[of snd "enumerate 0 names" _ ?w] by fastforce
  moreover have "names ! i \<noteq> names ! Suc i" using assms(1,3) by (simp add: nth_eq_iff_index_eq)
  ultimately show ?thesis using assms(2,3) by (simp add: set_step_deps)
qed

lemma later_waits_on_earlier:
  assumes "distinct names" and "mode \<noteq> ''DAG''" and "i < k" and "k < length names"
  shows "(names ! k, names ! i) \<in> (edge_rel (stepWaits names spec mode))\<^sup>+"
  using assms(3,4)
proof (induction k)
  case 0
  then show ?case by simp
next
  case (Suc k)
  have edge: "(names ! Suc k, names ! k) \<in> edge_rel (stepWaits names spec mode)"
    using step_before[OF assms(1,2)] Suc.prems by simp
  show ?case
  proof (cases "i = k")
    case False
    with Suc have "(names ! k, names ! i) \<in> (edge_rel (stepWaits names spec mode))\<^sup>+" by simp
    with edge show ?thesis by (rule trancl_into_trancl2)
  qed (use edge in blast)
qed

lemma acyclic_no_backward:
  assumes "distinct names" and "acyclic (edge_rel (stepWaits names spec mode))"
  shows "backward_rel names spec mode = {}"
proof -
  have False if e: "(to, from) \<in> edge_rel (stepWaits names spec mode)" "backward names mode from to" for "to" "from"
  proof -
    from run_waits.edge_nodes[OF e(1)] obtain i k where ik:
      "i < length names" "to = names ! i" "k < length names" "from = names ! k"
      by (auto simp: in_set_conv_nth)
    with e(2) have "mode \<noteq> ''DAG''" "i < k" by (auto simp: backward_def stepPosition_nth[OF assms(1)])
    from later_waits_on_earlier[OF assms(1) this] ik
    have "(from, to) \<in> (edge_rel (stepWaits names spec mode))\<^sup>+" by blast
    with e(1) have "(to, to) \<in> (edge_rel (stepWaits names spec mode))\<^sup>+" by (rule trancl_into_trancl2)
    with assms(2) show False by (simp add: acyclic_def)
  qed
  then show ?thesis by (auto simp: backward_rel_def)
qed

section \<open>Properties\<close>

text \<open>C1: when steps run in order, the drawn edges and the waits have the same
  transitive closure, whatever the waits are (a wait on a later step included): leaving out
  an edge that a longer path implies hides no wait.\<close>

theorem stepEdges_in_order_keep_waits:
  assumes "distinct names" and "mode \<noteq> ''DAG''"
  shows "(drawn names spec mode)\<^sup>+ = (edge_rel (stepWaits names spec mode))\<^sup>+"
  by (rule drawn_trancl, rule forward_rel_acyclic_in_order) (rule assms)+

theorem stepEdges_in_order_keep_waits_witness:
  "distinct [''a'', ''b'', ''c''] \<and> ''StepByStep'' \<noteq> ''DAG'' \<and>
   (drawn [''a'', ''b'', ''c'']
      (Some [\<lparr>st_name = ''a'', st_dependsOn = Some [''c''], st_inputs = None, st_outputs = None\<rparr>]) ''StepByStep'')\<^sup>+
   = (edge_rel (stepWaits [''a'', ''b'', ''c'']
      (Some [\<lparr>st_name = ''a'', st_dependsOn = Some [''c''], st_inputs = None, st_outputs = None\<rparr>]) ''StepByStep''))\<^sup>+"
  by (intro conjI stepEdges_in_order_keep_waits) simp_all

text \<open>In \<open>DAG\<close> mode the same holds of every workflow whose waits have no
  cycle.\<close>

theorem stepEdges_parallel_keep_waits:
  assumes "acyclic (edge_rel (stepWaits names spec ''DAG''))"
  shows "(drawn names spec ''DAG'')\<^sup>+ = (edge_rel (stepWaits names spec ''DAG''))\<^sup>+"
  using assms by (intro drawn_trancl) simp

definition diamond_spec :: "spec_step list" where
  "diamond_spec =
     [\<lparr>st_name = ''a'', st_dependsOn = None, st_inputs = None, st_outputs = Some [''o'']\<rparr>,
      \<lparr>st_name = ''b'', st_dependsOn = Some [''a''], st_inputs = None, st_outputs = None\<rparr>,
      \<lparr>st_name = ''c'', st_dependsOn = Some [''b''], st_inputs = Some [''o''], st_outputs = None\<rparr>]"

lemma diamond_waits:
  "stepWaits [''a'', ''b'', ''c''] (Some diamond_spec) ''DAG'' =
     [(''a'', []), (''b'', [''a'']), (''c'', [''b'', ''a''])]"
  by code_simp

lemma diamond_acyclic: "acyclic (edge_rel (stepWaits [''a'', ''b'', ''c''] (Some diamond_spec) ''DAG''))"
  unfolding diamond_waits
  by (rule acyclic_by_rank[where f = "\<lambda>n. if n = ''a'' then 0 else if n = ''b'' then 1 else 2"])
     (auto simp: succs_def split: if_splits)

theorem stepEdges_parallel_keep_waits_witness:
  "acyclic (edge_rel (stepWaits [''a'', ''b'', ''c''] (Some diamond_spec) ''DAG'')) \<and>
   (drawn [''a'', ''b'', ''c''] (Some diamond_spec) ''DAG'')\<^sup>+
     = (edge_rel (stepWaits [''a'', ''b'', ''c''] (Some diamond_spec) ''DAG''))\<^sup>+"
  using diamond_acyclic stepEdges_parallel_keep_waits[OF diamond_acyclic] by simp

text \<open>When the waits have no cycle, no drawn edge is implied by the other drawn edges.\<close>

theorem stepEdges_minimal:
  assumes "distinct names" and "acyclic (edge_rel (stepWaits names spec mode))"
    and "\<lparr>edge_from = a, edge_to = b\<rparr> \<in> set (stepEdges names spec mode)"
  shows "(b, a) \<notin> (drawn names spec mode - {(b, a)})\<^sup>+"
proof -
  have red: "drawn names spec mode = reduction (edge_rel (stepWaits names spec mode))"
    using drawn_eq[of names spec mode] waits_split[of names spec mode] acyclic_no_backward[OF assms(1,2)]
    by simp
  have "(b, a) \<in> drawn names spec mode" using assms(3) by (force simp: drawn_def)
  then show ?thesis unfolding red by (rule reduction_minimal[OF assms(2)])
qed

lemma diamond_edges:
  "stepEdges [''a'', ''b'', ''c''] (Some diamond_spec) ''DAG'' =
     [\<lparr>edge_from = ''a'', edge_to = ''b''\<rparr>, \<lparr>edge_from = ''b'', edge_to = ''c''\<rparr>]"
  by code_simp

theorem stepEdges_minimal_witness:
  "distinct [''a'', ''b'', ''c''] \<and>
   acyclic (edge_rel (stepWaits [''a'', ''b'', ''c''] (Some diamond_spec) ''DAG'')) \<and>
   \<lparr>edge_from = ''b'', edge_to = ''c''\<rparr> \<in> set (stepEdges [''a'', ''b'', ''c''] (Some diamond_spec) ''DAG'') \<and>
   (''c'', ''b'') \<notin> (drawn [''a'', ''b'', ''c''] (Some diamond_spec) ''DAG'' - {(''c'', ''b'')})\<^sup>+"
  using diamond_acyclic
    stepEdges_minimal[OF _ diamond_acyclic, of "''b''" "''c''"] by (simp add: diamond_edges)

text \<open>C2: ordering steps with distinct names loses none and repeats none; the steps
  caught in a cycle, or waiting on one, come last in their list order, and every other step
  comes after all it waits on.\<close>

theorem orderByDependencies_correct:
  assumes "distinct (map st_name steps)"
  shows "mset (orderByDependencies steps) = mset steps \<and>
    (\<exists>front. orderByDependencies steps =
        front @ filter (\<lambda>s. caught (edge_rel (waitsOn steps)) (st_name s)) steps \<and>
      waits_before (waitsOn steps) {} front)"
  using orderByDependencies_mset[OF assms] orderByDependencies_caught[of steps] by metis

theorem orderByDependencies_correct_witness:
  "distinct (map st_name (rev diamond_spec)) \<and>
   mset (orderByDependencies (rev diamond_spec)) = mset (rev diamond_spec) \<and>
   orderByDependencies (rev diamond_spec) = diamond_spec"
proof -
  have d: "distinct (map st_name (rev diamond_spec))" by code_simp
  have "orderByDependencies (rev diamond_spec) = diamond_spec" by code_simp
  then show ?thesis using d orderByDependencies_correct[OF d] by blast
qed

text \<open>Ordering a workflow with distinct names, one producer per output and no cycle
  leaves no forward wait, so no step waits for ever when the result runs in order.\<close>

theorem orderByDependencies_no_forward_waits:
  assumes "distinct (map st_name steps)" and "one_producer steps"
    and "acyclic (edge_rel (waitsOn steps))"
  shows "forwardWaits (orderByDependencies steps) = []"
proof -
  let ?o = "orderByDependencies steps"
  have m: "mset ?o = mset steps" by (rule orderByDependencies_mset[OF assms(1)])
  then have d: "distinct (map st_name ?o)" using assms(1) by (metis mset_eq_imp_distinct_iff mset_map)
  have "waits_before (waitsOn ?o) {} ?o \<longleftrightarrow> waits_before (waitsOn steps) {} ?o"
    using waitsOn_perm[OF m[symmetric] assms(1,2)] by (intro waits_before_cong) simp
  then show ?thesis
    using orderByDependencies_all_placed[OF assms(3)] forwardWaits_Nil[OF d] by simp
qed

lemma rev_diamond_waits:
  "waitsOn (rev diamond_spec) = [(''c'', [''b'', ''a'']), (''b'', [''a'']), (''a'', [])]"
  by code_simp

theorem orderByDependencies_no_forward_waits_witness:
  "distinct (map st_name (rev diamond_spec)) \<and> one_producer (rev diamond_spec) \<and>
   acyclic (edge_rel (waitsOn (rev diamond_spec))) \<and>
   forwardWaits (rev diamond_spec) \<noteq> [] \<and> forwardWaits (orderByDependencies (rev diamond_spec)) = []"
proof -
  have h: "distinct (map st_name (rev diamond_spec))" "one_producer (rev diamond_spec)" by code_simp+
  have a: "acyclic (edge_rel (waitsOn (rev diamond_spec)))"
    unfolding rev_diamond_waits
    by (rule acyclic_by_rank[where f = "\<lambda>n. if n = ''a'' then 0 else if n = ''b'' then 1 else 2"])
       (auto simp: succs_def split: if_splits)
  have "forwardWaits (rev diamond_spec) \<noteq> []" by code_simp
  with h a orderByDependencies_no_forward_waits[OF h a] show ?thesis by simp
qed

text \<open>For distinct names a workflow has no forward wait exactly when every step is
  listed after all it waits on, and ordering such a workflow changes nothing.\<close>

theorem orderByDependencies_stable:
  assumes "distinct (map st_name steps)"
  shows "(forwardWaits steps = [] \<longleftrightarrow>
      (\<forall>i<length steps. set (succs (waitsOn steps) (st_name (steps ! i))) \<subseteq> st_name ` set (take i steps))) \<and>
    (forwardWaits steps = [] \<longrightarrow> orderByDependencies steps = steps)"
  using forwardWaits_Nil[OF assms] orderByDependencies_sorted_id[OF _ assms]
  by (simp add: waits_before_nth)

theorem orderByDependencies_stable_witness:
  "distinct (map st_name diamond_spec) \<and> forwardWaits diamond_spec = [] \<and>
   orderByDependencies diamond_spec = diamond_spec"
proof -
  have d: "distinct (map st_name diamond_spec)" by code_simp
  moreover have f: "forwardWaits diamond_spec = []" by code_simp
  ultimately show ?thesis using orderByDependencies_stable[OF d] by simp
qed

text \<open>Two limits of the code: in \<open>DAG\<close> mode three steps that all wait on each other
  are drawn with no edge at all, and of two steps with one name the ordering keeps one.\<close>

lemma stepEdges_cycle_vanishes:
  "stepEdges [''a'', ''b'', ''c'']
     (Some (map (\<lambda>n. \<lparr>st_name = n, st_dependsOn = Some [''a'', ''b'', ''c''], st_inputs = None, st_outputs = None\<rparr>)
        [''a'', ''b'', ''c''])) ''DAG'' = []"
  by code_simp

lemma orderByDependencies_drops_namesake:
  "length (orderByDependencies
     [\<lparr>st_name = ''a'', st_dependsOn = None, st_inputs = None, st_outputs = None\<rparr>,
      \<lparr>st_name = ''a'', st_dependsOn = None, st_inputs = None, st_outputs = Some [''o'']\<rparr>]) = 1"
  by code_simp

end
