(* ===== verification/Studio_Edit.thy ===== *)
theory Studio_Edit
  imports Step_Dependencies
begin

text \<open>
  The studio's edits to a list of steps (\<open>components/WorkflowStudio/edit.ts\<close>): adding a
  step after another and the preview of it, adding and removing a dependency, and what the
  steps become as the studio's properties change.
\<close>

section \<open>Adding a step\<close>

text \<open>\<open>findIndex\<close>, with \<open>None\<close> for \<open>-1\<close>.\<close>

fun find_index :: "('a \<Rightarrow> bool) \<Rightarrow> 'a list \<Rightarrow> nat option" where
  "find_index P [] = None"
| "find_index P (x # xs) = (if P x then Some 0 else map_option Suc (find_index P xs))"

definition names_dep :: "string \<Rightarrow> 'a spec_step_scheme \<Rightarrow> bool" where
  "names_dep d s \<longleftrightarrow> d \<in> set (or_nil (st_dependsOn s))"

definition insertAfter ::
  "'a spec_step_scheme list \<Rightarrow> string option \<Rightarrow> 'a spec_step_scheme \<Rightarrow> string \<Rightarrow> bool \<Rightarrow> 'a spec_step_scheme list" where
  "insertAfter steps anchor step mode branch =
     (case (if truthy anchor then find_index (\<lambda>s. st_name s = the anchor) steps else None) of
        None \<Rightarrow> steps @ [step]
      | Some at \<Rightarrow>
          let added = (if mode = ''DAG'' \<and> st_dependsOn step = None
                       then step\<lparr>st_dependsOn := Some [the anchor]\<rparr> else step);
              rest = map (\<lambda>s. if \<not> branch \<and> names_dep (the anchor) s
                 then s\<lparr>st_dependsOn := map_option (map (\<lambda>d. if d = the anchor then st_name step else d)) (st_dependsOn s)\<rparr>
                 else s) steps
          in take (at + 1) rest @ [added] @ drop (at + 1) rest)"

record preview =
  pv_moved :: "string list"
  pv_stay :: "string list"

definition addPreview :: "'a spec_step_scheme list \<Rightarrow> string \<Rightarrow> string \<Rightarrow> string \<Rightarrow> preview" where
  "addPreview steps anchor key mode =
     (let at = find_index (\<lambda>s. st_name s = anchor) steps;
          produced = (case at of None \<Rightarrow> [] | Some i \<Rightarrow> or_nil (st_outputs (steps ! i)));
          named = map st_name (filter (names_dep anchor) steps);
          next = (case at of
                    Some i \<Rightarrow> if mode \<noteq> ''DAG'' \<and> i + 1 < length steps then [st_name (steps ! (i + 1))] else []
                  | None \<Rightarrow> []);
          reads = map st_name (filter (\<lambda>s. st_name s \<noteq> anchor \<and>
                     list_ex (\<lambda>i. i \<in> set produced) (or_nil (st_inputs s))) steps);
          inOrder = (\<lambda>names. filter (\<lambda>n. n \<in> set names) (map st_name steps))
      in if key = ''branch'' then \<lparr>pv_moved = [], pv_stay = inOrder (named @ reads @ next)\<rparr>
         else let moved = inOrder (named @ next)
              in \<lparr>pv_moved = moved, pv_stay = inOrder (filter (\<lambda>n. n \<notin> set moved) reads)\<rparr>)"

section \<open>Dependencies drawn by hand\<close>

definition canDependOn :: "'a spec_step_scheme list \<Rightarrow> string \<Rightarrow> string \<Rightarrow> bool" where
  "canDependOn steps from to =
     (let names = map st_name steps
      in if from = to \<or> from \<notin> set names \<or> to \<notin> set names then False
         else let waits = waitsOn steps
              in if from \<in> set (succs waits to) then False
                 else \<not> stack_search waits to [] [from])"

definition addDependency :: "'a spec_step_scheme list \<Rightarrow> string \<Rightarrow> string \<Rightarrow> 'a spec_step_scheme list" where
  "addDependency steps from to =
     map (\<lambda>s. if st_name s = to then s\<lparr>st_dependsOn := Some (or_nil (st_dependsOn s) @ [from])\<rparr> else s) steps"

definition removeDependency ::
  "'a spec_step_scheme list \<Rightarrow> string \<Rightarrow> string \<Rightarrow> 'a spec_step_scheme list option" where
  "removeDependency steps from to =
     (case find (\<lambda>s. st_name s = to) steps of
        None \<Rightarrow> None
      | Some step \<Rightarrow>
          if \<not> names_dep from step then None
          else Some (map (\<lambda>s. if st_name s = to
                 then s\<lparr>st_dependsOn := Some (filter (\<lambda>d. d \<noteq> from) (or_nil (st_dependsOn s)))\<rparr> else s) steps))"

section \<open>New properties of the studio\<close>

record studio_view =
  vw_steps :: "wf_step list option"
  vw_mode :: "string option"
  vw_subMode :: "string option"
  vw_readOnly :: bool

definition toOrder :: "string option \<Rightarrow> string option \<Rightarrow> bool" where
  "toOrder from to \<longleftrightarrow> from \<noteq> Some ''StepByStep'' \<and> to = Some ''StepByStep''"

definition orderGroup :: "wf_step \<Rightarrow> wf_step" where
  "orderGroup s = (if st_type s = ''step-group'' \<and> \<not> truthy (st_mode s)
     then s\<lparr>st_subSteps := Some (orderByDependencies (or_nil (st_subSteps s)))\<rparr> else s)"

text \<open>\<open>stepsChanged\<close> is the comparison of the two step arrays by reference.\<close>

definition studioUpdate ::
  "bool \<Rightarrow> studio_view \<Rightarrow> studio_view \<Rightarrow> wf_step list \<Rightarrow> (wf_step list \<times> bool) option" where
  "studioUpdate stepsChanged prev next current =
     (let ordersTop = (\<not> vw_readOnly next \<and> toOrder (vw_mode prev) (vw_mode next));
          ordersGroups = (\<not> vw_readOnly next \<and> toOrder (vw_subMode prev) (vw_subMode next))
      in if \<not> stepsChanged \<and> \<not> ordersTop \<and> \<not> ordersGroups then None
         else let base = (if stepsChanged then or_nil (vw_steps next) else current);
                  steps = (if ordersTop then orderByDependencies base else base);
                  steps' = (if ordersGroups then map orderGroup steps else steps)
              in Some (steps', steps' \<noteq> base))"

section \<open>Waits of an edited list\<close>

text \<open>When names are distinct the waits can be read off the steps themselves.\<close>

definition step_waits :: "string set \<Rightarrow> (string \<rightharpoonup> string) \<Rightarrow> 'a spec_step_scheme \<Rightarrow> string set" where
  "step_waits known producer s = {d \<in> known. d \<noteq> st_name s \<and>
     (names_dep d s \<or> (d \<noteq> [] \<and> (\<exists>inp\<in>set (or_nil (st_inputs s)). producer inp = Some d)))}"

lemma edge_waitsOn:
  assumes "distinct (map st_name steps)"
  shows "edge_rel (waitsOn steps) =
    {(st_name s, d) | s d. s \<in> set steps \<and> d \<in> step_waits (st_name ` set steps) (map_of (producerOf steps)) s}"
proof -
  have "d \<in> set (succs (waitsOn steps) (st_name s)) \<longleftrightarrow>
      d \<in> step_waits (st_name ` set steps) (map_of (producerOf steps)) s" if "s \<in> set steps" for s d
    using succs_waitsOn[OF assms that] by (auto simp: set_step_deps step_waits_def names_dep_def)
  moreover have "\<exists>s\<in>set steps. n = st_name s" if "(n, d) \<in> edge_rel (waitsOn steps)" for n d
    using studio_waits.edge_nodes[OF that] by auto
  ultimately show ?thesis by (simp only: set_eq_iff split_paired_All mem_Collect_eq prod.inject edge_rel_iff) metis
qed

lemma producerOf_map:
  assumes "\<And>s. s \<in> set steps \<Longrightarrow> st_name (f s) = st_name s \<and> st_outputs (f s) = st_outputs s"
  shows "producerOf (map f steps) = producerOf steps"
proof -
  have "map (\<lambda>s. map (\<lambda>out. (out, st_name s)) (or_nil (st_outputs s))) (map f steps)
      = map (\<lambda>s. map (\<lambda>out. (out, st_name s)) (or_nil (st_outputs s))) steps"
    using assms by simp
  then show ?thesis by (simp only: producerOf_def)
qed

lemma edge_waitsOn_map:
  assumes "distinct (map st_name steps)"
    and f: "\<And>s. st_name (f s) = st_name s" "\<And>s. st_outputs (f s) = st_outputs s"
  shows "edge_rel (waitsOn (map f steps)) =
    {(st_name s, d) | s d. s \<in> set steps \<and> d \<in> step_waits (st_name ` set steps) (map_of (producerOf steps)) (f s)}"
proof -
  have names: "map st_name (map f steps) = map st_name steps" by (simp add: f comp_def)
  then have keys: "st_name ` set (map f steps) = st_name ` set steps" by (metis set_map)
  have "edge_rel (waitsOn (map f steps)) = {(st_name s, d) | s d. s \<in> set (map f steps) \<and>
      d \<in> step_waits (st_name ` set steps) (map_of (producerOf steps)) s}"
    using edge_waitsOn[of "map f steps"] assms(1) names by (simp only: keys producerOf_map f)
  also have "\<dots> = {(st_name (f s), d) | s d. s \<in> set steps \<and>
      d \<in> step_waits (st_name ` set steps) (map_of (producerOf steps)) (f s)}"
    unfolding set_map by blast
  finally show ?thesis by (simp only: f)
qed

lemma addDependency_names [simp]: "map st_name (addDependency steps from to) = map st_name steps"
  by (simp add: addDependency_def comp_def)

lemma addDependency_names_set [simp]: "st_name ` set (addDependency steps from to) = st_name ` set steps"
  by (metis addDependency_names set_map)

lemma producerOf_addDependency [simp]: "producerOf (addDependency steps from to) = producerOf steps"
  unfolding addDependency_def by (rule producerOf_map) simp

lemma addDependency_edges:
  assumes "distinct (map st_name steps)" and "from \<noteq> to" and "from \<in> st_name ` set steps" and "to \<in> st_name ` set steps"
  shows "edge_rel (waitsOn (addDependency steps from to)) = insert (to, from) (edge_rel (waitsOn steps))"
proof -
  let ?f = "\<lambda>s. if st_name s = to then s\<lparr>st_dependsOn := Some (or_nil (st_dependsOn s) @ [from])\<rparr> else s"
  let ?W = "step_waits (st_name ` set steps) (map_of (producerOf steps))"
  have f: "?W (?f s) = (if st_name s = to then insert from (?W s) else ?W s)" for s
    using assms(2,3) by (auto simp: step_waits_def names_dep_def)
  have "edge_rel (waitsOn (addDependency steps from to)) =
      {(st_name s, d) | s d. s \<in> set steps \<and> d \<in> ?W (?f s)}"
    unfolding addDependency_def by (rule edge_waitsOn_map[OF assms(1)]) simp_all
  also have "\<dots> = {(st_name s, d) | s d. s \<in> set steps \<and> (d \<in> ?W s \<or> st_name s = to \<and> d = from)}"
    unfolding f by (auto split: if_splits)
  also have "\<dots> = insert (to, from) {(st_name s, d) | s d. s \<in> set steps \<and> d \<in> ?W s}"
    using assms(4) by auto
  finally show ?thesis using edge_waitsOn[OF assms(1)] by simp
qed

lemma canDependOn_iff:
  "canDependOn steps from to \<longleftrightarrow> from \<noteq> to \<and> from \<in> st_name ` set steps \<and> to \<in> st_name ` set steps \<and>
     (to, from) \<notin> edge_rel (waitsOn steps) \<and> (from, to) \<notin> (edge_rel (waitsOn steps))\<^sup>*"
  unfolding canDependOn_def Let_def stack_search_reachable by auto

lemma names_dep_in_waits:
  assumes "distinct (map st_name steps)" and "s \<in> set steps" and "names_dep d s"
    and "d \<in> st_name ` set steps" and "d \<noteq> st_name s"
  shows "(st_name s, d) \<in> edge_rel (waitsOn steps)"
  unfolding edge_waitsOn[OF assms(1)] using assms(2-) by (auto simp: step_waits_def)

text \<open>What \<open>addDependency\<close> then \<open>removeDependency\<close> leave: a step with no
  \<open>dependsOn\<close> now has an empty one.\<close>

definition withDependsOn :: "string \<Rightarrow> 'a spec_step_scheme \<Rightarrow> 'a spec_step_scheme" where
  "withDependsOn to s = (if st_name s = to then s\<lparr>st_dependsOn := Some (or_nil (st_dependsOn s))\<rparr> else s)"

lemma find_name_map:
  assumes "\<And>s. st_name (f s) = st_name s"
  shows "find (\<lambda>s. st_name s = n) (map f steps) = map_option f (find (\<lambda>s. st_name s = n) steps)"
  using assms by (induction steps) auto

lemma remove_add_dependency:
  assumes "to \<in> st_name ` set steps" and "\<And>s. s \<in> set steps \<Longrightarrow> st_name s = to \<Longrightarrow> \<not> names_dep from s"
  shows "removeDependency (addDependency steps from to) from to = Some (map (withDependsOn to) steps)"
proof -
  let ?f = "\<lambda>s. if st_name s = to then s\<lparr>st_dependsOn := Some (or_nil (st_dependsOn s) @ [from])\<rparr> else s"
  obtain s where s: "find (\<lambda>s. st_name s = to) steps = Some s"
    using assms(1) find_None_all[of "\<lambda>s. st_name s = to" steps] by force
  have "find (\<lambda>s. st_name s = to) (addDependency steps from to) = Some (?f s)"
    unfolding addDependency_def using s by (subst find_name_map) auto
  moreover have "names_dep from (?f s)" using find_Some_mem[OF s] by (simp add: names_dep_def)
  moreover have "filter (\<lambda>d. d \<noteq> from) (or_nil (st_dependsOn u)) = or_nil (st_dependsOn u)"
    if "u \<in> set steps" "st_name u = to" for u
    using assms(2)[OF that] by (auto simp: filter_id_conv names_dep_def)
  ultimately show ?thesis
    by (simp add: removeDependency_def addDependency_def withDependsOn_def)
qed

section \<open>The waits after a step is added\<close>

lemma find_index_Some:
  "find_index P xs = Some i \<Longrightarrow> i < length xs \<and> P (xs ! i)"
  by (induction xs arbitrary: i) (auto split: if_splits)

lemma find_index_None: "find_index P xs = None \<longleftrightarrow> (\<forall>x\<in>set xs. \<not> P x)"
  by (induction xs) auto

definition redirect :: "string \<Rightarrow> string \<Rightarrow> bool \<Rightarrow> 'a spec_step_scheme \<Rightarrow> 'a spec_step_scheme" where
  "redirect anchor new branch s = (if \<not> branch \<and> names_dep anchor s
     then s\<lparr>st_dependsOn := map_option (map (\<lambda>d. if d = anchor then new else d)) (st_dependsOn s)\<rparr> else s)"

lemma redirect_keeps [simp]:
  "st_name (redirect a n b s) = st_name s" "st_outputs (redirect a n b s) = st_outputs s"
  "st_inputs (redirect a n b s) = st_inputs s"
  by (simp_all add: redirect_def)

lemma names_dep_redirect:
  "names_dep d (redirect anchor new branch s) \<longleftrightarrow>
     (if \<not> branch \<and> names_dep anchor s then d = new \<or> (d \<noteq> anchor \<and> names_dep d s) else names_dep d s)"
  by (cases "st_dependsOn s") (auto simp: redirect_def names_dep_def)

lemma insertAfter_split:
  assumes "anchor \<noteq> []" and "anchor \<in> st_name ` set steps"
  obtains us vs where "steps = us @ vs" "us \<noteq> []" "st_name (last us) = anchor"
    "find_index (\<lambda>s. st_name s = anchor) steps = Some (length us - 1)"
    "insertAfter steps (Some anchor) step mode branch =
       map (redirect anchor (st_name step) branch) us @
       (if mode = ''DAG'' \<and> st_dependsOn step = None then step\<lparr>st_dependsOn := Some [anchor]\<rparr> else step)
       # map (redirect anchor (st_name step) branch) vs"
proof -
  from assms(2) obtain i where i: "find_index (\<lambda>s. st_name s = anchor) steps = Some i"
    using find_index_None[of "\<lambda>s. st_name s = anchor" steps] by (cases "find_index (\<lambda>s. st_name s = anchor) steps") auto
  from find_index_Some[OF i] have il: "i < length steps" "st_name (steps ! i) = anchor" by auto
  show thesis
  proof (rule that[of "take (i + 1) steps" "drop (i + 1) steps"])
    show "st_name (last (take (i + 1) steps)) = anchor" using il by (simp add: take_Suc_conv_app_nth)
    show "insertAfter steps (Some anchor) step mode branch =
       map (redirect anchor (st_name step) branch) (take (i + 1) steps) @
       (if mode = ''DAG'' \<and> st_dependsOn step = None then step\<lparr>st_dependsOn := Some [anchor]\<rparr> else step)
       # map (redirect anchor (st_name step) branch) (drop (i + 1) steps)"
      using i assms(1)
      by (simp add: insertAfter_def truthy_iff Let_def redirect_def[abs_def] take_map drop_map)
  qed (use il i in auto)
qed

lemma producer_known: "map_of (producerOf steps) inp = Some d \<Longrightarrow> d \<in> st_name ` set steps"
  unfolding producerOf_def map_of_js_map_of by (drule map_of_SomeD) auto

text \<open>A step without inputs or outputs, of a new name no step mentions.\<close>

definition fresh_step :: "'a spec_step_scheme list \<Rightarrow> 'a spec_step_scheme \<Rightarrow> bool" where
  "fresh_step steps step \<longleftrightarrow> st_name step \<notin> st_name ` set steps \<and> st_dependsOn step = None \<and>
     or_nil (st_inputs step) = [] \<and> or_nil (st_outputs step) = [] \<and>
     (\<forall>s\<in>set steps. \<not> names_dep (st_name step) s)"

lemma fresh_name: "fresh_step steps step \<Longrightarrow> s \<in> set steps \<Longrightarrow> st_name s \<noteq> st_name step"
  unfolding fresh_step_def by (metis image_eqI)

text \<open>A step of a new name that no step mentions and of outputs no step has.\<close>

definition fresh_added :: "'a spec_step_scheme list \<Rightarrow> 'a spec_step_scheme \<Rightarrow> bool" where
  "fresh_added steps step \<longleftrightarrow> st_name step \<noteq> [] \<and> st_name step \<notin> st_name ` set steps \<and>
     (\<forall>s\<in>set steps. \<not> names_dep (st_name step) s \<and> set (or_nil (st_outputs s)) \<inter> set (or_nil (st_outputs step)) = {})"

definition reads_from :: "'a spec_step_scheme list \<Rightarrow> string \<Rightarrow> 'a spec_step_scheme \<Rightarrow> bool" where
  "reads_from steps d s \<longleftrightarrow> d \<noteq> [] \<and> (\<exists>inp\<in>set (or_nil (st_inputs s)). map_of (producerOf steps) inp = Some d)"

text \<open>What the step added waits on, the steps that wait on it, and the waits on the anchor they had instead.\<close>

definition new_waits :: "'a spec_step_scheme list \<Rightarrow> string \<Rightarrow> 'a spec_step_scheme \<Rightarrow> string \<Rightarrow> string set" where
  "new_waits steps anchor step mode = {d \<in> st_name ` set steps.
     (if mode = ''DAG'' \<and> st_dependsOn step = None then d = anchor else names_dep d step) \<or> reads_from steps d step}"

definition new_waiters :: "'a spec_step_scheme list \<Rightarrow> string \<Rightarrow> 'a spec_step_scheme \<Rightarrow> bool \<Rightarrow> string set" where
  "new_waiters steps anchor step branch = st_name ` {s \<in> set steps.
     \<not> branch \<and> names_dep anchor s \<or> set (or_nil (st_inputs s)) \<inter> set (or_nil (st_outputs step)) \<noteq> {}}"

definition lost_waits :: "'a spec_step_scheme list \<Rightarrow> string \<Rightarrow> bool \<Rightarrow> (string \<times> string) set" where
  "lost_waits steps anchor branch =
     {(st_name s, anchor) | s. s \<in> set steps \<and> \<not> branch \<and> names_dep anchor s \<and> \<not> reads_from steps anchor s}"

lemma step_waits_reads:
  "step_waits (st_name ` set steps) (map_of (producerOf steps)) s =
     {d \<in> st_name ` set steps. d \<noteq> st_name s \<and> (names_dep d s \<or> reads_from steps d s)}"
  by (auto simp: step_waits_def reads_from_def)

lemma producerOf_parts:
  "map_of (producerOf (us @ vs)) inp = (case map_of (producerOf vs) inp of None \<Rightarrow> map_of (producerOf us) inp | Some d \<Rightarrow> Some d)"
  unfolding producerOf_def map_of_js_map_of by (simp add: map_add_def split: option.split)

lemma producerOf_one: "map_of (producerOf [x]) inp = (if inp \<in> set (or_nil (st_outputs x)) then Some (st_name x) else None)"
proof -
  have "map_of (rev (map (\<lambda>out. (out, n)) xs)) inp = (if inp \<in> set xs then Some n else None)" for xs and n :: string
    by (induction xs rule: rev_induct) auto
  then show ?thesis unfolding producerOf_def map_of_js_map_of by simp
qed

lemma producer_output: "map_of (producerOf steps) inp = Some d \<Longrightarrow> \<exists>s\<in>set steps. inp \<in> set (or_nil (st_outputs s))"
  unfolding producerOf_def map_of_js_map_of by (drule map_of_SomeD) auto

lemma producerOf_insert:
  assumes "\<forall>s\<in>set (us @ vs). set (or_nil (st_outputs s)) \<inter> set (or_nil (st_outputs x)) = {}"
  shows "map_of (producerOf (us @ x # vs)) inp =
    (if inp \<in> set (or_nil (st_outputs x)) then Some (st_name x) else map_of (producerOf (us @ vs)) inp)"
proof (cases "inp \<in> set (or_nil (st_outputs x))")
  case True
  then have "map_of (producerOf vs) inp = None" using producer_output[of vs inp] assms by (cases "map_of (producerOf vs) inp") auto
  then show ?thesis using True producerOf_parts[of us "[x] @ vs"] producerOf_parts[of "[x]" vs] producerOf_one[of x] by simp
next
  case False
  then show ?thesis using producerOf_parts[of us "[x] @ vs"] producerOf_parts[of "[x]" vs] producerOf_one[of x] producerOf_parts[of us vs]
    by (simp split: option.splits)
qed

text \<open>The waits of a step that was there.\<close>

lemma redirect_waits:
  assumes "fresh_added steps step" and "s \<in> set steps" and "anchor \<in> st_name ` set steps"
    and P: "\<And>inp. P inp = (if inp \<in> set (or_nil (st_outputs step)) then Some (st_name step) else map_of (producerOf steps) inp)"
  shows "d \<in> step_waits (insert (st_name step) (st_name ` set steps)) P (redirect anchor (st_name step) branch s) \<longleftrightarrow>
    d = st_name step \<and> (\<not> branch \<and> names_dep anchor s \<or> set (or_nil (st_inputs s)) \<inter> set (or_nil (st_outputs step)) \<noteq> {}) \<or>
    d \<in> step_waits (st_name ` set steps) (map_of (producerOf steps)) s \<and>
      \<not> (d = anchor \<and> \<not> branch \<and> names_dep anchor s \<and> \<not> reads_from steps anchor s)"
proof -
  have new: "st_name step \<noteq> []" "st_name step \<notin> st_name ` set steps" "\<not> names_dep (st_name step) s"
    using assms(1,2) by (auto simp: fresh_added_def)
  have apart: "map_of (producerOf steps) inp = Some e \<Longrightarrow> inp \<notin> set (or_nil (st_outputs step))" for inp e
    using producer_output[of steps inp e] assms(1) by (auto simp: fresh_added_def)
  show ?thesis
  proof (cases "d = st_name step")
    case True
    have "names_dep d (redirect anchor (st_name step) branch s) \<longleftrightarrow> \<not> branch \<and> names_dep anchor s"
      unfolding True names_dep_redirect using new(3) by auto
    moreover have "(\<exists>inp\<in>set (or_nil (st_inputs s)). P inp = Some d) \<longleftrightarrow> set (or_nil (st_inputs s)) \<inter> set (or_nil (st_outputs step)) \<noteq> {}"
      unfolding True P using new(2) producer_known[of steps] by auto
    moreover have "d \<noteq> st_name s" using True new(2) assms(2) by auto
    ultimately show ?thesis using True new by (simp add: step_waits_def)
  next
    case False
    have "(\<exists>inp\<in>set (or_nil (st_inputs s)). P inp = Some d) \<longleftrightarrow> (\<exists>inp\<in>set (or_nil (st_inputs s)). map_of (producerOf steps) inp = Some d)"
      unfolding P using False apart by auto
    moreover have "names_dep d (redirect anchor (st_name step) branch s) \<longleftrightarrow> names_dep d s \<and> \<not> (\<not> branch \<and> names_dep anchor s \<and> d = anchor)"
      unfolding names_dep_redirect using False by auto
    ultimately show ?thesis using False by (auto simp: step_waits_def reads_from_def)
  qed
qed

lemma added_waits:
  assumes "fresh_added steps step" and "anchor \<in> st_name ` set steps"
    and P: "\<And>inp. P inp = (if inp \<in> set (or_nil (st_outputs step)) then Some (st_name step) else map_of (producerOf steps) inp)"
  shows "step_waits (insert (st_name step) (st_name ` set steps)) P
      (if mode = ''DAG'' \<and> st_dependsOn step = None then step\<lparr>st_dependsOn := Some [anchor]\<rparr> else step) = new_waits steps anchor step mode"
proof -
  have new: "st_name step \<notin> st_name ` set steps" using assms(1) by (auto simp: fresh_added_def)
  have apart: "map_of (producerOf steps) inp = Some e \<Longrightarrow> inp \<notin> set (or_nil (st_outputs step))" for inp e
    using producer_output[of steps inp e] assms(1) by (auto simp: fresh_added_def)
  have "(\<exists>inp\<in>set (or_nil (st_inputs step)). P inp = Some d) \<longleftrightarrow> (\<exists>inp\<in>set (or_nil (st_inputs step)). map_of (producerOf steps) inp = Some d)"
    if "d \<in> st_name ` set steps" for d unfolding P using apart that new by auto
  then have in_reads: "(d \<noteq> [] \<and> (\<exists>inp\<in>set (or_nil (st_inputs step)). P inp = Some d)) \<longleftrightarrow> reads_from steps d step"
    if "d \<in> st_name ` set steps" for d unfolding reads_from_def using that by blast
  let ?a = "if mode = ''DAG'' \<and> st_dependsOn step = None then step\<lparr>st_dependsOn := Some [anchor]\<rparr> else step"
  have a: "st_name ?a = st_name step" "st_inputs ?a = st_inputs step"
    "names_dep d ?a \<longleftrightarrow> (if mode = ''DAG'' \<and> st_dependsOn step = None then d = anchor else names_dep d step)" for d
    by (simp_all add: names_dep_def)
  show ?thesis
  proof (rule set_eqI)
    fix d
    show "d \<in> step_waits (insert (st_name step) (st_name ` set steps)) P ?a \<longleftrightarrow> d \<in> new_waits steps anchor step mode"
    proof (cases "d \<in> st_name ` set steps")
      case True
      moreover have "d \<noteq> st_name step" using True new by metis
      ultimately show ?thesis using in_reads[OF True] unfolding step_waits_def new_waits_def mem_Collect_eq a by blast
    next
      case False
      then show ?thesis unfolding step_waits_def new_waits_def mem_Collect_eq a by blast
    qed
  qed
qed

lemma pairs_insert:
  assumes "g a = n" and "\<And>s. g (f s) = g s"
  shows "{(g s, d) | s d. s \<in> insert a (f ` S) \<and> d \<in> W s} = {n} \<times> W a \<union> {(g s, d) | s d. s \<in> S \<and> d \<in> W (f s)}"
proof -
  have "{(g s, d) | s d. s \<in> insert a (f ` S) \<and> d \<in> W s} = {g a} \<times> W a \<union> {(g (f s), d) | s d. s \<in> S \<and> d \<in> W (f s)}" by blast
  then show ?thesis unfolding assms .
qed

lemma pairs_eq:
  assumes "\<And>s d. s \<in> S \<Longrightarrow> d \<in> W s \<longleftrightarrow> (g s, d) \<in> X" and "\<And>n d. (n, d) \<in> X \<Longrightarrow> \<exists>s\<in>S. n = g s"
  shows "{(g s, d) | s d. s \<in> S \<and> d \<in> W s} = X"
proof
  show "{(g s, d) | s d. s \<in> S \<and> d \<in> W s} \<subseteq> X" using assms(1) by blast
  show "X \<subseteq> {(g s, d) | s d. s \<in> S \<and> d \<in> W s}"
  proof (rule subrelI)
    fix n d assume x: "(n, d) \<in> X"
    then obtain s where "s \<in> S" "n = g s" using assms(2) by blast
    then show "(n, d) \<in> {(g s, d) | s d. s \<in> S \<and> d \<in> W s}" using x assms(1) by blast
  qed
qed

lemma insertAfter_edges:
  assumes "distinct (map st_name steps)" and "anchor \<noteq> []" and "anchor \<in> st_name ` set steps" and "fresh_added steps step"
  shows "edge_rel (waitsOn (insertAfter steps (Some anchor) step mode branch)) =
    (edge_rel (waitsOn steps) - lost_waits steps anchor branch) \<union> {st_name step} \<times> new_waits steps anchor step mode \<union>
      new_waiters steps anchor step branch \<times> {st_name step}"
proof -
  let ?f = "redirect anchor (st_name step) branch"
  let ?a = "if mode = ''DAG'' \<and> st_dependsOn step = None then step\<lparr>st_dependsOn := Some [anchor]\<rparr> else step"
  obtain us vs where o: "steps = us @ vs" and ins: "insertAfter steps (Some anchor) step mode branch = map ?f us @ ?a # map ?f vs"
    by (rule insertAfter_split[OF assms(2,3), of step mode branch])
  let ?new = "map ?f us @ ?a # map ?f vs"
  let ?N = "insert (st_name step) (st_name ` set steps)" and ?P = "map_of (producerOf ?new)"
  have fresh: "st_name step \<notin> st_name ` set steps" using assms(4) by (simp add: fresh_added_def)
  have a: "st_name ?a = st_name step" "st_outputs ?a = st_outputs step" by simp_all
  have keys: "st_name ` set ?new = ?N" using o a by (simp add: image_image image_Un)
  have dist: "distinct (map st_name ?new)" using assms(1) fresh o a by (auto simp: comp_def image_image)
  have mapeq: "map ?f us @ map ?f vs = map ?f steps" using o by simp
  have P: "?P inp = (if inp \<in> set (or_nil (st_outputs step)) then Some (st_name step) else map_of (producerOf steps) inp)" for inp
  proof -
    have c: "\<forall>s\<in>set (map ?f us @ map ?f vs). set (or_nil (st_outputs s)) \<inter> set (or_nil (st_outputs ?a)) = {}"
      unfolding mapeq a(2) using assms(4) by (simp add: fresh_added_def)
    have m: "producerOf (map ?f steps) = producerOf steps" by (rule producerOf_map) simp
    show ?thesis unfolding producerOf_insert[OF c] a mapeq m by (rule refl)
  qed
  have "edge_rel (waitsOn ?new) = {(st_name s, d) | s d. s \<in> insert ?a (?f ` set steps) \<and> d \<in> step_waits ?N ?P s}"
  proof -
    have "set ?new = insert ?a (?f ` set steps)" using o by auto
    then show ?thesis unfolding edge_waitsOn[OF dist] keys by (simp only:)
  qed
  also have "\<dots> = {st_name step} \<times> step_waits ?N ?P ?a \<union> {(st_name s, d) | s d. s \<in> set steps \<and> d \<in> step_waits ?N ?P (?f s)}"
    by (rule pairs_insert) (simp_all add: a(1))
  also have "{(st_name s, d) | s d. s \<in> set steps \<and> d \<in> step_waits ?N ?P (?f s)} =
      (edge_rel (waitsOn steps) - lost_waits steps anchor branch) \<union> new_waiters steps anchor step branch \<times> {st_name step}"
  proof -
    have one: "s = s'" if "s \<in> set steps" "s' \<in> set steps" "st_name s = st_name s'" for s s'
      using assms(1) that by (auto simp: distinct_map inj_on_def)
    have lost: "(st_name s, d) \<in> lost_waits steps anchor branch \<longleftrightarrow> d = anchor \<and> \<not> branch \<and> names_dep anchor s \<and> \<not> reads_from steps anchor s"
      if "s \<in> set steps" for s d using that one by (auto simp: lost_waits_def)
    have wait: "(st_name s, d) \<in> edge_rel (waitsOn steps) \<longleftrightarrow> d \<in> step_waits (st_name ` set steps) (map_of (producerOf steps)) s"
      if "s \<in> set steps" for s d using that one unfolding edge_waitsOn[OF assms(1)] by auto
    have waiter: "st_name s \<in> new_waiters steps anchor step branch \<longleftrightarrow>
        \<not> branch \<and> names_dep anchor s \<or> set (or_nil (st_inputs s)) \<inter> set (or_nil (st_outputs step)) \<noteq> {}" if "s \<in> set steps" for s
      using that one by (auto simp: new_waiters_def)
    have mem: "d \<in> step_waits ?N ?P (?f s) \<longleftrightarrow> (st_name s, d) \<in>
        (edge_rel (waitsOn steps) - lost_waits steps anchor branch) \<union> new_waiters steps anchor step branch \<times> {st_name step}"
      if "s \<in> set steps" for s d
    proof -
      have l: "d \<in> step_waits ?N ?P (?f s) \<longleftrightarrow> d = st_name step \<and> st_name s \<in> new_waiters steps anchor step branch \<or>
          (st_name s, d) \<in> edge_rel (waitsOn steps) \<and> (st_name s, d) \<notin> lost_waits steps anchor branch"
        unfolding redirect_waits[OF assms(4) that assms(3) P] lost[OF that] wait[OF that] waiter[OF that] by (rule refl)
      show ?thesis unfolding l by blast
    qed
    have keys: "\<exists>s\<in>set steps. n = st_name s"
      if "(n, d) \<in> (edge_rel (waitsOn steps) - lost_waits steps anchor branch) \<union> new_waiters steps anchor step branch \<times> {st_name step}" for n d
      using that unfolding edge_waitsOn[OF assms(1)] new_waiters_def by auto
    show ?thesis by (rule pairs_eq[OF mem keys])
  qed
  finally show ?thesis unfolding ins added_waits[OF assms(4,3) P] by (simp only: Un_ac)
qed

text \<open>Paths through a node put between the steps that wait on it and those it waits on.\<close>

lemma trancl_through:
  assumes "E' = R0 \<union> {n} \<times> W \<union> M \<times> {n}" and "R0 \<subseteq> V \<times> V" and "W \<subseteq> V" and "M \<subseteq> V" and "n \<notin> V"
  shows "E'\<^sup>+ \<inter> V \<times> V = (R0 \<union> M \<times> W)\<^sup>+"
proof -
  let ?R = "R0 \<union> M \<times> W"
  have "?R \<subseteq> E'\<^sup>+"
  proof
    fix e assume "e \<in> ?R"
    moreover have "(m, w) \<in> E'\<^sup>+" if "m \<in> M" "w \<in> W" for m w
      using that assms(1) by (intro trancl_into_trancl[of m n E' w] r_into_trancl') auto
    moreover have "e \<in> E'\<^sup>+" if "e \<in> R0" using that assms(1) by (cases e) (auto intro: r_into_trancl')
    ultimately show "e \<in> E'\<^sup>+" by blast
  qed
  then have "?R\<^sup>+ \<subseteq> E'\<^sup>+" using trancl_mono_subset[of ?R "E'\<^sup>+"] by (simp add: trancl_id)
  moreover have "?R\<^sup>+ \<subseteq> V \<times> V" using assms(2-4) by (intro trancl_subset_Sigma) auto
  moreover have "(y \<in> V \<longrightarrow> (x, y) \<in> ?R\<^sup>+) \<and> (y = n \<longrightarrow> (\<exists>m\<in>M. (x, m) \<in> ?R\<^sup>*)) \<and> (y \<in> V \<or> y = n)" if "(x, y) \<in> E'\<^sup>+" "x \<in> V" for x y
    using that(1)
  proof (induction rule: trancl_induct)
    case (base y)
    then show ?case using assms that(2) by auto
  next
    case (step y z)
    consider "(y, z) \<in> R0" | "y = n" "z \<in> W" | "y \<in> M" "z = n" using step.hyps(2) assms(1) by auto
    then show ?case
    proof cases
      case 1
      then have "y \<in> V" "z \<in> V" "(y, z) \<in> ?R" using assms(2) by auto
      then show ?thesis using step.IH assms(5) by (auto intro: trancl_into_trancl)
    next
      case 2
      then obtain m where "m \<in> M" "(x, m) \<in> ?R\<^sup>*" using step.IH by blast
      then have "(x, z) \<in> ?R\<^sup>+" using 2 by (auto intro: rtrancl_into_trancl1)
      then show ?thesis using 2 assms(3,5) by auto
    next
      case 3
      then have "(x, y) \<in> ?R\<^sup>+" using step.IH assms(4,5) by auto
      then show ?thesis using 3 assms(5) by (auto dest: trancl_into_rtrancl)
    qed
  qed
  ultimately show ?thesis by blast
qed

lemma bypass_path:
  assumes "(x, y) \<in> (E \<union> M \<times> W)\<^sup>+" and "\<And>w m. w \<in> W \<Longrightarrow> m \<in> M \<Longrightarrow> (w, m) \<notin> E\<^sup>*"
  shows "(x, y) \<in> E\<^sup>+ \<or> (\<exists>m\<in>M. \<exists>w\<in>W. (x, m) \<in> E\<^sup>* \<and> (w, y) \<in> E\<^sup>*)"
  using assms(1)
proof (induction rule: trancl_induct)
  case (step y z)
  then show ?case using assms(2) by (auto intro: trancl_into_trancl rtrancl_into_rtrancl dest: trancl_into_rtrancl)
qed auto

lemma first_lost:
  assumes "(w, m) \<in> E\<^sup>*" and "m \<in> M" and "L \<subseteq> M \<times> UNIV" shows "\<exists>m'\<in>M. (w, m') \<in> (E - L)\<^sup>*"
  using assms(1)
proof (induction rule: converse_rtrancl_induct)
  case (step y z)
  then show ?case using assms(3) by (cases "(y, z) \<in> L") (auto intro: converse_rtrancl_into_rtrancl)
qed (use assms(2) in auto)

lemma acyclic_through:
  assumes "E' = (E - L) \<union> {n} \<times> W \<union> M \<times> {n}" and "E \<subseteq> V \<times> V" and "W \<subseteq> V" and "M \<subseteq> V" and "n \<notin> V" and "L \<subseteq> M \<times> UNIV"
    and "acyclic E"
  shows "acyclic E' \<longleftrightarrow> \<not> (\<exists>w\<in>W. \<exists>m\<in>M. (w, m) \<in> E\<^sup>*)"
proof -
  have t: "E'\<^sup>+ \<inter> V \<times> V = ((E - L) \<union> M \<times> W)\<^sup>+" using assms(2) by (intro trancl_through[OF assms(1) _ assms(3-5)]) auto
  have "\<not> acyclic E'" if wm: "w \<in> W" "m \<in> M" "(w, m) \<in> E\<^sup>*" for w m
  proof -
    obtain m' where m': "m' \<in> M" "(w, m') \<in> (E - L)\<^sup>*" using first_lost[OF wm(3,2) assms(6)] by blast
    then have "(w, m') \<in> ((E - L) \<union> M \<times> W)\<^sup>*" by (meson Un_upper1 rtrancl_mono subsetD)
    then have "(m', m') \<in> ((E - L) \<union> M \<times> W)\<^sup>+" using wm(1) m'(1) by (auto intro: rtrancl_into_trancl2)
    then show ?thesis using t by (auto simp: acyclic_def)
  qed
  moreover have "acyclic E'" if none: "\<not> (\<exists>w\<in>W. \<exists>m\<in>M. (w, m) \<in> E\<^sup>*)"
  proof (rule acyclicI, intro allI notI)
    fix x assume x: "(x, x) \<in> E'\<^sup>+"
    have "\<exists>v\<in>V. (v, v) \<in> E'\<^sup>+"
    proof (cases "x \<in> V")
      case False
      from tranclD[OF x] obtain y where y: "(x, y) \<in> E'" "(y, x) \<in> E'\<^sup>*" by blast
      have "x = n" "y \<in> V" using y(1) False assms(1-5) by auto
      then show ?thesis using y rtrancl_into_trancl1[of y x E' y] by auto
    qed (use x in blast)
    then obtain v where "(v, v) \<in> ((E - L) \<union> M \<times> W)\<^sup>+" using t by blast
    then have "(v, v) \<in> (E \<union> M \<times> W)\<^sup>+" by (meson Un_mono Diff_subset subset_refl trancl_mono)
    then have "(v, v) \<in> E\<^sup>+ \<or> (\<exists>m\<in>M. \<exists>w\<in>W. (v, m) \<in> E\<^sup>* \<and> (w, v) \<in> E\<^sup>*)" by (rule bypass_path) (use none in blast)
    then show False using assms(7) none by (auto simp: acyclic_def dest: rtrancl_trans)
  qed
  ultimately show ?thesis by blast
qed

section \<open>Ordering as the properties change\<close>

definition orderable :: "'a spec_step_scheme list \<Rightarrow> bool" where
  "orderable steps \<longleftrightarrow> distinct (map st_name steps) \<and> one_producer steps \<and> acyclic (edge_rel (waitsOn steps))"

lemma orderable_no_forward_waits:
  assumes "orderable steps"
  shows "forwardWaits (orderByDependencies steps) = []"
proof -
  let ?o = "orderByDependencies steps"
  have h: "distinct (map st_name steps)" "one_producer steps" "acyclic (edge_rel (waitsOn steps))"
    using assms by (simp_all add: orderable_def)
  have m: "mset ?o = mset steps" by (rule orderByDependencies_mset[OF h(1)])
  then have d: "distinct (map st_name ?o)" using h(1) by (metis mset_eq_imp_distinct_iff mset_map)
  have "waits_before (waitsOn ?o) {} ?o \<longleftrightarrow> waits_before (waitsOn steps) {} ?o"
    using waitsOn_perm[OF m[symmetric] h(1,2)] by (intro waits_before_cong) simp
  then show ?thesis using orderByDependencies_all_placed[OF h(3)] forwardWaits_Nil[OF d] by simp
qed

definition same_spec :: "('a spec_step_scheme \<Rightarrow> 'a spec_step_scheme) \<Rightarrow> bool" where
  "same_spec f \<longleftrightarrow> (\<forall>s. st_name (f s) = st_name s \<and> st_dependsOn (f s) = st_dependsOn s \<and>
     st_inputs (f s) = st_inputs s \<and> st_outputs (f s) = st_outputs s)"

lemma waitsOn_map_same:
  assumes "same_spec f"
  shows "waitsOn (map f steps) = waitsOn steps"
proof -
  have f: "st_name (f s) = st_name s" "st_dependsOn (f s) = st_dependsOn s"
    "st_inputs (f s) = st_inputs s" "st_outputs (f s) = st_outputs s" for s
    using assms by (simp_all add: same_spec_def)
  have "step_deps k [] p n (Some (f s)) = step_deps k [] p n (Some s)" for k p n s
    by (simp add: step_deps_def f)
  then show ?thesis
    by (simp add: waitsOn_def producerOf_map f comp_def foldl_map)
qed

lemma forwardWaits_map_same:
  assumes "same_spec f"
  shows "forwardWaits (map f steps) = forwardWaits steps"
proof -
  have f: "st_name (f s) = st_name s" for s using assms by (simp add: same_spec_def)
  have "enumerate 0 (map f steps) = map (\<lambda>(i, s). (i, f s)) (enumerate 0 steps)"
    by (simp add: enumerate_eq_zip zip_map2)
  then show ?thesis
    by (simp add: forwardWaits_def waitsOn_map_same[OF assms] f comp_def case_prod_beta')
qed

lemma orderGroup_same: "same_spec orderGroup"
  by (simp add: same_spec_def orderGroup_def)

section \<open>Properties\<close>

text \<open>C4: a dependency the studio lets be drawn never closes a loop: the step waits on
  exactly one step more, and an acyclic workflow stays acyclic.\<close>

theorem addDependency_acyclic:
  assumes "distinct (map st_name steps)" and "canDependOn steps from to"
  shows "edge_rel (waitsOn (addDependency steps from to)) = insert (to, from) (edge_rel (waitsOn steps)) \<and>
    (acyclic (edge_rel (waitsOn steps)) \<longrightarrow> acyclic (edge_rel (waitsOn (addDependency steps from to))))"
proof -
  from assms(2) have c: "from \<noteq> to" "from \<in> st_name ` set steps" "to \<in> st_name ` set steps"
    "(from, to) \<notin> (edge_rel (waitsOn steps))\<^sup>*" unfolding canDependOn_iff by blast+
  then have e: "edge_rel (waitsOn (addDependency steps from to)) = insert (to, from) (edge_rel (waitsOn steps))"
    using addDependency_edges[OF assms(1)] by blast
  with c(4) show ?thesis by (simp add: acyclic_insert)
qed

definition lone_step :: "string \<Rightarrow> spec_step" where
  "lone_step n = \<lparr>st_name = n, st_dependsOn = None, st_inputs = None, st_outputs = None\<rparr>"

theorem addDependency_acyclic_witness:
  "distinct (map st_name (diamond_spec @ [lone_step ''d''])) \<and>
   canDependOn (diamond_spec @ [lone_step ''d'']) ''c'' ''d'' \<and>
   \<not> canDependOn (diamond_spec @ [lone_step ''d'']) ''c'' ''a'' \<and>
   edge_rel (waitsOn (addDependency (diamond_spec @ [lone_step ''d'']) ''c'' ''d'')) =
     insert (''d'', ''c'') (edge_rel (waitsOn (diamond_spec @ [lone_step ''d''])))"
proof -
  let ?s = "diamond_spec @ [lone_step ''d'']"
  have d: "distinct (map st_name ?s)" and c: "canDependOn ?s ''c'' ''d''" by code_simp+
  have "\<not> canDependOn ?s ''c'' ''a''" by code_simp
  then show ?thesis using d c addDependency_acyclic[OF d c] by blast
qed

text \<open>Removing a dependency just drawn gives back the workflow, up to an empty
  \<open>dependsOn\<close> in place of none.\<close>

theorem removeDependency_undoes:
  assumes "distinct (map st_name steps)" and "canDependOn steps from to"
  shows "removeDependency (addDependency steps from to) from to = Some (map (withDependsOn to) steps) \<and>
    waitsOn (map (withDependsOn to) steps) = waitsOn steps"
proof
  from assms(2) have c: "from \<noteq> to" "from \<in> st_name ` set steps" "to \<in> st_name ` set steps"
    "(to, from) \<notin> edge_rel (waitsOn steps)" unfolding canDependOn_iff by blast+
  show "removeDependency (addDependency steps from to) from to = Some (map (withDependsOn to) steps)"
  proof (rule remove_add_dependency[OF c(3)])
    fix s assume "s \<in> set steps" "st_name s = to"
    then show "\<not> names_dep from s" using c(1,2,4) names_dep_in_waits[OF assms(1), of s "from"] by metis
  qed
  have w: "or_nil (st_dependsOn (withDependsOn to s)) = or_nil (st_dependsOn s)"
    "st_name (withDependsOn to s) = st_name s" "st_inputs (withDependsOn to s) = st_inputs s"
    "st_outputs (withDependsOn to s) = st_outputs s" for s :: "'a spec_step_scheme"
    by (simp_all add: withDependsOn_def)
  have "step_deps k [] p n (Some (withDependsOn to s)) = step_deps k [] p n (Some s)"
    for k p n and s :: "'a spec_step_scheme"
    by (simp add: step_deps_def w)
  then show "waitsOn (map (withDependsOn to) steps) = waitsOn steps"
    by (simp add: waitsOn_def producerOf_map w comp_def foldl_map)
qed

theorem removeDependency_undoes_witness:
  "distinct (map st_name [lone_step ''a'', lone_step ''b'']) \<and>
   canDependOn [lone_step ''a'', lone_step ''b''] ''a'' ''b'' \<and>
   removeDependency (addDependency [lone_step ''a'', lone_step ''b''] ''a'' ''b'') ''a'' ''b''
   = Some [lone_step ''a'', lone_step ''b''\<lparr>st_dependsOn := Some []\<rparr>]"
proof -
  let ?s = "[lone_step ''a'', lone_step ''b'']"
  have d: "distinct (map st_name ?s)" and c: "canDependOn ?s ''a'' ''b''" by code_simp+
  show ?thesis using d c removeDependency_undoes[OF d c] by (simp add: withDependsOn_def lone_step_def)
qed

lemma plain_added_acyclic:
  assumes "distinct (map st_name steps)" and "anchor \<in> st_name ` set steps" and "acyclic (edge_rel (waitsOn steps))"
    and "\<forall>s\<in>set steps. \<not> names_dep (st_name s) s" and "st_dependsOn step = None" and "or_nil (st_inputs step) = []" and "or_nil (st_outputs step) = []"
    and "w \<in> new_waits steps anchor step ''DAG''" and "m \<in> new_waiters steps anchor step branch"
  shows "(w, m) \<notin> (edge_rel (waitsOn steps))\<^sup>*"
proof
  assume p: "(w, m) \<in> (edge_rel (waitsOn steps))\<^sup>*"
  have w: "w = anchor" using assms(5,6,8) by (simp add: new_waits_def reads_from_def)
  obtain s where s: "s \<in> set steps" "m = st_name s" "names_dep anchor s" using assms(7,9) by (auto simp: new_waiters_def)
  then have "anchor \<noteq> st_name s" using assms(4) by auto
  then have "(m, anchor) \<in> edge_rel (waitsOn steps)" unfolding s(2) by (rule names_dep_in_waits[OF assms(1) s(1) s(3) assms(2)])
  then have "(m, m) \<in> (edge_rel (waitsOn steps))\<^sup>+" using p unfolding w by (rule rtrancl_into_trancl2)
  then show False using assms(3) by (auto simp: acyclic_def)
qed

text \<open>C5: any step added after one that is there, in either mode, in the middle or as a branch, with whatever
  dependencies, inputs and outputs it has, where its name is new, no step depends on it and its outputs
  are no other step's, goes straight after it in the list. The waits are then exactly those there were, without
  the moved ones on the anchor, those of the new step and those on it; the waits between the other
  steps, direct and through others, are exactly the rest of theirs and those that lead through
  the new step, none lost where it waits on the anchor, as in parallel it does unless it has dependencies
  of its own. A workflow without loops gets one exactly when a step it waits on waits on, or is, one that
  waits on it; never where it is added in parallel without dependencies, inputs and outputs and no
  step depends on itself.\<close>

theorem insertAfter_keeps_waits:
  assumes "distinct (map st_name steps)" and "anchor \<noteq> []" and "anchor \<in> st_name ` set steps" and "fresh_added steps step"
    and "E = edge_rel (waitsOn steps)" and "E' = edge_rel (waitsOn (insertAfter steps (Some anchor) step mode branch))"
    and "W = new_waits steps anchor step mode" and "M = new_waiters steps anchor step branch" and "L = lost_waits steps anchor branch"
  shows "(\<exists>us vs. map st_name steps = us @ anchor # vs \<and>
      map st_name (insertAfter steps (Some anchor) step mode branch) = us @ anchor # st_name step # vs) \<and>
    E' = (E - L) \<union> {st_name step} \<times> W \<union> M \<times> {st_name step} \<and>
    E'\<^sup>+ \<inter> st_name ` set steps \<times> st_name ` set steps = ((E - L) \<union> M \<times> W)\<^sup>+ \<and>
    (mode = ''DAG'' \<and> st_dependsOn step = None \<longrightarrow> anchor \<in> W) \<and> (anchor \<in> W \<longrightarrow> E\<^sup>+ \<subseteq> E'\<^sup>+) \<and>
    (acyclic E \<longrightarrow> (acyclic E' \<longleftrightarrow> \<not> (\<exists>w\<in>W. \<exists>m\<in>M. (w, m) \<in> E\<^sup>*))) \<and>
    (acyclic E \<and> mode = ''DAG'' \<and> st_dependsOn step = None \<and> or_nil (st_inputs step) = [] \<and> or_nil (st_outputs step) = [] \<and>
       (\<forall>s\<in>set steps. \<not> names_dep (st_name s) s) \<longrightarrow> acyclic E')"
proof -
  let ?V = "st_name ` set steps" and ?n = "st_name step"
  have e: "E' = (E - L) \<union> {?n} \<times> W \<union> M \<times> {?n}" unfolding assms(5-9) by (rule insertAfter_edges[OF assms(1-4)])
  have V: "E \<subseteq> ?V \<times> ?V"
  proof (rule subrelI)
    fix x y assume "(x, y) \<in> E"
    then show "(x, y) \<in> ?V \<times> ?V" using studio_waits.edge_nodes[of x y steps] unfolding assms(5) by simp
  qed
  have WM: "W \<subseteq> ?V" "M \<subseteq> ?V" "?n \<notin> ?V" using assms(4) unfolding assms(7,8) by (auto simp: new_waits_def new_waiters_def fresh_added_def)
  have LM: "L \<subseteq> M \<times> {anchor}" unfolding assms(8,9) by (auto simp: lost_waits_def new_waiters_def)
  then have L: "L \<subseteq> M \<times> UNIV" by blast
  have placed: "\<exists>us vs. map st_name steps = us @ anchor # vs \<and>
      map st_name (insertAfter steps (Some anchor) step mode branch) = us @ anchor # ?n # vs"
  proof -
    obtain us vs where o: "steps = us @ vs" "us \<noteq> []" "st_name (last us) = anchor"
      "insertAfter steps (Some anchor) step mode branch = map (redirect anchor ?n branch) us @
       (if mode = ''DAG'' \<and> st_dependsOn step = None then step\<lparr>st_dependsOn := Some [anchor]\<rparr> else step) # map (redirect anchor ?n branch) vs"
      by (rule insertAfter_split[OF assms(2,3), of step mode branch])
    have "map st_name us = map st_name (butlast us) @ [anchor]" using o(2,3) by (metis append_butlast_last_id list.simps(8,9) map_append)
    then have "map st_name steps = map st_name (butlast us) @ anchor # map st_name vs"
      "map st_name (insertAfter steps (Some anchor) step mode branch) = map st_name (butlast us) @ anchor # ?n # map st_name vs"
      unfolding o(4) by (simp_all add: o(1) comp_def)
    then show ?thesis by blast
  qed
  have c: "E'\<^sup>+ \<inter> ?V \<times> ?V = ((E - L) \<union> M \<times> W)\<^sup>+" using V by (intro trancl_through[OF e _ WM]) auto
  have keep: "E\<^sup>+ \<subseteq> E'\<^sup>+" if "anchor \<in> W"
  proof -
    have "(m, anchor) \<in> E'\<^sup>+" if "m \<in> M" for m
      using that \<open>anchor \<in> W\<close> by (intro trancl_into_trancl[of m ?n E' anchor] r_into_trancl') (simp_all add: e)
    then have "E \<subseteq> E'\<^sup>+" using LM by (auto simp: e intro: r_into_trancl')
    then show ?thesis using trancl_mono_subset[of E "E'\<^sup>+"] by (simp add: trancl_id)
  qed
  have a: "acyclic E \<longrightarrow> (acyclic E' \<longleftrightarrow> \<not> (\<exists>w\<in>W. \<exists>m\<in>M. (w, m) \<in> E\<^sup>*))" using acyclic_through[OF e V WM L] by blast
  have plain: "acyclic E'" if h: "acyclic E" "mode = ''DAG''" "st_dependsOn step = None" "or_nil (st_inputs step) = []" "or_nil (st_outputs step) = []"
      "\<forall>s\<in>set steps. \<not> names_dep (st_name s) s"
  proof -
    have "(w, m) \<notin> E\<^sup>*" if "w \<in> W" "m \<in> M" for w m
      using plain_added_acyclic[OF assms(1,3) h(1)[unfolded assms(5)] h(6,3-5), of w m branch] that h(2) unfolding assms(5,7,8) by simp
    then show ?thesis using a h(1) by blast
  qed
  have dflt: "mode = ''DAG'' \<and> st_dependsOn step = None \<longrightarrow> anchor \<in> W" using assms(3) unfolding assms(7) by (simp add: new_waits_def)
  show ?thesis
    apply (intro conjI)
    subgoal by (rule placed)
    subgoal by (rule e)
    subgoal by (rule c)
    subgoal by (rule dflt)
    subgoal using keep by (rule impI)
    subgoal by (rule a)
    subgoal using plain by (intro impI, elim conjE)
    done
qed

theorem insertAfter_keeps_waits_witness:
  "distinct (map st_name diamond_spec) \<and> fresh_added diamond_spec (lone_step ''n'') \<and>
   (edge_rel (waitsOn diamond_spec))\<^sup>+ \<subseteq> (edge_rel (waitsOn (insertAfter diamond_spec (Some ''a'') (lone_step ''n'') ''DAG'' False)))\<^sup>+"
proof -
  have h: "distinct (map st_name diamond_spec)" "(''a''::string) \<noteq> []" "''a'' \<in> st_name ` set diamond_spec"
    "fresh_added diamond_spec (lone_step ''n'')" by code_simp+
  have "st_dependsOn (lone_step ''n'') = None" by (simp add: lone_step_def)
  then show ?thesis using h insertAfter_keeps_waits[OF h refl refl refl refl refl, of "''DAG''" False] by blast
qed

text \<open>A dependency chosen while a step is added in the middle may name a step that adding moves, which then
  waits on the new one: the two wait on each other. One that leaves the anchor out loses its wait.\<close>

lemma chosen_dependsOn_loops:
  "let steps = [lone_step ''a'', lone_step ''b''\<lparr>st_dependsOn := Some [''a'']\<rparr>];
       added = insertAfter steps (Some ''a'') (lone_step ''n''\<lparr>st_dependsOn := Some [''b'']\<rparr>) ''DAG'' False
   in succs (waitsOn added) ''n'' = [''b''] \<and> succs (waitsOn added) ''b'' = [''n''] \<and> succs (waitsOn added) ''a'' = []"
  by code_simp

text \<open>The preview of adding after a step says what adding does: the moved steps are
  those that then name the new step in their \<open>dependsOn\<close> and, in order, the one listed
  straight after it.\<close>

theorem addPreview_agrees:
  assumes "distinct (map st_name steps)" and "anchor \<noteq> []" and "anchor \<in> st_name ` set steps"
    and "fresh_step steps step" and "key \<noteq> ''branch''"
  shows "\<exists>pre new post. insertAfter steps (Some anchor) step mode False = pre @ new # post \<and>
    st_name new = st_name step \<and> map st_name (pre @ post) = map st_name steps \<and>
    pv_moved (addPreview steps anchor key mode) = map st_name (filter (\<lambda>s. names_dep (st_name step) s \<or>
      (mode \<noteq> ''DAG'' \<and> post \<noteq> [] \<and> st_name s = st_name (hd post))) (pre @ post))"
proof -
  obtain us vs where o: "steps = us @ vs" "us \<noteq> []" "find_index (\<lambda>s. st_name s = anchor) steps = Some (length us - 1)"
    and ins: "insertAfter steps (Some anchor) step mode False = map (redirect anchor (st_name step) False) us @
       (if mode = ''DAG'' \<and> st_dependsOn step = None then step\<lparr>st_dependsOn := Some [anchor]\<rparr> else step)
       # map (redirect anchor (st_name step) False) vs"
    by (rule insertAfter_split[OF assms(2,3)])
  let ?f = "redirect anchor (st_name step) False"
  let ?nx = "\<lambda>n. mode \<noteq> ''DAG'' \<and> vs \<noteq> [] \<and> n = st_name (hd vs)"
  have n: "names_dep (st_name step) (?f s) \<longleftrightarrow> names_dep anchor s" if "s \<in> set steps" for s
    using that assms(4) by (auto simp: names_dep_redirect fresh_step_def)
  have hd: "st_name (hd (map ?f vs)) = st_name (hd vs)" if "vs \<noteq> []" using that by (simp add: hd_map)
  have len: "length us - 1 + 1 = length us" using o(2) by (cases us) auto
  have next_eq: "(if mode \<noteq> ''DAG'' \<and> length us - 1 + 1 < length steps then [st_name (steps ! (length us - 1 + 1))] else [])
      = (if mode \<noteq> ''DAG'' \<and> vs \<noteq> [] then [st_name (hd vs)] else [])"
    unfolding len using o(1) by (auto simp: nth_append hd_conv_nth)
  have "pv_moved (addPreview steps anchor key mode) =
      filter (\<lambda>n. n \<in> set (map st_name (filter (names_dep anchor) steps)) \<or> ?nx n) (map st_name steps)"
    unfolding addPreview_def Let_def o(3) option.case next_eq using assms(5) by (auto intro!: filter_cong)
  also have "\<dots> = map st_name (filter (\<lambda>s. names_dep anchor s \<or> ?nx (st_name s)) steps)"
    using assms(1) by (auto simp: filter_map comp_def distinct_map inj_on_def intro!: arg_cong[of _ _ "map st_name"] filter_cong)
  also have "\<dots> = map st_name (filter (\<lambda>s. names_dep (st_name step) s \<or> (mode \<noteq> ''DAG'' \<and>
      map ?f vs \<noteq> [] \<and> st_name s = st_name (hd (map ?f vs)))) (map ?f steps))"
    using n hd by (auto simp: filter_map comp_def intro!: arg_cong[of _ _ "map st_name"] filter_cong)
  finally have moved: "pv_moved (addPreview steps anchor key mode) = \<dots>" .
  have cat: "map ?f us @ map ?f vs = map ?f steps" using o(1) by simp
  show ?thesis
    by (rule exI[of _ "map ?f us"], rule exI, rule exI[of _ "map ?f vs"])
       (intro conjI, rule ins, simp, simp add: cat comp_def, simp only: cat moved)
qed

theorem addPreview_agrees_witness:
  "distinct (map st_name diamond_spec) \<and> fresh_step diamond_spec (lone_step ''n'') \<and>
   (\<exists>pre new post. insertAfter diamond_spec (Some ''a'') (lone_step ''n'') ''DAG'' False = pre @ new # post \<and>
      st_name new = ''n'') \<and>
   addPreview diamond_spec ''a'' ''step'' ''DAG'' = \<lparr>pv_moved = [''b''], pv_stay = [''c'']\<rparr>"
proof -
  have h: "distinct (map st_name diamond_spec)" "(''a''::string) \<noteq> []" "''a'' \<in> st_name ` set diamond_spec"
    "fresh_step diamond_spec (lone_step ''n'')" "''step'' \<noteq> ''branch''" by code_simp+
  have "addPreview diamond_spec ''a'' ''step'' ''DAG'' = \<lparr>pv_moved = [''b''], pv_stay = [''c'']\<rparr>" by code_simp
  moreover have "st_name (lone_step ''n'') = ''n''" by (simp add: lone_step_def)
  ultimately show ?thesis using h addPreview_agrees[OF h, of "''DAG''"] by (metis (no_types))
qed

text \<open>Switching a workflow and its groups to run in order leaves no forward wait
  anywhere, when the steps and the groups that follow the workflow's mode can be ordered and
  the groups with a mode of their own had none; a read-only workflow is taken as given and
  never handed back.\<close>

theorem studioUpdate_orders:
  assumes "orderable base" and "base = (if changed then or_nil (vw_steps next) else current)"
    and "toOrder (vw_mode prev) (vw_mode next)" and "toOrder (vw_subMode prev) (vw_subMode next)"
    and "\<forall>s\<in>set base. st_type s = ''step-group'' \<longrightarrow>
      (if truthy (st_mode s) then st_mode s = Some ''StepByStep'' \<longrightarrow> forwardWaits (or_nil (st_subSteps s)) = []
       else orderable (or_nil (st_subSteps s)))"
  shows "if vw_readOnly next
    then studioUpdate changed prev next current = (if changed then Some (base, False) else None)
    else \<exists>steps. studioUpdate changed prev next current = Some (steps, steps \<noteq> base) \<and>
      forwardWaitsIn steps ''StepByStep'' ''StepByStep'' = []"
proof (cases "vw_readOnly next")
  case True
  then show ?thesis using assms(2) by (simp add: studioUpdate_def Let_def)
next
  case False
  let ?steps = "map orderGroup (orderByDependencies base)"
  have dist: "distinct (map st_name base)" using assms(1) by (simp add: orderable_def)
  have set_o: "set (orderByDependencies base) = set base"
    using orderByDependencies_mset[OF dist] by (rule mset_eq_setD)
  have "forwardWaits ?steps = []"
    using orderable_no_forward_waits[OF assms(1)] by (simp add: forwardWaits_map_same[OF orderGroup_same])
  moreover have "forwardWaits (or_nil (st_subSteps (orderGroup s))) = []"
    if "s \<in> set base" "st_type (orderGroup s) = ''step-group''"
      "groupMode (st_mode (orderGroup s)) None (Some ''StepByStep'') = ''StepByStep''" for s
  proof -
    have ty: "st_type s = ''step-group''" using that(2) by (simp add: orderGroup_def split: if_splits)
    have mode: "st_mode (orderGroup s) = st_mode s" by (simp add: orderGroup_def)
    have "truthy (st_mode s) \<Longrightarrow> st_mode s = Some ''StepByStep''"
      using that(3) unfolding mode by (auto simp: groupMode_def or_opt_def truthy_iff split: if_splits)
    then show ?thesis
      using assms(5) that(1) ty orderable_no_forward_waits[of "or_nil (st_subSteps s)"]
      by (auto simp: orderGroup_def split: if_splits)
  qed
  ultimately have "forwardWaitsIn ?steps ''StepByStep'' ''StepByStep'' = []"
    unfolding forwardWaitsIn_def using set_o by auto
  moreover have "studioUpdate changed prev next current = Some (?steps, ?steps \<noteq> base)"
    using False assms(2-4) by (simp add: studioUpdate_def Let_def)
  ultimately show ?thesis using False by simp
qed

definition plain_step :: "string \<Rightarrow> string list \<Rightarrow> wf_step" where
  "plain_step n deps = \<lparr>st_name = n, st_dependsOn = Some deps, st_inputs = None, st_outputs = None,
     st_type = ''deploy'', st_rest = [], st_mode = None, st_forEach = None, st_subSteps = None\<rparr>"

definition view_of :: "wf_step list \<Rightarrow> string \<Rightarrow> studio_view" where
  "view_of steps mode = \<lparr>vw_steps = Some steps, vw_mode = Some mode, vw_subMode = Some mode, vw_readOnly = False\<rparr>"

lemma two_steps_orderable: "orderable [plain_step ''b'' [''a''], plain_step ''a'' []]"
proof -
  have w: "waitsOn [plain_step ''b'' [''a''], plain_step ''a'' []] = [(''b'', [''a'']), (''a'', [])]" by code_simp
  have "acyclic (edge_rel (waitsOn [plain_step ''b'' [''a''], plain_step ''a'' []]))"
    unfolding w
    by (rule acyclic_by_rank[where f = "\<lambda>n. if n = ''a'' then 0 else 1"]) (auto simp: succs_def split: if_splits)
  moreover have "distinct (map st_name [plain_step ''b'' [''a''], plain_step ''a'' []])"
    "one_producer [plain_step ''b'' [''a''], plain_step ''a'' []]" by code_simp+
  ultimately show ?thesis by (simp only: orderable_def simp_thms)
qed

theorem studioUpdate_orders_witness:
  "orderable [plain_step ''b'' [''a''], plain_step ''a'' []] \<and>
   toOrder (Some ''DAG'') (Some ''StepByStep'') \<and>
   (\<exists>steps. studioUpdate False (view_of [] ''DAG'') (view_of [] ''StepByStep'')
      [plain_step ''b'' [''a''], plain_step ''a'' []] = Some (steps, steps \<noteq> [plain_step ''b'' [''a''], plain_step ''a'' []]) \<and>
      forwardWaitsIn steps ''StepByStep'' ''StepByStep'' = [])"
proof -
  let ?b = "[plain_step ''b'' [''a''], plain_step ''a'' []]"
  have "\<forall>s\<in>set ?b. st_type s = ''step-group'' \<longrightarrow>
      (if truthy (st_mode s) then st_mode s = Some ''StepByStep'' \<longrightarrow> forwardWaits (or_nil (st_subSteps s)) = []
       else orderable (or_nil (st_subSteps s)))" by (simp add: plain_step_def)
  then show ?thesis
    using two_steps_orderable studioUpdate_orders[OF two_steps_orderable, of False "view_of [] ''StepByStep''" ?b "view_of [] ''DAG''"]
    by (simp add: view_of_def toOrder_def)
qed

end
