(* ===== verification/Loop_Edit.thy ===== *)
theory Loop_Edit
  imports Step_Dependencies
begin

text \<open>
  Edits to a workflow's loops (\<open>components/WorkflowStudio/loop-edit.ts\<close>): setting a
  step's loop, what a loop's steps may read, what stops a loop from being saved, and the
  check of the keys that name its items; and where a step's expressions sit
  (\<open>components/WorkflowStudio/step-scope.ts\<close>).
\<close>

section \<open>Loops\<close>

definition defaultMaxItems :: nat where
  "defaultMaxItems = 50"

definition setLoop :: "'a wf_step_scheme list \<Rightarrow> string \<Rightarrow> for_each option \<Rightarrow> 'a wf_step_scheme list" where
  "setLoop steps name forEach = map (\<lambda>s. if st_name s \<noteq> name then s else s\<lparr>st_forEach := forEach\<rparr>) steps"

definition itemColumns :: "json list \<Rightarrow> string list" where
  "itemColumns items = foldl (\<lambda>keys item. case item of
        JObj m \<Rightarrow> foldl (\<lambda>keys k. if k \<in> set keys then keys else keys @ [k]) keys (map fst m)
      | _ \<Rightarrow> keys) [] items"

definition loopInputs :: "'a wf_step_scheme list \<Rightarrow> string option \<Rightarrow> string list" where
  "loopInputs steps stepName =
     (case find (\<lambda>s. st_forEach s \<noteq> None \<and> (Some (st_name s) = stepName \<or>
                   list_ex (\<lambda>sub. Some (st_name sub) = stepName) (or_nil (st_subSteps s)))) steps of
        None \<Rightarrow> []
      | Some loop \<Rightarrow>
          let items = (case fe_items (the (st_forEach loop)) of Some (JArr xs) \<Rightarrow> xs | _ \<Rightarrow> [])
          in [''each.item'', ''each.index'', ''each.key''] @ map (\<lambda>k. ''each.item.'' @ k) (itemColumns items))"

section \<open>The keys that name a loop's items\<close>

definition alnum_lower :: "char \<Rightarrow> bool" where
  "alnum_lower c \<longleftrightarrow> (let n = of_char c :: nat in (97 \<le> n \<and> n \<le> 122) \<or> (48 \<le> n \<and> n \<le> 57))"

text \<open>The pattern \<open>[a-z0-9]([a-z0-9-]*[a-z0-9])?\<close> over the whole string.\<close>

definition stepNameKey :: "string \<Rightarrow> bool" where
  "stepNameKey s \<longleftrightarrow> s \<noteq> [] \<and> alnum_lower (hd s) \<and> alnum_lower (last s) \<and>
     list_all (\<lambda>c. alnum_lower c \<or> c = CHR ''-'') s"

definition maxKeyLength :: nat where
  "maxKeyLength = 63"

text \<open>Reading a member: an object's by its name, a list's by a decimal index or
  \<open>length\<close>; anything else has none.\<close>

definition json_get :: "json option \<Rightarrow> string \<Rightarrow> json option" where
  "json_get v p = (case v of
     Some (JObj m) \<Rightarrow> map_of m p
   | Some (JArr xs) \<Rightarrow> (if p = ''length'' then Some (JInt (int (length xs)))
        else map_option (\<lambda>i. xs ! i) (find (\<lambda>i. nat_str i = p) [0..<length xs]))
   | _ \<Rightarrow> None)"

definition item_at :: "json \<Rightarrow> string \<Rightarrow> json option" where
  "item_at item path = foldl json_get (Some item) (split_on CHR ''.'' path)"

text \<open>The parts of one item's key: an error message, or the printed parts.\<close>

fun key_parts :: "nat \<Rightarrow> json \<Rightarrow> string list \<Rightarrow> string + string list" where
  "key_parts i item [] = Inr []"
| "key_parts i item (path # key) =
     (case item_at item path of
        None \<Rightarrow> Inl (''Item '' @ nat_str i @ '' has no '' @ path)
      | Some JNull \<Rightarrow> Inl (''Item '' @ nat_str i @ '' has no '' @ path)
      | Some (JStr v) \<Rightarrow> map_sum id ((#) v) (key_parts i item key)
      | Some (JInt v) \<Rightarrow> map_sum id ((#) (int_str v)) (key_parts i item key)
      | Some _ \<Rightarrow> Inl (''In item '' @ nat_str i @ '', '' @ path @ '' must be a string or a whole number''))"

fun keyProblem_from :: "(string, nat) js_map \<Rightarrow> nat \<Rightarrow> json list \<Rightarrow> string list \<Rightarrow> string option" where
  "keyProblem_from seen i [] key = None"
| "keyProblem_from seen i (item # items) key =
     (case key_parts i item key of
        Inl msg \<Rightarrow> Some msg
      | Inr parts \<Rightarrow>
          let joined = join_with ''-'' parts
          in if length joined > maxKeyLength
             then Some (''In item '' @ nat_str i @ '', the key is over '' @ nat_str maxKeyLength @ '' characters'')
             else if \<not> stepNameKey joined
             then Some (''In item '' @ nat_str i @ '', the key '' @ joined @
                        '' is not a step name (lower case letters, digits and -)'')
             else case map_of seen joined of
                    Some first \<Rightarrow> Some (''Items '' @ nat_str first @ '' and '' @ nat_str i @
                                        '' have the same key, '' @ joined)
                  | None \<Rightarrow> keyProblem_from (AList.update joined i seen) (Suc i) items key)"

definition keyProblem :: "json list \<Rightarrow> string list \<Rightarrow> string option" where
  "keyProblem items key = keyProblem_from [] 0 items key"

text \<open>\<open>/^\$\(.*\)$/s\<close> of a string.\<close>

definition whole_expression :: "string \<Rightarrow> bool" where
  "whole_expression s \<longleftrightarrow> length s \<ge> 3 \<and> take 2 s = ''$('' \<and> last s = CHR '')''"

definition forEachProblem :: "for_each \<Rightarrow> string option" where
  "forEachProblem forEach =
     (case fe_from forEach of
        Some from \<Rightarrow> if from \<noteq> [] then None else Some ''Pick the output the items come from''
      | None \<Rightarrow>
          (case fe_items forEach of
             Some (JArr items) \<Rightarrow>
               if items = [] then Some ''Add at least one item''
               else if or_nil (fe_key forEach) \<noteq> [] then keyProblem items (or_nil (fe_key forEach)) else None
           | items \<Rightarrow>
               let expression = (case items of Some (JStr s) \<Rightarrow> trim s | _ \<Rightarrow> [])
               in if whole_expression expression then None
                  else Some ''An expression is written $( ... ), and gives the whole list''))"

definition forEachWarning :: "for_each \<Rightarrow> string option" where
  "forEachWarning forEach =
     (case fe_items forEach of
        Some (JArr items) \<Rightarrow>
          if length items > defaultMaxItems
          then Some (''Over '' @ nat_str defaultMaxItems @ '' items, the controller's default limit. '' @
                     ''The run fails unless the cluster raised it'')
          else None
      | _ \<Rightarrow> None)"

section \<open>Where a step's expressions sit\<close>

datatype scope_step = ScopeStep
  (sc_name: string) (sc_outputs: "string list option") (sc_dependsOn: "string list option")
  (sc_forEach: "json option option") (sc_mode: "string option") (sc_subSteps: "scope_step list option")

datatype declared_step = Declared
  (dc_name: string) (dc_outputs: "string list") (dc_dependsOn: "string list option")
  (dc_forEach: bool) (dc_subSteps: "declared_step list option") (dc_mode: "string option")

fun declaredStep :: "scope_step \<Rightarrow> declared_step" where
  "declaredStep (ScopeStep name outputs deps loop mode subs) =
     (let has_subs = (or_nil subs \<noteq> [])
      in Declared name (filter (\<lambda>n. n \<noteq> []) (or_nil outputs))
           (if or_nil deps \<noteq> [] then deps else None) (loop \<noteq> None)
           (if has_subs then map_option (map declaredStep) subs else None)
           (if has_subs \<and> truthy mode then mode else None))"

definition declaredSteps :: "scope_step list \<Rightarrow> declared_step list" where
  "declaredSteps steps = map declaredStep steps"

record expression_step =
  ex_step :: "string option"
  ex_steps :: "declared_step list"
  ex_condition :: bool
  ex_mode :: "string option"
  ex_subMode :: "string option"
  ex_loopBody :: bool
  ex_forEachItems :: "json option"

text \<open>\<open>modesOf\<close>: an empty mode is left out.\<close>

definition modesOf :: "(string option \<times> string option) option \<Rightarrow> string option \<times> string option" where
  "modesOf modes = (case modes of None \<Rightarrow> (None, None)
     | Some (mode, subMode) \<Rightarrow> (if truthy mode then mode else None, if truthy subMode then subMode else None))"

definition enter_loop :: "json option \<Rightarrow> expression_step \<Rightarrow> expression_step" where
  "enter_loop items scope = (let scope' = scope\<lparr>ex_loopBody := True\<rparr>
     in if items \<noteq> None then scope'\<lparr>ex_forEachItems := items\<rparr> else scope')"

definition has_sub :: "scope_step \<Rightarrow> string option \<Rightarrow> bool" where
  "has_sub s stepName = list_ex (\<lambda>sub. Some (sc_name sub) = stepName) (or_nil (sc_subSteps s))"

definition stepScope ::
  "scope_step list \<Rightarrow> string option \<Rightarrow> (string option \<times> string option) option \<Rightarrow> expression_step" where
  "stepScope steps stepName modes =
     foldl (\<lambda>scope s.
        let own = (Some (sc_name s) = stepName \<and> or_nil (sc_subSteps s) = []);
            sub = has_sub s stepName
        in if sc_forEach s \<noteq> None \<and> (own \<or> sub) then enter_loop (the (sc_forEach s)) scope else scope)
      \<lparr>ex_step = stepName, ex_steps = declaredSteps steps, ex_condition = False,
       ex_mode = fst (modesOf modes), ex_subMode = snd (modesOf modes),
       ex_loopBody = False, ex_forEachItems = None\<rparr> steps"

definition conditionScope ::
  "scope_step list \<Rightarrow> string option \<Rightarrow> (string option \<times> string option) option \<Rightarrow> expression_step" where
  "conditionScope steps stepName modes =
     foldl (\<lambda>scope s. if sc_forEach s \<noteq> None \<and> has_sub s stepName
                     then enter_loop (the (sc_forEach s)) scope else scope)
      \<lparr>ex_step = stepName, ex_steps = declaredSteps steps, ex_condition = True,
       ex_mode = fst (modesOf modes), ex_subMode = snd (modesOf modes),
       ex_loopBody = False, ex_forEachItems = None\<rparr> steps"

section \<open>What the key check accepts\<close>

definition part_str :: "json \<Rightarrow> string option" where
  "part_str v = (case v of JStr s \<Rightarrow> Some s | JInt i \<Rightarrow> Some (int_str i) | _ \<Rightarrow> None)"

definition names_item :: "string list \<Rightarrow> json \<Rightarrow> string \<Rightarrow> bool" where
  "names_item key item label \<longleftrightarrow>
     (\<exists>parts. map (\<lambda>p. Option.bind (item_at item p) part_str) key = map Some parts \<and> label = join_with ''-'' parts)"

lemma map_sum_Inr: "map_sum id f x = Inr y \<longleftrightarrow> (\<exists>z. x = Inr z \<and> y = f z)"
  by (cases x) auto

lemma key_parts_Inr:
  "key_parts i item key = Inr parts \<longleftrightarrow>
     map (\<lambda>p. Option.bind (item_at item p) part_str) key = map Some parts"
proof (induction key arbitrary: parts)
  case (Cons path key)
  then show ?case
    by (cases parts)
       (auto simp: part_str_def map_sum_Inr split: option.splits json.splits)
qed auto

lemma names_item_unique: "names_item key item a \<Longrightarrow> names_item key item b \<Longrightarrow> a = b"
  unfolding names_item_def using map_injective[OF _ inj_Some] by metis

lemma keyProblem_from_None:
  "keyProblem_from seen i items key = None \<longleftrightarrow>
   (\<exists>labels. list_all2 (names_item key) items labels \<and> distinct labels \<and> set labels \<inter> fst ` set seen = {} \<and>
      (\<forall>l\<in>set labels. length l \<le> maxKeyLength \<and> stepNameKey l))"
proof (induction seen i items key rule: keyProblem_from.induct)
  case (1 seen i key)
  then show ?case by simp
next
  case (2 seen i item items key)
  show ?case
  proof (cases "key_parts i item key")
    case (Inl msg)
    then have "\<not> names_item key item l" for l
      unfolding names_item_def using key_parts_Inr[of i item key] by (metis Inl_Inr_False)
    with Inl show ?thesis by (auto simp: list_all2_Cons1)
  next
    case (Inr parts)
    let ?l = "join_with ''-'' parts"
    have l: "names_item key item l \<longleftrightarrow> l = ?l" for l
      using Inr key_parts_Inr[of i item key parts] names_item_unique by (metis names_item_def)
    have rhs: "(\<exists>labels. list_all2 (names_item key) (item # items) labels \<and> P labels) \<longleftrightarrow>
        (\<exists>labels. list_all2 (names_item key) items labels \<and> P (?l # labels))" for P
      by (auto simp: list_all2_Cons1 l)
    have none: "map_of seen ?l = None \<longleftrightarrow> ?l \<notin> fst ` set seen" by (simp add: map_of_eq_None_iff)
    show ?thesis
    proof (cases "length ?l \<le> maxKeyLength \<and> stepNameKey ?l \<and> ?l \<notin> fst ` set seen")
      case True
      then have step: "keyProblem_from seen i (item # items) key = keyProblem_from (AList.update ?l i seen) (Suc i) items key"
        using Inr none by (simp add: Let_def)
      have "keyProblem_from (AList.update ?l i seen) (Suc i) items key = None \<longleftrightarrow> (\<exists>labels. list_all2 (names_item key) items labels \<and> distinct (?l # labels) \<and>
          set (?l # labels) \<inter> fst ` set seen = {} \<and> (\<forall>l\<in>set (?l # labels). length l \<le> maxKeyLength \<and> stepNameKey l))"
        using True Inr none by (subst 2) (auto simp: AList.dom_update)
      then show ?thesis unfolding rhs step .
    next
      case False
      then have "keyProblem_from seen i (item # items) key \<noteq> None"
        using Inr none by (auto simp: Let_def split: option.splits)
      with False show ?thesis unfolding rhs by auto
    qed
  qed
qed

section \<open>Properties\<close>

text \<open>C7: the key check accepts a loop's typed-in items exactly when the key's parts are
  strings or whole numbers on every item and, joined with -, name the items by distinct step
  names of at most 63 characters.\<close>

theorem keyProblem_None_iff:
  "keyProblem items key = None \<longleftrightarrow>
   (\<exists>labels. list_all2 (names_item key) items labels \<and> distinct labels \<and>
      (\<forall>l\<in>set labels. length l \<le> 63 \<and> stepNameKey l))"
  using keyProblem_from_None[of "[]" 0 items key] by (simp add: keyProblem_def maxKeyLength_def)

theorem keyProblem_None_iff_witness:
  "keyProblem [JObj [(''n'', JStr ''a''), (''z'', JInt 1)], JObj [(''n'', JStr ''b''), (''z'', JInt 1)]] [''n'', ''z''] = None \<and>
   (\<exists>labels. list_all2 (names_item [''n'', ''z''])
       [JObj [(''n'', JStr ''a''), (''z'', JInt 1)], JObj [(''n'', JStr ''b''), (''z'', JInt 1)]] labels \<and> distinct labels) \<and>
   keyProblem [JStr ''a'', JStr ''b''] [''n''] = Some ''Item 0 has no n''"
proof -
  let ?items = "[JObj [(''n'', JStr ''a''), (''z'', JInt 1)], JObj [(''n'', JStr ''b''), (''z'', JInt 1)]]"
  have a: "keyProblem ?items [''n'', ''z''] = None" by code_simp
  have "keyProblem [JStr ''a'', JStr ''b''] [''n''] = Some ''Item 0 has no n''" by code_simp
  with a keyProblem_None_iff[of ?items "[''n'', ''z'']"] show ?thesis by auto
qed

lemma foldl_includes: "foldl (\<lambda>keys k. if k \<in> set keys then keys else keys @ [k]) acc ks = set_add_all acc ks"
  by (induction ks arbitrary: acc) (simp_all add: set_add_def)

lemma set_add_all_append: "set_add_all xs (ys @ zs) = set_add_all (set_add_all xs ys) zs"
  by (simp add: set_add_all_def)

lemma foldl_columns:
  "foldl (\<lambda>keys item. case item of JObj m \<Rightarrow> set_add_all keys (map fst m) | _ \<Rightarrow> keys) acc items =
   set_add_all acc (concat (map (\<lambda>item. case item of JObj m \<Rightarrow> map fst m | _ \<Rightarrow> []) items))"
  by (induction items arbitrary: acc) (auto simp: set_add_all_append split: json.splits)

lemma itemColumns_eq:
  "itemColumns items = js_set (concat (map (\<lambda>item. case item of JObj m \<Rightarrow> map fst m | _ \<Rightarrow> []) items))"
  unfolding itemColumns_def foldl_includes js_set_def by (rule foldl_columns)

lemma loop_scope_body:
  "ex_loopBody (foldl (\<lambda>scope s. if P s then enter_loop (f s) scope else scope) scope0 steps) \<longleftrightarrow>
     ex_loopBody scope0 \<or> (\<exists>s\<in>set steps. P s)"
  by (induction steps arbitrary: scope0) (auto simp: enter_loop_def Let_def)

text \<open>A step's expressions read \<open>each\<close> exactly when it loops itself without
  sub-steps or is in a looping group; its condition reads \<open>each\<close> only in the second case,
  so never where its values may not.\<close>

theorem scope_loop_body:
  "(ex_loopBody (stepScope steps stepName modes) \<longleftrightarrow>
     (\<exists>s\<in>set steps. sc_forEach s \<noteq> None \<and>
        ((Some (sc_name s) = stepName \<and> or_nil (sc_subSteps s) = []) \<or> has_sub s stepName))) \<and>
   (ex_loopBody (conditionScope steps stepName modes) \<longleftrightarrow>
     (\<exists>s\<in>set steps. sc_forEach s \<noteq> None \<and> has_sub s stepName))"
  unfolding stepScope_def conditionScope_def Let_def loop_scope_body by simp

theorem scope_loop_body_witness:
  "ex_loopBody (stepScope [ScopeStep ''a'' None None (Some None) None None] (Some ''a'') None) \<and>
   \<not> ex_loopBody (conditionScope [ScopeStep ''a'' None None (Some None) None None] (Some ''a'') None)"
  using scope_loop_body[of "[ScopeStep ''a'' None None (Some None) None None]" "Some ''a''" None]
  by (simp add: has_sub_def)

end
