(* ===== verification/Studio_State.thy ===== *)
theory Studio_State
  imports Studio_Edit Loop_Edit
begin

text \<open>
  The workflow studio as a state machine (\<open>components/WorkflowStudio/index.tsx\<close>, with the
  guards its graph and dialogs put on each action, \<open>graph.tsx\<close> and \<open>add-step.tsx\<close>).
  Each handler returns the next state and the steps it hands to \<open>props.onChange\<close>, if any.
\<close>

section \<open>State\<close>

record add_at =
  at_kind :: string
  at_group :: "string option"
  at_after :: "string option"
  at_branch :: bool

record studio =
  su_steps :: "wf_step list"
  su_adding :: "add_at option"
  su_showStep :: "string option"
  su_showGroup :: "string option"
  su_loopStep :: "string option"

type_synonym studio_result = "studio \<times> wf_step list option"

text \<open>Of the step whose form or loop is open the handlers read only the name, which
  \<open>su_showStep\<close> and \<open>su_loopStep\<close> keep. A sub-step has no mode, loop or sub-steps:
  inside a group the dialog offers neither groups nor loops.\<close>

definition as_sub :: "wf_step \<Rightarrow> step_base" where
  "as_sub s = \<lparr>st_name = st_name s, st_dependsOn = st_dependsOn s, st_inputs = st_inputs s,
     st_outputs = st_outputs s, st_type = st_type s, st_rest = st_rest s\<rparr>"

definition as_step :: "step_base \<Rightarrow> wf_step" where
  "as_step s = \<lparr>st_name = st_name s, st_dependsOn = st_dependsOn s, st_inputs = st_inputs s,
     st_outputs = st_outputs s, st_type = st_type s, st_rest = st_rest s,
     st_mode = None, st_forEach = None, st_subSteps = None\<rparr>"

definition initial_studio :: "studio_view \<Rightarrow> studio" where
  "initial_studio props = \<lparr>su_steps = or_nil (vw_steps props), su_adding = None, su_showStep = None,
     su_showGroup = None, su_loopStep = None\<rparr>"

definition hand_over :: "studio \<Rightarrow> studio_result" where
  "hand_over st = (st, Some (su_steps st))"

section \<open>Handlers\<close>

definition withoutDependency :: "'a spec_step_scheme list \<Rightarrow> string \<Rightarrow> 'a spec_step_scheme list" where
  "withoutDependency steps name =
     map (\<lambda>s. if names_dep name s
              then s\<lparr>st_dependsOn := map_option (filter (\<lambda>d. d \<noteq> name)) (st_dependsOn s)\<rparr> else s) steps"

definition componentDidUpdate :: "bool \<Rightarrow> studio_view \<Rightarrow> studio_view \<Rightarrow> studio \<Rightarrow> studio_result" where
  "componentDidUpdate stepsChanged prev next st =
     (case studioUpdate stepsChanged prev next (su_steps st) of
        None \<Rightarrow> (st, None)
      | Some (steps, changed) \<Rightarrow>
          let st' = st\<lparr>su_steps := steps\<rparr> in (st', if changed then Some steps else None))"

definition checkStepName :: "studio \<Rightarrow> string \<Rightarrow> bool" where
  "checkStepName st name =
     list_ex (\<lambda>step. st_name step = name \<or> list_ex (\<lambda>sub. st_name sub = name) (or_nil (st_subSteps step)))
       (su_steps st)"

definition place :: "studio_view \<Rightarrow> studio \<Rightarrow> wf_step \<Rightarrow> wf_step list \<times> wf_step" where
  "place props st step =
     (let mode = coalesce (vw_mode props) ''StepByStep''; subMode = coalesce (vw_subMode props) ''DAG''
      in case su_adding st of
           None \<Rightarrow> (su_steps st, step)
         | Some adding \<Rightarrow>
             if truthy (at_group adding) then
               let into = (\<lambda>s. insertAfter (or_nil (st_subSteps s)) (at_after adding) (as_sub step)
                              (groupMode (st_mode s) None (Some subMode)) (at_branch adding));
                   next = map (\<lambda>s. if Some (st_name s) \<noteq> at_group adding then s
                                   else s\<lparr>st_subSteps := Some (into s)\<rparr>) (su_steps st);
                   placed = foldl (\<lambda>p s. if Some (st_name s) \<noteq> at_group adding then p
                              else case find (\<lambda>sub. st_name sub = st_name step) (into s) of
                                     Some sub \<Rightarrow> as_step sub | None \<Rightarrow> step) step (su_steps st)
               in (next, placed)
             else
               let next = insertAfter (su_steps st) (at_after adding) step mode (at_branch adding)
               in (next, coalesce (find (\<lambda>s. st_name s = st_name step) next) step))"

definition addStep :: "studio_view \<Rightarrow> wf_step \<Rightarrow> studio \<Rightarrow> studio_result" where
  "addStep props step st =
     (case su_adding st of
        None \<Rightarrow> (st, None)
      | Some _ \<Rightarrow>
          let steps = fst (place props st step);
              next = (if st_type step = ''step-group''
                      then Some \<lparr>at_kind = ''step'', at_group = Some (st_name step), at_after = None, at_branch = False\<rparr>
                      else None)
          in hand_over (st\<lparr>su_steps := steps, su_adding := next\<rparr>))"

text \<open>The step a form hands over, with the members it holds: a member that is absent is
  \<open>None\<close>, one held as \<open>undefined\<close> is \<open>Some None\<close>.\<close>

record step_patch =
  up_name :: string
  up_dependsOn :: "string list option option"
  up_inputs :: "string list option option"
  up_outputs :: "string list option option"
  up_type :: string
  up_rest :: "(string, json) js_map"
  up_mode :: "string option option"
  up_forEach :: "for_each option option"
  up_subSteps :: "step_base list option option"

definition spread_step :: "wf_step \<Rightarrow> step_patch \<Rightarrow> wf_step" where
  "spread_step s p = \<lparr>st_name = up_name p, st_dependsOn = coalesce (up_dependsOn p) (st_dependsOn s),
     st_inputs = coalesce (up_inputs p) (st_inputs s), st_outputs = coalesce (up_outputs p) (st_outputs s),
     st_type = up_type p, st_rest = foldl (\<lambda>m kv. AList.update (fst kv) (snd kv) m) (st_rest s) (up_rest p),
     st_mode = coalesce (up_mode p) (st_mode s), st_forEach = coalesce (up_forEach p) (st_forEach s),
     st_subSteps = coalesce (up_subSteps p) (st_subSteps s)\<rparr>"

definition patch_sub :: "step_patch \<Rightarrow> step_base" where
  "patch_sub p = \<lparr>st_name = up_name p, st_dependsOn = coalesce (up_dependsOn p) None,
     st_inputs = coalesce (up_inputs p) None, st_outputs = coalesce (up_outputs p) None,
     st_type = up_type p, st_rest = up_rest p\<rparr>"

definition onUpdateStep :: "step_patch \<Rightarrow> studio \<Rightarrow> studio_result" where
  "onUpdateStep step st =
     (let showGroup = su_showGroup st;
          steps = map (\<lambda>s.
            if \<not> truthy showGroup \<and> st_name s = up_name step then spread_step s step
            else if truthy showGroup \<and> Some (st_name s) = showGroup
            then s\<lparr>st_subSteps := map_option (map (\<lambda>sub. if st_name sub = up_name step then patch_sub step else sub))
                     (st_subSteps s)\<rparr>
            else s) (su_steps st)
      in hand_over (st\<lparr>su_steps := steps, su_showStep := None, su_showGroup := None\<rparr>))"

definition onDeleteStep :: "string \<Rightarrow> string option \<Rightarrow> studio \<Rightarrow> studio_result" where
  "onDeleteStep name grp st =
     (let steps =
        (if truthy grp
         then map (\<lambda>s. if Some (st_name s) = grp
                then s\<lparr>st_subSteps := Some (withoutDependency
                        (filter (\<lambda>sub. st_name sub \<noteq> name) (or_nil (st_subSteps s))) name)\<rparr>
                else s) (su_steps st)
         else withoutDependency (filter (\<lambda>s. st_name s \<noteq> name) (su_steps st)) name)
      in hand_over (st\<lparr>su_steps := steps\<rparr>))"

definition onSaveLoop :: "for_each option \<Rightarrow> studio \<Rightarrow> studio_result" where
  "onSaveLoop forEach st =
     (case su_loopStep st of
        None \<Rightarrow> (st, None)
      | Some name \<Rightarrow> hand_over (st\<lparr>su_steps := setLoop (su_steps st) name forEach, su_loopStep := None\<rparr>))"

definition onGroupMode :: "string \<Rightarrow> string \<Rightarrow> studio \<Rightarrow> studio_result" where
  "onGroupMode grp mode st =
     (let steps = map (\<lambda>s. if st_name s = grp
            then s\<lparr>st_mode := Some mode,
                   st_subSteps := (if mode = ''StepByStep'' then Some (orderByDependencies (or_nil (st_subSteps s)))
                                   else st_subSteps s)\<rparr>
            else s) (su_steps st)
      in hand_over (st\<lparr>su_steps := steps\<rparr>))"

text \<open>\<open>edit\<close> applies one change to the steps of a group, or to the top level; the change
  is given at both types.\<close>

definition edit ::
  "string option \<Rightarrow> (step_base list \<Rightarrow> step_base list option) \<Rightarrow> (wf_step list \<Rightarrow> wf_step list option)
   \<Rightarrow> studio \<Rightarrow> studio_result" where
  "edit grp change change_top st =
     (let steps = (if truthy grp
           then map (\<lambda>s. if Some (st_name s) \<noteq> grp then s
                  else case change (or_nil (st_subSteps s)) of
                         Some subSteps \<Rightarrow> s\<lparr>st_subSteps := Some subSteps\<rparr> | None \<Rightarrow> s) (su_steps st)
           else coalesce (change_top (su_steps st)) (su_steps st))
      in hand_over (st\<lparr>su_steps := steps\<rparr>))"

definition onLink :: "string \<Rightarrow> string \<Rightarrow> string option \<Rightarrow> studio \<Rightarrow> studio_result" where
  "onLink from to grp = edit grp (\<lambda>list. Some (addDependency list from to)) (\<lambda>list. Some (addDependency list from to))"

definition onUnlink :: "string \<Rightarrow> string \<Rightarrow> string option \<Rightarrow> studio \<Rightarrow> studio_result" where
  "onUnlink from to grp = edit grp (\<lambda>list. removeDependency list from to) (\<lambda>list. removeDependency list from to)"

text \<open>Swapping with a place outside the list would leave a hole: \<open>None\<close>.\<close>

definition swap_with :: "string \<Rightarrow> int \<Rightarrow> 'a spec_step_scheme list \<Rightarrow> 'a spec_step_scheme list option" where
  "swap_with name delta list =
     (case find_index (\<lambda>s. st_name s = name) list of
        None \<Rightarrow> None
      | Some i \<Rightarrow>
          let j = int i + delta
          in if 0 \<le> j \<and> j < int (length list) then Some (list[i := list ! nat j, nat j := list ! i]) else None)"

definition onMove :: "string \<Rightarrow> string option \<Rightarrow> int \<Rightarrow> studio \<Rightarrow> studio_result option" where
  "onMove name grp delta st =
     (let holes = (truthy grp \<and> list_ex (\<lambda>s. Some (st_name s) = grp \<and>
                      swap_with name delta (or_nil (st_subSteps s)) = None) (su_steps st)) \<or>
                  (\<not> truthy grp \<and> swap_with name delta (su_steps st) = None)
      in if holes then None
         else Some (edit grp (swap_with name delta) (swap_with name delta) st))"

section \<open>The names a studio holds\<close>

definition step_names :: "wf_step \<Rightarrow> string list" where
  "step_names s = st_name s # map st_name (or_nil (st_subSteps s))"

definition all_names :: "wf_step list \<Rightarrow> string list" where
  "all_names steps = concat (map step_names steps)"

definition names_ok :: "wf_step list \<Rightarrow> bool" where
  "names_ok steps \<longleftrightarrow> distinct (all_names steps)"

lemma all_names_simps [simp]:
  "all_names [] = []" "all_names (s # ss) = step_names s @ all_names ss" "all_names (xs @ ys) = all_names xs @ all_names ys"
  by (simp_all add: all_names_def)

lemma checkStepName_iff: "checkStepName st name \<longleftrightarrow> name \<in> set (all_names (su_steps st))"
  by (auto simp: checkStepName_def all_names_def step_names_def list_ex_iff)

lemma names_ok_sub:
  assumes "names_ok steps" and "s \<in> set steps"
  shows "distinct (map st_name (or_nil (st_subSteps s)))"
  using assms by (induction steps) (auto simp: names_ok_def step_names_def)

lemma names_ok_top: "names_ok steps \<Longrightarrow> distinct (map st_name steps)"
proof (induction steps)
  case (Cons s steps)
  have "st_name ` set steps \<subseteq> set (all_names steps)" by (auto simp: all_names_def step_names_def)
  with Cons show ?case by (auto simp: names_ok_def step_names_def)
qed simp

lemma names_ok_mset: "mset (all_names xs) = mset (all_names ys) \<Longrightarrow> names_ok xs = names_ok ys"
  unfolding names_ok_def by (rule mset_eq_imp_distinct_iff)

lemma mset_all_names: "mset (all_names steps) = \<Sum>\<^sub># (image_mset (\<lambda>s. mset (step_names s)) (mset steps))"
  by (induction steps) auto

lemma all_names_map:
  "(\<And>s. s \<in> set steps \<Longrightarrow> mset (step_names (f s)) = mset (step_names s)) \<Longrightarrow>
   mset (all_names (map f steps)) = mset (all_names steps)"
  by (induction steps) auto

lemma names_ok_map:
  "names_ok steps \<Longrightarrow> (\<And>s. s \<in> set steps \<Longrightarrow> mset (step_names (f s)) = mset (step_names s)) \<Longrightarrow>
   names_ok (map f steps)"
  using names_ok_mset[OF all_names_map] by blast

lemma distinct_concat_shrink:
  "distinct (concat (map g xs)) \<Longrightarrow> (\<And>x. x \<in> set xs \<Longrightarrow> distinct (g x) \<Longrightarrow> distinct (f x) \<and> set (f x) \<subseteq> set (g x)) \<Longrightarrow>
   distinct (concat (map f xs)) \<and> set (concat (map f xs)) \<subseteq> set (concat (map g xs))"
proof (induction xs)
  case (Cons x xs)
  have IH: "distinct (concat (map f xs)) \<and> set (concat (map f xs)) \<subseteq> set (concat (map g xs))"
    using Cons.prems by (intro Cons.IH) auto
  moreover have "distinct (f x) \<and> set (f x) \<subseteq> set (g x)" using Cons.prems by simp
  ultimately show ?case using Cons.prems(1) by (simp only: list.map concat.simps distinct_append set_append) blast
qed simp

lemma names_ok_shrink:
  assumes "names_ok steps"
    and "\<And>s. s \<in> set steps \<Longrightarrow> distinct (step_names s) \<Longrightarrow>
      distinct (step_names (f s)) \<and> set (step_names (f s)) \<subseteq> set (step_names s)"
  shows "names_ok (map f steps)"
  using distinct_concat_shrink[of step_names steps "\<lambda>s. step_names (f s)"] assms
  by (simp add: names_ok_def all_names_def comp_def)

lemma names_ok_filter: "names_ok steps \<Longrightarrow> names_ok (filter P steps)"
proof (induction steps)
  case (Cons s steps)
  have "set (all_names (filter P steps)) \<subseteq> set (all_names steps)" by (auto simp: all_names_def)
  with Cons show ?case by (auto simp: names_ok_def)
qed simp

section \<open>What each handler keeps of the names\<close>

lemma step_names_keep [simp]:
  "step_names (s\<lparr>st_dependsOn := d\<rparr>) = step_names s" "step_names (s\<lparr>st_forEach := l\<rparr>) = step_names s"
  "step_names (s\<lparr>st_mode := m\<rparr>) = step_names s"
  "step_names (s\<lparr>st_subSteps := Some subs\<rparr>) = st_name s # map st_name subs"
  by (simp_all add: step_names_def)

lemma step_names_subs: "step_names (s\<lparr>st_subSteps := subs\<rparr>) = st_name s # map st_name (or_nil subs)"
  by (simp add: step_names_def)

definition only_deps :: "'a spec_step_scheme \<Rightarrow> 'a spec_step_scheme \<Rightarrow> bool" where
  "only_deps s s' \<longleftrightarrow> (\<exists>d. s' = s\<lparr>st_dependsOn := d\<rparr>)"

lemma only_deps_simps [simp]:
  "only_deps s s" "only_deps s (s\<lparr>st_dependsOn := d\<rparr>)" "only_deps s (redirect a n b s)"
proof -
  have "s = s\<lparr>st_dependsOn := st_dependsOn s\<rparr>" for s :: "'a spec_step_scheme" by simp
  then show refl: "only_deps s s" for s :: "'a spec_step_scheme" unfolding only_deps_def by metis
  show upd: "only_deps s (s\<lparr>st_dependsOn := d\<rparr>)" by (auto simp: only_deps_def)
  show "only_deps s (redirect a n b s)" using refl by (auto simp: redirect_def only_deps_def)
qed

lemma only_deps_name: "only_deps s s' \<Longrightarrow> st_name s' = st_name s"
  by (auto simp: only_deps_def)

lemma only_deps_names: "only_deps s s' \<Longrightarrow> step_names s' = step_names s"
  by (auto simp: only_deps_def)

lemma insertAfter_shape:
  "\<exists>us vs f added. steps = us @ vs \<and> insertAfter steps anchor step mode branch = map f us @ added # map f vs \<and>
     (\<forall>s. only_deps s (f s)) \<and> only_deps step added"
proof (cases "truthy anchor \<and> the anchor \<in> st_name ` set steps")
  case True
  then obtain a where a: "anchor = Some a" "a \<noteq> []" "a \<in> st_name ` set steps" by (auto simp: truthy_iff)
  obtain us vs where o: "steps = us @ vs" "insertAfter steps (Some a) step mode branch =
      map (redirect a (st_name step) branch) us @
       (if mode = ''DAG'' \<and> st_dependsOn step = None then step\<lparr>st_dependsOn := Some [a]\<rparr> else step)
       # map (redirect a (st_name step) branch) vs"
    by (rule insertAfter_split[OF a(2,3)])
  have "only_deps step (if mode = ''DAG'' \<and> st_dependsOn step = None then step\<lparr>st_dependsOn := Some [a]\<rparr> else step)"
    by simp
  with o show ?thesis unfolding a(1) using only_deps_simps(3) by blast
next
  case False
  then have "(if truthy anchor then find_index (\<lambda>s. st_name s = the anchor) steps else None) = None"
    by (auto simp: find_index_None) (metis image_eqI)
  then have "insertAfter steps anchor step mode branch = steps @ [step]"
    by (simp only: insertAfter_def option.case)
  then show ?thesis by (intro exI[of _ steps] exI[of _ "[]"] exI[of _ "\<lambda>s. s"] exI[of _ step]) simp
qed

lemma insertAfter_sub_names: "mset (map st_name (insertAfter subs anchor step mode branch)) =
    add_mset (st_name step) (mset (map st_name subs))"
proof -
  obtain us vs f added where o: "subs = us @ vs" "insertAfter subs anchor step mode branch = map f us @ added # map f vs"
    "\<forall>s. only_deps s (f s)" "only_deps step added"
    using insertAfter_shape[of subs anchor step mode branch] by blast
  have "st_name (f s) = st_name s" for s using o(3) by (simp only: only_deps_name)
  moreover have "st_name added = st_name step" using o(4) by (rule only_deps_name)
  ultimately show ?thesis unfolding o(2) by (simp add: o(1) comp_def)
qed

lemma insertAfter_all_names: "mset (all_names (insertAfter steps anchor step mode branch)) =
    mset (step_names step) + mset (all_names steps)"
proof -
  obtain us vs f added where o: "steps = us @ vs" "insertAfter steps anchor step mode branch = map f us @ added # map f vs"
    "\<forall>s. only_deps s (f s)" "only_deps step added"
    using insertAfter_shape[of steps anchor step mode branch] by blast
  have "mset (all_names (map f xs)) = mset (all_names xs)" for xs
    by (rule all_names_map) (rule arg_cong[OF only_deps_names], rule o(3)[rule_format])
  moreover have "step_names added = step_names step" using o(4) by (rule only_deps_names)
  ultimately show ?thesis unfolding o(2) by (simp add: o(1))
qed

lemma distinct_submset: "mset xs \<subseteq># mset ys \<Longrightarrow> distinct ys \<Longrightarrow> distinct xs"
  by (metis distinct_append mset_append mset_eq_imp_distinct_iff mset_subset_eq_exists_conv ex_mset)

lemma addStep_names:
  assumes "names_ok (su_steps st)" and "\<not> checkStepName st (st_name step)" and "or_nil (st_subSteps step) = []"
  shows "names_ok (su_steps (fst (addStep props step st)))"
proof (cases "su_adding st")
  case None
  then show ?thesis using assms(1) by (simp add: addStep_def)
next
  case (Some adding)
  let ?n = "st_name step"
  have new: "?n \<notin> set (all_names (su_steps st))" using assms(2) by (simp add: checkStepName_iff)
  show ?thesis
  proof (cases "truthy (at_group adding)")
    case False
    with Some have "su_steps (fst (addStep props step st)) =
        insertAfter (su_steps st) (at_after adding) step (coalesce (vw_mode props) ''StepByStep'') (at_branch adding)"
      by (simp add: addStep_def place_def hand_over_def Let_def)
    moreover have "mset (all_names \<dots>) = mset (?n # all_names (su_steps st))"
      using insertAfter_all_names[of "su_steps st"] assms(3) by (simp add: step_names_def)
    ultimately show ?thesis
      using new assms(1) unfolding names_ok_def by (metis distinct.simps(2) mset_eq_imp_distinct_iff)
  next
    case True
    define f where "f = (\<lambda>s :: wf_step. if Some (st_name s) \<noteq> at_group adding then s else s\<lparr>st_subSteps :=
       Some (insertAfter (or_nil (st_subSteps s)) (at_after adding) (as_sub step)
         (groupMode (st_mode s) None (Some (coalesce (vw_subMode props) ''DAG''))) (at_branch adding))\<rparr>)"
    have steps: "su_steps (fst (addStep props step st)) = map f (su_steps st)"
      using True Some by (simp add: addStep_def place_def hand_over_def Let_def f_def)
    have sub: "mset (step_names (f s)) = (if Some (st_name s) = at_group adding then {#?n#} else {#}) + mset (step_names s)" for s
      by (simp add: f_def insertAfter_sub_names as_sub_def step_names_def del: mset_map)
    have one: "mset (all_names (map f ss)) \<subseteq># add_mset ?n (mset (all_names ss))" if "distinct (map st_name ss)" for ss
      using that
    proof (induction ss)
      case (Cons s ss)
      show ?case
      proof (cases "Some (st_name s) = at_group adding")
        case here: True
        have "Some (st_name x) \<noteq> at_group adding" if "x \<in> set ss" for x
          using that here Cons.prems by (metis distinct.simps(2) image_eqI list.map(2) option.inject set_map)
        then have "map f ss = ss" by (intro map_idI) (simp add: f_def)
        then show ?thesis using sub[of s] here by simp
      next
        case False
        then show ?thesis using Cons sub[of s] by (simp add: subset_mset.add_left_mono)
      qed
    qed simp
    from one[OF names_ok_top[OF assms(1)]] have "mset (all_names (map f (su_steps st))) \<subseteq># mset (?n # all_names (su_steps st))"
      by simp
    moreover have "distinct (?n # all_names (su_steps st))" using new assms(1) by (simp add: names_ok_def)
    ultimately show ?thesis unfolding steps names_ok_def by (rule distinct_submset)
  qed
qed

definition keeps_subs :: "step_patch \<Rightarrow> studio \<Rightarrow> bool" where
  "keeps_subs step st \<longleftrightarrow> (\<forall>s\<in>set (su_steps st). st_name s = up_name step \<longrightarrow>
     (case up_subSteps step of None \<Rightarrow> True
      | Some subs \<Rightarrow> map st_name (or_nil subs) = map st_name (or_nil (st_subSteps s))))"

lemma onUpdateStep_names:
  assumes "names_ok (su_steps st)" and "keeps_subs step st"
  shows "names_ok (su_steps (fst (onUpdateStep step st)))"
proof -
  have sub: "map st_name (map (\<lambda>sub. if st_name sub = up_name step then patch_sub step else sub) subs) = map st_name subs" for subs
    by (simp add: patch_sub_def)
  have opt: "map st_name (or_nil (map_option (map (\<lambda>sub. if st_name sub = up_name step then patch_sub step else sub)) subs))
      = map st_name (or_nil subs)" for subs
    by (cases subs) (simp_all only: option.map or_nil_simps sub)
  have spread: "step_names (spread_step s step) = step_names s" if "s \<in> set (su_steps st)" "st_name s = up_name step" for s
    using that assms(2) by (cases "up_subSteps step") (auto simp: keeps_subs_def step_names_def spread_step_def)
  define f where "f = (\<lambda>s :: wf_step.
      if \<not> truthy (su_showGroup st) \<and> st_name s = up_name step then spread_step s step
      else if truthy (su_showGroup st) \<and> Some (st_name s) = su_showGroup st
      then s\<lparr>st_subSteps := map_option (map (\<lambda>sub. if st_name sub = up_name step then patch_sub step else sub))
               (st_subSteps s)\<rparr>
      else s)"
  have grouped: "step_names (s\<lparr>st_subSteps := map_option (map (\<lambda>sub. if st_name sub = up_name step
      then patch_sub step else sub)) (st_subSteps s)\<rparr>) = step_names s" for s :: wf_step
    unfolding step_names_subs opt by (simp add: step_names_def)
  have "mset (step_names (f s)) = mset (step_names s)" if "s \<in> set (su_steps st)" for s
    unfolding f_def using spread[OF that] grouped by simp
  then have "names_ok (map f (su_steps st))" by (rule names_ok_map[OF assms(1)])
  then show ?thesis by (simp add: onUpdateStep_def Let_def hand_over_def f_def)
qed

lemma withoutDependency_names [simp]: "map st_name (withoutDependency steps name) = map st_name steps"
  by (simp add: withoutDependency_def comp_def)

lemma onDeleteStep_names:
  assumes "names_ok (su_steps st)"
  shows "names_ok (su_steps (fst (onDeleteStep name grp st)))"
proof (cases "truthy grp")
  case True
  have "names_ok (map (\<lambda>s. if Some (st_name s) = grp
       then s\<lparr>st_subSteps := Some (withoutDependency
             (filter (\<lambda>sub. st_name sub \<noteq> name) (or_nil (st_subSteps s))) name)\<rparr> else s) (su_steps st))"
  proof (rule names_ok_shrink[OF assms])
    fix s :: wf_step assume "distinct (step_names s)"
    then have "distinct (st_name s # map st_name (filter (\<lambda>sub. st_name sub \<noteq> name) (or_nil (st_subSteps s)))) \<and>
        set (st_name s # map st_name (filter (\<lambda>sub. st_name sub \<noteq> name) (or_nil (st_subSteps s)))) \<subseteq> set (step_names s)"
      by (auto simp: step_names_def distinct_map_filter)
    with \<open>distinct (step_names s)\<close> show "distinct (step_names (if Some (st_name s) = grp
         then s\<lparr>st_subSteps := Some (withoutDependency (filter (\<lambda>sub. st_name sub \<noteq> name) (or_nil (st_subSteps s))) name)\<rparr>
         else s)) \<and> set (step_names (if Some (st_name s) = grp
         then s\<lparr>st_subSteps := Some (withoutDependency (filter (\<lambda>sub. st_name sub \<noteq> name) (or_nil (st_subSteps s))) name)\<rparr>
         else s)) \<subseteq> set (step_names s)"
      by (simp only: step_names_subs or_nil_simps withoutDependency_names split: if_split) blast
  qed
  then show ?thesis using True by (simp add: onDeleteStep_def hand_over_def Let_def)
next
  case False
  have "names_ok (withoutDependency (filter (\<lambda>s. st_name s \<noteq> name) (su_steps st)) name)"
    unfolding withoutDependency_def by (rule names_ok_map[OF names_ok_filter[OF assms]]) simp
  then show ?thesis using False by (simp add: onDeleteStep_def hand_over_def Let_def)
qed

lemma onSaveLoop_names:
  "names_ok (su_steps st) \<Longrightarrow> names_ok (su_steps (fst (onSaveLoop forEach st)))"
  by (cases "su_loopStep st") (simp_all add: onSaveLoop_def hand_over_def setLoop_def names_ok_map)

lemma ordered_sub_names:
  assumes "names_ok steps" and "s \<in> set steps"
  shows "mset (map st_name (orderByDependencies (or_nil (st_subSteps s)))) = mset (map st_name (or_nil (st_subSteps s)))"
  using orderByDependencies_mset[OF names_ok_sub[OF assms]] by simp

lemma onGroupMode_names:
  assumes "names_ok (su_steps st)"
  shows "names_ok (su_steps (fst (onGroupMode grp mode st)))"
  unfolding onGroupMode_def hand_over_def Let_def using assms
  by simp (rule names_ok_map, auto simp: step_names_def ordered_sub_names[simplified])

text \<open>A change of one list that keeps the names it holds, at either level.\<close>

lemma edit_names:
  assumes "names_ok (su_steps st)"
    and "\<And>list list'. change list = Some list' \<Longrightarrow> mset (map st_name list') = mset (map st_name list)"
    and "\<And>list list'. change_top list = Some list' \<Longrightarrow> mset (all_names list') = mset (all_names list)"
  shows "names_ok (su_steps (fst (edit grp change change_top st)))"
proof (cases "truthy grp")
  case True
  have "names_ok (map (\<lambda>s. if Some (st_name s) \<noteq> grp then s
      else case change (or_nil (st_subSteps s)) of Some subs \<Rightarrow> s\<lparr>st_subSteps := Some subs\<rparr> | None \<Rightarrow> s) (su_steps st))"
    using assms(1) by (rule names_ok_map) (auto simp: step_names_def assms(2)[simplified] split: option.splits)
  then show ?thesis using True by (simp add: edit_def hand_over_def Let_def)
next
  case False
  have "names_ok (coalesce (change_top (su_steps st)) (su_steps st))"
    using assms(1) names_ok_mset[OF assms(3)] by (cases "change_top (su_steps st)") auto
  then show ?thesis using False by (simp add: edit_def hand_over_def Let_def)
qed

lemma onLink_names:
  assumes "names_ok (su_steps st)"
  shows "names_ok (su_steps (fst (onLink from to grp st)))"
  unfolding onLink_def
proof (rule edit_names[OF assms])
  show "mset (map st_name list') = mset (map st_name list)"
    if "Some (addDependency list from to) = Some list'" for list list' :: "step_base list"
    using that addDependency_names[of list "from" to] by (metis option.inject)
  show "mset (all_names list') = mset (all_names list)"
    if "Some (addDependency list from to) = Some list'" for list list' :: "wf_step list"
    using that unfolding addDependency_def by (auto intro!: all_names_map)
qed

lemma removeDependency_Some:
  assumes "removeDependency steps from to = Some steps'"
  shows "\<exists>f. steps' = map f steps \<and> (\<forall>s. only_deps s (f s))"
  using assms
  by (intro exI[of _ "\<lambda>s. if st_name s = to then s\<lparr>st_dependsOn := Some (filter (\<lambda>d. d \<noteq> from) (or_nil (st_dependsOn s)))\<rparr> else s"])
     (auto simp: removeDependency_def split: option.splits if_splits)

lemma onUnlink_names:
  assumes "names_ok (su_steps st)"
  shows "names_ok (su_steps (fst (onUnlink from to grp st)))"
  unfolding onUnlink_def
proof (rule edit_names[OF assms])
  fix list list' :: "step_base list"
  assume "removeDependency list from to = Some list'"
  from removeDependency_Some[OF this] obtain f where f: "list' = map f list" "\<forall>s. only_deps s (f s)" by blast
  show "mset (map st_name list') = mset (map st_name list)"
    unfolding f(1) using only_deps_name[OF f(2)[rule_format]] by (simp add: comp_def)
next
  fix list list' :: "wf_step list"
  assume "removeDependency list from to = Some list'"
  from removeDependency_Some[OF this] obtain f where f: "list' = map f list" "\<forall>s. only_deps s (f s)" by blast
  show "mset (all_names list') = mset (all_names list)"
    unfolding f(1) by (rule all_names_map) (simp only: only_deps_names[OF f(2)[rule_format]])
qed

lemma swap_with_mset: "swap_with name delta list = Some list' \<Longrightarrow> mset list' = mset list"
  unfolding swap_with_def
  by (auto simp: Let_def mset_swap find_index_Some split: option.splits if_splits dest!: find_index_Some)

lemma onMove_names:
  assumes "names_ok (su_steps st)" and "onMove name grp delta st = Some r"
  shows "names_ok (su_steps (fst r))"
proof -
  have "r = edit grp (swap_with name delta) (swap_with name delta) st"
    using assms(2) by (simp add: onMove_def Let_def split: if_splits)
  moreover have "mset (map st_name list') = mset (map st_name list)"
    if "swap_with name delta list = Some list'" for list list' :: "step_base list"
    using swap_with_mset[OF that] by simp
  moreover have "mset (all_names list') = mset (all_names list)"
    if "swap_with name delta list = Some list'" for list list' :: "wf_step list"
    unfolding mset_all_names swap_with_mset[OF that] ..
  ultimately show ?thesis using edit_names[OF assms(1)] by blast
qed

lemma orderByDependencies_names_ok: "names_ok steps \<Longrightarrow> names_ok (orderByDependencies steps)"
  using names_ok_mset[of "orderByDependencies steps" steps] orderByDependencies_mset[OF names_ok_top[of steps]]
  by (simp add: mset_all_names)

lemma componentDidUpdate_names:
  assumes "names_ok (su_steps st)" and "names_ok (or_nil (vw_steps next))"
  shows "names_ok (su_steps (fst (componentDidUpdate changed prev next st)))"
proof (cases "studioUpdate changed prev next (su_steps st)")
  case None
  then show ?thesis using assms(1) by (simp add: componentDidUpdate_def)
next
  case (Some r)
  have groups: "names_ok (map orderGroup steps)" if "names_ok steps" for steps
    using that by (rule names_ok_map)
      (auto simp: orderGroup_def step_names_subs ordered_sub_names[OF that, simplified] step_names_def)
  define base where "base = (if changed then or_nil (vw_steps next) else su_steps st)"
  have base: "names_ok base" using assms by (simp add: base_def)
  have "fst r \<in> {base, orderByDependencies base, map orderGroup base, map orderGroup (orderByDependencies base)}"
    using Some unfolding studioUpdate_def Let_def base_def[symmetric] by (simp split: if_splits) (metis fst_conv)+
  then have "names_ok (fst r)"
    using base groups orderByDependencies_names_ok by (simp only: insert_iff empty_iff) metis
  with Some show ?thesis by (cases r) (simp add: componentDidUpdate_def Let_def)
qed

section \<open>The studio as a transition system\<close>

definition list_at :: "studio \<Rightarrow> string option \<Rightarrow> spec_step list" where
  "list_at st grp = (if truthy grp
     then concat (map (\<lambda>s. map (\<lambda>sub. \<lparr>st_name = st_name sub, st_dependsOn = st_dependsOn sub,
            st_inputs = st_inputs sub, st_outputs = st_outputs sub\<rparr>) (or_nil (st_subSteps s)))
          (filter (\<lambda>s. Some (st_name s) = grp) (su_steps st)))
     else map (\<lambda>s. \<lparr>st_name = st_name s, st_dependsOn = st_dependsOn s,
            st_inputs = st_inputs s, st_outputs = st_outputs s\<rparr>) (su_steps st))"

inductive studio_trans :: "studio_view \<times> studio \<Rightarrow> studio_view \<times> studio \<Rightarrow> bool" where
  open_add: "\<not> vw_readOnly p \<Longrightarrow> studio_trans (p, st) (p, st\<lparr>su_adding := Some at\<rparr>)"
| close_add: "studio_trans (p, st) (p, st\<lparr>su_adding := None\<rparr>)"
| add: "\<not> checkStepName st (st_name step) \<Longrightarrow> or_nil (st_subSteps step) = [] \<Longrightarrow>
    studio_trans (p, st) (p, fst (addStep p step st))"
| open_edit: "studio_trans (p, st) (p, st\<lparr>su_showStep := Some name, su_showGroup := grp\<rparr>)"
| close_edit: "studio_trans (p, st) (p, st\<lparr>su_showStep := None, su_showGroup := None\<rparr>)"
| update: "su_showStep st = Some (up_name step) \<Longrightarrow> keeps_subs step st \<Longrightarrow>
    studio_trans (p, st) (p, fst (onUpdateStep step st))"
| delete: "\<not> vw_readOnly p \<Longrightarrow> studio_trans (p, st) (p, fst (onDeleteStep name grp st))"
| open_loop: "\<not> vw_readOnly p \<Longrightarrow> studio_trans (p, st) (p, st\<lparr>su_loopStep := Some name\<rparr>)"
| close_loop: "studio_trans (p, st) (p, st\<lparr>su_loopStep := None\<rparr>)"
| save_loop: "studio_trans (p, st) (p, fst (onSaveLoop forEach st))"
| group_mode: "\<not> vw_readOnly p \<Longrightarrow> studio_trans (p, st) (p, fst (onGroupMode name mode st))"
| link: "\<not> vw_readOnly p \<Longrightarrow> canDependOn (list_at st grp) from to \<Longrightarrow>
    studio_trans (p, st) (p, fst (onLink from to grp st))"
| unlink: "\<not> vw_readOnly p \<Longrightarrow> studio_trans (p, st) (p, fst (onUnlink from to grp st))"
| move: "\<not> vw_readOnly p \<Longrightarrow> onMove name grp delta st = Some r \<Longrightarrow> studio_trans (p, st) (p, fst r)"
| props: "names_ok (or_nil (vw_steps p')) \<Longrightarrow>
    studio_trans (p, st) (p', fst (componentDidUpdate changed p p' st))"

inductive_cases studio_transE: "studio_trans (p, st) (p', st')"

lemma studio_trans_names:
  assumes "studio_trans x y" and "names_ok (su_steps (snd x))"
  shows "names_ok (su_steps (snd y))"
  using assms
  by (induction rule: studio_trans.induct)
     (simp_all add: addStep_names onUpdateStep_names onDeleteStep_names onSaveLoop_names onGroupMode_names
        onLink_names onUnlink_names onMove_names componentDidUpdate_names)

interpretation studio_names: machine studio_trans "\<lambda>x. names_ok (su_steps (snd x))"
  "\<lambda>x. snd x = initial_studio (fst x) \<and> names_ok (or_nil (vw_steps (fst x)))"
  by unfold_locales (auto simp: initial_studio_def intro: studio_trans_names)

lemma or_nil_map_option: "or_nil (map_option (filter P) v) = filter P (or_nil v)"
  by (cases v) simp_all

lemma two_steps: "R a b \<Longrightarrow> R b c \<Longrightarrow> R\<^sup>*\<^sup>* a c"
  by auto

section \<open>Moving a step\<close>




section \<open>Properties\<close>

text \<open>C3: through every sequence of the studio's actions, the steps and sub-steps keep
  distinct names: the name check on adding is enough.\<close>

theorem studio_names_invariant:
  assumes "studio_trans\<^sup>*\<^sup>* (props, initial_studio props) (props', st')" and "names_ok (or_nil (vw_steps props))"
  shows "names_ok (su_steps st')"
  using studio_names.reachable_inv[OF _ assms(1)] assms(2) by simp

theorem studio_names_invariant_witness:
  "\<exists>st'. studio_trans\<^sup>*\<^sup>* (view_of [plain_step ''a'' []] ''DAG'', initial_studio (view_of [plain_step ''a'' []] ''DAG''))
     (view_of [plain_step ''a'' []] ''DAG'', st') \<and> names_ok (su_steps st') \<and>
     map st_name (su_steps st') = [''a'', ''b'']"
proof -
  let ?p = "view_of [plain_step ''a'' []] ''DAG''"
  let ?at = "\<lparr>at_kind = ''step'', at_group = None, at_after = Some ''a'', at_branch = False\<rparr>"
  let ?s0 = "initial_studio ?p"
  let ?s1 = "?s0\<lparr>su_adding := Some ?at\<rparr>"
  let ?s2 = "fst (addStep ?p (plain_step ''b'' []) ?s1)"
  have 1: "studio_trans (?p, ?s0) (?p, ?s1)" by (rule studio_trans.open_add) code_simp
  have 2: "studio_trans (?p, ?s1) (?p, ?s2)" by (rule studio_trans.add) code_simp+
  have r: "studio_trans\<^sup>*\<^sup>* (?p, ?s0) (?p, ?s2)" by (rule two_steps[of studio_trans, OF 1 2])
  have ok: "names_ok (or_nil (vw_steps ?p))" by code_simp
  have m: "map st_name (su_steps ?s2) = [''a'', ''b'']" by code_simp
  show ?thesis
    by (rule exI[of _ ?s2], intro conjI, rule r, rule studio_names_invariant[OF r ok], rule m)
qed

lemma producerOf_iff:
  assumes "one_producer steps"
  shows "map_of (producerOf steps) inp = Some d \<longleftrightarrow> (\<exists>s\<in>set steps. st_name s = d \<and> inp \<in> set (or_nil (st_outputs s)))"
  using assms
proof (induction steps rule: rev_induct)
  case Nil
  then show ?case by (simp add: producerOf_def js_map_of_def)
next
  case (snoc x steps)
  then have "one_producer steps" "\<And>s. s \<in> set steps \<Longrightarrow> inp \<in> set (or_nil (st_outputs s)) \<Longrightarrow> inp \<notin> set (or_nil (st_outputs x))"
    by (auto simp: one_producer_def)
  then show ?case using snoc.IH unfolding producerOf_parts[of steps "[x]"] producerOf_one by auto
qed

text \<open>What a step's deletion leaves of its siblings: they are the others, in order, changed only in what they
  depend on; none names the step, and where names are distinct and no output has two producers they
  wait on each other exactly as before.\<close>

definition deletes_from :: "string \<Rightarrow> 'a spec_step_scheme list \<Rightarrow> 'a spec_step_scheme list \<Rightarrow> bool" where
  "deletes_from name steps rest \<longleftrightarrow>
     map (\<lambda>s. s\<lparr>st_dependsOn := None\<rparr>) rest = map (\<lambda>s. s\<lparr>st_dependsOn := None\<rparr>) (filter (\<lambda>s. st_name s \<noteq> name) steps) \<and>
     list_all (\<lambda>s. st_name s \<noteq> name \<and> \<not> names_dep name s) rest \<and>
     (distinct (map st_name steps) \<and> one_producer steps \<longrightarrow>
        edge_rel (waitsOn rest) = {(a, b) \<in> edge_rel (waitsOn steps). a \<noteq> name \<and> b \<noteq> name})"

lemma one_producer_filter: "one_producer steps \<Longrightarrow> one_producer (filter P steps)"
  unfolding one_producer_def by (induction steps) auto

lemma withoutDependency_deletes: "deletes_from name steps (withoutDependency (filter (\<lambda>s. st_name s \<noteq> name) steps) name)"
proof -
  let ?f = "\<lambda>s. if names_dep name s then s\<lparr>st_dependsOn := map_option (filter (\<lambda>d. d \<noteq> name)) (st_dependsOn s)\<rparr> else s"
  let ?left = "filter (\<lambda>s. st_name s \<noteq> name) steps"
  have rest: "withoutDependency ?left name = map ?f ?left" by (simp add: withoutDependency_def)
  have dep: "names_dep d (?f s) \<longleftrightarrow> names_dep d s \<and> d \<noteq> name" for d and s :: "'a spec_step_scheme"
    by (cases "st_dependsOn s") (auto simp: names_dep_def)
  have gone: "list_all (\<lambda>s. st_name s \<noteq> name \<and> \<not> names_dep name s) (map ?f ?left)"
    unfolding list_all_iff set_map ball_simps(9) dep by simp
  have same: "map (\<lambda>s. s\<lparr>st_dependsOn := None\<rparr>) (map ?f ?left) = map (\<lambda>s. s\<lparr>st_dependsOn := None\<rparr>) ?left" by simp
  have "edge_rel (waitsOn (map ?f ?left)) = {(a, b) \<in> edge_rel (waitsOn steps). a \<noteq> name \<and> b \<noteq> name}"
    if d: "distinct (map st_name steps)" and o: "one_producer steps"
  proof -
    have dl: "distinct (map st_name ?left)" using d by (rule distinct_map_filter)
    have reads: "reads_from ?left e s \<longleftrightarrow> reads_from steps e s" if "e \<noteq> name" for e and s :: "'a spec_step_scheme"
      using that unfolding reads_from_def producerOf_iff[OF o] producerOf_iff[OF one_producer_filter[OF o]] by auto
    have "edge_rel (waitsOn (map ?f ?left)) = {(st_name s, e) | s e. s \<in> set ?left \<and>
        e \<in> step_waits (st_name ` set ?left) (map_of (producerOf ?left)) (?f s)}"
      by (rule edge_waitsOn_map[OF dl]) simp_all
    also have "\<dots> = {(st_name s, e) | s e. s \<in> set ?left \<and> e \<in> st_name ` set ?left \<and> e \<noteq> st_name s \<and> (names_dep e s \<or> reads_from steps e s)}"
    proof -
      have "e \<in> step_waits (st_name ` set ?left) (map_of (producerOf ?left)) (?f s) \<longleftrightarrow>
          e \<in> st_name ` set ?left \<and> e \<noteq> st_name s \<and> (names_dep e s \<or> reads_from steps e s)" for e s
      proof (cases "e = name")
        case True
        then show ?thesis by (auto simp: step_waits_def)
      next
        case False
        have "reads_from ?left e (?f s) \<longleftrightarrow> reads_from steps e s" using reads[OF False, of s] by (simp add: reads_from_def)
        then show ?thesis using False dep[of e s] by (simp add: step_waits_def reads_from_def)
      qed
      then show ?thesis by simp
    qed
    also have "\<dots> = {(a, b) \<in> edge_rel (waitsOn steps). a \<noteq> name \<and> b \<noteq> name}"
      unfolding edge_waitsOn[OF d] step_waits_reads by auto
    finally show ?thesis .
  qed
  then show ?thesis unfolding deletes_from_def rest using gone same by blast
qed

text \<open>C8: deleting a step, of the workflow or of a group, hands over a workflow in which it is gone from the list
  it was in; the others there are kept in order and changed only in what they depend on, none
  names it, and where their names are distinct and no output has two producers they wait on each other
  exactly as before; of all else, and of a group but its sub-steps, nothing is changed.\<close>

theorem onDeleteStep_no_dangling:
  assumes "onDeleteStep name grp st = (st', told)"
  shows "told = Some (su_steps st') \<and>
    (\<not> truthy grp \<longrightarrow> deletes_from name (su_steps st) (su_steps st')) \<and>
    (truthy grp \<longrightarrow> list_all2 (\<lambda>s s'. if Some (st_name s) = grp
        then deletes_from name (or_nil (st_subSteps s)) (or_nil (st_subSteps s')) \<and> s'\<lparr>st_subSteps := st_subSteps s\<rparr> = s
        else s' = s) (su_steps st) (su_steps st'))"
  using assms
  by (auto simp: onDeleteStep_def hand_over_def Let_def list_all2_map2 withoutDependency_deletes intro!: list.rel_refl_strong)

definition grouped_steps :: "wf_step list" where
  "grouped_steps = [(plain_step ''g'' [])\<lparr>st_type := ''step-group'', st_subSteps := Some [as_sub (plain_step ''a'' []), as_sub (plain_step ''b'' [''a''])]\<rparr>]"

theorem onDeleteStep_no_dangling_witness:
  "\<exists>st' told. onDeleteStep ''a'' (Some ''g'') (initial_studio (view_of grouped_steps ''DAG'')) = (st', told) \<and> told = Some (su_steps st') \<and>
     map (\<lambda>s. map st_name (or_nil (st_subSteps s))) (su_steps st') = [[''b'']]"
proof -
  let ?s = "initial_studio (view_of grouped_steps ''DAG'')"
  let ?r = "onDeleteStep ''a'' (Some ''g'') ?s"
  have r: "?r = (fst ?r, snd ?r)" by simp
  have "map (\<lambda>s. map st_name (or_nil (st_subSteps s))) (su_steps (fst ?r)) = [[''b'']]" by code_simp
  moreover have "snd ?r = Some (su_steps (fst ?r))" using onDeleteStep_no_dangling[OF r] by (rule conjunct1)
  ultimately show ?thesis using r by (intro exI[of _ "fst ?r"] exI[of _ "snd ?r"] conjI) assumption+
qed



end
