(* ===== verification/Run_Loops.thy ===== *)
theory Run_Loops
  imports Step_Dependencies
begin

text \<open>
  How a run's steps and loops show: the badge and caption of a step
  (\<open>components/PipelineGraph/status.ts\<close>) and the lanes, progress and names of a loop's
  passes (\<open>components/PipelineGraph/loop.ts\<close>). Times are read by the library
  \<open>moment\<close>: the clock and the difference in seconds are arguments.
\<close>

section \<open>A step's badge and caption\<close>

datatype tone = Healthy | Progressing | Suspended | Neutral | Unhealthy | Failed | Undeployed

record badge =
  bd_tone :: tone
  bd_label :: string

definition recordStatus :: "string option \<Rightarrow> badge" where
  "recordStatus phase =
     (if phase = Some ''succeeded'' then \<lparr>bd_tone = Healthy, bd_label = ''Succeeded''\<rparr>
      else if phase = Some ''failed'' then \<lparr>bd_tone = Failed, bd_label = ''Failed''\<rparr>
      else if phase = Some ''terminated'' \<or> phase = Some ''stopped''
      then \<lparr>bd_tone = Failed, bd_label = ''Terminated''\<rparr>
      else if phase = Some ''suspending'' then \<lparr>bd_tone = Progressing, bd_label = ''Waiting for approval''\<rparr>
      else if phase = Some ''skipped'' then \<lparr>bd_tone = Neutral, bd_label = ''Skipped''\<rparr>
      else if phase = Some ''pending'' then \<lparr>bd_tone = Neutral, bd_label = ''Pending''\<rparr>
      else if phase = Some ''running'' \<or> phase = Some ''executing'' \<or> phase = Some ''initializing''
      then \<lparr>bd_tone = Progressing, bd_label = ''Running''\<rparr>
      else \<lparr>bd_tone = Neutral, bd_label = (if truthy phase then capitalise (the phase) else ''Unknown'')\<rparr>)"

record pass =
  ps_name :: string
  ps_alias :: "string option"
  ps_type :: "string option"
  ps_phase :: "string option"
  ps_message :: "string option"
  ps_reason :: "string option"
  ps_first :: "string option"
  ps_last :: "string option"
  ps_iteration :: "nat option"

definition stepStatus :: "'a pass_scheme \<Rightarrow> badge" where
  "stepStatus step = (if truthy (ps_phase step) then recordStatus (ps_phase step)
                      else \<lparr>bd_tone = Neutral, bd_label = ''Not started''\<rparr>)"

definition stepReached :: "'a pass_scheme \<Rightarrow> bool" where
  "stepReached step \<longleftrightarrow> truthy (ps_phase step) \<and> ps_phase step \<noteq> Some ''pending''"

definition zeroTime :: string where
  "zeroTime = ''0001-01-01T00:00:00Z''"

text \<open>\<open>seconds start end\<close> is \<open>moment\<close>'s difference, \<open>end = None\<close> for now.\<close>

definition timeDiff :: "(string \<Rightarrow> string option \<Rightarrow> int) \<Rightarrow> string option \<Rightarrow> string option \<Rightarrow> string" where
  "timeDiff secs start until =
     (if \<not> truthy start \<or> start = Some zeroTime then ''-''
      else let s = secs (the start) (if truthy until \<and> until \<noteq> Some zeroTime then until else None)
           in if s > 60 then int_str (s div 60) @ ''m '' @ int_str (s mod 60) @ ''s'' else int_str s @ ''s'')"

record caption =
  cp_text :: string
  cp_error :: bool

definition stepCaption ::
  "(string \<Rightarrow> string option \<Rightarrow> int) \<Rightarrow> (string \<Rightarrow> string) \<Rightarrow> 'a pass_scheme \<Rightarrow> caption" where
  "stepCaption secs time step =
     (let phase = ps_phase step
      in if phase = Some ''failed'' \<or> phase = Some ''terminated'' \<or> phase = Some ''stopped''
         then \<lparr>cp_text = or_str (or_opt (ps_message step) (ps_reason step)) [], cp_error = True\<rparr>
         else if phase = Some ''suspending'' \<or> phase = Some ''running'' \<or> phase = Some ''executing''
         then \<lparr>cp_text = (if truthy (ps_first step) then ''since '' @ time (the (ps_first step)) else []),
               cp_error = False\<rparr>
         else if phase = None \<or> phase = Some [] \<or> phase = Some ''pending'' then \<lparr>cp_text = [], cp_error = False\<rparr>
         else if \<not> truthy (ps_first step) then \<lparr>cp_text = or_str (ps_message step) [], cp_error = False\<rparr>
         else \<lparr>cp_text = timeDiff secs (ps_first step) (ps_last step) @ '' '' @ [CHR 0xB7] @ '' '' @
                         time (the (ps_first step)), cp_error = False\<rparr>)"

section \<open>Lanes\<close>

record body_step =
  by_name :: string
  by_type :: string
  by_alias :: "string option"
  by_dependsOn :: "string list option"

record loop_spec = body_step +
  ls_forEach :: "for_each option"
  ls_subSteps :: "body_step list option"

record loop_status =
  lo_mode :: string
  lo_items :: "json list option"
  lo_labels :: "string list option"

record loop_run = pass +
  lr_loop :: "loop_status option"
  lr_subSteps :: "pass list option"

record lane =
  ln_index :: nat
  ln_label :: string
  ln_key :: string
  ln_item :: "json option"
  ln_passes :: "pass list"

definition itemLabel :: "json option \<Rightarrow> nat \<Rightarrow> string" where
  "itemLabel item index =
     (case item of
        Some (JObj m) \<Rightarrow> (case map_of m ''name'' of Some (JStr s) \<Rightarrow> s | _ \<Rightarrow> CHR ''#'' # nat_str index)
      | Some (JStr s) \<Rightarrow> s
      | Some (JInt i) \<Rightarrow> int_str i
      | Some (JDec d) \<Rightarrow> d
      | Some (JBool b) \<Rightarrow> if b then ''true'' else ''false''
      | _ \<Rightarrow> CHR ''#'' # nat_str index)"

definition loop_body :: "loop_spec \<Rightarrow> body_step list" where
  "loop_body spec = (if by_type spec = ''step-group'' then or_nil (ls_subSteps spec)
     else [\<lparr>by_name = by_name spec, by_type = by_type spec, by_alias = by_alias spec,
            by_dependsOn = by_dependsOn spec\<rparr>])"

definition passName :: "string \<Rightarrow> string \<Rightarrow> string \<Rightarrow> bool \<Rightarrow> string" where
  "passName loop label sub grp =
     (if grp then loop @ ''-'' @ label @ ''-'' @ sub else loop @ ''-'' @ label)"

definition laneSpec :: "string \<Rightarrow> string \<Rightarrow> 'a body_step_scheme list \<Rightarrow> 'a body_step_scheme list" where
  "laneSpec loop label steps =
     (let names = map by_name steps;
          scoped = (\<lambda>name. if name \<in> set names then passName loop label name True else name)
      in map (\<lambda>s. s\<lparr>by_name := scoped (by_name s), by_dependsOn := map_option (map scoped) (by_dependsOn s)\<rparr>) steps)"

definition lane_count :: "json list \<Rightarrow> pass list \<Rightarrow> nat" where
  "lane_count items passes =
     max (length items)
       (foldl (\<lambda>n p. case ps_iteration p of Some i \<Rightarrow> max n (i + 1) | None \<Rightarrow> n) 0 passes)"

definition titled :: "body_step list \<Rightarrow> string \<Rightarrow> string \<Rightarrow> bool \<Rightarrow> pass \<Rightarrow> pass" where
  "titled template run label grp p =
     (if truthy (ps_alias p) then p
      else case find (\<lambda>b. passName run label (by_name b) grp = ps_name p) template of
             Some t \<Rightarrow> p\<lparr>ps_alias := or_opt (by_alias t) (Some (by_name t))\<rparr>
           | None \<Rightarrow> p)"

definition not_started :: "string \<Rightarrow> string \<Rightarrow> bool \<Rightarrow> body_step \<Rightarrow> pass" where
  "not_started run label grp t =
     \<lparr>ps_name = passName run label (by_name t) grp, ps_alias = or_opt (by_alias t) (Some (by_name t)),
      ps_type = Some (by_type t), ps_phase = None, ps_message = None, ps_reason = None,
      ps_first = None, ps_last = None, ps_iteration = None\<rparr>"

definition loopLanes :: "'a loop_run_scheme \<Rightarrow> loop_spec option \<Rightarrow> lane list" where
  "loopLanes run spec =
     (let items = or_nil (Option.bind (lr_loop run) lo_items);
          labels = Option.bind (lr_loop run) lo_labels;
          passes = or_nil (lr_subSteps run);
          template = (case spec of Some s \<Rightarrow> loop_body s | None \<Rightarrow> []);
          grp = ((case spec of Some s \<Rightarrow> by_type s = ''step-group'' | None \<Rightarrow> False) \<or>
                 ps_type run = Some ''step-group'')
      in map (\<lambda>index.
           let given = Option.bind labels (\<lambda>ls. nth_opt ls index);
               label = coalesce given (nat_str index);
               own = map (titled template (ps_name run) label grp) (filter (\<lambda>p. ps_iteration p = Some index) passes);
               own' = (if own = [] then map (not_started (ps_name run) label grp) template else own)
           in \<lparr>ln_index = index, ln_label = coalesce given (itemLabel (nth_opt items index) index),
               ln_key = label, ln_item = nth_opt items index, ln_passes = own'\<rparr>)
         [0..<lane_count items passes])"

section \<open>Progress\<close>

definition laneStatus :: "lane \<Rightarrow> tone \<times> bool" where
  "laneStatus lane =
     (let tones = map (\<lambda>p. bd_tone (stepStatus p)) (ln_passes lane)
      in if Failed \<in> set tones then (Failed, False)
         else if Progressing \<in> set tones then (Progressing, False)
         else let done = (ln_passes lane \<noteq> [] \<and> list_all (\<lambda>p. ps_phase p = Some ''succeeded'') (ln_passes lane))
              in (if done then Healthy else Neutral, done))"

record progress =
  pg_segments :: "(string \<times> tone) list"
  pg_done :: nat
  pg_total :: nat

definition loopProgress :: "lane list \<Rightarrow> progress" where
  "loopProgress lanes =
     (let statuses = map laneStatus lanes
      in \<lparr>pg_segments = map (\<lambda>(i, l). (ln_label l, fst (statuses ! i))) (enumerate 0 lanes),
          pg_done = length (filter snd statuses), pg_total = length lanes\<rparr>)"

definition shownChips :: nat where
  "shownChips = 4"

record described =
  ds_source :: string
  ds_chips :: "string list"
  ds_more :: nat
  ds_count :: "nat option"

text \<open>\<open>String(v)\<close> of an expression's text; an item list that is neither a list nor a
  text has no expression to show, and prints as JavaScript prints it (\<open>print\<close>).\<close>

definition describeItems :: "(json \<Rightarrow> string) \<Rightarrow> for_each \<Rightarrow> described" where
  "describeItems print forEach =
     (if truthy (fe_from forEach)
      then \<lparr>ds_source = ''from'', ds_chips = [the (fe_from forEach)], ds_more = 0, ds_count = None\<rparr>
      else case fe_items forEach of
             Some (JArr items) \<Rightarrow>
               let labels = map (\<lambda>(i, item). itemLabel (Some item) i) (enumerate 0 items)
               in \<lparr>ds_source = ''list'', ds_chips = take shownChips labels,
                   ds_more = length labels - shownChips, ds_count = Some (length labels)\<rparr>
           | None \<Rightarrow> \<lparr>ds_source = ''expression'', ds_chips = [[]], ds_more = 0, ds_count = None\<rparr>
           | Some JNull \<Rightarrow> \<lparr>ds_source = ''expression'', ds_chips = [[]], ds_more = 0, ds_count = None\<rparr>
           | Some (JStr s) \<Rightarrow> \<lparr>ds_source = ''expression'', ds_chips = [s], ds_more = 0, ds_count = None\<rparr>
           | Some v \<Rightarrow> \<lparr>ds_source = ''expression'', ds_chips = [print v], ds_more = 0, ds_count = None\<rparr>)"

record run_loop = loop_status +
  rl_iterations :: "(string, nat) js_map option"

definition withLoops :: "loop_run list \<Rightarrow> (string, run_loop) js_map option \<Rightarrow> loop_run list" where
  "withLoops steps loops =
     (case loops of
        None \<Rightarrow> steps
      | Some ls \<Rightarrow> map (\<lambda>s. case map_of ls (ps_name s) of
            None \<Rightarrow> s
          | Some loop \<Rightarrow>
              let iterations = or_nil (rl_iterations loop)
              in s\<lparr>lr_loop := Some \<lparr>lo_mode = lo_mode loop, lo_items = lo_items loop, lo_labels = lo_labels loop\<rparr>,
                   lr_subSteps := Some (map (\<lambda>p. case map_of iterations (ps_name p) of
                        Some i \<Rightarrow> p\<lparr>ps_iteration := Some i\<rparr> | None \<Rightarrow> p) (or_nil (lr_subSteps s)))\<rparr>) steps)"

section \<open>Every pass is in its lane\<close>

lemma titled_keeps [simp]:
  "ps_name (titled template run label grp p) = ps_name p" "ps_iteration (titled template run label grp p) = ps_iteration p"
  "ps_phase (titled template run label grp p) = ps_phase p"
  by (simp_all add: titled_def split: option.splits)

lemma length_loopLanes:
  "length (loopLanes run spec) = lane_count (or_nil (Option.bind (lr_loop run) lo_items)) (or_nil (lr_subSteps run))"
  by (simp add: loopLanes_def Let_def)

lemma titled_only:
  "titled template run label grp p = p \<or> \<not> truthy (ps_alias p) \<and> (titled template run label grp p)\<lparr>ps_alias := ps_alias p\<rparr> = p"
  by (simp add: titled_def split: option.splits)

lemma foldl_reached_iff:
  "k < foldl (\<lambda>n p. case ps_iteration p of Some i \<Rightarrow> max n (i + 1) | None \<Rightarrow> n) n0 ps \<longleftrightarrow>
   k < n0 \<or> (\<exists>p\<in>set ps. \<exists>i\<ge>k. ps_iteration p = Some i)"
  by (induction ps arbitrary: n0) (auto split: option.splits simp: less_Suc_eq_le)

lemma lane_count_iff: "k < lane_count items passes \<longleftrightarrow> k < length items \<or> (\<exists>p\<in>set passes. \<exists>i\<ge>k. ps_iteration p = Some i)"
  by (simp add: lane_count_def less_max_iff_disj foldl_reached_iff)

section \<open>Names of passes\<close>

lemma dash_not_digit: "CHR ''-'' \<notin> set (nat_str i)"
  using nat_str_digits[of "CHR ''-''" i] by auto

lemma first_dash:
  assumes "CHR ''-'' \<notin> set a" and "CHR ''-'' \<notin> set b" and "a @ CHR ''-'' # x = b @ CHR ''-'' # y"
  shows "a = b \<and> x = y"
  using assms
proof (induction a arbitrary: b)
  case Nil
  then show ?case by (cases b) auto
next
  case (Cons c a)
  then show ?case by (cases b) auto
qed

lemma filter_snd_zip: "length (filter P (map f xs)) = length (filter (\<lambda>x. P (f x)) xs)"
  by (induction xs) auto

lemma laneStatus_done:
  "snd (laneStatus l) \<longleftrightarrow> ln_passes l \<noteq> [] \<and> (\<forall>p\<in>set (ln_passes l). ps_phase p = Some ''succeeded'')"
  by (auto simp: laneStatus_def Let_def list_all_iff stepStatus_def recordStatus_def)

section \<open>Properties\<close>

text \<open>C15: a loop's lanes are numbered in order, one for each item and each item up to the last a pass
  ran for; a lane that some pass ran for holds exactly the passes of its item, in their order and
  unchanged but for a title where a pass has none; and a lane no pass ran for holds no pass of the
  run, only steps that have not started.\<close>

theorem loopLanes_partition:
  assumes "lanes = loopLanes run spec" and "passes = or_nil (lr_subSteps run)"
  shows "map ln_index lanes = [0..<length lanes] \<and>
    (\<forall>k. k < length lanes \<longleftrightarrow> k < length (or_nil (Option.bind (lr_loop run) lo_items)) \<or> (\<exists>p\<in>set passes. \<exists>i\<ge>k. ps_iteration p = Some i)) \<and>
    (\<forall>k<length lanes. let own = filter (\<lambda>p. ps_iteration p = Some k) passes; here = ln_passes (lanes ! k) in
       if own = [] then \<forall>p\<in>set here. ps_iteration p = None \<and> \<not> stepReached p
       else list_all2 (\<lambda>p q. p = q \<or> \<not> truthy (ps_alias q) \<and> p\<lparr>ps_alias := ps_alias q\<rparr> = q) here own)"
proof (intro conjI allI impI)
  show "map ln_index lanes = [0..<length lanes]"
    unfolding assms length_loopLanes by (simp add: loopLanes_def Let_def comp_def)
  show "k < length lanes \<longleftrightarrow> k < length (or_nil (Option.bind (lr_loop run) lo_items)) \<or> (\<exists>p\<in>set passes. \<exists>i\<ge>k. ps_iteration p = Some i)" for k
    unfolding assms length_loopLanes by (rule lane_count_iff)
  fix k assume k: "k < length lanes"
  show "let own = filter (\<lambda>p. ps_iteration p = Some k) passes; here = ln_passes (lanes ! k) in
      if own = [] then \<forall>p\<in>set here. ps_iteration p = None \<and> \<not> stepReached p
      else list_all2 (\<lambda>p q. p = q \<or> \<not> truthy (ps_alias q) \<and> p\<lparr>ps_alias := ps_alias q\<rparr> = q) here own"
  proof (cases "filter (\<lambda>p. ps_iteration p = Some k) passes = []")
    case True
    then show ?thesis using k unfolding assms length_loopLanes by (auto simp: loopLanes_def Let_def not_started_def stepReached_def)
  next
    case False
    then show ?thesis using k unfolding assms length_loopLanes
      by (simp add: loopLanes_def Let_def list_all2_map1 list.rel_refl_strong titled_only)
  qed
qed

definition one_pass_run :: loop_run where
  "one_pass_run = \<lparr>ps_name = ''loop'', ps_alias = None, ps_type = None, ps_phase = Some ''running'', ps_message = None,
     ps_reason = None, ps_first = None, ps_last = None, ps_iteration = None, lr_loop = None,
     lr_subSteps = Some [\<lparr>ps_name = ''loop-1'', ps_alias = None, ps_type = None, ps_phase = Some ''running'',
       ps_message = None, ps_reason = None, ps_first = None, ps_last = None, ps_iteration = Some 1\<rparr>]\<rparr>"

theorem loopLanes_partition_witness:
  "map ln_index (loopLanes one_pass_run None) = [0..<length (loopLanes one_pass_run None)] \<and> 1 < length (loopLanes one_pass_run None)"
  using loopLanes_partition[OF refl refl, where run = one_pass_run and spec = None] by (simp add: one_pass_run_def loopLanes_def lane_count_def)

text \<open>The passes of a loop without a key, which are named by the item's index, have
  names that tell both the item and the step apart; \<open>passName_keyed_clash\<close> shows that
  with keys the names of a group's passes can clash.\<close>

theorem passName_unkeyed_inj:
  "(passName loop (nat_str i) a True = passName loop (nat_str j) b True \<longleftrightarrow> i = j \<and> a = b) \<and>
   (passName loop (nat_str i) a False = passName loop (nat_str j) b False \<longleftrightarrow> i = j)"
proof -
  have "nat_str i @ CHR ''-'' # a = nat_str j @ CHR ''-'' # b \<longleftrightarrow> nat_str i = nat_str j \<and> a = b"
    using first_dash[OF dash_not_digit dash_not_digit] by blast
  then show ?thesis by (simp add: passName_def nat_str_inj)
qed

lemma passName_keyed_clash:
  "passName ''l'' ''a'' ''b-c'' True = passName ''l'' ''a-b'' ''c'' True"
  by (simp add: passName_def)

text \<open>A closed loop's summary has a segment per lane, in order, and counts as done
  exactly the lanes that have passes and whose passes all succeeded; those are the healthy
  segments.\<close>

theorem loopProgress_counts:
  "let pg = loopProgress lanes in
     pg_total pg = length lanes \<and> map fst (pg_segments pg) = map ln_label lanes \<and>
     pg_done pg = length (filter (\<lambda>l. ln_passes l \<noteq> [] \<and> list_all (\<lambda>p. ps_phase p = Some ''succeeded'') (ln_passes l)) lanes) \<and>
     pg_done pg = length (filter (\<lambda>s. snd s = Healthy) (pg_segments pg)) \<and> pg_done pg \<le> pg_total pg"
proof -
  have seg: "pg_segments (loopProgress lanes) = map (\<lambda>l. (ln_label l, fst (laneStatus l))) lanes"
    by (auto simp: loopProgress_def Let_def intro!: nth_equalityI simp: nth_enumerate_eq)
  have healthy: "fst (laneStatus l) = Healthy \<longleftrightarrow> snd (laneStatus l)" for l
    by (simp add: laneStatus_def Let_def)
  have don: "pg_done (loopProgress lanes) = length (filter (\<lambda>l. snd (laneStatus l)) lanes)"
    by (simp add: loopProgress_def filter_snd_zip comp_def)
  show ?thesis
    unfolding Let_def seg don filter_snd_zip
    by (simp add: healthy comp_def laneStatus_done list_all_iff loopProgress_def)
qed

text \<open>The chips of a typed-in list and the count of those not shown add up to the
  list.\<close>

theorem describeItems_adds_up:
  assumes "\<not> truthy (fe_from forEach)" and "fe_items forEach = Some (JArr items)"
  shows "ds_count (describeItems print forEach) = Some (length items) \<and>
    length (ds_chips (describeItems print forEach)) + ds_more (describeItems print forEach) = length items \<and>
    length (ds_chips (describeItems print forEach)) \<le> 4"
  using assms by (simp add: describeItems_def Let_def shownChips_def)

theorem describeItems_adds_up_witness:
  "ds_more (describeItems (\<lambda>_. []) \<lparr>fe_items = Some (JArr (replicate 6 JNull)), fe_from = None, fe_key = None, fe_mode = None\<rparr>) = 2"
  using describeItems_adds_up[of "\<lparr>fe_items = Some (JArr (replicate 6 JNull)), fe_from = None, fe_key = None, fe_mode = None\<rparr>"
      "replicate 6 JNull" "\<lambda>_. []"]
  by (simp add: describeItems_def shownChips_def Let_def)

end
