(* ===== verification/Expression_Scan.thy ===== *)
theory Expression_Scan
  imports Js_Prelude
begin

text \<open>
  Finding the \<open>$( )\<close> expressions of a value
  (\<open>extends/ExpressionEditor/completion.ts\<close>: \<open>openExpression\<close>,
  \<open>expressionSpans\<close>) and the conditions that are one whole expression
  (\<open>components/WorkflowStudio/condition.ts\<close>). Both scanners run over the characters with
  an index; the quote is \<open>None\<close> outside a string.
\<close>

section \<open>The two scanners\<close>

definition before_at :: "string \<Rightarrow> nat \<Rightarrow> char option" where
  "before_at src i = (if i = 0 then None else nth_opt src (i - 1))"

definition closes_quote :: "string \<Rightarrow> nat \<Rightarrow> char \<Rightarrow> bool" where
  "closes_quote src i q \<longleftrightarrow> nth_opt src i = Some q \<and> before_at src i \<noteq> Some (CHR 0x5C)"

function open_from :: "string \<Rightarrow> nat \<Rightarrow> nat option \<Rightarrow> nat \<Rightarrow> char option \<Rightarrow> nat option" where
  "open_from src i start depth quote =
     (if i \<ge> length src then start
      else let c = src ! i
      in case start of
           None \<Rightarrow>
             if c = CHR ''$'' \<and> nth_opt src (i + 1) = Some CHR ''('' \<and> before_at src i \<noteq> Some CHR ''$''
             then open_from src (i + 2) (Some (i + 2)) 1 quote
             else open_from src (i + 1) None depth quote
         | Some s \<Rightarrow>
             (case quote of
                Some q \<Rightarrow> open_from src (i + 1) start depth (if closes_quote src i q then None else quote)
              | None \<Rightarrow>
                  if c = CHR 0x22 \<or> c = CHR 0x27 then open_from src (i + 1) start depth (Some c)
                  else if c = CHR ''('' then open_from src (i + 1) start (depth + 1) None
                  else if c = CHR '')''
                  then open_from src (i + 1) (if depth - 1 = 0 then None else start) (depth - 1) None
                  else open_from src (i + 1) start depth None))"
  by pat_completeness auto
termination by (relation "measure (\<lambda>(src, i, _). length src - i)") auto

declare open_from.simps [simp del]

definition openExpression :: "string \<Rightarrow> nat option" where
  "openExpression src = open_from src 0 None 0 None"

function spans_from ::
  "string \<Rightarrow> nat \<Rightarrow> nat option \<Rightarrow> nat \<Rightarrow> char option \<Rightarrow> (nat \<times> nat) list" where
  "spans_from src i start depth quote =
     (if i \<ge> length src then (case start of Some s \<Rightarrow> [(s, length src)] | None \<Rightarrow> [])
      else let c = src ! i
      in case start of
           None \<Rightarrow>
             if c = CHR ''$'' \<and> nth_opt src (i + 1) = Some CHR ''$'' \<and> nth_opt src (i + 2) = Some CHR ''(''
             then spans_from src (i + 3) None depth quote
             else if c = CHR ''$'' \<and> nth_opt src (i + 1) = Some CHR ''(''
             then spans_from src (i + 2) (Some i) 1 quote
             else spans_from src (i + 1) None depth quote
         | Some s \<Rightarrow>
             (case quote of
                Some q \<Rightarrow> spans_from src (i + 1) start depth (if closes_quote src i q then None else quote)
              | None \<Rightarrow>
                  if c = CHR 0x22 \<or> c = CHR 0x27 then spans_from src (i + 1) start depth (Some c)
                  else if c = CHR ''('' then spans_from src (i + 1) start (depth + 1) None
                  else if c = CHR '')''
                  then if depth - 1 = 0 then (s, i + 1) # spans_from src (i + 1) None (depth - 1) None
                       else spans_from src (i + 1) start (depth - 1) None
                  else spans_from src (i + 1) start depth None))"
  by pat_completeness auto
termination by (relation "measure (\<lambda>(src, i, _). length src - i)") auto

declare spans_from.simps [simp del]

definition expressionSpans :: "string \<Rightarrow> (nat \<times> nat) list" where
  "expressionSpans src = spans_from src 0 None 0 None"

section \<open>Conditions\<close>

definition isCondition :: "string option \<Rightarrow> bool" where
  "isCondition value =
     (let src = trim (or_str value []);
          spans = expressionSpans (src @ '' '')
      in length spans = 1 \<and> fst (spans ! 0) = 0 \<and> snd (spans ! 0) = length src)"

datatype condition_mode = Cue | Expression

definition conditionMode :: "string option \<Rightarrow> condition_mode" where
  "conditionMode value = (if isCondition value then Expression else Cue)"

definition switchCondition :: "string option \<Rightarrow> condition_mode \<Rightarrow> string" where
  "switchCondition value to =
     (let src = trim (or_str value [])
      in if to = Expression \<and> src = [] then ''$()''
         else if to = Cue \<and> src = ''$()'' then []
         else or_str value [])"

section \<open>Issues and fixes\<close>

record expression_fix =
  fx_start :: nat
  fx_end :: nat
  fx_text :: string
  fx_message :: string

definition fixesFor :: "(nat \<times> string) list \<Rightarrow> expression_fix list \<Rightarrow> expression_fix list" where
  "fixesFor markers fixes =
     concat (map (\<lambda>(startColumn, message).
       filter (\<lambda>f. fx_start f + 1 = startColumn \<and> fx_message f = message) fixes) markers)"

record expression_issue =
  is_message :: string
  is_start :: nat
  is_end :: nat
  is_warning :: bool
  is_fix :: "string option"

definition hasExpression :: "json \<Rightarrow> bool" where
  "hasExpression value = (case value of JStr s \<Rightarrow> sublist ''$('' s | _ \<Rightarrow> False)"

definition blockingIssue :: "expression_issue list option \<Rightarrow> expression_issue option" where
  "blockingIssue issues = find (\<lambda>i. \<not> is_warning i) (or_nil issues)"

section \<open>Where spans lie\<close>

fun spans_ok :: "string \<Rightarrow> nat \<Rightarrow> (nat \<times> nat) list \<Rightarrow> bool" where
  "spans_ok src lo [] = True"
| "spans_ok src lo ((s, e) # spans) \<longleftrightarrow> lo \<le> s \<and> s + 2 \<le> e \<and> e \<le> length src \<and>
     src ! s = CHR ''$'' \<and> src ! (s + 1) = CHR ''('' \<and> spans_ok src e spans"

definition start_ok :: "string \<Rightarrow> nat \<Rightarrow> nat \<Rightarrow> nat option \<Rightarrow> bool" where
  "start_ok src lo i start = (case start of None \<Rightarrow> lo \<le> i
     | Some s \<Rightarrow> lo \<le> s \<and> s + 2 \<le> i \<and> s + 2 \<le> length src \<and> src ! s = CHR ''$'' \<and> src ! (s + 1) = CHR ''('')"

lemma start_ok_simps [simp]:
  "start_ok src lo i None = (lo \<le> i)"
  "start_ok src lo i (Some s) = (lo \<le> s \<and> s + 2 \<le> i \<and> s + 2 \<le> length src \<and> src ! s = CHR ''$'' \<and> src ! (s + 1) = CHR ''('')"
  by (simp_all add: start_ok_def)

lemma nth_opt_Some: "nth_opt xs i = Some x \<longleftrightarrow> i < length xs \<and> xs ! i = x"
  by (auto simp: nth_opt_def)

lemma spans_from_ok:
  "start_ok src lo i start \<Longrightarrow> spans_ok src lo (spans_from src i start depth quote)"
proof (induction src i start depth quote arbitrary: lo rule: spans_from.induct)
  case (1 src i start depth quote)
  show ?case
  proof (cases "i \<ge> length src")
    case True
    then show ?thesis using "1.prems" by (cases start) (simp_all add: spans_from.simps[of src i])
  next
    case False
    show ?thesis
    proof (cases start)
      case None
      then show ?thesis
        using False "1.prems" "1.IH"(1-3)[OF False refl None]
        by (subst spans_from.simps) (auto simp: Let_def nth_opt_Some)
    next
      case (Some s)
      show ?thesis
      proof (cases quote)
        case q: (Some q)
        then show ?thesis
          using False Some "1.prems" "1.IH"(9)[OF False refl Some q]
          by (subst spans_from.simps) (simp add: Let_def)
      next
        case None
        show ?thesis
          using False Some None "1.prems" "1.IH"(4-8)[OF False refl Some None]
          by (subst spans_from.simps) (auto simp: Let_def)
      qed
    qed
  qed
qed

section \<open>The scanners agree\<close>

definition escaped_at :: "string \<Rightarrow> nat \<Rightarrow> bool" where
  "escaped_at src i \<longleftrightarrow> before_at src i = Some CHR ''$'' \<and> nth_opt src i = Some CHR ''$'' \<and>
     nth_opt src (i + 1) = Some CHR ''(''"

definition open_span :: "string \<Rightarrow> nat option \<Rightarrow> (nat \<times> nat) list" where
  "open_span src k = (case k of None \<Rightarrow> [] | Some k \<Rightarrow> [(k - 2, length src)])"

definition closed_spans :: "string \<Rightarrow> (nat \<times> nat) list \<Rightarrow> bool" where
  "closed_spans src spans \<longleftrightarrow> (\<forall>(s, e)\<in>set spans. e > 0 \<and> nth_opt src (e - 1) = Some CHR '')'')"

lemma open_from_skip:
  assumes "nth_opt src i = Some CHR ''$''" "nth_opt src (i + 1) = Some CHR ''$''" "nth_opt src (i + 2) = Some CHR ''(''"
  shows "open_from src i None depth quote = open_from src (i + 3) None depth quote"
  using assms
  by (simp add: open_from.simps[of src i] open_from.simps[of src "Suc i"] open_from.simps[of src "Suc (Suc i)"]
      nth_opt_Some before_at_def Let_def numeral_3_eq_3)

lemma escaped_step:
  assumes "\<not> (nth_opt src i = Some CHR ''$'' \<and> nth_opt src (i + 1) = Some CHR ''$'' \<and> nth_opt src (i + 2) = Some CHR ''('')"
  shows "\<not> escaped_at src (i + 1)"
  using assms by (auto simp: escaped_at_def before_at_def)

lemma escaped_after:
  assumes "nth_opt src i = Some c" and "c \<noteq> CHR ''$''"
  shows "\<not> escaped_at src (i + 1)"
  using assms by (auto simp: escaped_at_def before_at_def)

lemma spans_from_open:
  assumes "start = None \<longrightarrow> \<not> escaped_at src i"
  shows "\<exists>closed. spans_from src i start depth quote =
      closed @ open_span src (open_from src i (map_option (\<lambda>s. s + 2) start) depth quote) \<and> closed_spans src closed"
  using assms
proof (induction src i start depth quote rule: spans_from.induct)
  case (1 src i start depth quote)
  show ?case
  proof (cases "i \<ge> length src")
    case True
    then show ?thesis
      by (intro exI[of _ "[]"])
         (auto simp: spans_from.simps[of src i] open_from.simps[of src i] open_span_def closed_spans_def split: option.splits)
  next
    case False
    then have at: "nth_opt src i = Some (src ! i)" by (simp add: nth_opt_def)
    show ?thesis
    proof (cases start)
      case None
      let ?skip = "src ! i = CHR ''$'' \<and> nth_opt src (i + 1) = Some CHR ''$'' \<and> nth_opt src (i + 2) = Some CHR ''(''"
      let ?opens = "src ! i = CHR ''$'' \<and> nth_opt src (i + 1) = Some CHR ''(''"
      consider "?skip" | "\<not> ?skip" "?opens" | "\<not> ?skip" "\<not> ?opens" by blast
      then show ?thesis
      proof cases
        case 1
        have "\<not> escaped_at src (i + 3)"
          using escaped_after[of src "i + 2"] 1 by (simp add: numeral_3_eq_3)
        from "1.IH"(1)[OF False refl None 1] this
        show ?thesis
          using False None 1 at open_from_skip[of src i depth quote]
          by (simp add: spans_from.simps[of src i] Let_def)
      next
        case 2
        have "before_at src i \<noteq> Some CHR ''$''" using 2 at "1.prems" None by (auto simp: escaped_at_def)
        then have "open_from src i None depth quote = open_from src (i + 2) (Some (i + 2)) 1 quote"
          using 2 False by (simp add: open_from.simps[of src i] Let_def)
        moreover have "spans_from src i None depth quote = spans_from src (i + 2) (Some i) 1 quote"
          using 2 False by (simp add: spans_from.simps[of src i] Let_def)
        ultimately show ?thesis using "1.IH"(2)[OF False refl None 2] None by simp
      next
        case 3
        have "open_from src i None depth quote = open_from src (i + 1) None depth quote"
          using 3(2) False by (auto simp: open_from.simps[of src i] Let_def)
        moreover have "spans_from src i None depth quote = spans_from src (i + 1) None depth quote"
          using 3 False by (auto simp: spans_from.simps[of src i] Let_def)
        moreover have "\<not> escaped_at src (i + 1)" using 3(1) at by (intro escaped_step) auto
        ultimately show ?thesis using "1.IH"(3)[OF False refl None 3] None by simp
      qed
    next
      case (Some s)
      show ?thesis
      proof (cases quote)
        case q: (Some q)
        show ?thesis
          using "1.IH"(9)[OF False refl Some q] Some q False
          by (simp add: spans_from.simps[of src i] open_from.simps[of src i] Let_def split: if_splits)
      next
        case None
        show ?thesis
        proof (cases "src ! i = CHR '')'' \<and> depth - 1 = 0")
          case True
          have "\<not> escaped_at src (i + 1)" using True at by (intro escaped_after[of src i]) auto
          with "1.IH"(6)[OF False refl Some None] True obtain closed where
            "spans_from src (i + 1) None (depth - 1) None = closed @ open_span src (open_from src (i + 1) None (depth - 1) None)"
            "closed_spans src closed" by auto
          then show ?thesis
            using True Some None False at
            by (intro exI[of _ "(s, i + 1) # closed"])
               (auto simp: spans_from.simps[of src i] open_from.simps[of src i] Let_def closed_spans_def)
        next
          case False
          with \<open>\<not> length src \<le> i\<close> Some None "1.IH"(4,5,7,8)[OF \<open>\<not> length src \<le> i\<close> refl Some None] show ?thesis
            by (auto simp: spans_from.simps[of src i] open_from.simps[of src i] Let_def)
        qed
      qed
    qed
  qed
qed

lemma not_escaped_0: "\<not> escaped_at src 0"
  by (simp add: escaped_at_def before_at_def)

section \<open>Properties\<close>

text \<open>C16: the spans found in a value are in order, do not overlap, lie within it and each
  starts with \<open>$(\<close>.\<close>

theorem expressionSpans_ok: "spans_ok src 0 (expressionSpans src)"
  unfolding expressionSpans_def by (rule spans_from_ok) simp

text \<open>C17: the completion's scanner and the highlighter's agree: every span but an open one
  ends at a closing parenthesis, and the text before the cursor ends inside an expression
  exactly when the last span is open, which then starts two characters before.\<close>

theorem openExpression_spans:
  "\<exists>closed. expressionSpans src = closed @ open_span src (openExpression src) \<and> closed_spans src closed"
  unfolding expressionSpans_def openExpression_def
  using spans_from_open[of None src 0 0 None] by (simp add: not_escaped_0)

text \<open>An \<open>if\<close> edited as an expression is, once trimmed, written
  \<open>$( ... )\<close>.\<close>

theorem isCondition_shape:
  assumes "isCondition value"
  shows "length (trim (or_str value [])) \<ge> 3 \<and> take 2 (trim (or_str value [])) = ''$('' \<and>
    last (trim (or_str value [])) = CHR '')''"
proof -
  define t where "t = trim (or_str value [])"
  let ?src = "t @ '' ''"
  from assms obtain n where sp: "expressionSpans ?src = [(0, n)]" and n: "n = length t"
    by (auto simp: isCondition_def Let_def t_def length_Suc_conv)
  have ok: "spans_ok ?src 0 [(0, n)]" using spans_from_ok[of ?src 0 0 None 0 None] sp unfolding expressionSpans_def by simp
  from spans_from_open[of None ?src 0 0 None] obtain closed where
    c: "[(0, n)] = closed @ open_span ?src (openExpression ?src)" "closed_spans ?src closed"
    using sp by (auto simp: not_escaped_0 expressionSpans_def openExpression_def)
  have "open_span ?src (openExpression ?src) = []"
    using c(1) n by (cases "openExpression ?src") (auto simp: open_span_def)
  with c(1) have "closed = [(0, n)]" by simp
  with c(2) have close: "nth_opt ?src (n - 1) = Some CHR '')''" by (simp add: closed_spans_def)
  have two: "2 \<le> n" "?src ! 0 = CHR ''$''" "?src ! 1 = CHR ''(''" using ok by simp_all
  then have ends: "t ! (n - 1) = CHR '')''" "t ! 0 = CHR ''$''" "t ! 1 = CHR ''(''"
    using close n by (auto simp: nth_opt_Some nth_append split: if_splits)
  then have "n \<noteq> 2" by auto
  moreover have "take 2 t = [t ! 0, t ! 1]"
    using two(1) n by (cases t; cases "tl t") auto
  moreover have "last t = t ! (n - 1)" using two(1) n by (subst last_conv_nth) auto
  ultimately show ?thesis using two(1) n ends unfolding t_def[symmetric] by simp
qed

theorem isCondition_shape_witness:
  "isCondition (Some '' $(a.b == 1) '') \<and> take 2 (trim '' $(a.b == 1) '') = ''$(''"
proof -
  have c: "isCondition (Some '' $(a.b == 1) '')" by code_simp
  from isCondition_shape[OF c] c show ?thesis by (simp add: or_str_def)
qed

text \<open>A string that ends in a backslash, written \<open>"\\"\<close> in CEL, never closes for the
  scanners: they take its closing quote as escaped, so the whole expression is not a
  condition.\<close>

lemma escaped_backslash_misread:
  "\<not> isCondition (Some (''$('' @ [CHR 0x22, CHR 0x5C, CHR 0x5C, CHR 0x22] @ '')''))"
  by code_simp

end
