(* ===== verification/Expression_Complete.thy ===== *)
theory Expression_Complete
  imports Expression_Scan
begin

text \<open>
  Completion and hover in the expression editor
  (\<open>extends/ExpressionEditor/completion.ts\<close>): the functions, methods and placement calls
  on offer, the chain of names before the cursor, what may follow it and the variable under
  an offset. The regular expressions are written out as the deterministic scanners they
  amount to.
\<close>

section \<open>Suggestions\<close>

datatype expr_var = ExprVar
  (ev_name: string) (ev_type: string) (ev_description: "string option") (ev_schema: "string option")
  (ev_children: "expr_var list option")

datatype suggestion_kind = Field | Function | Method | Snippet

record suggestion =
  sg_label :: string
  sg_kind :: suggestion_kind
  sg_detail :: "string option"
  sg_documentation :: "string option"
  sg_insertText :: string
  sg_snippet :: bool
  sg_replaceBefore :: nat

definition call_suggestion :: "suggestion_kind \<Rightarrow> string \<Rightarrow> string \<Rightarrow> string option \<Rightarrow> string \<Rightarrow> suggestion" where
  "call_suggestion kind label detail doc inserted =
     \<lparr>sg_label = label, sg_kind = kind, sg_detail = Some detail, sg_documentation = doc, sg_insertText = inserted,
      sg_snippet = True, sg_replaceBefore = 0\<rparr>"

definition globals :: "suggestion list" where
  "globals =
    [call_suggestion Function ''has'' ''has(a.b) bool''
       (Some ''Whether a field is set. Guard a read that may be absent: has(x.y) ? x.y : fallback'') ''has(${1})'',
     call_suggestion Function ''size'' ''size(x) int'' (Some ''The length of a string, list or map'') ''size(${1})'',
     call_suggestion Function ''int'' ''int(x) int''
       (Some ''Converts to an int; needed when a value has no known type'') ''int(${1})'',
     call_suggestion Function ''double'' ''double(x) double'' None ''double(${1})'',
     call_suggestion Function ''string'' ''string(x) string'' None ''string(${1})'',
     call_suggestion Function ''bool'' ''bool(x) bool'' None ''bool(${1})'']"

definition ends_with :: "string \<Rightarrow> string \<Rightarrow> bool" where
  "ends_with s e \<longleftrightarrow> suffix e s"

definition string_methods :: "suggestion list" where
  "string_methods = map (\<lambda>(label, detail).
      call_suggestion Method label detail None
        (if ends_with detail ''() string'' \<or> ends_with detail ''() int'' then label @ ''()'' else label @ ''(${1})''))
    [(''startsWith'', ''startsWith('prefix') bool''), (''endsWith'', ''endsWith('suffix') bool''),
     (''contains'', ''contains('text') bool''), (''matches'', ''matches('regex') bool''),
     (''lowerAscii'', ''lowerAscii() string''), (''upperAscii'', ''upperAscii() string''),
     (''trim'', ''trim() string''), (''replace'', ''replace('old', 'new') string''),
     (''split'', ''split(',') list(string)''), (''substring'', ''substring(start, end) string''),
     (''indexOf'', ''indexOf('text') int''), (''size'', ''size() int'')]"

definition list_methods :: "suggestion list" where
  "list_methods = map (\<lambda>(label, detail).
      call_suggestion Method label detail None (if label = ''size'' then ''size()'' else label @ ''(${1})''))
    [(''size'', ''size() int''), (''exists'', ''exists(x, pred) bool''), (''all'', ''all(x, pred) bool''),
     (''filter'', ''filter(x, pred) list''), (''map'', ''map(x, expr) list''), (''join'', ''join(',') string'')]"

definition methods :: "string \<Rightarrow> suggestion list" where
  "methods kind = (if kind = ''string'' then string_methods else if kind = ''list'' then list_methods else [])"

definition placement_cluster :: suggestion where
  "placement_cluster = call_suggestion Method ''cluster'' (''cluster('' @ [CHR 0x22] @ ''name'' @ [CHR 0x22] @ '')'')
     (Some ''Reads the component in that cluster instead of beside the reader'')
     (''cluster('' @ [CHR 0x22] @ ''${1}'' @ [CHR 0x22] @ '')'')"

definition placement_namespace :: suggestion where
  "placement_namespace = call_suggestion Method ''namespace'' (''namespace('' @ [CHR 0x22] @ ''name'' @ [CHR 0x22] @ '')'')
     (Some ''Reads the component in that namespace, in the reader's cluster unless cluster() precedes it'')
     (''namespace('' @ [CHR 0x22] @ ''${1}'' @ [CHR 0x22] @ '')'')"

definition placementsAfter :: "string list \<Rightarrow> suggestion list" where
  "placementsAfter calls =
     (if ''namespace'' \<in> set calls then []
      else if ''cluster'' \<in> set calls then [placement_namespace] else [placement_cluster, placement_namespace])"

text \<open>\<open>find\<close> of the source: the variable a path names.\<close>

fun findVar :: "expr_var list option \<Rightarrow> string list \<Rightarrow> expr_var option" where
  "findVar vars [] = None"
| "findVar vars [name] = find (\<lambda>v. ev_name v = name) (or_nil vars)"
| "findVar vars (name # path) =
     (case find (\<lambda>v. ev_name v = name) (or_nil vars) of None \<Rightarrow> None | Some v \<Rightarrow> findVar (ev_children v) path)"

section \<open>Names and chains\<close>

definition ident_start :: "char \<Rightarrow> bool" where
  "ident_start c \<longleftrightarrow> (let n = of_char c :: nat in (65 \<le> n \<and> n \<le> 90) \<or> (97 \<le> n \<and> n \<le> 122) \<or> n = 95)"

definition word_char :: "char \<Rightarrow> bool" where
  "word_char c \<longleftrightarrow> ident_start c \<or> (let n = of_char c :: nat in 48 \<le> n \<and> n \<le> 57)"

definition is_identifier :: "string \<Rightarrow> bool" where
  "is_identifier s \<longleftrightarrow> s \<noteq> [] \<and> ident_start (hd s) \<and> list_all word_char s"

definition fieldSuggestion :: "expr_var \<Rightarrow> suggestion" where
  "fieldSuggestion v =
     (let s = \<lparr>sg_label = ev_name v, sg_kind = Field, sg_detail = Some (ev_type v),
               sg_documentation = ev_description v, sg_insertText = ev_name v, sg_snippet = False,
               sg_replaceBefore = 0\<rparr>
      in if is_identifier (ev_name v) then s
         else s\<lparr>sg_insertText := ''['' @ [CHR 0x22] @ ev_name v @ [CHR 0x22] @ '']'', sg_replaceBefore := 1\<rparr>)"

definition ident_prefix :: "string \<Rightarrow> string" where
  "ident_prefix u = (case u of [] \<Rightarrow> [] | c # _ \<Rightarrow> if ident_start c then takeWhile word_char u else [])"

definition call_named :: "string \<Rightarrow> string \<Rightarrow> string option" where
  "call_named name u =
     (let head = ''.'' @ name @ ''(''
      in if take (length head) u = head
         then let r = drop (length head) u
              in map_option (\<lambda>j. drop (Suc j) r) (index_of CHR '')'' r)
         else None)"

definition call_at :: "string \<Rightarrow> (string \<times> string) option" where
  "call_at u = (case call_named ''cluster'' u of
       Some r \<Rightarrow> Some (''cluster'', r)
     | None \<Rightarrow> map_option (Pair ''namespace'') (call_named ''namespace'' u))"

definition index_at :: "string \<Rightarrow> (string \<times> string) option" where
  "index_at u =
     (if take 2 u = [CHR ''['', CHR 0x22]
      then let r = drop 2 u; body = takeWhile (\<lambda>c. c \<noteq> CHR 0x22) r; rest = drop (length body) r
           in if take 2 rest = [CHR 0x22, CHR '']''] then Some (body, drop 2 rest) else None
      else None)"

definition name_at :: "string \<Rightarrow> (string \<times> string) option" where
  "name_at u = (let v = (if take 1 u = ''.'' then drop 1 u else u); id = ident_prefix v
                in if id = [] then None else Some (id, drop (length id) v))"

record chain =
  ch_names :: "string list"
  ch_calls :: "string list"
  ch_endsWithIndex :: bool

lemma call_named_shorter: "call_named name u = Some r \<Longrightarrow> length r < length u"
  by (auto simp: call_named_def Let_def split: if_splits dest!: index_of_Some)

lemma call_at_shorter: "call_at u = Some (c, r) \<Longrightarrow> length r < length u"
  by (auto simp: call_at_def dest: call_named_shorter split: option.splits)

lemma index_at_shorter:
  assumes "index_at u = Some (b, r)"
  shows "length b + length r < length u"
proof -
  let ?r = "drop 2 u"
  have "length (takeWhile (\<lambda>c. c \<noteq> CHR 0x22) ?r) \<le> length ?r" by (rule length_takeWhile_le)
  moreover have "length u \<ge> 2" using assms by (auto simp: index_at_def split: if_splits dest: arg_cong[where f = length])
  ultimately show ?thesis using assms by (auto simp: index_at_def Let_def split: if_splits)
qed

lemma ident_prefix_le: "length (ident_prefix u) \<le> length u"
  by (auto simp: ident_prefix_def length_takeWhile_le split: list.splits intro: le_trans[OF length_takeWhile_le])

lemma name_at_shorter:
  assumes "name_at u = Some (n, r)"
  shows "length n + length r \<le> length u \<and> length r < length u"
proof -
  have "length n + length r \<le> length u \<and> n \<noteq> []"
    using assms ident_prefix_le[of u] ident_prefix_le[of "drop 1 u"]
    by (auto simp: name_at_def Let_def split: if_splits)
  then show ?thesis by (cases n) auto
qed

function chain_scan :: "string \<Rightarrow> chain \<Rightarrow> chain" where
  "chain_scan u acc =
     (case u of [] \<Rightarrow> acc | _ # u' \<Rightarrow>
       (case call_at u of
          Some (c, r) \<Rightarrow> chain_scan r (acc\<lparr>ch_calls := ch_calls acc @ [c], ch_endsWithIndex := False\<rparr>)
        | None \<Rightarrow>
            (case index_at u of
               Some (b, r) \<Rightarrow> chain_scan r (acc\<lparr>ch_names := ch_names acc @ [b], ch_endsWithIndex := True\<rparr>)
             | None \<Rightarrow>
                 (case name_at u of
                    Some (n, r) \<Rightarrow> chain_scan r (acc\<lparr>ch_names := ch_names acc @ [n], ch_endsWithIndex := False\<rparr>)
                  | None \<Rightarrow> chain_scan u' acc))))"
  by pat_completeness auto
termination
  by (relation "measure (\<lambda>(u, _). length u)")
     (auto dest!: call_at_shorter index_at_shorter name_at_shorter)

declare chain_scan.simps [simp del]

definition chainTokens :: "string \<Rightarrow> chain" where
  "chainTokens u = chain_scan u \<lparr>ch_names = [], ch_calls = [], ch_endsWithIndex = False\<rparr>"

section \<open>What may follow the text before the cursor\<close>

text \<open>One segment after a name: a field, an index or a placement call. A field followed by
  a parenthesis is only a call.\<close>

definition seg_at :: "string \<Rightarrow> string option" where
  "seg_at u =
     (if take 1 u = ''.''
      then let id = ident_prefix (drop 1 u); rest = drop (Suc (length id)) u
           in if id = [] then None
              else if take 1 rest = ''('' then map_option snd (call_at u) else Some rest
      else map_option snd (index_at u))"

lemma seg_at_shorter: "seg_at u = Some r \<Longrightarrow> length r < length u"
proof -
  assume s: "seg_at u = Some r"
  show ?thesis
  proof (cases "take 1 u = ''.''")
    case True
    then obtain v where "u = CHR ''.'' # v" by (cases u) auto
    with s show ?thesis
      by (auto simp: seg_at_def Let_def dest: call_at_shorter split: if_splits)
  next
    case False
    with s show ?thesis by (auto simp: seg_at_def dest!: index_at_shorter)
  qed
qed

function segs_end :: "string \<Rightarrow> string" where
  "segs_end u = (case seg_at u of None \<Rightarrow> u | Some r \<Rightarrow> segs_end r)"
  by pat_completeness auto
termination by (relation "measure length") (auto dest: seg_at_shorter)

declare segs_end.simps [simp del]

text \<open>The match of the chain, the dot after it and the name being typed, from one start.\<close>

definition match_from :: "string \<Rightarrow> (string \<times> bool \<times> string) option" where
  "match_from u =
     (let id = ident_prefix u
      in if id = [] then None
         else let rest = segs_end (drop (length id) u);
                  chain = take (length u - length rest) u;
                  dot = (take 1 rest = ''.'');
                  rest' = (if dot then drop 1 rest else rest);
                  partial = ident_prefix rest'
              in if length partial = length rest' then Some (chain, dot, partial) else None)"

fun chain_match :: "string \<Rightarrow> (string \<times> bool \<times> string) option" where
  "chain_match [] = None"
| "chain_match (c # u) = (case match_from (c # u) of Some m \<Rightarrow> Some m | None \<Rightarrow> chain_match u)"

record expression_env =
  en_enabled :: bool
  en_optedIn :: bool
  en_surface :: string
  en_variables :: "expr_var list option"

definition open_snippet :: suggestion where
  "open_snippet = \<lparr>sg_label = ''$( )'', sg_kind = Snippet, sg_detail = Some ''expression'',
     sg_documentation = Some ''A CEL expression, evaluated when the application renders'',
     sg_insertText = ''$(${1})'', sg_snippet = True, sg_replaceBefore = 0\<rparr>"

definition chain_path :: "string \<Rightarrow> bool \<Rightarrow> string \<Rightarrow> string list \<times> string" where
  "chain_path chain dot typed =
     (let parts = ch_names (chainTokens chain)
      in if dot then (parts, typed)
         else (butlast parts, or_str (if parts = [] then None else Some (last parts)) []))"

definition suggest_path ::
  "expression_env option \<Rightarrow> string list \<Rightarrow> string \<Rightarrow> string list \<Rightarrow> suggestion list \<times> nat" where
  "suggest_path env path partial calls =
     (let vars = Option.bind env en_variables
      in if path = [] then (map fieldSuggestion (or_nil vars) @ globals, length partial)
         else case findVar vars path of
                None \<Rightarrow> ([], length partial)
              | Some parent \<Rightarrow>
                  let fields = map fieldSuggestion (or_nil (ev_children parent))
                  in if length path = 2 \<and> path ! 0 = ''component''
                     then (fields @ placementsAfter calls, length partial)
                     else let kind = (if prefix ''list'' (ev_type parent) then ''list'' else ev_type parent)
                          in (fields @ methods kind, length partial))"

definition suggest :: "string \<Rightarrow> expression_env option \<Rightarrow> suggestion list \<times> nat" where
  "suggest before env =
     (case openExpression before of
        None \<Rightarrow> if \<not> ends_with before ''$'' \<or> ends_with before ''$$'' then ([], 0) else ([open_snippet], 1)
      | Some start \<Rightarrow>
          (case chain_match (drop start before) of
             None \<Rightarrow> suggest_path env [] [] []
           | Some (chain, dot, typed) \<Rightarrow>
               if \<not> dot \<and> typed = [] \<and> ch_endsWithIndex (chainTokens chain) then ([], 0)
               else let (path, partial) = chain_path chain dot typed
                    in suggest_path env path partial (ch_calls (chainTokens chain))))"

section \<open>The variable under an offset\<close>

fun word_start :: "string \<Rightarrow> nat \<Rightarrow> nat" where
  "word_start src 0 = 0"
| "word_start src (Suc k) = (if k < length src \<and> word_char (src ! k) then word_start src k else Suc k)"

function word_end :: "string \<Rightarrow> nat \<Rightarrow> nat" where
  "word_end src k = (if k < length src \<and> word_char (src ! k) then word_end src (Suc k) else k)"
  by pat_completeness auto
termination by (relation "measure (\<lambda>(src, k). length src - k)") auto

declare word_end.simps [simp del]

definition substring :: "string \<Rightarrow> nat \<Rightarrow> nat \<Rightarrow> string" where
  "substring src a b = take (b - a) (drop a src)"

definition index_suffix :: "string \<Rightarrow> (string \<times> nat) option" where
  "index_suffix s = map_option (\<lambda>k. (fst (the (index_at (drop k s))), k))
     (find (\<lambda>k. case index_at (drop k s) of Some (_, []) \<Rightarrow> True | _ \<Rightarrow> False) [0..<length s])"

definition call_suffix :: "string \<Rightarrow> nat option" where
  "call_suffix s = find (\<lambda>k. case call_at (drop k s) of Some (_, []) \<Rightarrow> True | _ \<Rightarrow> False) [0..<length s]"

lemma index_suffix_less: "index_suffix s = Some (b, k) \<Longrightarrow> k < length s"
  by (auto simp: index_suffix_def dest: find_Some_mem)

lemma call_suffix_less: "call_suffix s = Some k \<Longrightarrow> k < length s"
  by (auto simp: call_suffix_def dest: find_Some_mem)

lemma word_start_le: "word_start src k \<le> k"
  by (induction k) auto

function hover_path :: "string \<Rightarrow> nat \<Rightarrow> string list \<Rightarrow> string list" where
  "hover_path src i path =
     (if i = 0 then path
      else if src ! (i - 1) = CHR '']'' then
        (case index_suffix (take i src) of
           None \<Rightarrow> path
         | Some (body, k) \<Rightarrow>
             let j = word_start src k
             in if j < k then hover_path src j (substring src j k # body # path) else hover_path src k (body # path))
      else if src ! (i - 1) \<noteq> CHR ''.'' then path
      else
        (case call_suffix (take (i - 1) src) of
           Some k \<Rightarrow> hover_path src (k + 1) path
         | None \<Rightarrow>
             if i \<ge> 2 \<and> src ! (i - 2) = CHR '']'' then hover_path src (i - 1) path
             else let j = word_start src (i - 1)
                  in if j = i - 1 then path else hover_path src j (substring src j (i - 1) # path)))"
  by pat_completeness auto
termination
proof (relation "measure (\<lambda>(src, i, path). i)", goal_cases)
  case (2 src i path p body k j)
  then have "k < length (take i src)" by (intro index_suffix_less[of _ body]) simp
  then show ?case using 2 by simp
next
  case (3 src i path p body k j)
  then have "k < length (take i src)" by (intro index_suffix_less[of _ body]) simp
  then show ?case using 3 by simp
next
  case (6 src i path k)
  then have "k < length (take (i - 1) src)" by (intro call_suffix_less) simp
  then show ?case by (auto simp: less_diff_conv)
next
  case (5 src i path j)
  then show ?case using word_start_le[of src "i - 1"] by simp
qed auto

declare hover_path.simps [simp del]

record hovered =
  hv_path :: "string list"
  hv_variable :: expr_var
  hv_start :: nat
  hv_end :: nat

definition hoverAt :: "string \<Rightarrow> nat \<Rightarrow> expression_env option \<Rightarrow> hovered option" where
  "hoverAt src offset env =
     (if \<not> list_ex (\<lambda>(s, e). offset \<ge> s + 2 \<and> offset < e) (expressionSpans src) then None
      else let start = word_start src offset; stop = word_end src offset
           in if start = stop then None
              else let path = hover_path src start [substring src start stop]
                   in map_option (\<lambda>variable. \<lparr>hv_path = path, hv_variable = variable, hv_start = start, hv_end = stop\<rparr>)
                        (findVar (Option.bind env en_variables) path))"

section \<open>Bounds\<close>

lemma chain_scan_names:
  "n \<in> set (ch_names (chain_scan u acc)) \<Longrightarrow> n \<in> set (ch_names acc) \<or> length n \<le> length u"
proof (induction u acc rule: chain_scan.induct)
  case (1 u acc)
  show ?case
  proof (cases u)
    case Nil
    then show ?thesis using "1.prems" by (simp add: chain_scan.simps)
  next
    case u: (Cons c u')
    consider (call) x r where "call_at u = Some (x, r)" | (index) b r where "call_at u = None" "index_at u = Some (b, r)"
      | (name) m r where "call_at u = None" "index_at u = None" "name_at u = Some (m, r)"
      | (other) "call_at u = None" "index_at u = None" "name_at u = None"
      by (metis old.prod.exhaust option.exhaust)
    then show ?thesis
    proof cases
      case call
      then show ?thesis using "1.prems" "1.IH"(4)[OF u call refl] call_at_shorter[OF call] u
        by (subst (asm) chain_scan.simps) auto
    next
      case index
      then show ?thesis using "1.prems" "1.IH"(3)[OF u index refl] index_at_shorter[OF index(2)] u
        by (subst (asm) chain_scan.simps) auto
    next
      case name
      then show ?thesis using "1.prems" "1.IH"(2)[OF u name refl] name_at_shorter[OF name(3)] u
        by (subst (asm) chain_scan.simps) auto
    next
      case other
      then show ?thesis using "1.prems" "1.IH"(1)[OF u other] u by (subst (asm) chain_scan.simps) auto
    qed
  qed
qed

lemma match_from_le: "match_from u = Some (chain, dot, typed) \<Longrightarrow> length chain \<le> length u \<and> length typed \<le> length u"
proof -
  have "length (segs_end v) \<le> length v" for v
  proof (induction v rule: segs_end.induct)
    case (1 u)
    show ?case
    proof (cases "seg_at u")
      case (Some r)
      then show ?thesis using 1[OF Some] seg_at_shorter[OF Some] by (simp add: segs_end.simps[of u])
    qed (simp add: segs_end.simps[of u])
  qed
  from this[of "drop (length (ident_prefix u)) u"]
  have "length (segs_end (drop (length (ident_prefix u)) u)) \<le> length u" by simp
  moreover assume "match_from u = Some (chain, dot, typed)"
  ultimately show ?thesis by (auto simp: match_from_def Let_def split: if_splits)
qed

lemma chain_match_le: "chain_match u = Some (chain, dot, typed) \<Longrightarrow> length chain \<le> length u \<and> length typed \<le> length u"
proof (induction u)
  case (Cons c u)
  show ?case
  proof (cases "match_from (c # u)")
    case None
    with Cons show ?thesis by auto
  next
    case (Some m)
    with Cons.prems have "match_from (c # u) = Some (chain, dot, typed)" by simp
    then show ?thesis by (rule match_from_le)
  qed
qed simp

lemma chain_path_le: "chain_path chain dot typed = (path, partial) \<Longrightarrow> length partial \<le> max (length chain) (length typed)"
  using chain_scan_names[of "last (ch_names (chainTokens chain))" chain "\<lparr>ch_names = [], ch_calls = [], ch_endsWithIndex = False\<rparr>"]
  by (auto simp: chain_path_def Let_def chainTokens_def or_str_def truthy_iff split: if_splits)

lemma snd_suggest_path: "snd (suggest_path env path partial calls) = length partial"
  by (auto simp: suggest_path_def Let_def split: option.splits)

lemma word_start_word: "word_start src k \<le> i \<Longrightarrow> i < k \<Longrightarrow> i < length src \<and> word_char (src ! i)"
  by (induction k) (auto split: if_splits simp: less_Suc_eq)

lemma word_end_word: "k \<le> i \<Longrightarrow> i < word_end src k \<Longrightarrow> i < length src \<and> word_char (src ! i)"
proof (induction src k rule: word_end.induct)
  case (1 src k)
  then show ?case by (subst (asm) word_end.simps, cases "i = k") (auto simp: word_end.simps[of src k] split: if_splits)
qed

lemma word_end_ge: "k \<le> word_end src k"
proof (induction src k rule: word_end.induct)
  case (1 src k)
  then show ?case by (subst word_end.simps) auto
qed

lemma findVar_name: "findVar vars path = Some v \<Longrightarrow> ev_name v = last path"
  by (induction vars path rule: findVar.induct) (auto dest: find_Some_mem split: option.splits)

lemma hover_path_last: "path \<noteq> [] \<Longrightarrow> hover_path src i path \<noteq> [] \<and> last (hover_path src i path) = last path"
proof (induction src i path rule: hover_path.induct)
  case (1 src i path)
  show ?case
    using 1 by (subst (1 2) hover_path.simps) (auto simp: Let_def split: option.splits)
qed

section \<open>Properties\<close>

text \<open>Accepting a suggestion never replaces more than the text before the cursor
  holds.\<close>

theorem suggest_replace_bound: "snd (suggest before env) \<le> length before"
proof (cases "openExpression before")
  case None
  have "ends_with before ''$'' \<Longrightarrow> 1 \<le> length before" by (auto simp: ends_with_def suffix_def)
  with None show ?thesis by (auto simp: suggest_def)
next
  case (Some start)
  show ?thesis
  proof (cases "chain_match (drop start before)")
    case None
    with Some show ?thesis by (simp add: suggest_def snd_suggest_path)
  next
    case m: (Some m)
    obtain chain dot typed where m': "m = (chain, dot, typed)" by (cases m)
    obtain path partial where pp: "chain_path chain dot typed = (path, partial)" by force
    have "length partial \<le> length before"
      using chain_path_le[OF pp] chain_match_le[of "drop start before" chain dot typed] m m' by auto
    with Some m m' pp show ?thesis by (auto simp: suggest_def snd_suggest_path)
  qed
qed

text \<open>After a component's name, each placement call is offered once and in order:
  never one already made, and none once the namespace is given.\<close>

theorem placementsAfter_once:
  "sg_label ` set (placementsAfter calls) \<inter> set calls = {} \<and>
   (''cluster'' \<in> sg_label ` set (placementsAfter calls) \<longleftrightarrow> ''cluster'' \<notin> set calls \<and> ''namespace'' \<notin> set calls) \<and>
   (''namespace'' \<in> sg_label ` set (placementsAfter calls) \<longleftrightarrow> ''namespace'' \<notin> set calls)"
  by (auto simp: placementsAfter_def placement_cluster_def placement_namespace_def call_suggestion_def)

text \<open>What hovering shows is the variable the chain of names before the offset reads:
  its name is the word under the offset, and the range shown is that word.\<close>

theorem hoverAt_sound:
  assumes "hoverAt src offset env = Some h"
  shows "hv_start h \<le> offset \<and> offset \<le> hv_end h \<and> hv_start h < hv_end h \<and>
    (\<forall>i. hv_start h \<le> i \<and> i < hv_end h \<longrightarrow> i < length src \<and> word_char (src ! i)) \<and>
    findVar (Option.bind env en_variables) (hv_path h) = Some (hv_variable h) \<and>
    ev_name (hv_variable h) = substring src (hv_start h) (hv_end h)"
proof -
  let ?s = "word_start src offset" and ?e = "word_end src offset"
  let ?p = "hover_path src ?s [substring src ?s ?e]"
  from assms have ne: "?s \<noteq> ?e" and v: "findVar (Option.bind env en_variables) ?p = Some (hv_variable h)"
    and h: "hv_path h = ?p" "hv_start h = ?s" "hv_end h = ?e"
    by (auto simp: hoverAt_def Let_def split: if_splits)
  have "ev_name (hv_variable h) = substring src ?s ?e"
    using findVar_name[OF v] hover_path_last[of "[substring src ?s ?e]" src ?s] by simp
  moreover have "i < length src \<and> word_char (src ! i)" if "?s \<le> i" "i < ?e" for i
    using that word_start_word[of src offset i] word_end_word[of offset i src] by (cases "i < offset") auto
  ultimately show ?thesis
    using word_start_le[of src offset] word_end_ge[of offset src] ne v h by auto
qed

definition one_var_env :: expression_env where
  "one_var_env = \<lparr>en_enabled = True, en_optedIn = True, en_surface = ''policy'',
     en_variables = Some [ExprVar ''a'' ''map'' None None (Some [ExprVar ''b'' ''string'' None None None])]\<rparr>"

theorem hoverAt_sound_witness:
  "\<exists>h. hoverAt ''x $(a.b)'' 6 (Some one_var_env) = Some h \<and> ev_name (hv_variable h) = ''b'' \<and>
     substring ''x $(a.b)'' (hv_start h) (hv_end h) = ''b''"
proof -
  have "hoverAt ''x $(a.b)'' 6 (Some one_var_env) =
      Some \<lparr>hv_path = [''a'', ''b''], hv_variable = ExprVar ''b'' ''string'' None None None, hv_start = 6, hv_end = 7\<rparr>"
    by code_simp
  from this hoverAt_sound[OF this] show ?thesis by simp
qed

end
