(* ===== verification/Permission.thy ===== *)
theory Permission
  imports Js_Prelude
begin

text \<open>
  Who may do what (\<open>utils/permission.ts\<close>): resource names, matching a request against a
  permission, and the decision over a user's permissions; with its clients, the
  \<open>Permission\<close> component, the project picker (\<open>utils/currentProject.ts\<close>), the
  shared workflows (\<open>pages/SharedWorkflows/draft.ts\<close>) and the definition pages
  (\<open>utils/definitionPlace.ts\<close>).
\<close>

section \<open>Resource names\<close>

text \<open>A resource name is the list of its nodes, each a type and a value.\<close>

type_synonym resource_name = "(string \<times> string) list"

definition parse_node :: "string \<Rightarrow> string \<times> string" where
  "parse_node node =
     (let tn = split_on CHR '':'' node
      in if length tn = 2 then (tn ! 0, tn ! 1) else (tn ! 0, ''*''))"

function resourceName :: "string \<Rightarrow> resource_name" where
  "resourceName v =
     (case index_of CHR ''/'' (drop 1 v) of
        None \<Rightarrow> [parse_node v]
      | Some k \<Rightarrow>
          let index = k + 1; nextValue = drop (index + 1) v
          in parse_node (take index v) # (if nextValue \<noteq> [] then resourceName nextValue else []))"
  by pat_completeness auto
termination by (relation "measure length") (auto dest!: index_of_Some)

declare resourceName.simps [simp del]

text \<open>The code for \<open>resourceMatch\<close>: the first argument is the request.\<close>

fun resourceMatch :: "resource_name \<Rightarrow> resource_name \<Rightarrow> bool" where
  "resourceMatch target [] = (case target of [] \<Rightarrow> True | (t, _) # _ \<Rightarrow> t = [])"
| "resourceMatch target ((pt, pv) # perm) =
     (if pt = [] then (case target of [] \<Rightarrow> True | (t, _) # _ \<Rightarrow> t = [])
      else if pt = ''*'' then True
      else case target of
             [] \<Rightarrow> False
           | (t, v) # target' \<Rightarrow>
               if t = [] then False
               else if pt \<noteq> t then False
               else if pv \<noteq> v \<and> pv \<noteq> ''*'' \<and> v \<noteq> ''?'' then False
               else resourceMatch target' perm)"

section \<open>Decisions\<close>

record resource_action =
  ra_resource :: string
  ra_action :: string

record permission =
  pm_name :: string
  pm_resources :: "string list option"
  pm_actions :: "string list"
  pm_effect :: string

record user_info =
  ui_name :: string
  ui_platformPermissions :: "permission list option"
  ui_projectPermissions :: "(string, permission list option) js_map option"

definition match_permission :: "resource_action \<Rightarrow> permission \<Rightarrow> bool" where
  "match_permission request permission =
     (if ra_action request \<notin> set (pm_actions permission) \<and> ''*'' \<notin> set (pm_actions permission) then False
      else if or_nil (pm_resources permission) = [] then False
      else list_ex (\<lambda>r. resourceMatch (resourceName (ra_resource request)) (resourceName r))
             (or_nil (pm_resources permission)))"

definition permissions_for :: "string option \<Rightarrow> user_info \<Rightarrow> permission list" where
  "permissions_for project user =
     (let platform = or_nil (ui_platformPermissions user)
      in case ui_projectPermissions user of
           Some perms \<Rightarrow>
             if truthy project
             then if project = Some ''?''
                  then foldl (\<lambda>acc kv. case snd kv of Some ps \<Rightarrow> acc @ ps | None \<Rightarrow> acc) platform perms
                  else case map_of perms (the project) of Some (Some ps) \<Rightarrow> platform @ ps | _ \<Rightarrow> platform
             else platform
         | None \<Rightarrow> platform)"

definition denies :: "permission \<Rightarrow> bool" where
  "denies p \<longleftrightarrow> to_lower (pm_effect p) = ''deny''"

definition allows :: "permission \<Rightarrow> bool" where
  "allows p \<longleftrightarrow> to_lower (pm_effect p) = ''allow'' \<or> to_lower (pm_effect p) = []"

definition decide :: "resource_action \<Rightarrow> permission list \<Rightarrow> bool" where
  "decide request permissions =
     (if list_ex (\<lambda>p. denies p \<and> match_permission request p) permissions then False
      else list_ex (\<lambda>p. allows p \<and> match_permission request p) permissions)"

definition checkPermission ::
  "resource_action option \<Rightarrow> string option \<Rightarrow> user_info option \<Rightarrow> bool" where
  "checkPermission request project userInfo =
     (case request of None \<Rightarrow> True | Some request \<Rightarrow>
       (case userInfo of None \<Rightarrow> False | Some user \<Rightarrow>
          if ui_platformPermissions user = None \<and> ui_projectPermissions user = None then False
          else if \<not> truthy project \<and> or_nil (ui_platformPermissions user) = [] then False
          else decide request (permissions_for project user)))"

section \<open>Clients\<close>

text \<open>The \<open>Permission\<close> component: its children, or nothing.\<close>

definition Permission_component ::
  "user_info option \<Rightarrow> string option \<Rightarrow> resource_action \<Rightarrow> 'a \<Rightarrow> 'a option" where
  "Permission_component userInfo project request children =
     (if userInfo = None then None
      else if \<not> checkPermission (Some request) project userInfo then None else Some children)"

definition allProjects :: string where
  "allProjects = []"

definition seesAllProjects :: "user_info option \<Rightarrow> bool" where
  "seesAllProjects userInfo =
     checkPermission (Some \<lparr>ra_resource = ''project:*'', ra_action = ''list''\<rparr>) (Some []) userInfo"

definition resolveProject :: "string option \<Rightarrow> string list \<Rightarrow> bool \<Rightarrow> string" where
  "resolveProject asked projects all =
     (if truthy asked \<and> the asked \<in> set projects then the asked
      else if all then allProjects
      else or_str (nth_opt projects 0) allProjects)"

definition inProject :: "string \<Rightarrow> string option \<Rightarrow> bool" where
  "inProject picked project \<longleftrightarrow> picked = allProjects \<or> project = Some picked"

record picked_project =
  pp_current :: string
  pp_resolved :: bool

definition projectChanged :: "picked_project option \<Rightarrow> picked_project option \<Rightarrow> bool" where
  "projectChanged prev next \<longleftrightarrow>
     (case next of None \<Rightarrow> False | Some n \<Rightarrow> pp_resolved n \<and>
        (case prev of None \<Rightarrow> True | Some p \<Rightarrow> \<not> pp_resolved p \<or> pp_current p \<noteq> pp_current n))"

text \<open>The query's \<open>project\<close>, and the browser's stored one: \<open>None\<close> when reading the
  store throws.\<close>

definition askedProject :: "string option \<Rightarrow> string option option \<Rightarrow> string option" where
  "askedProject fromURL stored = (case fromURL of Some p \<Rightarrow> Some p | None \<Rightarrow> coalesce stored None)"

definition scopedTo :: "'a list option \<Rightarrow> picked_project option \<Rightarrow> ('a \<Rightarrow> string option) \<Rightarrow> 'a list" where
  "scopedTo items picked projectOf =
     (case picked of
        None \<Rightarrow> []
      | Some p \<Rightarrow> if \<not> pp_resolved p then []
                  else filter (\<lambda>item. inProject (pp_current p) (projectOf item)) (or_nil items))"

definition definitionResource :: "string \<Rightarrow> string option \<Rightarrow> string \<Rightarrow> string" where
  "definitionResource project whr name =
     (if whr = Some ''project'' then ''project:'' @ project @ ''/definition:'' @ name else ''definition:'' @ name)"

definition workflow_resource :: "string \<Rightarrow> string \<Rightarrow> string" where
  "workflow_resource project scope =
     (if scope = ''global'' then ''sharedWorkflow:*'' else ''project:'' @ project @ ''/workflow:*'')"

definition canCreate :: "string \<Rightarrow> string \<Rightarrow> user_info option \<Rightarrow> bool" where
  "canCreate project scope userInfo =
     checkPermission (Some \<lparr>ra_resource = workflow_resource project scope, ra_action = ''create''\<rparr>) (Some project) userInfo"

definition canChange :: "string \<Rightarrow> string \<Rightarrow> user_info option \<Rightarrow> bool" where
  "canChange project scope userInfo \<longleftrightarrow> scope \<noteq> ''environment'' \<and>
     checkPermission (Some \<lparr>ra_resource = workflow_resource project scope, ra_action = ''update''\<rparr>) (Some project) userInfo"

section \<open>The contract of a decision\<close>

text \<open>An access decision over a list of rules: some rule allows, and none denies.\<close>

locale deny_overrides =
  fixes matches :: "'r \<Rightarrow> 'p \<Rightarrow> bool" and allow deny :: "'p \<Rightarrow> bool" and verdict :: "'r \<Rightarrow> 'p list \<Rightarrow> bool"
  assumes verdict_iff: "verdict r ps \<longleftrightarrow>
    (\<exists>p\<in>set ps. allow p \<and> matches r p) \<and> (\<forall>p\<in>set ps. deny p \<longrightarrow> \<not> matches r p)"
begin

lemma default_deny: "\<not> verdict r []"
  by (simp add: verdict_iff)

lemma order_irrelevant: "set ps = set qs \<Longrightarrow> verdict r ps = verdict r qs"
  by (simp add: verdict_iff)

lemma deny_wins: "p \<in> set ps \<Longrightarrow> deny p \<Longrightarrow> matches r p \<Longrightarrow> \<not> verdict r ps"
  by (auto simp: verdict_iff)

lemma grant_adds: "verdict r ps \<Longrightarrow> (\<forall>p\<in>set qs. deny p \<longrightarrow> \<not> matches r p) \<Longrightarrow> verdict r (ps @ qs)"
  by (auto simp: verdict_iff)

lemma deny_removes: "verdict r (ps @ qs) \<Longrightarrow> (\<exists>p\<in>set ps. allow p \<and> matches r p) \<Longrightarrow> verdict r ps"
  by (auto simp: verdict_iff)

end

interpretation rbac: deny_overrides match_permission allows denies decide
  by unfold_locales (auto simp: decide_def list_ex_iff)

section \<open>What a permission's resource covers\<close>

text \<open>One node of a request against one node of a permission.\<close>

definition node_ok :: "string \<times> string \<Rightarrow> string \<times> string \<Rightarrow> bool" where
  "node_ok target perm \<longleftrightarrow> fst perm = fst target \<and> (snd perm = snd target \<or> snd perm = ''*'' \<or> snd target = ''?'')"

definition named_nodes :: "resource_name \<Rightarrow> resource_name" where
  "named_nodes r = takeWhile (\<lambda>n. fst n \<noteq> []) r"

lemma named_nodes_simps [simp]:
  "named_nodes [] = []" "named_nodes ((t, v) # r) = (if t = [] then [] else (t, v) # named_nodes r)"
  by (simp_all add: named_nodes_def)

definition covers :: "resource_name \<Rightarrow> resource_name \<Rightarrow> bool" where
  "covers perm target \<longleftrightarrow>
     list_all2 node_ok target perm \<and> (\<forall>n\<in>set perm. fst n \<noteq> ''*'') \<or>
     (\<exists>before v rest. perm = before @ (''*'', v) # rest \<and> (\<forall>n\<in>set before. fst n \<noteq> ''*'') \<and>
        list_all2 node_ok (take (length before) target) before)"

lemma covers_Nil: "covers [] target \<longleftrightarrow> target = []"
  by (auto simp: covers_def)

lemma covers_star: "covers ((''*'', v) # perm) target"
  unfolding covers_def by (rule disjI2, rule exI[of _ "[]"]) simp

lemma covers_Cons:
  assumes "fst p \<noteq> ''*''"
  shows "covers (p # perm) target \<longleftrightarrow> (\<exists>t target'. target = t # target' \<and> node_ok t p \<and> covers perm target')"
proof
  assume "covers (p # perm) target"
  then consider (all) "list_all2 node_ok target (p # perm)" "\<forall>n\<in>set perm. fst n \<noteq> ''*''"
    | (star) before v rest where "p # perm = before @ (''*'', v) # rest" "\<forall>n\<in>set before. fst n \<noteq> ''*''"
      "list_all2 node_ok (take (length before) target) before"
    by (auto simp: covers_def)
  then show "\<exists>t target'. target = t # target' \<and> node_ok t p \<and> covers perm target'"
  proof cases
    case all
    then show ?thesis by (cases target) (auto simp: covers_def)
  next
    case star
    with assms obtain b where b: "before = p # b" by (cases before) auto
    with star(3) obtain t target' where "target = t # target'" by (cases target) auto
    with star b show ?thesis by (auto simp: covers_def)
  qed
next
  assume "\<exists>t target'. target = t # target' \<and> node_ok t p \<and> covers perm target'"
  then obtain t target' where t: "target = t # target'" "node_ok t p" and c: "covers perm target'" by blast
  from c consider "list_all2 node_ok target' perm" "\<forall>n\<in>set perm. fst n \<noteq> ''*''"
    | before v rest where "perm = before @ (''*'', v) # rest" "\<forall>n\<in>set before. fst n \<noteq> ''*''"
      "list_all2 node_ok (take (length before) target') before" by (auto simp: covers_def)
  then show "covers (p # perm) target"
  proof cases
    case 1
    with t assms show ?thesis by (simp add: covers_def)
  next
    case 2
    with t assms show ?thesis unfolding covers_def by (intro disjI2 exI[of _ "p # before"]) auto
  qed
qed

text \<open>C10: matching a request's resource against a permission's is the node-wise rule: each
  node's type is the same and its value the same, \<open>*\<close> in the permission or \<open>?\<close> in
  the request, up to a node of type \<open>*\<close>, which covers the rest.\<close>

theorem resourceMatch_iff:
  "resourceMatch target perm \<longleftrightarrow> covers (named_nodes perm) (named_nodes target)"
proof (induction target perm rule: resourceMatch.induct)
  case (1 target)
  then show ?case by (auto simp: covers_Nil split: list.splits)
next
  case (2 target pt pv perm)
  show ?case
  proof (cases "pt = [] \<or> pt = ''*''")
    case True
    then show ?thesis by (auto simp: covers_Nil covers_star split: list.splits)
  next
    case False
    then have p: "fst (pt, pv) \<noteq> ''*''" by simp
    show ?thesis
    proof (cases target)
      case Nil
      then show ?thesis using False by (simp add: covers_Cons[OF p])
    next
      case (Cons n target')
      obtain tt tv where n: "n = (tt, tv)" by (cases n)
      have "covers (named_nodes ((pt, pv) # perm)) (named_nodes target) \<longleftrightarrow>
          tt \<noteq> [] \<and> node_ok (tt, tv) (pt, pv) \<and> covers (named_nodes perm) (named_nodes target')"
        using False by (simp add: Cons n covers_Cons[OF p])
      moreover have "resourceMatch target ((pt, pv) # perm) \<longleftrightarrow>
          tt \<noteq> [] \<and> node_ok (tt, tv) (pt, pv) \<and> resourceMatch target' perm"
        using False by (auto simp: Cons n node_ok_def)
      moreover have "resourceMatch target' perm \<longleftrightarrow> covers (named_nodes perm) (named_nodes target')"
        if "tt \<noteq> []" "node_ok (tt, tv) (pt, pv)"
        by (rule 2) (use that False Cons n in \<open>auto simp: node_ok_def\<close>)
      ultimately show ?thesis by metis
    qed
  qed
qed

section \<open>Names round trip\<close>

definition node_text :: "string \<times> string \<Rightarrow> string" where
  "node_text n = fst n @ '':'' @ snd n"

definition plain_node :: "string \<times> string \<Rightarrow> bool" where
  "plain_node n \<longleftrightarrow> fst n \<noteq> [] \<and> CHR '':'' \<notin> set (fst n) \<and> CHR '':'' \<notin> set (snd n) \<and>
     CHR ''/'' \<notin> set (fst n) \<and> CHR ''/'' \<notin> set (snd n)"

lemma parse_node_text: "plain_node n \<Longrightarrow> parse_node (node_text n) = n"
  by (simp add: plain_node_def parse_node_def node_text_def split_on_append_sep split_on_no_sep)

lemma node_text_drop:
  assumes "plain_node n"
  shows "CHR ''/'' \<notin> set (drop 1 (node_text n))" "node_text n \<noteq> []"
proof -
  have "CHR ''/'' \<notin> set (node_text n)" using assms by (auto simp: plain_node_def node_text_def)
  then show "CHR ''/'' \<notin> set (drop 1 (node_text n))" by (meson in_set_dropD)
  show "node_text n \<noteq> []" by (simp add: node_text_def)
qed

text \<open>Parsing a resource name written from plain nodes gives those nodes back.\<close>

theorem resourceName_parse_print:
  "ns \<noteq> [] \<Longrightarrow> \<forall>n\<in>set ns. plain_node n \<Longrightarrow> resourceName (join_with ''/'' (map node_text ns)) = ns"
proof (induction ns rule: induct_list012)
  case (2 n)
  then show ?case
    using node_text_drop(1)[of n] by (subst resourceName.simps) (auto simp: index_of_None[THEN iffD2] parse_node_text)
next
  case (3 n m ns)
  let ?rest = "join_with ''/'' (map node_text (m # ns))"
  have n: "plain_node n" using 3 by simp
  have rest: "?rest \<noteq> []" by (cases ns) (simp_all add: node_text_def)
  obtain c w where cw: "node_text n = c # w" using node_text_drop(2)[OF n] by (cases "node_text n") auto
  have "index_of CHR ''/'' (drop 1 (node_text n @ CHR ''/'' # ?rest)) = Some (length w)"
    using node_text_drop(1)[OF n] cw by (simp add: index_of_append)
  then have "resourceName (node_text n @ CHR ''/'' # ?rest) = parse_node (node_text n) # resourceName ?rest"
    using cw rest by (subst resourceName.simps) simp
  then show ?case using 3 parse_node_text[OF n] by simp
qed simp

section \<open>Properties\<close>

text \<open>C9: a request is allowed exactly when some permission that applies allows it and none
  that applies denies it, whatever their order; with no user, or no permission that applies,
  it is refused.\<close>

theorem checkPermission_iff:
  "(checkPermission (Some request) project (Some user) \<longleftrightarrow>
     (\<exists>p\<in>set (permissions_for project user). allows p \<and> match_permission request p) \<and>
     (\<forall>p\<in>set (permissions_for project user). \<not> (denies p \<and> match_permission request p))) \<and>
   \<not> checkPermission (Some request) project None \<and> checkPermission None project userInfo"
proof -
  have "permissions_for project user = []"
    if "ui_platformPermissions user = None \<and> ui_projectPermissions user = None \<or>
      \<not> truthy project \<and> or_nil (ui_platformPermissions user) = []"
    using that by (auto simp: permissions_for_def split: option.splits)
  then have "checkPermission (Some request) project (Some user) = decide request (permissions_for project user)"
    by (auto simp: checkPermission_def rbac.default_deny)
  then show ?thesis by (auto simp: rbac.verdict_iff checkPermission_def)
qed

theorem checkPermission_iff_witness:
  "checkPermission (Some \<lparr>ra_resource = ''cluster:c1'', ra_action = ''list''\<rparr>) None
     (Some \<lparr>ui_name = ''u'', ui_platformPermissions = Some [\<lparr>pm_name = ''p'', pm_resources = Some [''cluster:*''],
        pm_actions = [''list''], pm_effect = ''Allow''\<rparr>], ui_projectPermissions = None\<rparr>)"
proof -
  let ?p = "\<lparr>pm_name = ''p'', pm_resources = Some [''cluster:*''], pm_actions = [''list''], pm_effect = ''Allow''\<rparr>"
  let ?u = "\<lparr>ui_name = ''u'', ui_platformPermissions = Some [?p], ui_projectPermissions = None\<rparr>"
  let ?r = "\<lparr>ra_resource = ''cluster:c1'', ra_action = ''list''\<rparr>"
  have 1: "permissions_for None ?u = [?p]" by code_simp
  have "allows ?p" "\<not> denies ?p" "match_permission ?r ?p" by code_simp+
  with checkPermission_iff[of ?r None ?u None] 1 show ?thesis by auto
qed

theorem resourceName_parse_print_witness:
  "resourceName ''project:p/application:a'' = [(''project'', ''p''), (''application'', ''a'')]"
  using resourceName_parse_print[of "[(''project'', ''p''), (''application'', ''a'')]"]
  by (simp add: plain_node_def node_text_def)

text \<open>A node whose value holds a colon is read as every value of its type, so a permission
  on one such resource covers them all.\<close>

lemma colon_value_widens:
  "resourceMatch (resourceName ''config:other'') (resourceName ''config:team:secret'')"
  by code_simp

text \<open>The project resolved is one the user has, or every project, and the latter only
  for those who may or who have none to open.\<close>

theorem resolveProject_allowed:
  assumes "[] \<notin> set projects"
  shows "resolveProject asked projects all \<in> set projects \<or>
    (resolveProject asked projects all = allProjects \<and> (all \<or> projects = []))"
  using assms by (cases projects) (auto simp: resolveProject_def or_str_def truthy_iff nth_opt_def allProjects_def)

theorem resolveProject_allowed_witness:
  "resolveProject (Some ''x'') [''a''] False \<in> set [''a'']"
  using resolveProject_allowed[of "[''a'']" "Some ''x''" False] by simp

end
