(* ===== verification/Menu_Service.thy ===== *)
theory Menu_Service
  imports Permission
begin

text \<open>
  The menu service (\<open>services/MenuService.tsx\<close>): the workspaces and menus it starts
  with, the menus plugins add, and the menus a user sees. A route is the pattern it is
  matched by; whether the current path matches a pattern is an argument, as patterns are
  regular expressions that plugins bring. Icons are left out.
\<close>

section \<open>Menus and workspaces\<close>

record workspace =
  ws_name :: string
  ws_label :: "string option"
  ws_rootRoute :: string

record menu =
  mn_catalog :: "string option"
  mn_workspace :: string
  mn_type :: string
  mn_name :: string
  mn_label :: string
  mn_to :: string
  mn_relatedRoute :: "string list option"
  mn_permission :: "resource_action option"
  mn_active :: "bool option"
  mn_comingSoon :: bool

definition defaultWorkspaces :: "workspace list" where
  "defaultWorkspaces =
    [\<lparr>ws_name = ''continuous-delivery'', ws_label = Some ''Continuous Delivery'', ws_rootRoute = ''/applications''\<rparr>,
     \<lparr>ws_name = ''extension'', ws_label = Some ''Extension'', ws_rootRoute = ''/addons''\<rparr>,
     \<lparr>ws_name = ''admin'', ws_label = Some ''Admin Dashboard'', ws_rootRoute = ''/clusters''\<rparr>]"

definition menu_item ::
  "string \<Rightarrow> string \<Rightarrow> string \<Rightarrow> string \<Rightarrow> string \<Rightarrow> string list \<Rightarrow> resource_action option \<Rightarrow> bool \<Rightarrow> menu" where
  "menu_item catalog ws name label to routes perm soon =
     \<lparr>mn_catalog = Some catalog, mn_workspace = ws, mn_type = ''Workspace'', mn_name = name, mn_label = label,
      mn_to = to, mn_relatedRoute = Some routes, mn_permission = perm, mn_active = None, mn_comingSoon = soon\<rparr>"

definition provisioningMenus :: "menu list" where
  "provisioningMenus =
    [menu_item ''Provisioning'' ''continuous-delivery'' ''provisioning-fleets'' ''Fleets'' []
       [] None True,
     menu_item ''Provisioning'' ''continuous-delivery'' ''provisioning-clusters'' ''Clusters'' []
       [] None True,
     menu_item ''Provisioning'' ''continuous-delivery'' ''provisioning-cluster-blueprints'' ''Cluster Blueprints'' []
       [] None True,
     menu_item ''Provisioning'' ''continuous-delivery'' ''provisioning-cluster-planes'' ''Cluster Planes'' []
       [] None True]"

definition deliveryMenus :: "menu list" where
  "deliveryMenus =
    [menu_item ''Delivery'' ''continuous-delivery'' ''applications'' ''Applications'' ''/applications''
       [''/applications''] (Some \<lparr>ra_resource = ''project:?/application:*'', ra_action = ''list''\<rparr>) False,
     menu_item ''Delivery'' ''continuous-delivery'' ''shared-workflows'' ''Workflows'' ''/shared-workflows''
       [''/shared-workflows'', ''/shared-workflows/.*''] (Some \<lparr>ra_resource = ''project:?/workflow:*'', ra_action = ''list''\<rparr>) False,
     menu_item ''Delivery'' ''continuous-delivery'' ''project-configs'' ''Configs'' ''/project-configs''
       [''/project-configs''] (Some \<lparr>ra_resource = ''project:?/config:*'', ra_action = ''list''\<rparr>) False,
     menu_item ''Delivery'' ''continuous-delivery'' ''env-list'' ''Environments'' ''/envs''
       [''/envs''] (Some \<lparr>ra_resource = ''project:?/environment:*'', ra_action = ''list''\<rparr>) False,
     menu_item ''Delivery'' ''continuous-delivery'' ''target-list'' ''Targets'' ''/targets''
       [''/targets''] (Some \<lparr>ra_resource = ''target:*'', ra_action = ''list''\<rparr>) False]"

definition operationsMenus :: "menu list" where
  "operationsMenus =
    [menu_item ''Operations'' ''continuous-delivery'' ''pipeline-list'' ''Pipelines'' ''/pipelines''
       [''projects/.*/pipelines/.*'', ''/pipelines''] (Some \<lparr>ra_resource = ''project:?/pipeline:*'', ra_action = ''list''\<rparr>) False,
     menu_item ''Operations'' ''continuous-delivery'' ''reports'' ''Reports'' ''/reports''
       [''/reports''] (Some \<lparr>ra_resource = ''project:?/report:*'', ra_action = ''list''\<rparr>) False,
     menu_item ''Operations'' ''continuous-delivery'' ''operations-coming'' ''Operations'' []
       [] None True,
     menu_item ''Operations'' ''continuous-delivery'' ''operation-templates'' ''Operation Templates'' []
       [] None True]"

definition extensionMenus :: "menu list" where
  "extensionMenus =
    [menu_item ''Extension'' ''extension'' ''addon-list'' ''Addons'' ''/addons''
       [''/addons'', ''/manage/plugins.*''] (Some \<lparr>ra_resource = ''addon:*'', ra_action = ''list''\<rparr>) False,
     menu_item ''Extension'' ''extension'' ''modules-coming'' ''Modules'' []
       [] None True,
     menu_item ''Extension'' ''extension'' ''defkit-list'' ''DefKit'' ''/defkit''
       [''/defkit''] (Some \<lparr>ra_resource = ''defkit:*'', ra_action = ''list''\<rparr>) False,
     menu_item ''Extension'' ''extension'' ''definition-list'' ''Definitions'' ''/definitions''
       [''/definitions''] (Some \<lparr>ra_resource = ''project:?/definition:*'', ra_action = ''list''\<rparr>) False,
     menu_item ''Extension'' ''extension'' ''package-list'' ''Packages'' ''/packages''
       [''/packages''] (Some \<lparr>ra_resource = ''package:*'', ra_action = ''list''\<rparr>) False]"

definition adminMenus :: "menu list" where
  "adminMenus =
    [menu_item ''Admin'' ''admin'' ''cluster-list'' ''Clusters'' ''/clusters''
       [''/clusters''] (Some \<lparr>ra_resource = ''cluster:*'', ra_action = ''list''\<rparr>) False,
     menu_item ''Admin'' ''admin'' ''configs'' ''Global Configs'' ''/configs''
       [''/configs''] (Some \<lparr>ra_resource = ''config:*'', ra_action = ''list''\<rparr>) False,
     menu_item ''Admin'' ''admin'' ''project-list'' ''Projects'' ''/platform/projects''
       [''/platform/projects$''] (Some \<lparr>ra_resource = ''project:*'', ra_action = ''list''\<rparr>) False,
     menu_item ''Admin'' ''admin'' ''user-list'' ''Users'' ''/users''
       [''/users''] (Some \<lparr>ra_resource = ''user:*'', ra_action = ''list''\<rparr>) False,
     menu_item ''Admin'' ''admin'' ''role-list'' ''Platform Roles'' ''/roles''
       [''^/roles$''] (Some \<lparr>ra_resource = ''role:*'', ra_action = ''list''\<rparr>) False,
     menu_item ''Admin'' ''admin'' ''settings'' ''Settings'' ''/settings''
       [''/settings''] (Some \<lparr>ra_resource = ''systemSetting'', ra_action = ''update''\<rparr>) False]"

definition defaultWorkspaceMenus :: "menu list" where
  "defaultWorkspaceMenus = provisioningMenus @ deliveryMenus @ operationsMenus @ extensionMenus @ adminMenus"

section \<open>The service\<close>

record menu_wrapper =
  mw_menus :: "menu list"
  mw_workspaces :: "workspace list"
  mw_pluginLoaded :: bool

definition new_MenuWrapper :: menu_wrapper where
  "new_MenuWrapper = \<lparr>mw_menus = defaultWorkspaceMenus, mw_workspaces = defaultWorkspaces, mw_pluginLoaded = False\<rparr>"

record plugin_include =
  pi_workspace :: workspace
  pi_type :: string
  pi_name :: string
  pi_label :: string
  pi_to :: string
  pi_relatedRoute :: "string list option"
  pi_permission :: "resource_action option"
  pi_catalog :: "string option"

definition add_include :: "plugin_include \<Rightarrow> menu_wrapper \<Rightarrow> menu_wrapper" where
  "add_include inc mw =
     (let mw' = (if list_ex (\<lambda>w. ws_name w = ws_name (pi_workspace inc)) (mw_workspaces mw) then mw
                 else mw\<lparr>mw_workspaces := mw_workspaces mw @ [(pi_workspace inc)\<lparr>ws_rootRoute := pi_to inc\<rparr>]\<rparr>)
      in if list_ex (\<lambda>m. mn_name m = pi_name inc) (mw_menus mw') then mw'
         else mw'\<lparr>mw_menus := mw_menus mw' @
           [\<lparr>mn_catalog = pi_catalog inc, mn_workspace = ws_name (pi_workspace inc), mn_type = pi_type inc,
             mn_name = pi_name inc, mn_label = pi_label inc, mn_to = pi_to inc, mn_relatedRoute = pi_relatedRoute inc,
             mn_permission = pi_permission inc, mn_active = None, mn_comingSoon = False\<rparr>]\<rparr>)"

text \<open>What the plugins' answer does: their includes in turn, then the flag.\<close>

definition plugins_arrived :: "plugin_include list option list \<Rightarrow> menu_wrapper \<Rightarrow> menu_wrapper" where
  "plugins_arrived plugins mw =
     (foldl (\<lambda>mw includes. foldl (\<lambda>mw inc. add_include inc mw) mw (or_nil includes)) mw plugins)
       \<lparr>mw_pluginLoaded := True\<rparr>"

text \<open>\<open>loadPluginMenus\<close>: at once when loaded, else when the plugin service answers.\<close>

definition loadPluginMenus :: "plugin_include list option list \<Rightarrow> menu_wrapper \<Rightarrow> menu_wrapper \<times> menu list" where
  "loadPluginMenus plugins mw =
     (if mw_pluginLoaded mw then (mw, mw_menus mw)
      else let mw' = plugins_arrived plugins mw in (mw', mw_menus mw'))"

definition resetPluginMenus :: "menu_wrapper \<Rightarrow> menu_wrapper" where
  "resetPluginMenus mw =
     mw\<lparr>mw_pluginLoaded := False, mw_menus := defaultWorkspaceMenus, mw_workspaces := defaultWorkspaces\<rparr>"

definition getWorkspace :: "menu_wrapper \<Rightarrow> string \<Rightarrow> workspace option" where
  "getWorkspace mw name = find (\<lambda>w. ws_name w = name) (mw_workspaces mw)"

definition matchMenu :: "(string \<Rightarrow> bool) \<Rightarrow> menu \<Rightarrow> bool" where
  "matchMenu path_matches menu = list_ex path_matches (or_nil (mn_relatedRoute menu))"

definition loadCurrentWorkspace :: "(string \<Rightarrow> bool) \<Rightarrow> menu_wrapper \<Rightarrow> workspace option" where
  "loadCurrentWorkspace path_matches mw =
     foldl (\<lambda>w m. if w = None \<and> matchMenu path_matches m then getWorkspace mw (mn_workspace m) else w)
       None (mw_menus mw)"

text \<open>Sections: items join the first section of their catalog, else start one.\<close>

fun push_section :: "'c \<Rightarrow> 'm list \<Rightarrow> ('c \<times> 'm list) list \<Rightarrow> ('c \<times> 'm list) list" where
  "push_section c ms [] = [(c, ms)]"
| "push_section c ms ((d, xs) # r) = (if d = c then (d, xs @ ms) # r else (d, xs) # push_section c ms r)"

definition permitted :: "user_info option \<Rightarrow> menu \<Rightarrow> bool" where
  "permitted user menu = checkPermission (mn_permission menu) (Some ''?'') user"

definition with_active :: "(string \<Rightarrow> bool) \<Rightarrow> menu \<Rightarrow> menu" where
  "with_active path_matches menu = menu\<lparr>mn_active := Some (matchMenu path_matches menu)\<rparr>"

definition loadMenus ::
  "(string \<Rightarrow> bool) \<Rightarrow> workspace \<Rightarrow> user_info option \<Rightarrow> menu_wrapper
   \<Rightarrow> menu_wrapper \<times> (string option \<times> menu list) list" where
  "loadMenus path_matches ws user mw =
     (let shown = (\<lambda>m. mn_workspace m = ws_name ws \<and> permitted user m)
      in (mw\<lparr>mw_menus := map (\<lambda>m. if shown m then with_active path_matches m else m) (mw_menus mw)\<rparr>,
          foldl (\<lambda>sections m. push_section (mn_catalog m) [with_active path_matches m] sections) []
            (filter shown (mw_menus mw))))"

definition loadWorkspaces ::
  "(string \<Rightarrow> bool) \<Rightarrow> user_info option \<Rightarrow> menu_wrapper \<Rightarrow> menu_wrapper \<times> workspace list" where
  "loadWorkspaces path_matches user mw =
     foldl (\<lambda>(mw, found) ws. let (mw', sections) = loadMenus path_matches ws user mw
                             in (mw', if sections \<noteq> [] then found @ [ws] else found))
       (mw, []) (mw_workspaces mw)"

definition loadSidebarMenus ::
  "(string \<Rightarrow> bool) \<Rightarrow> user_info option \<Rightarrow> menu_wrapper \<Rightarrow> menu_wrapper \<times> (string \<times> menu list) list" where
  "loadSidebarMenus path_matches user mw =
     (let (mw1, workspaces) = loadWorkspaces path_matches user mw
      in foldl (\<lambda>(mw, sections) ws.
           let (mw', own) = loadMenus path_matches ws user mw
           in (mw', foldl (\<lambda>sections section.
                  push_section (or_str (or_opt (fst section) (ws_label ws)) (ws_name ws)) (snd section) sections)
                sections own))
         (mw1, []) (filter (\<lambda>ws. ws_name ws \<noteq> ''admin'') workspaces))"

section \<open>Sections\<close>

lemma push_section_keys: "set (map fst (push_section c ms s)) = Set.insert c (set (map fst s))"
  by (induction c ms s rule: push_section.induct) auto

lemma push_section_distinct: "distinct (map fst s) \<Longrightarrow> distinct (map fst (push_section c ms s))"
proof (induction c ms s rule: push_section.induct)
  case (2 c ms d xs r)
  then show ?case using push_section_keys[of c ms r] by (cases "d = c") auto
qed simp

lemma push_section_menus: "set (concat (map snd (push_section c ms s))) = set ms \<union> set (concat (map snd s))"
  by (induction c ms s rule: push_section.induct) auto

lemma push_section_mem:
  assumes "distinct (map fst s)"
  shows "(d, xs) \<in> set (push_section c ms s) \<longleftrightarrow>
    (if d = c then (\<exists>ys. (c, ys) \<in> set s \<and> xs = ys @ ms) \<or> (c \<notin> fst ` set s \<and> xs = ms) else (d, xs) \<in> set s)"
  using assms
proof (induction c ms s rule: push_section.induct)
  case (2 c ms e ys r)
  then show ?case by (cases "e = c") (force split: if_splits)+
qed auto

lemma sections_exact:
  fixes cat :: "'a \<Rightarrow> 'c" and g :: "'a \<Rightarrow> 'm"
  defines "secs ms \<equiv> foldl (\<lambda>s m. push_section (cat m) [g m] s) [] ms"
  shows "distinct (map fst (secs ms)) \<and> fst ` set (secs ms) = cat ` set ms \<and>
    (\<forall>(c, xs) \<in> set (secs ms). xs = map g (filter (\<lambda>m. cat m = c) ms))"
proof (induction ms rule: rev_induct)
  case Nil
  then show ?case by (simp add: secs_def)
next
  case (snoc m ms)
  then have d: "distinct (map fst (secs ms))" by simp
  have step: "secs (ms @ [m]) = push_section (cat m) [g m] (secs ms)" by (simp add: secs_def)
  have keys: "fst ` set (secs (ms @ [m])) = cat ` set (ms @ [m])"
    unfolding step using push_section_keys[of "cat m" "[g m]" "secs ms"] snoc by simp
  moreover have "xs = map g (filter (\<lambda>m. cat m = c) (ms @ [m]))" if "(c, xs) \<in> set (secs (ms @ [m]))" for c xs
  proof (cases "c = cat m")
    case True
    show ?thesis
    proof (cases "c \<in> fst ` set (secs ms)")
      case in_old: True
      with that True obtain ys where "(c, ys) \<in> set (secs ms)" "xs = ys @ [g m]"
        unfolding step push_section_mem[OF d] by auto
      with True snoc show ?thesis by auto
    next
      case False
      with that True have "xs = [g m]" unfolding step push_section_mem[OF d] by force
      moreover have "filter (\<lambda>m. cat m = c) ms = []" using False snoc by (auto simp: filter_empty_conv)
      ultimately show ?thesis using True by simp
    qed
  next
    case False
    with that have "(c, xs) \<in> set (secs ms)" unfolding step push_section_mem[OF d] by simp
    with False snoc show ?thesis by auto
  qed
  ultimately show ?case using push_section_distinct[OF d] step by auto
qed

section \<open>Names of menus and workspaces\<close>

definition registry_ok :: "menu_wrapper \<Rightarrow> bool" where
  "registry_ok mw \<longleftrightarrow> distinct (map mn_name (mw_menus mw)) \<and> distinct (map ws_name (mw_workspaces mw))"

lemma add_include_ok: "registry_ok mw \<Longrightarrow> registry_ok (add_include inc mw)"
  by (auto simp: registry_ok_def add_include_def Let_def list_ex_iff)

lemma foldl_keeps: "P x \<Longrightarrow> (\<And>x y. P x \<Longrightarrow> y \<in> set ys \<Longrightarrow> P (f x y)) \<Longrightarrow> P (foldl f x ys)"
  by (induction ys arbitrary: x) auto

lemma plugins_arrived_ok:
  assumes "registry_ok mw"
  shows "registry_ok (plugins_arrived plugins mw)"
proof -
  have "registry_ok (foldl (\<lambda>mw includes. foldl (\<lambda>mw inc. add_include inc mw) mw (or_nil includes)) mw plugins)"
    using assms by (intro foldl_keeps[where P = registry_ok]) (auto intro: foldl_keeps add_include_ok)
  then show ?thesis by (simp add: plugins_arrived_def registry_ok_def)
qed

lemma default_names: "distinct (map mn_name defaultWorkspaceMenus)" "distinct (map ws_name defaultWorkspaces)"
  by code_simp+

lemma loadMenus_names [simp]:
  "map mn_name (mw_menus (fst (loadMenus pm ws user mw))) = map mn_name (mw_menus mw)"
  "mw_workspaces (fst (loadMenus pm ws user mw)) = mw_workspaces mw"
  by (simp_all add: loadMenus_def Let_def with_active_def comp_def)

text \<open>The service as a transition system: the calls that change it, in any order.\<close>

inductive menu_step :: "menu_wrapper \<Rightarrow> menu_wrapper \<Rightarrow> bool" where
  load: "menu_step mw (fst (loadPluginMenus plugins mw))"
| arrive: "menu_step mw (plugins_arrived plugins mw)"
| reset: "menu_step mw (resetPluginMenus mw)"
| display: "menu_step mw (fst (loadMenus pm ws user mw))"

inductive_cases menu_stepE: "menu_step mw mw'"

lemma menu_step_ok: "menu_step mw mw' \<Longrightarrow> registry_ok mw \<Longrightarrow> registry_ok mw'"
proof (induction rule: menu_step.induct)
  case (load mw plugins)
  then show ?case using plugins_arrived_ok[OF load] by (simp add: loadPluginMenus_def Let_def)
next
  case (arrive mw plugins)
  then show ?case by (rule plugins_arrived_ok)
next
  case (reset mw)
  then show ?case using default_names by (simp add: resetPluginMenus_def registry_ok_def)
next
  case (display mw pm ws user)
  then show ?case by (simp add: registry_ok_def)
qed

interpretation menu_registry: machine menu_step registry_ok "\<lambda>mw. mw = new_MenuWrapper"
proof unfold_locales
  show "registry_ok mw" if "mw = new_MenuWrapper" for mw
    using that default_names by (simp add: new_MenuWrapper_def registry_ok_def)
qed (rule menu_step_ok)

text \<open>An include whose names are known changes nothing, and stays known.\<close>

definition knows :: "menu_wrapper \<Rightarrow> plugin_include \<Rightarrow> bool" where
  "knows mw inc \<longleftrightarrow> (\<exists>w\<in>set (mw_workspaces mw). ws_name w = ws_name (pi_workspace inc)) \<and>
     (\<exists>m\<in>set (mw_menus mw). mn_name m = pi_name inc)"

lemma add_include_known: "knows mw inc \<Longrightarrow> add_include inc mw = mw"
  by (simp add: knows_def add_include_def Let_def list_ex_iff)

lemma add_include_knows: "knows (add_include inc mw) inc"
  by (auto simp: knows_def add_include_def Let_def list_ex_iff)

lemma add_include_mono: "knows mw i \<Longrightarrow> knows (add_include inc mw) i"
  by (auto simp: knows_def add_include_def Let_def list_ex_iff)

definition add_all :: "plugin_include list \<Rightarrow> menu_wrapper \<Rightarrow> menu_wrapper" where
  "add_all incs mw = foldl (\<lambda>mw inc. add_include inc mw) mw incs"

lemma plugins_arrived_add_all:
  "plugins_arrived plugins mw = (add_all (concat (map or_nil plugins)) mw)\<lparr>mw_pluginLoaded := True\<rparr>"
proof -
  have "foldl (\<lambda>mw includes. foldl (\<lambda>mw inc. add_include inc mw) mw (or_nil includes)) mw plugins
      = add_all (concat (map or_nil plugins)) mw" for mw
    by (induction plugins arbitrary: mw) (simp_all add: add_all_def)
  then show ?thesis by (simp add: plugins_arrived_def)
qed

lemma add_all_mono: "knows mw i \<Longrightarrow> knows (add_all incs mw) i"
  unfolding add_all_def by (rule foldl_keeps[where P = "\<lambda>mw. knows mw i"]) (auto intro: add_include_mono)

lemma add_all_knows: "i \<in> set incs \<Longrightarrow> knows (add_all incs mw) i"
proof (induction incs arbitrary: mw)
  case (Cons inc incs)
  then show ?case
    using add_all_mono[OF add_include_knows[of inc mw]] by (auto simp: add_all_def)
qed simp

lemma add_all_known: "\<forall>i\<in>set incs. knows mw i \<Longrightarrow> add_all incs mw = mw"
  by (induction incs) (auto simp: add_all_def add_include_known)

section \<open>What the sidebar shows\<close>

definition menu_core :: "menu \<Rightarrow> menu" where
  "menu_core m = m\<lparr>mn_active := None\<rparr>"

lemma with_active_keeps [simp]:
  "menu_core (with_active pm m) = menu_core m" "mn_workspace (with_active pm m) = mn_workspace m"
  "permitted user (with_active pm m) = permitted user m" "mn_name (with_active pm m) = mn_name m"
  by (simp_all add: menu_core_def with_active_def permitted_def)

lemma loadMenus_core: "map menu_core (mw_menus (fst (loadMenus pm ws user mw))) = map menu_core (mw_menus mw)"
  by (simp add: loadMenus_def Let_def)

lemma foldl_push_menus:
  "set (concat (map snd (foldl (\<lambda>s m. push_section (cat m) [g m] s) s0 ms))) = set (concat (map snd s0)) \<union> g ` set ms"
  by (induction ms arbitrary: s0) (auto simp del: set_concat simp: push_section_menus)

lemma loadMenus_shown:
  "set (concat (map snd (snd (loadMenus pm ws user mw)))) =
     with_active pm ` {m \<in> set (mw_menus mw). mn_workspace m = ws_name ws \<and> permitted user m}"
  by (simp add: loadMenus_def Let_def foldl_push_menus del: set_concat)

definition side_ok :: "user_info option \<Rightarrow> menu_wrapper \<Rightarrow> menu_wrapper \<times> (string \<times> menu list) list \<Rightarrow> bool" where
  "side_ok user mw x \<longleftrightarrow> map menu_core (mw_menus (fst x)) = map menu_core (mw_menus mw) \<and> distinct (map fst (snd x)) \<and>
     (\<forall>m\<in>set (concat (map snd (snd x))). mn_workspace m \<noteq> ''admin'' \<and> permitted user m \<and>
        menu_core m \<in> menu_core ` set (mw_menus mw))"

lemma foldl_push_sections:
  "set (concat (map snd (foldl (\<lambda>s x. push_section (c x) (snd x) s) s0 xs))) =
     set (concat (map snd s0)) \<union> set (concat (map snd xs))"
  by (induction xs arbitrary: s0) (auto simp del: set_concat simp: push_section_menus)

lemma side_ok_step:
  assumes "side_ok user mw (mw1, sections)" and "ws_name ws \<noteq> ''admin''"
  shows "side_ok user mw (let (mw', own) = loadMenus pm ws user mw1
     in (mw', foldl (\<lambda>sections section. push_section (f section) (snd section) sections) sections own))"
proof -
  obtain mw' own where lm: "loadMenus pm ws user mw1 = (mw', own)" by (cases "loadMenus pm ws user mw1")
  let ?new = "foldl (\<lambda>sections section. push_section (f section) (snd section) sections) sections own"
  have core: "map menu_core (mw_menus mw') = map menu_core (mw_menus mw)"
    using assms(1) loadMenus_core[of pm ws user mw1] lm by (simp add: side_ok_def)
  have old: "menu_core ` set (mw_menus mw1) = menu_core ` set (mw_menus mw)"
    using assms(1) by (metis fst_conv set_map side_ok_def)
  have own: "mn_workspace m \<noteq> ''admin'' \<and> permitted user m \<and> menu_core m \<in> menu_core ` set (mw_menus mw)"
    if "m \<in> set (concat (map snd own))" for m
  proof -
    from that have "m \<in> with_active pm ` {m \<in> set (mw_menus mw1). mn_workspace m = ws_name ws \<and> permitted user m}"
      using loadMenus_shown[of pm ws user mw1] unfolding lm snd_conv by blast
    then show ?thesis using assms(2) unfolding old[symmetric] by auto
  qed
  have "distinct (map fst ?new)"
    using assms(1) unfolding side_ok_def snd_conv
    by (intro foldl_keeps[where P = "\<lambda>s. distinct (map fst s)"]) (auto intro: push_section_distinct)
  then show ?thesis
    using assms(1) core own unfolding lm side_ok_def fst_conv snd_conv prod.case Let_def foldl_push_sections by blast
qed

lemma loadWorkspaces_core:
  "map menu_core (mw_menus (fst (loadWorkspaces pm user mw))) = map menu_core (mw_menus mw)"
proof -
  have "map menu_core (mw_menus (fst (foldl (\<lambda>(mw, found) ws. let (mw', sections) = loadMenus pm ws user mw
            in (mw', if sections \<noteq> [] then found @ [ws] else found)) (mw0, found) wss))) = map menu_core (mw_menus mw0)"
    for mw0 found wss
  proof (induction wss arbitrary: mw0 found)
    case (Cons ws wss)
    obtain mw' own where lm: "loadMenus pm ws user mw0 = (mw', own)" by (cases "loadMenus pm ws user mw0")
    then have "map menu_core (mw_menus mw') = map menu_core (mw_menus mw0)"
      using loadMenus_core[of pm ws user mw0] by simp
    then show ?case using Cons lm by simp
  qed simp
  then show ?thesis by (simp add: loadWorkspaces_def)
qed

lemma loadMenus_loaded: "mw_pluginLoaded (fst (loadMenus pm ws user mw)) = mw_pluginLoaded mw"
  by (simp add: loadMenus_def)

section \<open>Properties\<close>

text \<open>Through any sequence of the service's calls, plugins arriving late or twice
  included, no two menus and no two workspaces share a name.\<close>

theorem menu_names_invariant:
  "menu_step\<^sup>*\<^sup>* new_MenuWrapper mw \<Longrightarrow>
   distinct (map mn_name (mw_menus mw)) \<and> distinct (map ws_name (mw_workspaces mw))"
  by (drule menu_registry.reachable_inv[OF refl]) (simp add: registry_ok_def)

theorem menu_names_invariant_witness:
  "menu_step\<^sup>*\<^sup>* new_MenuWrapper (resetPluginMenus new_MenuWrapper) \<and>
   distinct (map mn_name (mw_menus (resetPluginMenus new_MenuWrapper)))"
proof -
  have s: "menu_step\<^sup>*\<^sup>* new_MenuWrapper (resetPluginMenus new_MenuWrapper)"
    by (rule r_into_rtranclp) (rule menu_step.reset)
  from s menu_names_invariant[OF s] show ?thesis by blast
qed

text \<open>The calls of the service and the answers of the plugin service, in the order they come: a call asks
  only where nothing has been loaded, and every request under way is answered by what the
  plugins are then. The answers since the last reset are kept to state what they lead to.\<close>

datatype menu_event = CallPlugins | PluginsAnswer "plugin_include list option list" | ResetPlugins
  | ShowMenus "string \<Rightarrow> bool" workspace "user_info option"

record menu_history =
  mh_service :: menu_wrapper
  mh_pending :: nat
  mh_answers :: "plugin_include list option list list"

fun menu_event_step :: "menu_history \<Rightarrow> menu_event \<Rightarrow> menu_history" where
  "menu_event_step h CallPlugins = (if mw_pluginLoaded (mh_service h) then h else h\<lparr>mh_pending := mh_pending h + 1\<rparr>)"
| "menu_event_step h (PluginsAnswer plugins) =
     (if mh_pending h = 0 then h
      else h\<lparr>mh_service := plugins_arrived plugins (mh_service h), mh_pending := mh_pending h - 1, mh_answers := mh_answers h @ [plugins]\<rparr>)"
| "menu_event_step h ResetPlugins = h\<lparr>mh_service := resetPluginMenus (mh_service h), mh_answers := []\<rparr>"
| "menu_event_step h (ShowMenus pm ws user) = h\<lparr>mh_service := fst (loadMenus pm ws user (mh_service h))\<rparr>"

definition menu_history_of :: "menu_event list \<Rightarrow> menu_history" where
  "menu_history_of es = foldl menu_event_step \<lparr>mh_service = new_MenuWrapper, mh_pending = 0, mh_answers = []\<rparr> es"

lemma loadPluginMenus_events:
  "mh_pending h = 0 \<Longrightarrow>
   mh_service (menu_event_step (menu_event_step h CallPlugins) (PluginsAnswer plugins)) = fst (loadPluginMenus plugins (mh_service h))"
  by (simp add: loadPluginMenus_def Let_def)

definition include_menu :: "plugin_include \<Rightarrow> menu" where
  "include_menu inc =
     \<lparr>mn_catalog = pi_catalog inc, mn_workspace = ws_name (pi_workspace inc), mn_type = pi_type inc, mn_name = pi_name inc,
      mn_label = pi_label inc, mn_to = pi_to inc, mn_relatedRoute = pi_relatedRoute inc, mn_permission = pi_permission inc,
      mn_active = None, mn_comingSoon = False\<rparr>"

definition include_workspace :: "plugin_include \<Rightarrow> workspace" where
  "include_workspace inc = (pi_workspace inc)\<lparr>ws_rootRoute := pi_to inc\<rparr>"

definition menu_named :: "string \<Rightarrow> menu list \<Rightarrow> menu option" where
  "menu_named n ms = find (\<lambda>m. mn_name m = n) (map menu_core ms)"

definition workspace_named :: "string \<Rightarrow> workspace list \<Rightarrow> workspace option" where
  "workspace_named n ws = find (\<lambda>w. ws_name w = n) ws"

lemma find_append: "find P (xs @ ys) = (case find P xs of None \<Rightarrow> find P ys | Some x \<Rightarrow> Some x)"
  by (induction xs) auto

lemma core_name [simp]: "mn_name (menu_core m) = mn_name m"
  by (simp add: menu_core_def)

lemma named_None:
  "menu_named n ms = None \<longleftrightarrow> \<not> list_ex (\<lambda>m. mn_name m = n) ms" "workspace_named n ws = None \<longleftrightarrow> \<not> list_ex (\<lambda>w. ws_name w = n) ws"
  by (auto simp: menu_named_def workspace_named_def find_None_all list_ex_iff)

lemma named_append:
  "menu_named n (xs @ ys) = (case menu_named n xs of None \<Rightarrow> menu_named n ys | Some m \<Rightarrow> Some m)"
  "workspace_named n (ws @ vs) = (case workspace_named n ws of None \<Rightarrow> workspace_named n vs | Some w \<Rightarrow> Some w)"
  by (simp_all add: menu_named_def workspace_named_def find_append split: option.split)

lemma named_Nil: "menu_named n [] = None" "workspace_named n [] = None"
  by (simp_all add: menu_named_def workspace_named_def)

lemma named_one:
  "menu_named n [include_menu inc] = map_option include_menu (find (\<lambda>i. pi_name i = n) [inc])"
  "workspace_named n [include_workspace inc] = map_option include_workspace (find (\<lambda>i. ws_name (pi_workspace i) = n) [inc])"
  by (simp_all add: menu_named_def workspace_named_def include_menu_def include_workspace_def menu_core_def)

lemma add_include_parts:
  "mw_menus (add_include inc mw) = mw_menus mw @ (if menu_named (pi_name inc) (mw_menus mw) = None then [include_menu inc] else [])"
  "mw_workspaces (add_include inc mw) =
     mw_workspaces mw @ (if workspace_named (ws_name (pi_workspace inc)) (mw_workspaces mw) = None then [include_workspace inc] else [])"
  by (simp_all add: add_include_def named_None include_menu_def include_workspace_def Let_def)

lemma add_include_named:
  "menu_named n (mw_menus (add_include inc mw)) =
     (case menu_named n (mw_menus mw) of None \<Rightarrow> map_option include_menu (find (\<lambda>i. pi_name i = n) [inc]) | Some m \<Rightarrow> Some m)"
  "workspace_named n (mw_workspaces (add_include inc mw)) =
     (case workspace_named n (mw_workspaces mw) of None \<Rightarrow> map_option include_workspace (find (\<lambda>i. ws_name (pi_workspace i) = n) [inc])
      | Some w \<Rightarrow> Some w)"
  unfolding add_include_parts
  by (cases "pi_name inc = n"; auto simp: named_append named_one named_Nil split: option.splits)
    (cases "ws_name (pi_workspace inc) = n"; auto simp: named_append named_one named_Nil split: option.splits)

lemma add_all_named:
  "menu_named n (mw_menus (add_all incs mw)) =
     (case menu_named n (mw_menus mw) of None \<Rightarrow> map_option include_menu (find (\<lambda>i. pi_name i = n) incs) | Some m \<Rightarrow> Some m)"
  "workspace_named n (mw_workspaces (add_all incs mw)) =
     (case workspace_named n (mw_workspaces mw) of None \<Rightarrow> map_option include_workspace (find (\<lambda>i. ws_name (pi_workspace i) = n) incs)
      | Some w \<Rightarrow> Some w)"
  by (induction incs arbitrary: mw) (simp_all add: add_all_def add_include_named split: option.splits)

definition plugins_known :: "menu_history \<Rightarrow> bool" where
  "plugins_known h \<longleftrightarrow> registry_ok (mh_service h) \<and> (mw_pluginLoaded (mh_service h) \<longleftrightarrow> mh_answers h \<noteq> []) \<and>
     (\<forall>n. let incs = concat (map or_nil (concat (mh_answers h))) in
        menu_named n (mw_menus (mh_service h)) =
          (case menu_named n defaultWorkspaceMenus of None \<Rightarrow> map_option include_menu (find (\<lambda>i. pi_name i = n) incs) | Some m \<Rightarrow> Some m) \<and>
        workspace_named n (mw_workspaces (mh_service h)) =
          (case workspace_named n defaultWorkspaces of None \<Rightarrow> map_option include_workspace (find (\<lambda>i. ws_name (pi_workspace i) = n) incs)
           | Some w \<Rightarrow> Some w))"

lemma plugins_known_pending: "plugins_known (h\<lparr>mh_pending := n\<rparr>) = plugins_known h"
  by (simp add: plugins_known_def)

lemma menu_event_known: "plugins_known h \<Longrightarrow> plugins_known (menu_event_step h e)"
proof (cases e)
  case (PluginsAnswer plugins)
  assume h: "plugins_known h"
  then show ?thesis unfolding PluginsAnswer plugins_known_def Let_def
    by (auto simp: plugins_arrived_ok) (auto simp: plugins_arrived_add_all add_all_named find_append split: option.splits)
next
  case ResetPlugins
  then show ?thesis using default_names
    by (simp add: plugins_known_def resetPluginMenus_def registry_ok_def Let_def split: option.splits)
next
  case (ShowMenus pm ws user)
  assume "plugins_known h"
  then show ?thesis using loadMenus_core[of pm ws user "mh_service h"] loadMenus_loaded[of pm ws user "mh_service h"]
    by (simp add: ShowMenus plugins_known_def registry_ok_def menu_named_def Let_def)
qed (simp add: plugins_known_pending)

lemma menu_history_known: "plugins_known (menu_history_of es)"
proof -
  have "plugins_known \<lparr>mh_service = new_MenuWrapper, mh_pending = 0, mh_answers = []\<rparr>"
    using default_names by (simp add: plugins_known_def new_MenuWrapper_def registry_ok_def Let_def split: option.splits)
  then show ?thesis unfolding menu_history_of_def by (rule foldl_keeps[where P = plugins_known]) (rule menu_event_known)
qed

text \<open>C13: whatever the calls and however different the answers that arrive for them, in any order and
  between any other calls: there is one menu of each name and one workspace, the program's own or else that of
  the first include of that name to arrive since the last reset, and nothing else; and from the first
  such answer on no call asks again.\<close>

theorem loadPluginMenus_once:
  "let h = menu_history_of es; menus = mw_menus (mh_service h); spaces = mw_workspaces (mh_service h);
       incs = concat (map or_nil (concat (mh_answers h)))
   in distinct (map mn_name menus) \<and> distinct (map ws_name spaces) \<and>
      (\<forall>n. menu_named n menus =
         (case menu_named n defaultWorkspaceMenus of Some m \<Rightarrow> Some m | None \<Rightarrow> map_option include_menu (find (\<lambda>i. pi_name i = n) incs))) \<and>
      (\<forall>n. workspace_named n spaces =
         (case workspace_named n defaultWorkspaces of Some w \<Rightarrow> Some w
          | None \<Rightarrow> map_option include_workspace (find (\<lambda>i. ws_name (pi_workspace i) = n) incs))) \<and>
      (menu_event_step h CallPlugins = h \<longleftrightarrow> mh_answers h \<noteq> [])"
proof -
  have k: "plugins_known (menu_history_of es)" by (rule menu_history_known)
  then have "menu_event_step (menu_history_of es) CallPlugins = menu_history_of es \<longleftrightarrow> mh_answers (menu_history_of es) \<noteq> []"
    by (cases "menu_history_of es") (simp add: plugins_known_def)
  then show ?thesis using k by (auto simp: plugins_known_def registry_ok_def Let_def split: option.splits)
qed

text \<open>C14: a workspace's menus are exactly its menus the user is permitted, each in one
  section, the section of its catalog, in their order.\<close>

theorem loadMenus_exact:
  "let secs = snd (loadMenus pm ws user mw) in
    distinct (map fst secs) \<and>
    fst ` set secs = mn_catalog ` {m \<in> set (mw_menus mw). mn_workspace m = ws_name ws \<and> permitted user m} \<and>
    list_all (\<lambda>(c, ms). ms = map (with_active pm)
       (filter (\<lambda>m. mn_workspace m = ws_name ws \<and> permitted user m \<and> mn_catalog m = c) (mw_menus mw))) secs"
proof -
  let ?shown = "filter (\<lambda>m. mn_workspace m = ws_name ws \<and> permitted user m) (mw_menus mw)"
  have "snd (loadMenus pm ws user mw) = foldl (\<lambda>s m. push_section (mn_catalog m) [with_active pm m] s) [] ?shown"
    by (simp add: loadMenus_def)
  with sections_exact[of mn_catalog "with_active pm" ?shown] show ?thesis
    by (simp add: conj_assoc conj_commute conj_left_commute list_all_iff)
qed

text \<open>The sidebar shows only menus the user is permitted, none of the admin workspace's,
  in sections with distinct titles.\<close>

theorem loadSidebarMenus_safe:
  "let secs = snd (loadSidebarMenus pm user mw) in
    distinct (map fst secs) \<and>
    list_all (\<lambda>m. mn_workspace m \<noteq> ''admin'' \<and> permitted user m \<and> menu_core m \<in> menu_core ` set (mw_menus mw))
      (concat (map snd secs))"
proof -
  obtain mw1 wss where lw: "loadWorkspaces pm user mw = (mw1, wss)" by (cases "loadWorkspaces pm user mw")
  let ?step = "\<lambda>(mw, sections) ws. let (mw', own) = loadMenus pm ws user mw
           in (mw', foldl (\<lambda>sections section.
                  push_section (or_str (or_opt (fst section) (ws_label ws)) (ws_name ws)) (snd section) sections)
                sections own)"
  have run: "loadSidebarMenus pm user mw = foldl ?step (mw1, []) (filter (\<lambda>ws. ws_name ws \<noteq> ''admin'') wss)"
    by (simp add: loadSidebarMenus_def lw)
  have "side_ok user mw (mw1, [])" using loadWorkspaces_core[of pm user mw] lw by (simp add: side_ok_def)
  moreover have "side_ok user mw (?step x ws)"
    if "side_ok user mw x" "ws \<in> set (filter (\<lambda>ws. ws_name ws \<noteq> ''admin'') wss)" for x ws
    using that side_ok_step[of user mw "fst x" "snd x" ws pm] by (simp add: case_prod_beta)
  ultimately have "side_ok user mw (loadSidebarMenus pm user mw)"
    unfolding run by (rule foldl_keeps[where P = "side_ok user mw"])
  then show ?thesis by (simp add: side_ok_def list_all_iff Let_def)
qed

end
