(* ===== verification/App_Health.thy ===== *)
theory App_Health
  imports Run_Loops Complex_Main "HOL-Library.List_Lexorder" "HOL-Library.Char_ord"
begin

text \<open>
  The health of applications and what they are made of: an application's across its
  environments (\<open>pages/ApplicationList/components/AppStatus/health.ts\<close>), a component's
  details and traits (\<open>utils/status.ts\<close>), policies (\<open>utils/policies.ts\<close>), sources
  (\<open>utils/sourceStatus.ts\<close>) and pods (\<open>components/TreeGraph/pods.ts\<close>). Dates are
  milliseconds; reading one from text is an argument, \<open>None\<close> for an invalid date.
\<close>

section \<open>Health, worst last\<close>

datatype app_health = HUndeployed | HHealthy | HProgressing | HSuspended | HUnhealthy | HFailed

fun healthRank :: "app_health \<Rightarrow> nat" where
  "healthRank HUndeployed = 0"
| "healthRank HHealthy = 1"
| "healthRank HProgressing = 2"
| "healthRank HSuspended = 3"
| "healthRank HUnhealthy = 4"
| "healthRank HFailed = 5"

lemma healthRank_inj: "healthRank a = healthRank b \<longleftrightarrow> a = b"
  by (cases a; cases b) auto

instantiation app_health :: linorder
begin

definition less_eq_app_health :: "app_health \<Rightarrow> app_health \<Rightarrow> bool" where
  "less_eq_app_health a b \<longleftrightarrow> healthRank a \<le> healthRank b"

definition less_app_health :: "app_health \<Rightarrow> app_health \<Rightarrow> bool" where
  "less_app_health a b \<longleftrightarrow> healthRank a < healthRank b"

instance
  by intro_classes (auto simp: less_eq_app_health_def less_app_health_def healthRank_inj)

end

definition healthLabels :: "app_health \<Rightarrow> string" where
  "healthLabels h = (case h of HFailed \<Rightarrow> ''Failed'' | HUnhealthy \<Rightarrow> ''Unhealthy'' | HSuspended \<Rightarrow> ''Suspended''
     | HProgressing \<Rightarrow> ''Progressing'' | HHealthy \<Rightarrow> ''Healthy'' | HUndeployed \<Rightarrow> ''Not deployed'')"

record env_summary =
  es_env :: string
  es_phase :: string
  es_workflow :: "string option"
  es_components :: nat
  es_healthyComponents :: nat
  es_health :: app_health

record status_summary =
  sm_health :: app_health
  sm_workflow :: "string option"
  sm_components :: nat
  sm_healthyComponents :: nat
  sm_envs :: "env_summary list"

definition healthOf :: "status_summary option \<Rightarrow> app_health" where
  "healthOf status = (case status of Some s \<Rightarrow> sm_health s | None \<Rightarrow> HUndeployed)"

definition componentRatio :: "status_summary option \<Rightarrow> rat option" where
  "componentRatio status =
     (case status of
        None \<Rightarrow> None
      | Some s \<Rightarrow> if sm_components s = 0 then None
                  else Some (of_nat (sm_healthyComponents s) / of_nat (sm_components s)))"

definition workflowLabel :: "string option \<Rightarrow> string" where
  "workflowLabel phase = (if \<not> truthy phase then [] else capitalise (the phase))"

record env_state =
  ev_status :: "string option"
  ev_workflow :: "string option"
  ev_services :: "bool list option"
  ev_paused :: bool

record environment_status =
  vs_envName :: string
  vs_status :: "env_state option"

text \<open>Of a service only whether it is healthy is read.\<close>

definition pausedEnvs :: "environment_status list \<Rightarrow> string list" where
  "pausedEnvs statuses =
     map vs_envName (filter (\<lambda>s. case vs_status s of Some st \<Rightarrow> ev_paused st | None \<Rightarrow> False) statuses)"

definition environmentHealth :: "string option \<Rightarrow> nat \<Rightarrow> nat \<Rightarrow> app_health" where
  "environmentHealth phase components healthy =
     (if phase = Some ''workflowFailed'' \<or> phase = Some ''workflowTerminated'' then HFailed
      else if phase = Some ''workflowSuspending'' then HSuspended
      else if phase = Some ''unhealthy'' then HUnhealthy
      else if phase = Some ''running'' then (if healthy < components then HUnhealthy else HHealthy)
      else HProgressing)"

definition env_summary_of :: "string \<Rightarrow> env_state \<Rightarrow> env_summary" where
  "env_summary_of envName status =
     (let services = or_nil (ev_services status); healthyComponents = length (filter id services)
      in \<lparr>es_env = envName, es_phase = or_str (ev_status status) [], es_workflow = ev_workflow status,
          es_components = length services, es_healthyComponents = healthyComponents,
          es_health = environmentHealth (ev_status status) (length services) healthyComponents\<rparr>)"

definition add_env :: "status_summary \<Rightarrow> env_summary \<Rightarrow> status_summary" where
  "add_env summary env =
     (let summary' = summary\<lparr>sm_envs := sm_envs summary @ [env],
        sm_components := sm_components summary + es_components env,
        sm_healthyComponents := sm_healthyComponents summary + es_healthyComponents env\<rparr>
      in if healthRank (es_health env) > healthRank (sm_health summary)
         then summary'\<lparr>sm_health := es_health env, sm_workflow := es_workflow env\<rparr> else summary')"

definition no_envs :: status_summary where
  "no_envs = \<lparr>sm_health = HUndeployed, sm_workflow = None, sm_components = 0, sm_healthyComponents = 0, sm_envs = []\<rparr>"

definition summariseStatuses :: "environment_status list \<Rightarrow> status_summary" where
  "summariseStatuses statuses =
     foldl (\<lambda>summary s. case vs_status s of
         None \<Rightarrow> summary
       | Some status \<Rightarrow> add_env summary (env_summary_of (vs_envName s) status)) no_envs statuses"

text \<open>A filter is a health, or \<open>None\<close> for all.\<close>

definition count_health :: "(app_health option, nat) js_map \<Rightarrow> status_summary option \<Rightarrow> (app_health option, nat) js_map" where
  "count_health counts status =
     (let h = Some (healthOf status) in AList.update h (coalesce (map_of counts h) 0 + 1) counts)"

definition healthCounts :: "status_summary option list \<Rightarrow> (app_health option, nat) js_map" where
  "healthCounts apps = foldl count_health [(None, length apps)] apps"

definition byHealth :: "('a \<Rightarrow> status_summary option) \<Rightarrow> 'a list \<Rightarrow> app_health option \<Rightarrow> 'a list" where
  "byHealth status apps health =
     (case health of None \<Rightarrow> apps | Some h \<Rightarrow> filter (\<lambda>app. healthOf (status app) = h) apps)"

definition phaseTone :: "string option \<Rightarrow> tone" where
  "phaseTone phase =
     (if phase = None \<or> phase = Some [] then Undeployed
      else if phase = Some ''running'' \<or> phase = Some ''workflowFinished'' then Healthy
      else if phase = Some ''unhealthy'' then Unhealthy
      else if phase = Some ''workflowSuspending'' then Suspended
      else if phase = Some ''workflowFailed'' \<or> phase = Some ''workflowTerminated'' then Failed
      else Progressing)"

definition phaseLabel :: "string option \<Rightarrow> string" where
  "phaseLabel phase = (if \<not> truthy phase then ''Init'' else capitalise (the phase))"

definition envPhase :: "environment_status list \<Rightarrow> string \<Rightarrow> string option" where
  "envPhase statuses envName =
     Option.bind (Option.bind (find (\<lambda>s. vs_envName s = envName) statuses) vs_status) ev_status"

section \<open>Component status\<close>

definition detailEntries :: "(string, string) js_map option \<Rightarrow> (string \<times> string) list" where
  "detailEntries details =
     map (\<lambda>key. (key, the (map_of (or_nil details) key))) (sort (map fst (or_nil details)))"

record trait_status =
  tr_type :: string
  tr_healthy :: bool
  tr_pending :: bool
  tr_message :: "string option"
  tr_details :: "(string, string) js_map option"

record component_status =
  cs_name :: string
  cs_cluster :: "string option"
  cs_namespace :: "string option"
  cs_healthy :: bool
  cs_message :: "string option"
  cs_details :: "(string, string) js_map option"
  cs_traits :: "trait_status list option"

definition hasStatusDetails :: "component_status \<Rightarrow> bool" where
  "hasStatusDetails status \<longleftrightarrow>
     length (detailEntries (cs_details status)) > 0 \<or>
     list_ex (\<lambda>trait. length (detailEntries (tr_details trait)) > 0) (or_nil (cs_traits status))"

text \<open>\<open>Array.join\<close> writes an undefined element as nothing.\<close>

definition componentStatusKey :: "component_status \<Rightarrow> string" where
  "componentStatusKey status =
     join_with ''/'' [coalesce (cs_cluster status) [], coalesce (cs_namespace status) [], cs_name status]"

datatype summary_value = One "string option" | Many "string list"

definition summaryEntries :: "(string \<times> summary_value) list \<Rightarrow> (string \<times> string) list" where
  "summaryEntries entries =
     filter (\<lambda>entry. snd entry \<noteq> [])
       (map (\<lambda>(key, v). (key, case v of Many vs \<Rightarrow> join_with '', '' vs | One v \<Rightarrow> or_str v [])) entries)"

datatype trait_state = TraitHealthy | TraitPending | TraitUnhealthy

definition traitState :: "bool \<Rightarrow> bool \<Rightarrow> trait_state" where
  "traitState healthy pending =
     (if pending then TraitPending else if healthy then TraitHealthy else TraitUnhealthy)"

definition traitStateCircle :: "trait_state \<Rightarrow> string" where
  "traitStateCircle s = (case s of TraitHealthy \<Rightarrow> ''circle-success'' | TraitPending \<Rightarrow> ''circle-pending''
     | TraitUnhealthy \<Rightarrow> ''circle-failure'')"

section \<open>Policies\<close>

record applied_policy =
  ap_name :: string
  ap_type :: "string option"
  ap_source :: "string option"
  ap_applied :: bool
  ap_error :: "string option"

datatype policy_state = PApplied | PSkipped | PError

definition policyState :: "applied_policy \<Rightarrow> policy_state" where
  "policyState policy = (if truthy (ap_error policy) then PError else if ap_applied policy then PApplied else PSkipped)"

definition policyStateLabel :: "policy_state \<Rightarrow> string" where
  "policyStateLabel s = (case s of PApplied \<Rightarrow> ''Applied'' | PSkipped \<Rightarrow> ''Skipped'' | PError \<Rightarrow> ''Failed'')"

record policy_base =
  pb_name :: string
  pb_type :: "string option"
  pb_envName :: "string option"

record policy_row =
  pr_name :: string
  pr_type :: "string option"
  pr_envName :: "string option"
  pr_global :: bool
  pr_policy :: "policy_base option"
  pr_applied :: "applied_policy option"

text \<open>An environment is its name and the policies its status reports.\<close>

definition policyRows ::
  "policy_base list option \<Rightarrow> (string \<times> applied_policy list option) list option \<Rightarrow> policy_row list" where
  "policyRows policies statuses =
     (let envs = or_nil statuses;
          explicit = (\<lambda>policy. find (\<lambda>a. ap_source a \<noteq> Some ''global'' \<and> ap_name a = pb_name policy)
            (concat (map (\<lambda>env. or_nil (snd env))
               (filter (\<lambda>env. \<not> truthy (pb_envName policy) \<or> Some (fst env) = pb_envName policy) envs))));
          own = map (\<lambda>policy. \<lparr>pr_name = pb_name policy, pr_type = pb_type policy, pr_envName = pb_envName policy,
                   pr_global = False, pr_policy = Some policy, pr_applied = explicit policy\<rparr>) (or_nil policies);
          global = concat (map (\<lambda>env. map (\<lambda>a. \<lparr>pr_name = ap_name a, pr_type = ap_type a,
                   pr_envName = Some (fst env), pr_global = True, pr_policy = None, pr_applied = Some a\<rparr>)
                 (filter (\<lambda>a. ap_source a = Some ''global'') (or_nil (snd env)))) envs)
      in own @ global)"

section \<open>Sources and pods\<close>

definition sourcePhase :: "string option \<Rightarrow> badge" where
  "sourcePhase phase =
     (if phase = Some ''Resolved'' then \<lparr>bd_tone = Healthy, bd_label = ''Fresh''\<rparr>
      else if phase = Some ''Stale'' then \<lparr>bd_tone = Suspended, bd_label = ''Stale''\<rparr>
      else if phase = Some ''Failed'' then \<lparr>bd_tone = Failed, bd_label = ''Failed''\<rparr>
      else if phase = Some ''Unused'' then \<lparr>bd_tone = Neutral, bd_label = ''Unused''\<rparr>
      else \<lparr>bd_tone = Progressing, bd_label = ''Pending''\<rparr>)"

definition nextExpiry :: "(string \<Rightarrow> int option) \<Rightarrow> string option list option \<Rightarrow> int option" where
  "nextExpiry date resolutions =
     foldl (\<lambda>next r. case (if truthy r then date (the r) else None) of
         None \<Rightarrow> next
       | Some t \<Rightarrow> (case next of None \<Rightarrow> Some t | Some n \<Rightarrow> if t < n then Some t else next))
       None (or_nil resolutions)"

definition timeLeft :: "int \<Rightarrow> int \<Rightarrow> string option" where
  "timeLeft t now =
     (let seconds = (t - now) div 1000
      in if seconds \<le> 0 then None
         else if seconds < 60 then Some (int_str seconds @ ''s'')
         else let minutes = seconds div 60
              in if minutes < 60 then Some (int_str minutes @ ''m'')
                 else let hours = minutes div 60
                      in if hours < 24
                         then Some (if minutes mod 60 \<noteq> 0 then int_str hours @ ''h '' @ int_str (minutes mod 60) @ ''m''
                                    else int_str hours @ ''h'')
                         else Some (int_str (hours div 24) @ ''d''))"

definition resourceTone :: "string option \<Rightarrow> tone" where
  "resourceTone statusCode =
     (if statusCode = Some ''Healthy'' then Healthy
      else if statusCode = Some ''Progressing'' then Progressing
      else if statusCode = Some ''UnHealthy'' then Unhealthy else Neutral)"

definition podTone :: "string option \<Rightarrow> string option \<Rightarrow> tone" where
  "podTone up statusCode =
     (let tone = resourceTone statusCode
      in if tone \<noteq> Neutral then tone
         else if \<not> truthy up then Neutral
         else let parts = split_on CHR ''/'' (the up)
              in if nth_opt parts 0 = nth_opt parts 1 then Healthy else Progressing)"

section \<open>The worst environment\<close>

definition deployed :: "environment_status list \<Rightarrow> env_summary list" where
  "deployed statuses = concat (map (\<lambda>s. case vs_status s of None \<Rightarrow> [] | Some st \<Rightarrow> [env_summary_of (vs_envName s) st]) statuses)"

lemma summariseStatuses_foldl: "summariseStatuses statuses = foldl add_env no_envs (deployed statuses)"
proof -
  have "foldl (\<lambda>summary s. case vs_status s of None \<Rightarrow> summary
      | Some status \<Rightarrow> add_env summary (env_summary_of (vs_envName s) status)) acc statuses
      = foldl add_env acc (deployed statuses)" for acc
    by (induction statuses arbitrary: acc) (auto simp: deployed_def split: option.splits)
  then show ?thesis by (simp add: summariseStatuses_def)
qed

lemma foldl_add_env:
  "let r = foldl add_env acc envs in
     sm_health r = fold max (map es_health envs) (sm_health acc) \<and> sm_envs r = sm_envs acc @ envs \<and>
     sm_components r = sm_components acc + sum_list (map es_components envs) \<and>
     sm_healthyComponents r = sm_healthyComponents acc + sum_list (map es_healthyComponents envs)"
proof (induction envs arbitrary: acc)
  case (Cons env envs)
  have "sm_health (add_env acc env) = max (es_health env) (sm_health acc)"
    by (auto simp: add_env_def Let_def max_def less_eq_app_health_def)
  moreover have "sm_envs (add_env acc env) = sm_envs acc @ [env]"
    "sm_components (add_env acc env) = sm_components acc + es_components env"
    "sm_healthyComponents (add_env acc env) = sm_healthyComponents acc + es_healthyComponents env"
    by (simp_all add: add_env_def Let_def)
  ultimately show ?case using Cons[of "add_env acc env"] by (simp add: Let_def add.assoc)
qed simp

lemma env_healthy_le: "es_healthyComponents (env_summary_of n st) \<le> es_components (env_summary_of n st)"
  by (simp add: env_summary_of_def Let_def)

lemma deployed_healthy_le: "env \<in> set (deployed statuses) \<Longrightarrow> es_healthyComponents env \<le> es_components env"
  by (auto simp: deployed_def env_healthy_le split: option.splits)

lemma sum_healthy_le:
  "sum_list (map es_healthyComponents (deployed statuses)) \<le> sum_list (map es_components (deployed statuses))"
  by (intro sum_list_mono) (rule deployed_healthy_le)

lemma count_update: "map_of (AList.update k v m) k' = (if k' = k then Some v else map_of m k')"
  by (simp add: AList.update_conv')

lemma healthCounts_foldl:
  "map_of (foldl count_health m apps) h' =
   (case h' of None \<Rightarrow> map_of m None
    | Some h \<Rightarrow> let k = length (filter (\<lambda>a. healthOf a = h) apps)
        in if k = 0 then map_of m h' else Some (coalesce (map_of m h') 0 + k))"
  by (induction apps arbitrary: m) (auto simp: Let_def count_health_def count_update split: option.splits)

section \<open>Properties\<close>

text \<open>C18: an application's health across its environments is that of the worst one it is
  deployed to, and its components are counted over all of them.\<close>

theorem summariseStatuses_worst:
  "let r = summariseStatuses statuses; envs = deployed statuses in
     sm_envs r = envs \<and> sm_health r = Max (set (HUndeployed # map es_health envs)) \<and>
     sm_components r = sum_list (map es_components envs) \<and>
     sm_healthyComponents r = sum_list (map es_healthyComponents envs) \<and> sm_healthyComponents r \<le> sm_components r"
proof -
  have "fold max (map es_health (deployed statuses)) HUndeployed = Max (set (HUndeployed # map es_health (deployed statuses)))"
    by (simp only: Max.set_eq_fold)
  then show ?thesis
    using foldl_add_env[of no_envs "deployed statuses"] sum_healthy_le[of statuses]
    by (simp add: summariseStatuses_foldl no_envs_def Let_def)
qed

text \<open>The counts beside the health filters are the lengths of what each filter lists.\<close>

theorem healthCounts_byHealth:
  "coalesce (map_of (healthCounts (map status apps)) filt) 0 = length (byHealth status apps filt)"
proof (cases filt)
  case None
  then show ?thesis by (simp add: healthCounts_def healthCounts_foldl byHealth_def)
next
  case (Some h)
  have "length (filter (\<lambda>a. healthOf a = h) (map status apps)) = length (filter (\<lambda>app. healthOf (status app) = h) apps)"
    by (simp add: filter_map comp_def)
  with Some show ?thesis by (auto simp: healthCounts_def healthCounts_foldl byHealth_def Let_def)
qed

text \<open>A status's details are listed in order of their keys, each with its value, whatever
  order they arrive in.\<close>

theorem detailEntries_sorted:
  assumes "distinct (map fst details)"
  shows "sorted (map fst (detailEntries (Some details))) \<and> mset (detailEntries (Some details)) = mset details"
proof -
  let ?f = "\<lambda>key. (key, the (map_of details key))"
  have f: "map (\<lambda>kv. ?f (fst kv)) details = details"
    using assms by (intro map_idI) (auto simp: map_of_eq_Some_iff[THEN iffD2])
  have keys: "map fst (detailEntries (Some details)) = sort (map fst details)" by (simp add: detailEntries_def comp_def)
  have "mset (detailEntries (Some details)) = image_mset ?f (mset (map fst details))"
    by (simp add: detailEntries_def)
  also have "\<dots> = mset (map (\<lambda>kv. ?f (fst kv)) details)" by (simp add: multiset.map_comp comp_def)
  finally show ?thesis unfolding f keys by simp
qed

theorem detailEntries_sorted_witness:
  "distinct (map fst [(''b'', ''1''), (''a'', ''2'')]) \<and>
   sorted (map fst (detailEntries (Some [(''b'', ''1''), (''a'', ''2'')])))"
  using detailEntries_sorted[of "[(''b'', ''1''), (''a'', ''2'')]"] by simp

end
