(* ===== verification/Component_Dependencies.thy ===== *)
theory Component_Dependencies
  imports Graph_Search App_Health
begin

text \<open>
  What components depend on: the items on either side of a component
  (\<open>utils/dependencies.ts\<close>), its health in each environment and what it may depend on
  (\<open>pages/ApplicationConfig/components/ComponentList/model.ts\<close>), and where sources, data
  flows and resources sit on the application graph
  (\<open>pages/ApplicationStatus/components/ApplicationGraph\<close>: \<open>sources.ts\<close>,
  \<open>flows.ts\<close>, \<open>origins.ts\<close>).
\<close>

section \<open>Dependency items\<close>

datatype direction = Outbound | Inbound

record dependency_item =
  di_name :: string
  di_direction :: direction
  di_kind :: "string option"
  di_type :: "string option"
  di_where :: "string option"
  di_inferred :: "string option"

record component_dependency =
  cd_component :: string
  cd_dependsOn :: string
  cd_source :: "string option"
  cd_cluster :: "string option"
  cd_namespace :: "string option"

definition dep_item :: "string \<Rightarrow> direction \<Rightarrow> dependency_item" where
  "dep_item name dir = \<lparr>di_name = name, di_direction = dir, di_kind = None, di_type = None, di_where = None,
     di_inferred = None\<rparr>"

definition placement :: "component_dependency \<Rightarrow> string" where
  "placement d =
     (if truthy (cd_cluster d)
      then if truthy (cd_namespace d) then the (cd_cluster d) @ ''/'' @ the (cd_namespace d) else the (cd_cluster d)
      else if truthy (cd_namespace d) then ''namespace '' @ the (cd_namespace d) else [])"

definition inferredReason :: "component_dependency \<Rightarrow> string" where
  "inferredReason d =
     (let whr = placement d
      in if whr = []
         then ''Inferred from an expression: '' @ cd_component d @ '' reads '' @ cd_dependsOn d @
              '' beside it, so it is applied once '' @ cd_dependsOn d @ '' is healthy there''
         else ''Inferred from an expression: '' @ cd_component d @ '' reads '' @ cd_dependsOn d @ '' in '' @ whr @
              ''. Not ordered automatically; the workflow decides when'')"

definition outboundInferred :: "component_dependency \<Rightarrow> dependency_item" where
  "outboundInferred d =
     (dep_item (cd_dependsOn d) Outbound)\<lparr>di_inferred := Some (inferredReason d), di_where := or_undefined (placement d)\<rparr>"

definition same_item :: "dependency_item \<Rightarrow> dependency_item \<Rightarrow> bool" where
  "same_item i j \<longleftrightarrow> di_name i = di_name j \<and> di_direction i = di_direction j \<and> di_where i = di_where j"

definition add_item :: "(string, string) js_map \<Rightarrow> dependency_item list \<Rightarrow> dependency_item \<Rightarrow> dependency_item list" where
  "add_item types items item =
     (if list_ex (\<lambda>i. same_item i item) items then items
      else let type = map_of types (di_name item)
           in items @ [if truthy type then item\<lparr>di_type := type\<rparr> else item])"

definition dependencyItems ::
  "string \<Rightarrow> component_dependency list option \<Rightarrow> (string, string) js_map \<Rightarrow> dependency_item list" where
  "dependencyItems component dependencies types =
     (let written = filter (\<lambda>d. cd_source d \<noteq> Some ''expression'') (or_nil dependencies);
          inferred = filter (\<lambda>d. cd_source d = Some ''expression'') (or_nil dependencies)
      in foldl (add_item types) []
           (map (\<lambda>d. dep_item (cd_dependsOn d) Outbound) (filter (\<lambda>d. cd_component d = component) written) @
            map outboundInferred (filter (\<lambda>d. cd_component d = component) inferred) @
            map (\<lambda>d. dep_item (cd_component d) Inbound) (filter (\<lambda>d. cd_dependsOn d = component) written) @
            map (\<lambda>d. (dep_item (cd_component d) Inbound)\<lparr>di_inferred := Some (inferredReason d)\<rparr>)
              (filter (\<lambda>d. cd_dependsOn d = component) inferred)))"

section \<open>A component's health and dependencies\<close>

record component_service =
  sv_name :: string
  sv_healthy :: bool
  sv_message :: "string option"

record component_env_health =
  ce_env :: string
  ce_health :: app_health
  ce_message :: "string option"

definition componentHealth ::
  "string \<Rightarrow> (string \<times> component_service list option) list \<Rightarrow> component_env_health list" where
  "componentHealth component statuses =
     concat (map (\<lambda>(envName, services).
       let placed = filter (\<lambda>s. sv_name s = component) (or_nil services)
       in if placed = [] then []
          else let unhealthy = find (\<lambda>s. \<not> sv_healthy s) placed
               in [\<lparr>ce_env = envName, ce_health = (if unhealthy \<noteq> None then HUnhealthy else HHealthy),
                    ce_message = or_opt (Option.bind unhealthy sv_message)
                      (Option.bind (find (\<lambda>s. truthy (sv_message s)) placed) sv_message)\<rparr>]) statuses)"

definition componentDependsOn :: "string list option \<Rightarrow> dependency_item list \<Rightarrow> dependency_item list" where
  "componentDependsOn written items =
     foldl (\<lambda>result d. if list_ex (\<lambda>r. di_name r = di_name d \<and> di_where r = di_where d) result then result
                      else result @ [d])
       (map (\<lambda>name. dep_item name Outbound) (or_nil written))
       (filter (\<lambda>d. di_direction d = Outbound) items)"

record component_spec =
  co_name :: string
  co_alias :: "string option"
  co_dependsOn :: "string list option"

definition dep_add :: "string graph \<Rightarrow> string \<times> string \<Rightarrow> string graph" where
  "dep_add g e = AList.update (fst e) (set_add (succs g (fst e)) (snd e)) g"

definition dependsOn_graph ::
  "string \<Rightarrow> component_spec list \<Rightarrow> component_dependency list \<Rightarrow> dependency_item list \<Rightarrow> string graph" where
  "dependsOn_graph name components edges items =
     foldl dep_add []
       (concat (map (\<lambda>c. map (Pair (co_name c)) (or_nil (co_dependsOn c))) components) @
        map (\<lambda>e. (cd_component e, cd_dependsOn e)) edges @
        map (\<lambda>d. (di_name d, name)) (filter (\<lambda>d. di_direction d = Inbound) items))"

text \<open>One round of the loop: the nodes found, and whether the set grew.\<close>

definition grow_round :: "string graph \<Rightarrow> string \<Rightarrow> string list \<Rightarrow> string list \<times> bool" where
  "grow_round g name found =
     foldl (\<lambda>(found, grew) (from, targets).
        if from \<notin> set found \<and> list_ex (\<lambda>t. t = name \<or> t \<in> set found) targets
        then (set_add found from, True) else (found, grew)) (found, False) g"

lemma grow_round_aux:
  assumes "foldl (\<lambda>(found, grew) (from, targets).
        if from \<notin> set found \<and> list_ex (\<lambda>t. t = name \<or> t \<in> set found) targets
        then (set_add found from, True) else (found, grew)) (found0, b) es = (found', grew)"
  shows "set found0 \<subseteq> set found' \<and> set found' \<subseteq> set found0 \<union> fst ` set es \<and> (b \<longrightarrow> grew) \<and>
    (grew \<longrightarrow> b \<or> set found0 \<subset> set found') \<and> (\<not> grew \<longrightarrow> found' = found0)"
  using assms
proof (induction es arbitrary: found0 b)
  case (Cons e es)
  obtain f ts where e: "e = (f, ts)" by (cases e)
  show ?case
  proof (cases "f \<notin> set found0 \<and> list_ex (\<lambda>t. t = name \<or> t \<in> set found0) ts")
    case True
    with Cons.prems e have "foldl (\<lambda>(found, grew) (from, targets).
        if from \<notin> set found \<and> list_ex (\<lambda>t. t = name \<or> t \<in> set found) targets
        then (set_add found from, True) else (found, grew)) (set_add found0 f, True) es = (found', grew)" by simp
    from Cons.IH[OF this] True e show ?thesis by auto
  next
    case False
    with Cons.prems e have "foldl (\<lambda>(found, grew) (from, targets).
        if from \<notin> set found \<and> list_ex (\<lambda>t. t = name \<or> t \<in> set found) targets
        then (set_add found from, True) else (found, grew)) (found0, b) es = (found', grew)" by simp
    from Cons.IH[OF this] e show ?thesis by auto
  qed
qed simp

lemma grow_round_grows:
  assumes "grow_round g name found = (found', True)"
  shows "card (nodes g - set found') < card (nodes g - set found)"
proof -
  have "set found \<subset> set found'" "set found' \<subseteq> set found \<union> nodes g"
    using grow_round_aux[OF assms[unfolded grow_round_def]] by (auto simp: nodes_def)
  then show ?thesis by (intro psubset_card_mono) auto
qed

function dependents_loop :: "string graph \<Rightarrow> string \<Rightarrow> string list \<Rightarrow> string list" where
  "dependents_loop g name found =
     (let (found', grew) = grow_round g name found in if grew then dependents_loop g name found' else found')"
  by pat_completeness auto
termination
  by (relation "measure (\<lambda>(g, name, found). card (nodes g - set found))") (auto intro: grow_round_grows dest: sym)

declare dependents_loop.simps [simp del]

definition dependentsOf ::
  "string \<Rightarrow> component_spec list \<Rightarrow> component_dependency list \<Rightarrow> dependency_item list \<Rightarrow> string list" where
  "dependentsOf name components edges items =
     dependents_loop (dependsOn_graph name components edges items) name []"

record depends_on_option =
  op_label :: string
  op_value :: string
  op_inferred :: "string option"

definition dependsOnOptions ::
  "component_spec list \<Rightarrow> string option \<Rightarrow> dependency_item list \<Rightarrow> component_dependency list \<Rightarrow> depends_on_option list" where
  "dependsOnOptions components componentName items edges =
     (let dependents = (if truthy componentName then dependentsOf (the componentName) components edges items else []);
          reads = filter (\<lambda>d. di_direction d = Outbound \<and> truthy (di_inferred d) \<and> \<not> truthy (di_where d)) items
      in map (\<lambda>c. \<lparr>op_label = (if truthy (co_alias c) then the (co_alias c) @ ''('' @ co_name c @ '')'' else co_name c),
                  op_value = co_name c,
                  op_inferred = Option.bind (find (\<lambda>d. di_name d = co_name c) reads) di_inferred\<rparr>)
           (filter (\<lambda>c. Some (co_name c) \<noteq> componentName \<and> co_name c \<notin> set dependents) components))"

section \<open>Sources on the graph\<close>

record source_consumer =
  sc_name :: string
  sc_definitionKind :: string
  sc_cluster :: "string option"
  sc_namespace :: "string option"

record source_status =
  so_name :: string
  so_type :: "string option"
  so_consumedBy :: "source_consumer list option"

definition placementKey :: "string option \<Rightarrow> string option \<Rightarrow> string \<Rightarrow> string" where
  "placementKey cluster namespace name = or_str cluster ''local'' @ ''/'' @ or_str namespace [] @ ''/'' @ name"

definition readerComponent :: "source_consumer \<Rightarrow> string option" where
  "readerComponent consumer =
     (if sc_definitionKind consumer = ''component'' then Some (sc_name consumer)
      else if sc_definitionKind consumer = ''trait'' then nth_opt (split_on CHR ''/'' (sc_name consumer)) 0
      else None)"

definition reads_at :: "source_consumer \<Rightarrow> string \<Rightarrow> string \<Rightarrow> bool" where
  "reads_at consumer component key =
     (let parts = split_on CHR ''/'' key
      in nth_opt parts 2 = Some component \<and>
         (\<not> truthy (sc_cluster consumer) \<or> sc_cluster consumer = nth_opt parts 0) \<and>
         (\<not> truthy (sc_namespace consumer) \<or> sc_namespace consumer = nth_opt parts 1))"

definition link_consumer ::
  "(string, string) js_map \<Rightarrow> string list \<times> source_consumer list \<Rightarrow> source_consumer \<Rightarrow> string list \<times> source_consumer list" where
  "link_consumer placements acc consumer =
     (let component = readerComponent consumer
      in if \<not> truthy component then (fst acc, snd acc @ [consumer])
         else let matched = map snd (filter (\<lambda>kv. reads_at consumer (the component) (fst kv)) placements)
              in (set_add_all (fst acc) matched, if matched = [] then snd acc @ [consumer] else snd acc))"

definition sourceLinks :: "source_status \<Rightarrow> (string, string) js_map \<Rightarrow> string list \<times> source_consumer list" where
  "sourceLinks source placements = foldl (link_consumer placements) ([], []) (or_nil (so_consumedBy source))"

definition sourceReads ::
  "string \<Rightarrow> string option \<Rightarrow> string option \<Rightarrow> source_status list option \<Rightarrow> dependency_item list" where
  "sourceReads component cluster namespace sources =
     concat (map (\<lambda>source.
       let readers = filter (\<lambda>c. readerComponent c = Some component \<and>
              (\<not> truthy (sc_cluster c) \<or> or_str (sc_cluster c) ''local'' = or_str cluster ''local'') \<and>
              (\<not> truthy (sc_namespace c) \<or> sc_namespace c = Some (or_str namespace []))) (or_nil (so_consumedBy source))
       in if readers = [] then []
          else let direct = list_ex (\<lambda>r. sc_definitionKind r = ''component'') readers;
                   traits = map (\<lambda>r. coalesce (nth_opt (split_on CHR ''/'' (sc_name r)) 1) [])
                              (filter (\<lambda>r. sc_definitionKind r = ''trait'') readers)
               in [\<lparr>di_name = so_name source, di_direction = Outbound, di_kind = Some ''source'', di_type = so_type source,
                    di_where = None,
                    di_inferred = (if direct then None
                      else Some (''Read by its '' @ join_with '', '' traits @ '' trait'' @
                                 (if length traits > 1 then ''s'' else [])))\<rparr>]) (or_nil sources))"

definition sourcePhaseTone :: "string option \<Rightarrow> tone" where
  "sourcePhaseTone phase =
     (if phase = Some ''Resolved'' then Healthy else if phase = Some ''Stale'' then Suspended
      else if phase = Some ''Failed'' then Failed else Neutral)"

section \<open>Data flows on the graph\<close>

record flow_end =
  fe_kind :: string
  fe_name :: string
  fe_cluster :: "string option"
  fe_namespace :: "string option"

record data_flow =
  fl_via :: string
  fl_from :: flow_end
  fl_to :: flow_end

record placed =
  pl_cluster :: "string option"
  pl_namespace :: "string option"
  pl_name :: "string option"
  pl_key :: string

record flow_node =
  fn_name :: string
  fn_flow :: data_flow
  fn_linksFrom :: "string list"
  fn_links :: "string list"

definition placedComponents :: "(string, string) js_map \<Rightarrow> placed list" where
  "placedComponents placements =
     map (\<lambda>(pk, key). let parts = split_on CHR ''/'' pk
                      in \<lparr>pl_cluster = nth_opt parts 0, pl_namespace = nth_opt parts 1, pl_name = nth_opt parts 2,
                          pl_key = key\<rparr>) placements"

definition flow_readers :: "flow_end \<Rightarrow> placed list \<Rightarrow> placed list" where
  "flow_readers to placed =
     filter (\<lambda>p. pl_name p = Some (fe_name to) \<and>
                 (\<not> truthy (fe_cluster to) \<or> fe_cluster to = pl_cluster p) \<and>
                 (\<not> truthy (fe_namespace to) \<or> fe_namespace to = pl_namespace p)) placed"

definition producerKey ::
  "flow_end \<Rightarrow> placed \<Rightarrow> placed list \<Rightarrow> (string, string) js_map \<Rightarrow> string option" where
  "producerKey from reader placed sources =
     (if fe_kind from = ''source'' then map_of sources (fe_name from)
      else let cluster = or_opt (fe_cluster from) (pl_cluster reader);
               namespace = or_opt (fe_namespace from) (if truthy (fe_cluster from) then None else pl_namespace reader)
           in map_option pl_key
                (find (\<lambda>p. pl_name p = Some (fe_name from) \<and> pl_cluster p = Some (or_str cluster ''local'') \<and>
                          (\<not> truthy namespace \<or> pl_namespace p = namespace)) placed))"

definition flow_node_for ::
  "(string, string) js_map \<Rightarrow> placed list \<Rightarrow> data_flow \<Rightarrow> placed \<Rightarrow> flow_node list" where
  "flow_node_for sources placed flow reader =
     (let from = producerKey (fl_from flow) reader placed sources
      in if \<not> truthy from then []
         else [\<lparr>fn_name = fl_via flow @ '':'' @ fe_kind (fl_from flow) @ '':'' @ fe_name (fl_from flow) @ ''->'' @
                  placementKey (pl_cluster reader) (pl_namespace reader) (coalesce (pl_name reader) ''undefined''),
               fn_flow = flow, fn_linksFrom = [the from], fn_links = [pl_key reader]\<rparr>])"

definition flowNodes :: "data_flow list \<Rightarrow> (string, string) js_map \<Rightarrow> (string, string) js_map \<Rightarrow> flow_node list" where
  "flowNodes flows placements sources =
     (let placed = placedComponents placements
      in concat (map (\<lambda>flow. concat (map (flow_node_for sources placed flow) (flow_readers (fl_to flow) placed))) flows))"

definition flowLabels :: "string \<Rightarrow> string option" where
  "flowLabels via = map_of [(''source'', ''Source values''), (''expression'', ''Expressions''),
     (''inputs'', ''Outputs to inputs''), (''dependsOn'', ''Order only'')] via"

section \<open>Where a resource came from\<close>

definition auxiliary :: string where
  "auxiliary = ''AuxiliaryWorkload''"

record applied_resource =
  re_component :: "string option"
  re_trait :: "string option"
  re_cluster :: "string option"

record resource_origin =
  ro_component :: string
  ro_type :: "string option"
  ro_trait :: "string option"
  ro_healthy :: "bool option"
  ro_message :: "string option"
  ro_traitHealthy :: "bool option"
  ro_traitPending :: "bool option"
  ro_traitMessage :: "string option"

definition resourceOrigin ::
  "applied_resource \<Rightarrow> (string \<times> string option) list \<Rightarrow> component_status list \<Rightarrow> resource_origin option" where
  "resourceOrigin res components services =
     (if \<not> truthy (re_component res) then None
      else let component = the (re_component res);
               type = Option.bind (find (\<lambda>c. fst c = component) components) snd;
               trait = (if truthy (re_trait res) \<and> re_trait res \<noteq> Some auxiliary then re_trait res else None);
               cluster = or_str (re_cluster res) ''local'';
               service = find (\<lambda>s. cs_name s = component \<and> or_str (cs_cluster s) ''local'' = cluster) services;
               traitStatus = (case trait of None \<Rightarrow> None
                 | Some t \<Rightarrow> Option.bind service (\<lambda>s. find (\<lambda>x. tr_type x = t) (or_nil (cs_traits s))))
           in Some \<lparr>ro_component = component, ro_type = or_opt type None, ro_trait = trait,
                ro_healthy = map_option cs_healthy service,
                ro_message = Option.bind service (\<lambda>s. or_opt (cs_message s) None),
                ro_traitHealthy = map_option tr_healthy traitStatus,
                ro_traitPending = map_option tr_pending traitStatus,
                ro_traitMessage = Option.bind traitStatus (\<lambda>x. or_opt (tr_message x) None)\<rparr>)"

section \<open>The dependents found\<close>

lemma dep_add_keys: "distinct (map fst g) \<Longrightarrow> distinct (map fst (dep_add g e))"
  by (simp add: dep_add_def AList.distinct_update)

lemma dep_add_edges: "edge_rel (dep_add g e) = insert e (edge_rel g)"
  by (auto simp: dep_add_def edge_rel_def succs_def AList.update_conv' set_add_def split: if_splits)

lemma foldl_dep_add:
  "distinct (map fst g) \<Longrightarrow> distinct (map fst (foldl dep_add g es)) \<and> edge_rel (foldl dep_add g es) = edge_rel g \<union> set es"
  by (induction es arbitrary: g) (auto simp: dep_add_edges dep_add_keys)

definition dependency_edges ::
  "string \<Rightarrow> component_spec list \<Rightarrow> component_dependency list \<Rightarrow> dependency_item list \<Rightarrow> (string \<times> string) set" where
  "dependency_edges name components edges items =
     {(co_name c, d) | c d. c \<in> set components \<and> d \<in> set (or_nil (co_dependsOn c))} \<union>
     {(cd_component e, cd_dependsOn e) | e. e \<in> set edges} \<union>
     {(di_name d, name) | d. d \<in> set items \<and> di_direction d = Inbound}"

lemma dependsOn_graph_edges:
  "distinct (map fst (dependsOn_graph name components edges items)) \<and>
   edge_rel (dependsOn_graph name components edges items) = dependency_edges name components edges items"
proof -
  let ?es = "concat (map (\<lambda>c. map (Pair (co_name c)) (or_nil (co_dependsOn c))) components) @
        map (\<lambda>e. (cd_component e, cd_dependsOn e)) edges @
        map (\<lambda>d. (di_name d, name)) (filter (\<lambda>d. di_direction d = Inbound) items)"
  have "set ?es = dependency_edges name components edges items" by (auto simp: dependency_edges_def)
  then show ?thesis
    using foldl_dep_add[of "[]" ?es] by (simp add: dependsOn_graph_def edge_rel_def succs_def)
qed

lemma grow_round_sound:
  assumes "distinct (map fst g)" and "\<forall>n\<in>set found. (n, name) \<in> (edge_rel g)\<^sup>+"
    and "grow_round g name found = (found', grew)"
  shows "\<forall>n\<in>set found'. (n, name) \<in> (edge_rel g)\<^sup>+"
proof -
  have edge: "(f, t) \<in> edge_rel g" if "(f, ts) \<in> set g" "t \<in> set ts" for f ts t
    using that assms(1) by (simp add: succs_def)
  have "\<forall>n\<in>set found'. (n, name) \<in> (edge_rel g)\<^sup>+"
    if "set es \<subseteq> set g" "\<forall>n\<in>set found. (n, name) \<in> (edge_rel g)\<^sup>+"
      "foldl (\<lambda>(found, grew) (from, targets).
        if from \<notin> set found \<and> list_ex (\<lambda>t. t = name \<or> t \<in> set found) targets
        then (set_add found from, True) else (found, grew)) (found, b) es = (found', grew)" for es found b
    using that
  proof (induction es arbitrary: found b)
    case (Cons e es)
    obtain f ts where e: "e = (f, ts)" by (cases e)
    show ?case
    proof (cases "f \<notin> set found \<and> list_ex (\<lambda>t. t = name \<or> t \<in> set found) ts")
      case True
      then obtain t where t: "t \<in> set ts" "t = name \<or> t \<in> set found" by (auto simp: list_ex_iff)
      with edge[of f ts t] Cons.prems(1) e have "(f, t) \<in> edge_rel g" by auto
      then have "(f, name) \<in> (edge_rel g)\<^sup>+"
        using t(2) Cons.prems(2) by (metis r_into_trancl' trancl_into_trancl2)
      then show ?thesis
        using Cons.IH[of "set_add found f" True] Cons.prems True e by simp
    next
      case False
      with Cons.prems(3) e have "foldl (\<lambda>(found, grew) (from, targets).
        if from \<notin> set found \<and> list_ex (\<lambda>t. t = name \<or> t \<in> set found) targets
        then (set_add found from, True) else (found, grew)) (found, b) es = (found', grew)" by simp
      then show ?thesis using Cons.IH[of found b] Cons.prems(1,2) by simp
    qed
  qed simp
  from this[of g found False] assms(2,3) show ?thesis by (simp add: grow_round_def)
qed

lemma grow_round_closed:
  assumes "grow_round g name found = (found', False)" and "(f, ts) \<in> set g" and "t \<in> set ts" and "t = name \<or> t \<in> set found"
  shows "f \<in> set found"
proof -
  let ?step = "\<lambda>(found, grew) (from, targets).
        if from \<notin> set found \<and> list_ex (\<lambda>t. t = name \<or> t \<in> set found) targets
        then (set_add found from, True) else (found, grew)"
  from assms(2) obtain us vs where g: "g = us @ (f, ts) # vs" by (metis split_list)
  obtain f1 b1 where 1: "foldl ?step (found, False) us = (f1, b1)" by (cases "foldl ?step (found, False) us")
  have run: "foldl ?step (?step (f1, b1) (f, ts)) vs = (found', False)"
    using assms(1) unfolding grow_round_def g by (simp only: foldl_append foldl_Cons 1)
  have "\<not> b1"
  proof
    assume b1
    then have "snd (?step (f1, b1) (f, ts))" by simp
    moreover obtain f2 b2 where 2: "?step (f1, b1) (f, ts) = (f2, b2)" by (cases "?step (f1, b1) (f, ts)")
    ultimately show False using grow_round_aux[of name f2 b2 vs found' False] run by simp
  qed
  then have f1: "f1 = found" using grow_round_aux[OF 1] by simp
  show ?thesis
  proof (rule ccontr)
    assume "f \<notin> set found"
    moreover have "list_ex (\<lambda>t. t = name \<or> t \<in> set found) ts" using assms(3,4) by (auto simp: list_ex_iff)
    ultimately have "foldl ?step (set_add found f, True) vs = (found', False)" using run f1 by simp
    from grow_round_aux[OF this] show False by simp
  qed
qed

lemma dependents_loop_set:
  assumes "distinct (map fst g)" and "\<forall>n\<in>set found. (n, name) \<in> (edge_rel g)\<^sup>+"
  shows "set (dependents_loop g name found) = {n. (n, name) \<in> (edge_rel g)\<^sup>+}"
  using assms
proof (induction g name found rule: dependents_loop.induct)
  case (1 g name found)
  obtain found' grew where r: "grow_round g name found = (found', grew)" by (cases "grow_round g name found")
  have sound: "\<forall>n\<in>set found'. (n, name) \<in> (edge_rel g)\<^sup>+" by (rule grow_round_sound[OF "1.prems" r])
  show ?case
  proof (cases grew)
    case True
    then show ?thesis using "1.IH"[OF r[symmetric] refl True "1.prems"(1) sound] r
      by (simp add: dependents_loop.simps[of g name found])
  next
    case False
    then have same: "found' = found" using grow_round_aux[OF r[unfolded grow_round_def]] by simp
    have "n \<in> set found" if "(n, name) \<in> (edge_rel g)\<^sup>+" for n
      using that
    proof (induction rule: converse_trancl_induct)
      case (base n)
      then obtain ts where "map_of g n = Some ts" "name \<in> set ts" by (cases "map_of g n") (auto simp: succs_def)
      then show ?case using grow_round_closed[of g name found found' n ts name] r False by (auto dest: map_of_SomeD)
    next
      case (step n m)
      then obtain ts where "map_of g n = Some ts" "m \<in> set ts" by (cases "map_of g n") (auto simp: succs_def)
      then show ?case using grow_round_closed[of g name found found' n ts m] r False step by (auto dest: map_of_SomeD)
    qed
    then show ?thesis using sound same r False by (auto simp: dependents_loop.simps[of g name found])
  qed
qed

section \<open>Properties\<close>

text \<open>C19: the dependents of a component are exactly the components that depend on it, at any
  distance, and what is offered for its \<open>dependsOn\<close> never closes a cycle.\<close>

theorem dependsOnOptions_acyclic:
  assumes "name \<noteq> []" and "opt \<in> set (dependsOnOptions components (Some name) items edges)"
    and "acyclic (dependency_edges name components edges items)"
  shows "set (dependentsOf name components edges items) = {n. (n, name) \<in> (dependency_edges name components edges items)\<^sup>+} \<and>
    acyclic (insert (name, op_value opt) (dependency_edges name components edges items))"
proof -
  let ?E = "dependency_edges name components edges items"
  have dep: "set (dependentsOf name components edges items) = {n. (n, name) \<in> ?E\<^sup>+}"
    unfolding dependentsOf_def
    using dependents_loop_set[of "dependsOn_graph name components edges items" "[]" name] dependsOn_graph_edges by simp
  from assms(1,2) have "op_value opt \<noteq> name" "op_value opt \<notin> set (dependentsOf name components edges items)"
    by (auto simp: dependsOnOptions_def Let_def truthy_iff)
  with dep have "(op_value opt, name) \<notin> ?E\<^sup>*" by (auto simp: rtrancl_eq_or_trancl)
  with dep assms(3) show ?thesis by (simp add: acyclic_insert)
qed

theorem dependsOnOptions_acyclic_witness:
  "\<exists>opt. opt \<in> set (dependsOnOptions [\<lparr>co_name = ''a'', co_alias = None, co_dependsOn = None\<rparr>,
        \<lparr>co_name = ''b'', co_alias = None, co_dependsOn = Some [''a'']\<rparr>] (Some ''b'') [] []) \<and>
     acyclic (insert (''b'', op_value opt) (dependency_edges ''b'' [\<lparr>co_name = ''a'', co_alias = None, co_dependsOn = None\<rparr>,
        \<lparr>co_name = ''b'', co_alias = None, co_dependsOn = Some [''a'']\<rparr>] [] []))"
proof -
  let ?cs = "[\<lparr>co_name = ''a'', co_alias = None, co_dependsOn = None\<rparr>,
        \<lparr>co_name = ''b'', co_alias = None, co_dependsOn = Some [''a'']\<rparr>]"
  let ?o = "\<lparr>op_label = ''a'', op_value = ''a'', op_inferred = None\<rparr>"
  have "dependsOnOptions ?cs (Some ''b'') [] [] = [?o]" by code_simp
  then have o: "?o \<in> set (dependsOnOptions ?cs (Some ''b'') [] [])" by simp
  have "dependency_edges ''b'' ?cs [] [] = {(''b'', ''a'')}" by (force simp: dependency_edges_def)
  then have a: "acyclic (dependency_edges ''b'' ?cs [] [])" by (simp add: acyclic_insert wf_acyclic)
  from dependsOnOptions_acyclic[OF _ o a] o show ?thesis by (intro exI[of _ ?o]) simp
qed

lemma add_item_distinct:
  assumes "distinct (map (\<lambda>i. (di_name i, di_direction i, di_where i)) items)"
  shows "distinct (map (\<lambda>i. (di_name i, di_direction i, di_where i)) (add_item types items item))"
  using assms by (auto simp: add_item_def Let_def list_ex_iff same_item_def)

lemma foldl_add_item_distinct:
  "distinct (map (\<lambda>i. (di_name i, di_direction i, di_where i)) items) \<Longrightarrow>
   distinct (map (\<lambda>i. (di_name i, di_direction i, di_where i)) (foldl (add_item types) items new))"
  by (induction new arbitrary: items) (simp_all add: add_item_distinct)

lemma add_item_keeps: "i \<in> set items \<Longrightarrow> i \<in> set (add_item types items item)"
  by (auto simp: add_item_def Let_def)

lemma foldl_add_item_keeps: "i \<in> set items \<Longrightarrow> i \<in> set (foldl (add_item types) items new)"
  by (induction new arbitrary: items) (simp_all add: add_item_keeps)

lemma foldl_add_item_plain:
  assumes "\<forall>i\<in>set items. di_inferred i = None" and "\<forall>i\<in>set new. di_inferred i = None"
  shows "\<forall>i\<in>set (foldl (add_item types) items new). di_inferred i = None"
  using assms
proof (induction new arbitrary: items)
  case (Cons x new)
  have "\<forall>i\<in>set (add_item types items x). di_inferred i = None"
    using Cons.prems by (auto simp: add_item_def Let_def)
  from Cons.IH[OF this] Cons.prems(2) show ?case by simp
qed simp

lemma foldl_add_item_has:
  "item \<in> set new \<Longrightarrow> \<exists>i\<in>set (foldl (add_item types) items new). same_item i item"
proof (induction new arbitrary: items)
  case (Cons x new)
  show ?case
  proof (cases "x = item")
    case True
    have "\<exists>i\<in>set (add_item types items item). same_item i item"
      by (auto simp: add_item_def Let_def list_ex_iff same_item_def)
    then show ?thesis using True foldl_add_item_keeps[of _ "add_item types items item" types new] by auto
  next
    case False
    then show ?thesis using Cons by simp
  qed
qed simp

text \<open>The items on either side of a component list each component once per direction
  and placement, and a dependency that is written is listed as written, with no reason, even
  where an expression implies it too.\<close>

theorem dependencyItems_once:
  assumes "d \<in> set (or_nil dependencies)" and "cd_component d = component" and "cd_source d \<noteq> Some ''expression''"
  shows "distinct (map (\<lambda>i. (di_name i, di_direction i, di_where i)) (dependencyItems component dependencies types)) \<and>
    (\<exists>i\<in>set (dependencyItems component dependencies types).
       di_name i = cd_dependsOn d \<and> di_direction i = Outbound \<and> di_where i = None \<and> di_inferred i = None)"
proof -
  let ?w = "map (\<lambda>d. dep_item (cd_dependsOn d) Outbound)
      (filter (\<lambda>d. cd_component d = component) (filter (\<lambda>d. cd_source d \<noteq> Some ''expression'') (or_nil dependencies)))"
  let ?first = "foldl (add_item types) [] ?w"
  have "dep_item (cd_dependsOn d) Outbound \<in> set ?w" using assms by auto
  from foldl_add_item_has[OF this, of types "[]"] obtain i where
    i: "i \<in> set ?first" "same_item i (dep_item (cd_dependsOn d) Outbound)" by blast
  have "di_inferred i = None" using foldl_add_item_plain[of "[]" ?w types] i(1) by (auto simp: dep_item_def)
  moreover have "i \<in> set (dependencyItems component dependencies types)"
    unfolding dependencyItems_def Let_def foldl_append by (intro foldl_add_item_keeps i(1))
  moreover have "distinct (map (\<lambda>i. (di_name i, di_direction i, di_where i)) (dependencyItems component dependencies types))"
    unfolding dependencyItems_def Let_def by (rule foldl_add_item_distinct) simp
  ultimately show ?thesis using i(2) by (auto simp: same_item_def dep_item_def)
qed

theorem dependencyItems_once_witness:
  "\<exists>i\<in>set (dependencyItems ''a'' (Some [\<lparr>cd_component = ''a'', cd_dependsOn = ''b'', cd_source = Some ''expression'',
        cd_cluster = None, cd_namespace = None\<rparr>, \<lparr>cd_component = ''a'', cd_dependsOn = ''b'', cd_source = None,
        cd_cluster = None, cd_namespace = None\<rparr>]) []). di_name i = ''b'' \<and> di_inferred i = None"
proof -
  let ?d = "\<lparr>cd_component = ''a'', cd_dependsOn = ''b'', cd_source = None, cd_cluster = None, cd_namespace = None\<rparr>"
  let ?deps = "Some [\<lparr>cd_component = ''a'', cd_dependsOn = ''b'', cd_source = Some ''expression'',
        cd_cluster = None, cd_namespace = None\<rparr>, ?d]"
  have h: "?d \<in> set (or_nil ?deps)" "cd_component ?d = ''a''" "cd_source ?d \<noteq> Some ''expression''" by simp_all
  from dependencyItems_once[OF h, of "[]"] show ?thesis by auto
qed

lemma flow_node_for_mem: "n \<in> set (flow_node_for sources placed flow reader) \<Longrightarrow>
   fn_links n = [pl_key reader] \<and> (\<exists>from. producerKey (fl_from flow) reader placed sources = Some from \<and> fn_linksFrom n = [from])"
  by (auto simp: flow_node_for_def Let_def truthy_iff split: if_splits)

lemma producerKey_known:
  assumes "producerKey from reader placed sources = Some k"
  shows "k \<in> pl_key ` set placed \<or> k \<in> snd ` set sources"
  using assms by (auto simp: producerKey_def Let_def split: if_splits dest!: find_Some_mem map_of_SomeD) force+

text \<open>Every data flow drawn joins two nodes of the graph: it feeds the node of a
  component placement, and comes from one or from a source's node.\<close>

theorem flowNodes_joined:
  "list_all (\<lambda>n. set (fn_links n) \<subseteq> snd ` set placements \<and>
     set (fn_linksFrom n) \<subseteq> snd ` set placements \<union> snd ` set sources) (flowNodes flows placements sources)"
proof -
  have keys: "pl_key ` set (placedComponents placements) = snd ` set placements"
    by (force simp: placedComponents_def Let_def)
  have "set (fn_links n) \<subseteq> snd ` set placements \<and> set (fn_linksFrom n) \<subseteq> snd ` set placements \<union> snd ` set sources"
    if n: "n \<in> set (flowNodes flows placements sources)" for n
  proof -
    from n obtain flow reader where r: "reader \<in> set (placedComponents placements)"
      and node: "n \<in> set (flow_node_for sources (placedComponents placements) flow reader)"
      by (auto simp: flowNodes_def Let_def flow_readers_def)
    from flow_node_for_mem[OF node] obtain src where "fn_links n = [pl_key reader]" "fn_linksFrom n = [src]"
      "producerKey (fl_from flow) reader (placedComponents placements) sources = Some src" by blast
    with r producerKey_known[of "fl_from flow" reader "placedComponents placements" sources src] keys show ?thesis by auto
  qed
  then show ?thesis by (simp add: list_all_iff)
qed

end
