(* ===== verification/Edge_Routing.thy ===== *)
theory Edge_Routing
  imports Js_Prelude Complex_Main "HOL-Library.Product_Lexorder"
begin

text \<open>
  Orthogonal routing of the graph's edges (\<open>components/TreeGraph/orthogonal.ts\<close>): where
  edges meet a box's sides, how short steps are straightened, the lanes in the gaps between
  columns, and the routes. Numbers are exact rationals, columns are integers and the spacing
  is positive. A port is an object several maps share and the straightening changes in place:
  the ports of each side are kept per node, and a map holds a port as the node's key and its
  place on the side. Printing a number is an argument of \<open>orthoPath\<close>.
\<close>

section \<open>Boxes, edges and ports\<close>

record point =
  px :: rat
  py :: rat

record box =
  bx_left :: rat
  bx_top :: rat
  bx_width :: rat
  bx_height :: rat

record route_node =
  rn_key :: string
  rn_box :: box
  rn_column :: int

record route_edge =
  rg_key :: string
  rg_from :: string
  rg_to :: string
  rg_passes :: "rat list option"

record route_options =
  ro_spacing :: rat
  ro_leadOut :: rat
  ro_leadIn :: rat
  ro_stub :: rat
  ro_minRun :: rat

definition routeDefaults :: route_options where
  "routeDefaults = \<lparr>ro_spacing = 8, ro_leadOut = 14, ro_leadIn = 18, ro_stub = 14, ro_minRun = 14\<rparr>"

record port =
  pt_points :: "point list"
  pt_level :: rat

definition at_point :: "rat \<Rightarrow> rat \<Rightarrow> point" where
  "at_point x y = \<lparr>px = x, py = y\<rparr>"

definition centreY :: "box \<Rightarrow> rat" where
  "centreY b = bx_top b + bx_height b / 2"

section \<open>Ports along a side\<close>

definition port_order :: "rat list \<Rightarrow> nat list" where
  "port_order toward = sort_key (\<lambda>i. toward ! i) [0..<length toward]"

definition capacity :: "box \<Rightarrow> route_options \<Rightarrow> nat" where
  "capacity b opts = nat (max 1 \<lfloor>(bx_height b - ro_spacing opts) / ro_spacing opts\<rfloor>)"

definition along :: "box \<Rightarrow> bool \<Rightarrow> route_options \<Rightarrow> nat \<Rightarrow> rat" where
  "along b out opts k =
     (if out then bx_left b + bx_width b - ro_spacing opts * of_nat k else bx_left b + ro_spacing opts * of_nat k)"

text \<open>The port at place \<open>k\<close> of the order: of \<open>n\<close> ports the first \<open>over\<close> spill over the
  top, the last \<open>below\<close> over the bottom.\<close>

definition side_port :: "box \<Rightarrow> bool \<Rightarrow> nat \<Rightarrow> nat \<Rightarrow> port" where
  "side_port b out m k =
     (let y = bx_top b + bx_height b * (of_nat k + 1) / (of_nat m + 1)
      in \<lparr>pt_points = [at_point (if out then bx_left b + bx_width b else bx_left b) y], pt_level = y\<rparr>)"

definition top_port :: "box \<Rightarrow> bool \<Rightarrow> route_options \<Rightarrow> nat \<Rightarrow> nat \<Rightarrow> port" where
  "top_port b out opts over k =
     (let x = along b out opts (over - k);
          level = bx_top b - ro_stub opts - ro_spacing opts * of_nat (over - 1 - k)
      in \<lparr>pt_points = [at_point x (bx_top b), at_point x level], pt_level = level\<rparr>)"

definition bottom_port :: "box \<Rightarrow> bool \<Rightarrow> route_options \<Rightarrow> nat \<Rightarrow> port" where
  "bottom_port b out opts k =
     (let x = along b out opts (k + 1);
          level = bx_top b + bx_height b + ro_stub opts + ro_spacing opts * of_nat k
      in \<lparr>pt_points = [at_point x (bx_top b + bx_height b), at_point x level], pt_level = level\<rparr>)"

definition put_ports :: "port list \<Rightarrow> (nat \<times> port) list \<Rightarrow> port list" where
  "put_ports ports assigned = foldl (\<lambda>ps (i, p). ps[i := p]) ports assigned"

definition sidePorts :: "box \<Rightarrow> rat list \<Rightarrow> bool \<Rightarrow> route_options \<Rightarrow> port list" where
  "sidePorts b toward out opts =
     (let n = length toward;
          order = port_order toward;
          extra = n - capacity b opts;
          over = (extra + 1) div 2;
          below = extra - over;
          onSide = take (n - below - over) (drop over order);
          ports = replicate n \<lparr>pt_points = [], pt_level = 0\<rparr>;
          ports = put_ports ports (zip onSide (map (side_port b out (length onSide)) [0..<length onSide]));
          ports = put_ports ports (zip (take over order) (map (top_port b out opts over) [0..<over]))
      in put_ports ports (zip (drop (n - below) order) (map (bottom_port b out opts) [0..<below])))"

section \<open>Simplifying a route\<close>

text \<open>The points kept so far are in reverse.\<close>

definition keep_point :: "point list \<Rightarrow> point \<Rightarrow> point list" where
  "keep_point kept p =
     (case kept of
        [] \<Rightarrow> [p]
      | prev # rest \<Rightarrow>
          if prev = p then kept
          else (case rest of
                  [] \<Rightarrow> p # kept
                | prior # _ \<Rightarrow>
                    if px prior = px prev \<and> px prev = px p \<or> py prior = py prev \<and> py prev = py p
                    then p # rest else p # kept))"

definition simplify :: "point list \<Rightarrow> point list" where
  "simplify points = rev (foldl keep_point [] points)"

section \<open>Columns and gaps\<close>

definition columnsOf :: "route_node list \<Rightarrow> (int, rat) js_map \<times> (int, rat) js_map" where
  "columnsOf nodes =
     foldl (\<lambda>(left, right) n.
       let b = rn_box n; c = rn_column n
       in (AList.update c (case map_of left c of None \<Rightarrow> bx_left b | Some l \<Rightarrow> min l (bx_left b)) left,
           AList.update c (case map_of right c of None \<Rightarrow> bx_left b + bx_width b
                                                | Some r \<Rightarrow> max r (bx_left b + bx_width b)) right))
       ([], []) nodes"

definition add_crossing :: "(int, nat) js_map \<Rightarrow> int \<Rightarrow> (int, nat) js_map" where
  "add_crossing crossing g = AList.update g (coalesce (map_of crossing g) 0 + 1) crossing"

definition cross_edge :: "(string, int) js_map \<Rightarrow> (int, nat) js_map \<Rightarrow> route_edge \<Rightarrow> (int, nat) js_map" where
  "cross_edge column crossing e =
     (case (map_of column (rg_from e), map_of column (rg_to e)) of
        (Some a, Some b) \<Rightarrow> foldl add_crossing crossing [a..b - 1]
      | _ \<Rightarrow> crossing)"

definition column_map :: "route_node list \<Rightarrow> (string, int) js_map" where
  "column_map nodes = js_map_of (map (\<lambda>n. (rn_key n, rn_column n)) nodes)"

definition lanesNeeded :: "route_node list \<Rightarrow> route_edge list \<Rightarrow> nat" where
  "lanesNeeded nodes edges = foldl max 0 (map snd (foldl (cross_edge (column_map nodes)) [] edges))"

section \<open>Backward edges\<close>

record backward_edge =
  be_key :: string
  be_a :: box
  be_b :: box
  be_from :: string
  be_to :: string

definition node_map :: "route_node list \<Rightarrow> (string, route_node) js_map" where
  "node_map nodes = js_map_of (map (\<lambda>n. (rn_key n, n)) nodes)"

definition node_at :: "route_node list \<Rightarrow> string \<Rightarrow> route_node" where
  "node_at nodes k = the (map_of (node_map nodes) k)"

definition both_known :: "route_node list \<Rightarrow> route_edge \<Rightarrow> bool" where
  "both_known nodes e \<longleftrightarrow> map_of (node_map nodes) (rg_from e) \<noteq> None \<and> map_of (node_map nodes) (rg_to e) \<noteq> None"

definition goes_right :: "route_node list \<Rightarrow> route_edge \<Rightarrow> bool" where
  "goes_right nodes e \<longleftrightarrow> both_known nodes e \<and> rn_column (node_at nodes (rg_to e)) > rn_column (node_at nodes (rg_from e))"

definition forward_edges :: "route_node list \<Rightarrow> route_edge list \<Rightarrow> route_edge list" where
  "forward_edges nodes edges = filter (goes_right nodes) edges"

definition backward_edges :: "route_node list \<Rightarrow> route_edge list \<Rightarrow> backward_edge list" where
  "backward_edges nodes edges =
     sort_key (\<lambda>e. (bx_left (be_a e), bx_left (be_b e)))
       (map (\<lambda>e. \<lparr>be_key = rg_key e, be_a = rn_box (node_at nodes (rg_from e)), be_b = rn_box (node_at nodes (rg_to e)),
                  be_from = rg_from e, be_to = rg_to e\<rparr>)
          (filter (\<lambda>e. both_known nodes e \<and> \<not> goes_right nodes e) edges))"

definition bottom_of :: "route_node list \<Rightarrow> rat" where
  "bottom_of nodes =
     (case map (\<lambda>n. bx_top (rn_box n) + bx_height (rn_box n)) nodes of [] \<Rightarrow> 0 | y # ys \<Rightarrow> foldl max y ys)"

definition loop_route :: "route_options \<Rightarrow> rat \<Rightarrow> backward_edge \<Rightarrow> nat \<Rightarrow> nat \<Rightarrow> nat \<Rightarrow> point list" where
  "loop_route opts bottom e i out into =
     (let apart = ro_spacing opts * 2;
          a = be_a e; b = be_b e;
          fromY = bx_top a + bx_height a - apart * (of_nat out + 1);
          toY = bx_top b + bx_height b - apart * (of_nat into + 1);
          outX = bx_left a + bx_width a + ro_leadOut opts + apart * of_nat i;
          inX = bx_left b - ro_leadIn opts - apart * of_nat i;
          lane = bottom + ro_stub opts + apart * of_nat i
      in [at_point (bx_left a + bx_width a) fromY, at_point outX fromY, at_point outX lane, at_point inX lane,
          at_point inX toY, at_point (bx_left b) toY])"

record loop_state =
  ls_routes :: "(string, point list) js_map"
  ls_outs :: "(string, nat) js_map"
  ls_ins :: "(string, nat) js_map"

definition route_loop :: "route_options \<Rightarrow> rat \<Rightarrow> loop_state \<Rightarrow> nat \<times> backward_edge \<Rightarrow> loop_state" where
  "route_loop opts bottom st ie =
     (let i = fst ie; e = snd ie;
          out = coalesce (map_of (ls_outs st) (be_from e)) 0;
          into = coalesce (map_of (ls_ins st) (be_to e)) 0
      in \<lparr>ls_routes = AList.update (be_key e) (loop_route opts bottom e i out into) (ls_routes st),
          ls_outs = AList.update (be_from e) (out + 1) (ls_outs st),
          ls_ins = AList.update (be_to e) (into + 1) (ls_ins st)\<rparr>)"

definition loop_routes :: "route_node list \<Rightarrow> route_edge list \<Rightarrow> route_options \<Rightarrow> (string, point list) js_map" where
  "loop_routes nodes edges opts =
     ls_routes (foldl (route_loop opts (bottom_of nodes)) \<lparr>ls_routes = [], ls_outs = [], ls_ins = []\<rparr>
       (enumerate 0 (backward_edges nodes edges)))"

section \<open>Forward edges: passes and ports\<close>

type_synonym port_ref = "string \<times> nat"
type_synonym sides = "(string, port list) js_map"

definition first_passes :: "route_node list \<Rightarrow> route_edge \<Rightarrow> rat list" where
  "first_passes nodes e =
     (let skipped = nat (rn_column (node_at nodes (rg_to e)) - rn_column (node_at nodes (rg_from e)) - 1);
          given = or_nil (rg_passes e)
      in if length given = skipped then given
         else replicate skipped (centreY (rn_box (node_at nodes (rg_from e)))))"

definition passes_of :: "(string, rat list) js_map \<Rightarrow> route_edge \<Rightarrow> rat list" where
  "passes_of passes e = the (map_of passes (rg_key e))"

definition heading :: "route_node list \<Rightarrow> (string, rat list) js_map \<Rightarrow> route_edge \<Rightarrow> rat" where
  "heading nodes passes e =
     (case passes_of passes e of [] \<Rightarrow> centreY (rn_box (node_at nodes (rg_to e))) | y # _ \<Rightarrow> y)"

definition coming :: "route_node list \<Rightarrow> (string, rat list) js_map \<Rightarrow> route_edge \<Rightarrow> rat" where
  "coming nodes passes e =
     (if passes_of passes e = [] then centreY (rn_box (node_at nodes (rg_from e))) else last (passes_of passes e))"

definition port_refs :: "(route_edge \<Rightarrow> string) \<Rightarrow> route_node list \<Rightarrow> route_edge list \<Rightarrow> (string, port_ref) js_map" where
  "port_refs end_of nodes fwd =
     js_map_of (concat (map (\<lambda>n. map (\<lambda>(i, e). (rg_key e, (rn_key n, i)))
       (enumerate 0 (filter (\<lambda>e. end_of e = rn_key n) fwd))) nodes))"

definition out_sides :: "route_node list \<Rightarrow> route_edge list \<Rightarrow> (string, rat list) js_map \<Rightarrow> route_options \<Rightarrow> sides" where
  "out_sides nodes fwd passes opts =
     js_map_of (map (\<lambda>n. (rn_key n, sidePorts (rn_box n)
       (map (heading nodes passes) (filter (\<lambda>e. rg_from e = rn_key n) fwd)) True opts)) nodes)"

definition in_sides :: "route_node list \<Rightarrow> route_edge list \<Rightarrow> (string, rat list) js_map \<Rightarrow> route_options \<Rightarrow> sides" where
  "in_sides nodes fwd passes opts =
     js_map_of (map (\<lambda>n. (rn_key n, sidePorts (rn_box n)
       (map (coming nodes passes) (filter (\<lambda>e. rg_to e = rn_key n) fwd)) False opts)) nodes)"

definition port_at :: "sides \<Rightarrow> port_ref \<Rightarrow> port" where
  "port_at sides r = the (map_of sides (fst r)) ! snd r"

section \<open>Straightening short steps\<close>

text \<open>\<open>None\<close> is the source's false: the port stays where it is.\<close>

definition levelWith :: "route_options \<Rightarrow> sides \<Rightarrow> port_ref \<Rightarrow> rat \<Rightarrow> box \<Rightarrow> string \<Rightarrow> sides option" where
  "levelWith opts sides r y b siblings =
     (let port = port_at sides r;
          others = the (map_of sides siblings);
          lo = min (pt_level port) y; hi = max (pt_level port) y;
          blocked = list_ex (\<lambda>(i, other). (siblings, i) \<noteq> r \<and>
            (\<bar>pt_level other - y\<bar> < ro_spacing opts \<or> pt_level other > lo \<and> pt_level other < hi)) (enumerate 0 others)
      in if length (pt_points port) \<noteq> 1 \<or> y < bx_top b + ro_spacing opts / 2 \<or>
            y > bx_top b + bx_height b - ro_spacing opts / 2 then None
         else if blocked then None
         else Some (AList.update (fst r) ((the (map_of sides (fst r)))[snd r :=
                \<lparr>pt_points = [at_point (px (hd (pt_points port))) y], pt_level = y\<rparr>]) sides))"

text \<open>The \<open>j\<close>th forward edge is the one asking.\<close>

definition passClear ::
  "route_options \<Rightarrow> route_node list \<Rightarrow> route_edge list \<Rightarrow> (string, rat list) js_map \<Rightarrow> nat \<Rightarrow> int \<Rightarrow> rat \<Rightarrow> bool" where
  "passClear opts nodes fwd passes j column y \<longleftrightarrow>
     \<not> list_ex (\<lambda>n. rn_column n = column \<and> y > bx_top (rn_box n) - ro_spacing opts \<and>
         y < bx_top (rn_box n) + bx_height (rn_box n) + ro_spacing opts) nodes \<and>
     \<not> list_ex (\<lambda>(k, other). k \<noteq> j \<and>
         (let i = column - rn_column (node_at nodes (rg_from other)) - 1;
              theirs = passes_of passes other
          in 0 \<le> i \<and> i < int (length theirs) \<and> \<bar>theirs ! nat i - y\<bar> < ro_spacing opts)) (enumerate 0 fwd)"

definition tooShort :: "route_options \<Rightarrow> rat \<Rightarrow> rat \<Rightarrow> bool" where
  "tooShort opts a b \<longleftrightarrow> a \<noteq> b \<and> \<bar>a - b\<bar> < ro_minRun opts"

record route_state =
  rs_passes :: "(string, rat list) js_map"
  rs_outs :: sides
  rs_ins :: sides

text \<open>What the straightening reads and never changes.\<close>

record route_env =
  rv_opts :: route_options
  rv_nodes :: "route_node list"
  rv_fwd :: "route_edge list"
  rv_outRef :: "(string, port_ref) js_map"
  rv_inRef :: "(string, port_ref) js_map"

definition out_port :: "route_env \<Rightarrow> route_state \<Rightarrow> route_edge \<Rightarrow> port" where
  "out_port v st e = port_at (rs_outs st) (the (map_of (rv_outRef v) (rg_key e)))"

definition in_port :: "route_env \<Rightarrow> route_state \<Rightarrow> route_edge \<Rightarrow> port" where
  "in_port v st e = port_at (rs_ins st) (the (map_of (rv_inRef v) (rg_key e)))"

definition moveIn :: "route_env \<Rightarrow> route_edge \<Rightarrow> rat \<Rightarrow> route_state \<Rightarrow> route_state option" where
  "moveIn v e y st =
     map_option (\<lambda>s. st\<lparr>rs_ins := s\<rparr>)
       (levelWith (rv_opts v) (rs_ins st) (the (map_of (rv_inRef v) (rg_key e))) y
          (rn_box (node_at (rv_nodes v) (rg_to e))) (rg_to e))"

definition moveOut :: "route_env \<Rightarrow> route_edge \<Rightarrow> rat \<Rightarrow> route_state \<Rightarrow> route_state option" where
  "moveOut v e y st =
     map_option (\<lambda>s. st\<lparr>rs_outs := s\<rparr>)
       (levelWith (rv_opts v) (rs_outs st) (the (map_of (rv_outRef v) (rg_key e))) y
          (rn_box (node_at (rv_nodes v) (rg_from e))) (rg_from e))"

definition movePass :: "route_env \<Rightarrow> nat \<Rightarrow> route_edge \<Rightarrow> nat \<Rightarrow> rat \<Rightarrow> route_state \<Rightarrow> route_state option" where
  "movePass v j e i y st =
     (if passClear (rv_opts v) (rv_nodes v) (rv_fwd v) (rs_passes st) j
           (rn_column (node_at (rv_nodes v) (rg_from e)) + 1 + int i) y
      then Some (st\<lparr>rs_passes := AList.update (rg_key e) ((passes_of (rs_passes st) e)[i := y]) (rs_passes st)\<rparr>)
      else None)"

text \<open>\<open>first || second\<close>, each a move that may fail.\<close>

definition or_else ::
  "(route_state \<Rightarrow> route_state option) \<Rightarrow> (route_state \<Rightarrow> route_state option) \<Rightarrow> route_state \<Rightarrow> route_state" where
  "or_else f g st = (case f st of Some st' \<Rightarrow> st' | None \<Rightarrow> coalesce (g st) st)"

definition straighten_direct :: "route_env \<Rightarrow> route_edge \<Rightarrow> route_state \<Rightarrow> route_state" where
  "straighten_direct v e st =
     (let out = pt_level (out_port v st e); into = pt_level (in_port v st e)
      in if tooShort (rv_opts v) out into then or_else (moveIn v e out) (moveOut v e into) st else st)"

definition straighten_first :: "route_env \<Rightarrow> nat \<Rightarrow> route_edge \<Rightarrow> route_state \<Rightarrow> route_state" where
  "straighten_first v j e st =
     (let out = pt_level (out_port v st e); y = passes_of (rs_passes st) e ! 0
      in if tooShort (rv_opts v) out y then or_else (moveOut v e y) (movePass v j e 0 out) st else st)"

definition straighten_pass :: "route_env \<Rightarrow> nat \<Rightarrow> route_edge \<Rightarrow> route_state \<Rightarrow> nat \<Rightarrow> route_state" where
  "straighten_pass v j e st i =
     (let y = passes_of (rs_passes st) e ! (i - 1)
      in if tooShort (rv_opts v) y (passes_of (rs_passes st) e ! i) then coalesce (movePass v j e i y st) st else st)"

definition straighten_last :: "route_env \<Rightarrow> nat \<Rightarrow> route_edge \<Rightarrow> route_state \<Rightarrow> route_state" where
  "straighten_last v j e st =
     (let l = length (passes_of (rs_passes st) e) - 1;
          into = pt_level (in_port v st e); y = passes_of (rs_passes st) e ! l
      in if tooShort (rv_opts v) y into then or_else (moveIn v e y) (movePass v j e l into) st else st)"

definition straighten :: "route_env \<Rightarrow> route_state \<Rightarrow> nat \<times> route_edge \<Rightarrow> route_state" where
  "straighten v st je =
     (let j = fst je; e = snd je; cnt = length (passes_of (rs_passes st) e)
      in if cnt = 0 then straighten_direct v e st
         else straighten_last v j e (foldl (straighten_pass v j e) (straighten_first v j e st) [1..<cnt]))"

section \<open>Lanes and routes\<close>

record plan =
  pn_edge :: route_edge
  pn_first :: int
  pn_last :: int
  pn_levels :: "rat list"
  pn_out :: port
  pn_into :: port

definition plan_of :: "route_env \<Rightarrow> route_state \<Rightarrow> route_edge \<Rightarrow> plan" where
  "plan_of v st e =
     \<lparr>pn_edge = e, pn_first = rn_column (node_at (rv_nodes v) (rg_from e)),
      pn_last = rn_column (node_at (rv_nodes v) (rg_to e)),
      pn_levels = pt_level (out_port v st e) # passes_of (rs_passes st) e @ [pt_level (in_port v st e)],
      pn_out = out_port v st e, pn_into = in_port v st e\<rparr>"

definition gaps_of :: "plan list \<Rightarrow> int list" where
  "gaps_of plans = js_set (concat (map (\<lambda>p. [pn_first p..pn_last p - 1]) plans))"

definition turning :: "plan list \<Rightarrow> int \<Rightarrow> (plan \<times> rat \<times> rat) list" where
  "turning plans g =
     filter (\<lambda>(p, from, to). from \<noteq> to)
       (map (\<lambda>p. (p, pn_levels p ! nat (g - pn_first p), pn_levels p ! nat (g - pn_first p + 1)))
          (filter (\<lambda>p. pn_first p \<le> g \<and> g < pn_last p) plans))"

definition rightToLeft :: "plan list \<Rightarrow> int \<Rightarrow> (plan \<times> rat \<times> rat) list" where
  "rightToLeft plans g =
     sort_key (\<lambda>(p, from, to). from) (filter (\<lambda>(p, from, to). to > from) (turning plans g)) @
     sort_key (\<lambda>(p, from, to). - from) (filter (\<lambda>(p, from, to). to < from) (turning plans g))"

definition js_round :: "rat \<Rightarrow> int" where
  "js_round x = \<lfloor>x + 1 / 2\<rfloor>"

definition lane_step :: "route_options \<Rightarrow> rat \<Rightarrow> rat \<Rightarrow> nat \<Rightarrow> rat" where
  "lane_step opts lo hi cnt =
     (if cnt > 1 then min (ro_spacing opts * 2) (max 1 ((hi - lo) / (of_nat cnt - 1))) else 0)"

definition lane_xs :: "route_options \<Rightarrow> rat \<Rightarrow> rat \<Rightarrow> nat \<Rightarrow> int list" where
  "lane_xs opts lo hi cnt =
     (let step = lane_step opts lo hi cnt;
          start = (lo + hi) / 2 + step * (of_nat cnt - 1) / 2
      in map (\<lambda>k. js_round (start - step * of_nat k)) [0..<cnt])"

definition lane_key :: "route_edge \<Rightarrow> int \<Rightarrow> string" where
  "lane_key e g = rg_key e @ ''#'' @ int_str g"

definition gap_lanes :: "route_options \<Rightarrow> (int, rat) js_map \<times> (int, rat) js_map \<Rightarrow> plan list \<Rightarrow> int \<Rightarrow> (string \<times> int) list" where
  "gap_lanes opts columns plans g =
     (let turns = rightToLeft plans g;
          lo = coalesce (map_of (snd columns) g) 0 + ro_leadOut opts;
          hi = coalesce (map_of (fst columns) (g + 1)) lo - ro_leadIn opts
      in zip (map (\<lambda>(p, _). lane_key (pn_edge p) g) turns) (lane_xs opts lo hi (length turns)))"

definition lanes_of :: "route_options \<Rightarrow> route_node list \<Rightarrow> plan list \<Rightarrow> (string, int) js_map" where
  "lanes_of opts nodes plans = js_map_of (concat (map (gap_lanes opts (columnsOf nodes) plans) (gaps_of plans)))"

definition gap_points :: "(string, int) js_map \<Rightarrow> plan \<Rightarrow> int \<Rightarrow> point list" where
  "gap_points lanes p g =
     (case map_of lanes (lane_key (pn_edge p) g) of
        None \<Rightarrow> []
      | Some lane \<Rightarrow> let i = nat (g - pn_first p)
                     in [at_point (of_int lane) (pn_levels p ! i), at_point (of_int lane) (pn_levels p ! (i + 1))])"

definition route_of :: "(string, int) js_map \<Rightarrow> plan \<Rightarrow> point list" where
  "route_of lanes p =
     simplify (pt_points (pn_out p) @ concat (map (gap_points lanes p) [pn_first p..pn_last p - 1]) @
       rev (pt_points (pn_into p)))"

definition route_env_of :: "route_node list \<Rightarrow> route_edge list \<Rightarrow> route_options \<Rightarrow> route_env" where
  "route_env_of nodes edges opts =
     \<lparr>rv_opts = opts, rv_nodes = nodes, rv_fwd = forward_edges nodes edges,
      rv_outRef = port_refs rg_from nodes (forward_edges nodes edges),
      rv_inRef = port_refs rg_to nodes (forward_edges nodes edges)\<rparr>"

definition route_start :: "route_node list \<Rightarrow> route_edge list \<Rightarrow> route_options \<Rightarrow> route_state" where
  "route_start nodes edges opts =
     (let fwd = forward_edges nodes edges;
          passes = js_map_of (map (\<lambda>e. (rg_key e, first_passes nodes e)) fwd)
      in \<lparr>rs_passes = passes, rs_outs = out_sides nodes fwd passes opts, rs_ins = in_sides nodes fwd passes opts\<rparr>)"

definition plans_of :: "route_node list \<Rightarrow> route_edge list \<Rightarrow> route_options \<Rightarrow> plan list" where
  "plans_of nodes edges opts =
     (let v = route_env_of nodes edges opts;
          st = foldl (straighten v) (route_start nodes edges opts) (enumerate 0 (rv_fwd v))
      in map (plan_of v st) (rv_fwd v))"

definition routeEdges :: "route_node list \<Rightarrow> route_edge list \<Rightarrow> route_options \<Rightarrow> (string, point list) js_map" where
  "routeEdges nodes edges opts =
     (let plans = plans_of nodes edges opts; lanes = lanes_of opts nodes plans
      in foldl (\<lambda>routes p. AList.update (rg_key (pn_edge p)) (route_of lanes p) routes)
           (loop_routes nodes edges opts) plans)"

section \<open>The path drawn\<close>

definition js_sign :: "rat \<Rightarrow> rat" where
  "js_sign x = (if x > 0 then 1 else if x < 0 then - 1 else 0)"

definition corner :: "(rat \<Rightarrow> string) \<Rightarrow> rat \<Rightarrow> point \<Rightarrow> point \<Rightarrow> point \<Rightarrow> string list" where
  "corner num radius a c b =
     (let inLen = \<bar>px c - px a\<bar> + \<bar>py c - py a\<bar>;
          outLen = \<bar>px b - px c\<bar> + \<bar>py b - py c\<bar>;
          r = min radius (min (inLen / 2) (outLen / 2));
          inX = js_sign (px c - px a); inY = js_sign (py c - py a);
          outX = js_sign (px b - px c); outY = js_sign (py b - py c)
      in [''L '' @ num (px c - inX * r) @ '' '' @ num (py c - inY * r),
          ''Q '' @ num (px c) @ '' '' @ num (py c) @ '' '' @ num (px c + outX * r) @ '' '' @ num (py c + outY * r)])"

definition orthoPath :: "(rat \<Rightarrow> string) \<Rightarrow> point list \<Rightarrow> rat \<Rightarrow> string" where
  "orthoPath num points radius =
     (if length points < 2 then []
      else join_with '' '' ([''M '' @ num (px (points ! 0)) @ '' '' @ num (py (points ! 0))] @
        concat (map (\<lambda>i. corner num radius (points ! (i - 1)) (points ! i) (points ! (i + 1))) [1..<length points - 1]) @
        [''L '' @ num (px (last points)) @ '' '' @ num (py (last points))]))"

section \<open>Ports keep the order of their edges\<close>

lemma put_ports_simps [simp]:
  "put_ports ps [] = ps" "put_ports ps ((i, p) # as) = put_ports (ps[i := p]) as"
  by (simp_all add: put_ports_def)

lemma length_put_ports [simp]: "length (put_ports ps as) = length ps"
  by (induction as arbitrary: ps) auto

lemma put_ports_other: "i \<notin> fst ` set as \<Longrightarrow> put_ports ps as ! i = ps ! i"
  by (induction as arbitrary: ps) auto

lemma put_ports_nth:
  "distinct is \<Longrightarrow> length is = length qs \<Longrightarrow> k < length is \<Longrightarrow> is ! k < length ps \<Longrightarrow>
   put_ports ps (zip is qs) ! (is ! k) = qs ! k"
proof (induction "is" qs arbitrary: ps k rule: list_induct2')
  case (4 i "is" q qs)
  show ?case
  proof (cases k)
    case 0
    have "i \<notin> fst ` set (zip is qs)" using 4(2) by (auto dest: set_zip_leftD)
    then show ?thesis using 0 4 by (simp add: put_ports_other)
  next
    case (Suc k')
    then show ?thesis using 4 by simp
  qed
qed auto

definition place_port :: "box \<Rightarrow> bool \<Rightarrow> route_options \<Rightarrow> nat \<Rightarrow> nat \<Rightarrow> nat \<Rightarrow> nat \<Rightarrow> port" where
  "place_port b out opts n over below k =
     (if k < over then top_port b out opts over k
      else if k < n - below then side_port b out (n - below - over) (k - over)
      else bottom_port b out opts (k - (n - below)))"

lemma length_port_order [simp]: "length (port_order toward) = length toward"
  by (simp add: port_order_def)

lemma set_port_order [simp]: "set (port_order toward) = {..<length toward}"
  by (auto simp: port_order_def)

lemma distinct_port_order [simp]: "distinct (port_order toward)"
  by (simp add: port_order_def)

lemma length_sidePorts [simp]: "length (sidePorts b toward out opts) = length toward"
  by (simp add: sidePorts_def Let_def)

lemma capacity_pos: "1 \<le> capacity b opts"
  by (simp add: capacity_def)

lemma drop_nth_notin: "distinct xs \<Longrightarrow> k < m \<Longrightarrow> k < length xs \<Longrightarrow> xs ! k \<notin> set (drop m xs)"
  by (auto simp: in_set_conv_nth nth_eq_iff_index_eq)

lemma take_nth_notin: "distinct xs \<Longrightarrow> m \<le> k \<Longrightarrow> k < length xs \<Longrightarrow> xs ! k \<notin> set (take m xs)"
  by (auto simp: in_set_conv_nth nth_eq_iff_index_eq)

lemma slice_nth: "k < m \<Longrightarrow> a + k < length xs \<Longrightarrow> take m (drop a xs) ! k = xs ! (a + k)"
  by simp

lemma sidePorts_at:
  assumes "k < length toward" and "n = length toward" and "extra = n - capacity b opts"
    and "over = (extra + 1) div 2" and "below = extra - over"
  shows "sidePorts b toward out opts ! (port_order toward ! k) = place_port b out opts n over below k"
proof -
  let ?o = "port_order toward"
  let ?mid = "take (n - below - over) (drop over ?o)"
  have few: "extra < n" using assms(1-3) capacity_pos[of b opts] by simp
  have total: "over + below = extra" using assms(4,5) by linarith
  have sizes: "over + below = extra" "extra < n" "over \<le> n - below" using few total by linarith+
  have at: "?o ! k < n" using nth_mem[of k ?o] assms by simp
  have dist: "distinct (take over ?o)" "distinct ?mid" "distinct (drop (n - below) ?o)" by simp_all
  let ?z = "replicate n \<lparr>pt_points = [], pt_level = 0\<rparr>"
  define mid where "mid = put_ports ?z (zip ?mid (map (side_port b out (length ?mid)) [0..<length ?mid]))"
  define top where "top = put_ports mid (zip (take over ?o) (map (top_port b out opts over) [0..<over]))"
  have lens: "length mid = n" "length top = n" "length ?mid = n - below - over"
    "length (take over ?o) = over" "length (drop (n - below) ?o) = below"
    using sizes assms(2) by (simp_all add: mid_def top_def)
  have S: "sidePorts b toward out opts = put_ports top (zip (drop (n - below) ?o) (map (bottom_port b out opts) [0..<below]))"
    unfolding sidePorts_def Let_def mid_def top_def assms(5) assms(4) assms(3) assms(2) by (rule refl)
  consider (up) "k < over" | (level) "over \<le> k" "k < n - below" | (down) "n - below \<le> k" by linarith
  then show ?thesis
  proof cases
    case up
    have "?o ! k \<notin> set (drop (n - below) ?o)" using up sizes(3) assms(1) by (intro drop_nth_notin) simp_all
    then have "sidePorts b toward out opts ! (?o ! k) = top ! (?o ! k)"
      unfolding S by (intro put_ports_other) (auto dest: set_zip_leftD)
    also have "\<dots> = map (top_port b out opts over) [0..<over] ! k"
      using put_ports_nth[OF dist(1), of "map (top_port b out opts over) [0..<over]" k mid] up lens at by (simp add: top_def)
    finally show ?thesis using up by (simp add: place_port_def)
  next
    case level
    have low: "?o ! k \<notin> set (drop (n - below) ?o)" using level assms(1) by (intro drop_nth_notin) simp_all
    have high: "?o ! k \<notin> set (take over ?o)" using level assms(1) by (intro take_nth_notin) simp_all
    have "sidePorts b toward out opts ! (?o ! k) = top ! (?o ! k)"
      unfolding S using low by (intro put_ports_other) (auto dest: set_zip_leftD)
    also have "\<dots> = mid ! (?o ! k)"
      unfolding top_def using high by (intro put_ports_other) (auto dest: set_zip_leftD)
    also have "\<dots> = map (side_port b out (length ?mid)) [0..<length ?mid] ! (k - over)"
    proof -
      have idx: "?mid ! (k - over) = ?o ! k" using level assms(1) by (subst slice_nth) simp_all
      have "mid ! (?mid ! (k - over)) = map (side_port b out (length ?mid)) [0..<length ?mid] ! (k - over)"
        unfolding mid_def by (rule put_ports_nth[OF dist(2)]) (use idx lens(3) at level in simp_all)
      then show ?thesis unfolding idx .
    qed
    finally show ?thesis using level lens by (simp add: place_port_def)
  next
    case down
    then have "sidePorts b toward out opts ! (?o ! k) = map (bottom_port b out opts) [0..<below] ! (k - (n - below))"
      unfolding S
      using put_ports_nth[OF dist(3), of "map (bottom_port b out opts) [0..<below]" "k - (n - below)" top]
        lens at assms(1,2) sizes by simp
    then show ?thesis using down sizes assms(1,2) by (simp add: place_port_def)
  qed
qed

lemma side_level_bounds:
  assumes "bx_height b > 0" and "k < m"
  shows "bx_top b < pt_level (side_port b out m k)" "pt_level (side_port b out m k) < bx_top b + bx_height b"
proof -
  have "of_nat k + 1 < (of_nat m + 1 :: rat)" using assms(2) by simp
  then have "bx_height b * (of_nat k + 1) / (of_nat m + 1) < bx_height b"
    using assms(1) by (simp add: divide_less_eq)
  then show "pt_level (side_port b out m k) < bx_top b + bx_height b" by (simp add: side_port_def Let_def)
  show "bx_top b < pt_level (side_port b out m k)" using assms by (simp add: side_port_def Let_def)
qed

lemma place_port_increasing:
  assumes "bx_height b > 0" and "ro_spacing opts > 0" and "ro_stub opts \<ge> 0"
    and "over \<le> n - below" and "j < k" and "k < n"
  shows "pt_level (place_port b out opts n over below j) < pt_level (place_port b out opts n over below k)"
proof -
  have top: "pt_level (top_port b out opts over j) \<le> bx_top b"
  proof -
    have "0 \<le> ro_spacing opts * rat_of_nat (over - Suc j)" using assms(2) by simp
    then show ?thesis using assms(3) by (simp add: top_port_def Let_def)
  qed
  have low: "bx_top b + bx_height b \<le> pt_level (bottom_port b out opts i)" for i
    using assms by (simp add: bottom_port_def Let_def)
  note side = side_level_bounds[OF assms(1)]
  have tt: "k < over \<Longrightarrow> pt_level (top_port b out opts over j) < pt_level (top_port b out opts over k)"
    using assms by (simp add: top_port_def Let_def)
  have ss: "a < c \<Longrightarrow> pt_level (side_port b out m a) < pt_level (side_port b out m c)" for a c m
    using assms by (simp add: side_port_def Let_def divide_strict_right_mono)
  have bb: "a < c \<Longrightarrow> pt_level (bottom_port b out opts a) < pt_level (bottom_port b out opts c)" for a c
    using assms by (simp add: bottom_port_def Let_def)
  consider "k < over" | "j < over" "over \<le> k" "k < n - below" | "j < over" "n - below \<le> k" |
    "over \<le> j" "k < n - below" | "over \<le> j" "j < n - below" "n - below \<le> k" | "n - below \<le> j"
    using assms(4,5) by linarith
  then show ?thesis
  proof cases
    case 1
    then show ?thesis using tt assms(5) by (simp add: place_port_def)
  next
    case 2
    then have "bx_top b < pt_level (side_port b out (n - below - over) (k - over))" by (intro side) simp
    then show ?thesis using 2 top assms(4) by (simp add: place_port_def)
  next
    case 3
    then show ?thesis using top low[of "k - (n - below)"] assms(1,4) by (simp add: place_port_def)
  next
    case 4
    then show ?thesis using ss[of "j - over" "k - over" "n - below - over"] assms(5) by (simp add: place_port_def)
  next
    case 5
    then have "pt_level (side_port b out (n - below - over) (j - over)) < bx_top b + bx_height b" by (intro side) simp
    then show ?thesis using 5 low[of "k - (n - below)"] assms(4) by (simp add: place_port_def)
  next
    case 6
    then show ?thesis using bb[of "j - (n - below)" "k - (n - below)"] assms(4,5) by (simp add: place_port_def)
  qed
qed

lemma port_order_sorted: "j < k \<Longrightarrow> k < length toward \<Longrightarrow> toward ! (port_order toward ! j) \<le> toward ! (port_order toward ! k)"
  using sorted_sort_key[of "\<lambda>i. toward ! i" "[0..<length toward]"]
  by (auto simp: port_order_def sorted_iff_nth_mono_less)

text \<open>An edge heading higher leaves a box higher: along a side, and over the top and
  bottom it spills onto, the ports run in the order of the heights their edges head for.\<close>

theorem sidePorts_in_order:
  assumes "bx_height b > 0" and "ro_spacing opts > 0" and "ro_stub opts \<ge> 0"
    and "i < length toward" and "j < length toward" and "toward ! i < toward ! j"
  shows "pt_level (sidePorts b toward out opts ! i) < pt_level (sidePorts b toward out opts ! j)"
proof -
  let ?n = "length toward"
  let ?extra = "?n - capacity b opts"
  let ?over = "(?extra + 1) div 2"
  have "i \<in> set (port_order toward)" "j \<in> set (port_order toward)" using assms by simp_all
  then obtain k l where k: "k < ?n" "port_order toward ! k = i" and l: "l < ?n" "port_order toward ! l = j"
    by (metis in_set_conv_nth length_port_order)
  have "k < l"
    using port_order_sorted[of l k toward] k l assms(6) by (metis linorder_neqE_nat not_less order.irrefl)
  have fit: "?over \<le> ?n - (?extra - ?over)" by linarith
  have at: "sidePorts b toward out opts ! i = place_port b out opts ?n ?over (?extra - ?over) k"
    "sidePorts b toward out opts ! j = place_port b out opts ?n ?over (?extra - ?over) l"
    using sidePorts_at[OF k(1) refl refl refl refl, of b out opts] sidePorts_at[OF l(1) refl refl refl refl, of b out opts]
    unfolding k(2) l(2) .
  show ?thesis unfolding at by (rule place_port_increasing[OF assms(1-3) fit \<open>k < l\<close> l(1)])
qed

theorem sidePorts_in_order_witness:
  "pt_level (sidePorts \<lparr>bx_left = 0, bx_top = 0, bx_width = 80, bx_height = 20\<rparr> [50, 10, 30] True routeDefaults ! 1) <
   pt_level (sidePorts \<lparr>bx_left = 0, bx_top = 0, bx_width = 80, bx_height = 20\<rparr> [50, 10, 30] True routeDefaults ! 0)"
  by (rule sidePorts_in_order) (simp_all add: routeDefaults_def)

section \<open>Routes turn at right angles\<close>

definition aligned :: "point \<Rightarrow> point \<Rightarrow> bool" where
  "aligned p q \<longleftrightarrow> px p = px q \<or> py p = py q"

fun orthogonal :: "point list \<Rightarrow> bool" where
  "orthogonal (p # q # ps) \<longleftrightarrow> aligned p q \<and> orthogonal (q # ps)"
| "orthogonal _ \<longleftrightarrow> True"

lemma aligned_sym: "aligned p q = aligned q p"
  by (auto simp: aligned_def)

lemma at_point_simps [simp]: "px (at_point x y) = x" "py (at_point x y) = y"
  by (simp_all add: at_point_def)

lemma orthogonal_append:
  "orthogonal (ps @ qs) \<longleftrightarrow> orthogonal ps \<and> orthogonal qs \<and> (ps \<noteq> [] \<longrightarrow> qs \<noteq> [] \<longrightarrow> aligned (last ps) (hd qs))"
  by (induction ps rule: orthogonal.induct) (simp, simp, cases qs, auto)

lemma orthogonal_rev [simp]: "orthogonal (rev ps) = orthogonal ps"
  by (induction ps rule: orthogonal.induct) (auto simp: orthogonal_append aligned_sym)

lemma keep_point_hd: "keep_point kept p \<noteq> [] \<and> hd (keep_point kept p) = p"
  by (auto simp: keep_point_def split: list.splits)

lemma keep_point_last: "last (keep_point kept p) = (if kept = [] then p else last kept)"
  by (auto simp: keep_point_def split: list.splits)

lemma keep_point_orthogonal: "orthogonal (p # kept) \<Longrightarrow> orthogonal (keep_point kept p)"
  by (cases kept rule: orthogonal.cases) (auto simp: keep_point_def aligned_def)

lemma foldl_keep_orthogonal: "orthogonal (rev ps @ kept) \<Longrightarrow> orthogonal (foldl keep_point kept ps)"
proof (induction ps arbitrary: kept)
  case (Cons p ps)
  have "orthogonal (p # kept)" and a: "ps \<noteq> [] \<Longrightarrow> aligned (hd ps) p" and "orthogonal ps"
    using Cons.prems by (auto simp: orthogonal_append last_rev)
  then have "orthogonal (rev ps @ keep_point kept p)"
    using keep_point_orthogonal[of p kept] keep_point_hd[of kept p] by (auto simp: orthogonal_append last_rev)
  then show ?case using Cons.IH by simp
qed simp

lemma foldl_keep_ends:
  "ps \<noteq> [] \<Longrightarrow> foldl keep_point kept ps \<noteq> [] \<and> hd (foldl keep_point kept ps) = last ps \<and>
   last (foldl keep_point kept ps) = (if kept = [] then hd ps else last kept)"
proof (induction ps arbitrary: kept)
  case (Cons p ps)
  show ?case
    using Cons.IH[of "keep_point kept p"] keep_point_hd[of kept p] keep_point_last[of kept p]
    by (cases "ps = []") auto
qed simp

lemma simplify_orthogonal: "orthogonal ps \<Longrightarrow> orthogonal (simplify ps)"
  using foldl_keep_orthogonal[of ps "[]"] by (simp add: simplify_def)

lemma simplify_ends: "ps \<noteq> [] \<Longrightarrow> simplify ps \<noteq> [] \<and> hd (simplify ps) = hd ps \<and> last (simplify ps) = last ps"
  using foldl_keep_ends[of ps "[]"] by (simp add: simplify_def hd_rev last_rev)

text \<open>A run of points that starts level with \<open>y\<close> and ends level with \<open>z\<close>.\<close>

definition runs :: "rat \<Rightarrow> point list \<Rightarrow> rat \<Rightarrow> bool" where
  "runs y ps z \<longleftrightarrow> orthogonal ps \<and> (if ps = [] then y = z else py (hd ps) = y \<and> py (last ps) = z)"

lemma runs_Nil [simp]: "runs y [] z \<longleftrightarrow> y = z"
  by (simp add: runs_def)

lemma runs_append: "runs y ps z \<Longrightarrow> runs z qs w \<Longrightarrow> runs y (ps @ qs) w"
  by (auto simp: runs_def orthogonal_append aligned_def split: if_splits)

definition port_ok :: "port \<Rightarrow> bool" where
  "port_ok p \<longleftrightarrow> pt_points p \<noteq> [] \<and> orthogonal (pt_points p) \<and> py (last (pt_points p)) = pt_level p"

lemma place_port_ok: "port_ok (place_port b out opts n over below k)"
  by (auto simp: place_port_def port_ok_def top_port_def side_port_def bottom_port_def Let_def aligned_def)

lemma sidePorts_ok: "p \<in> set (sidePorts b toward out opts) \<Longrightarrow> port_ok p"
proof -
  assume "p \<in> set (sidePorts b toward out opts)"
  then obtain i where i: "i < length toward" "p = sidePorts b toward out opts ! i"
    by (auto simp: in_set_conv_nth)
  then have "i \<in> set (port_order toward)" by simp
  then obtain k where k: "k < length toward" "port_order toward ! k = i" by (metis in_set_conv_nth length_port_order)
  show ?thesis
    using sidePorts_at[OF k(1) refl refl refl refl, of b out opts] unfolding k(2) i(2) by (simp only: place_port_ok)
qed

lemma port_run:
  assumes "port_ok p" and "port_ok q" and "runs (pt_level p) ps (pt_level q)"
  shows "orthogonal (pt_points p @ ps @ rev (pt_points q))"
  using assms by (auto simp: port_ok_def runs_def orthogonal_append aligned_def hd_rev split: if_splits)

text \<open>What holds of the ports, the references to them and the passes while the edges are
  straightened.\<close>

definition sides_ok :: "sides \<Rightarrow> bool" where
  "sides_ok sides \<longleftrightarrow> (\<forall>k ps. map_of sides k = Some ps \<longrightarrow> (\<forall>p\<in>set ps. port_ok p))"

definition ref_ok :: "sides \<Rightarrow> port_ref option \<Rightarrow> bool" where
  "ref_ok sides r \<longleftrightarrow> (case r of None \<Rightarrow> False | Some (k, i) \<Rightarrow>
     (case map_of sides k of None \<Rightarrow> False | Some ps \<Rightarrow> i < length ps))"

definition skipped :: "route_node list \<Rightarrow> route_edge \<Rightarrow> nat" where
  "skipped nodes e = nat (rn_column (node_at nodes (rg_to e)) - rn_column (node_at nodes (rg_from e)) - 1)"

definition route_inv :: "route_env \<Rightarrow> route_state \<Rightarrow> bool" where
  "route_inv v st \<longleftrightarrow> sides_ok (rs_outs st) \<and> sides_ok (rs_ins st) \<and>
     (\<forall>e\<in>set (rv_fwd v).
        ref_ok (rs_outs st) (map_of (rv_outRef v) (rg_key e)) \<and> ref_ok (rs_ins st) (map_of (rv_inRef v) (rg_key e)) \<and>
        (\<exists>ps. map_of (rs_passes st) (rg_key e) = Some ps \<and> length ps = skipped (rv_nodes v) e))"

lemma port_at_ok: "sides_ok sides \<Longrightarrow> ref_ok sides r \<Longrightarrow> port_ok (port_at sides (the r))"
  by (auto simp: sides_ok_def ref_ok_def port_at_def split: option.splits prod.splits)

lemma levelWith_keeps:
  assumes "levelWith opts sides (the r) y b k = Some sides'" and "sides_ok sides" and "ref_ok sides r"
  shows "sides_ok sides' \<and> (\<forall>q. ref_ok sides q \<longrightarrow> ref_ok sides' q)"
proof -
  from assms(3) obtain n i ps where r: "r = Some (n, i)" "map_of sides n = Some ps" "i < length ps"
    by (auto simp: ref_ok_def split: option.splits prod.splits)
  let ?p = "\<lparr>pt_points = [at_point (px (hd (pt_points (ps ! i)))) y], pt_level = y\<rparr>"
  have s: "sides' = AList.update n (ps[i := ?p]) sides"
    using assms(1) r by (auto simp: levelWith_def Let_def port_at_def split: if_splits)
  have "port_ok ?p" by (simp add: port_ok_def)
  then have "sides_ok sides'"
    using assms(2) r(2) s by (auto simp: sides_ok_def update_conv' dest!: subsetD[OF set_update_subset_insert])
  moreover have "ref_ok sides q \<longrightarrow> ref_ok sides' q" for q
    using r(2) s by (auto simp: ref_ok_def update_conv' split: option.splits prod.splits)
  ultimately show ?thesis by blast
qed

lemma moveIn_inv: "route_inv v st \<Longrightarrow> e \<in> set (rv_fwd v) \<Longrightarrow> moveIn v e y st = Some st' \<Longrightarrow> route_inv v st'"
  unfolding moveIn_def using levelWith_keeps by (fastforce simp: route_inv_def)

lemma moveOut_inv: "route_inv v st \<Longrightarrow> e \<in> set (rv_fwd v) \<Longrightarrow> moveOut v e y st = Some st' \<Longrightarrow> route_inv v st'"
  unfolding moveOut_def using levelWith_keeps by (fastforce simp: route_inv_def)

lemma movePass_inv:
  assumes "route_inv v st" and "e \<in> set (rv_fwd v)" and "movePass v j e i y st = Some st'"
  shows "route_inv v st'"
proof -
  from assms(3) have st': "st' = st\<lparr>rs_passes := AList.update (rg_key e) ((passes_of (rs_passes st) e)[i := y]) (rs_passes st)\<rparr>"
    by (auto simp: movePass_def split: if_splits)
  have "\<exists>ps. map_of (rs_passes st') (rg_key d) = Some ps \<and> length ps = skipped (rv_nodes v) d" if "d \<in> set (rv_fwd v)" for d
  proof (cases "rg_key d = rg_key e")
    case True
    then have "length (passes_of (rs_passes st) e) = skipped (rv_nodes v) d"
      using assms(1) that by (auto simp: route_inv_def passes_of_def)
    then show ?thesis using True by (simp add: st' update_conv')
  next
    case False
    then show ?thesis using assms(1) that by (simp add: st' update_conv' route_inv_def)
  qed
  then show ?thesis using assms(1) by (simp add: route_inv_def st')
qed

lemma or_else_inv:
  assumes "route_inv v st" and "\<And>st'. f st = Some st' \<Longrightarrow> route_inv v st'" and "\<And>st'. g st = Some st' \<Longrightarrow> route_inv v st'"
  shows "route_inv v (or_else f g st)"
  using assms by (auto simp: or_else_def coalesce_def split: option.splits)

lemma straighten_inv:
  assumes "route_inv v st" and "snd je \<in> set (rv_fwd v)"
  shows "route_inv v (straighten v st je)"
proof -
  note moves = moveIn_inv moveOut_inv movePass_inv
  have direct: "route_inv v (straighten_direct v (snd je) s)" if "route_inv v s" for s
    using that assms(2) by (auto simp: straighten_direct_def Let_def intro!: or_else_inv intro: moves)
  have first: "route_inv v (straighten_first v (fst je) (snd je) s)" if "route_inv v s" for s
    using that assms(2) by (auto simp: straighten_first_def Let_def intro!: or_else_inv intro: moves)
  have lst: "route_inv v (straighten_last v (fst je) (snd je) s)" if "route_inv v s" for s
    using that assms(2) by (auto simp: straighten_last_def Let_def intro!: or_else_inv intro: moves)
  have pass: "route_inv v (straighten_pass v (fst je) (snd je) s i)" if "route_inv v s" for s i
    using that assms(2) movePass_inv[OF that assms(2)] by (auto simp: straighten_pass_def Let_def coalesce_def split: option.splits)
  have "route_inv v (foldl (straighten_pass v (fst je) (snd je)) s is)" if "route_inv v s" for s "is"
    using that by (induction "is" arbitrary: s) (auto intro: pass)
  then show ?thesis using assms(1) direct first lst by (simp add: straighten_def Let_def)
qed

lemma js_map_of_Some: "map_of (js_map_of kvs) k = Some v \<Longrightarrow> (k, v) \<in> set kvs"
  by (metis map_of_SomeD map_of_js_map_of set_rev)

lemma js_map_of_mem: "(k, v) \<in> set (js_map_of kvs) \<Longrightarrow> (k, v) \<in> set kvs"
  by (rule js_map_of_Some) (simp add: map_of_eq_Some_iff)

lemma js_map_of_dom: "k \<in> fst ` set kvs \<Longrightarrow> \<exists>v. map_of (js_map_of kvs) k = Some v"
  by (metis map_of_eq_None_iff map_of_js_map_of not_None_eq set_rev)

lemma node_map_Some: "map_of (node_map nodes) k = Some n \<Longrightarrow> n \<in> set nodes \<and> rn_key n = k"
  unfolding node_map_def by (auto dest!: js_map_of_mem)

lemma refs_start:
  assumes "e \<in> set fwd" and "map_of (node_map nodes) (end_of e) \<noteq> None"
    and "\<And>n. length (ports_on n) = length (filter (\<lambda>e. end_of e = rn_key n) fwd)"
  shows "ref_ok (js_map_of (map (\<lambda>n. (rn_key n, ports_on n)) nodes)) (map_of (port_refs end_of nodes fwd) (rg_key e))"
proof -
  let ?kvs = "concat (map (\<lambda>n. map (\<lambda>(i, e). (rg_key e, (rn_key n, i)))
       (enumerate 0 (filter (\<lambda>e. end_of e = rn_key n) fwd))) nodes)"
  from assms(2) obtain n where n: "n \<in> set nodes" "rn_key n = end_of e" using node_map_Some by blast
  have "e \<in> snd ` set (enumerate 0 (filter (\<lambda>d. end_of d = rn_key n) fwd))"
    using assms(1) n by (simp flip: set_map)
  then have "rg_key e \<in> fst ` set ?kvs" using n(1) by force
  from js_map_of_dom[OF this] obtain r where r: "map_of (port_refs end_of nodes fwd) (rg_key e) = Some r"
    unfolding port_refs_def by blast
  then have "(rg_key e, r) \<in> set ?kvs" unfolding port_refs_def by (rule js_map_of_Some)
  then obtain m i where m: "m \<in> set nodes" "r = (rn_key m, i)" "i < length (filter (\<lambda>d. end_of d = rn_key m) fwd)"
    by (auto simp: in_set_enumerate_eq)
  obtain s where s: "map_of (js_map_of (map (\<lambda>n. (rn_key n, ports_on n)) nodes)) (rn_key m) = Some s"
    using js_map_of_dom[of "rn_key m"] m(1) by force
  from js_map_of_Some[OF this] have "length s = length (filter (\<lambda>d. end_of d = rn_key m) fwd)"
    using assms(3) by auto
  then show ?thesis using r m s by (simp add: ref_ok_def)
qed

lemma sides_start: "(\<And>n p. p \<in> set (ports_on n) \<Longrightarrow> port_ok p) \<Longrightarrow> sides_ok (js_map_of (map (\<lambda>n. (rn_key n, ports_on n)) nodes))"
  unfolding sides_ok_def by (auto dest!: js_map_of_mem)

lemma length_first_passes [simp]: "length (first_passes nodes e) = skipped nodes e"
  by (simp add: first_passes_def skipped_def Let_def)

lemma forward_known:
  "e \<in> set (forward_edges nodes edges) \<Longrightarrow>
   map_of (node_map nodes) (rg_from e) \<noteq> None \<and> map_of (node_map nodes) (rg_to e) \<noteq> None \<and>
   rn_column (node_at nodes (rg_from e)) < rn_column (node_at nodes (rg_to e))"
  by (auto simp: forward_edges_def goes_right_def both_known_def)

lemma passes_start:
  assumes "distinct (map rg_key edges)" and "e \<in> set (forward_edges nodes edges)"
  shows "map_of (js_map_of (map (\<lambda>e. (rg_key e, first_passes nodes e)) (forward_edges nodes edges))) (rg_key e) =
    Some (first_passes nodes e)"
proof -
  have "distinct (map fst (map (\<lambda>e. (rg_key e, first_passes nodes e)) (forward_edges nodes edges)))"
    using assms(1) by (simp add: comp_def forward_edges_def distinct_map_filter)
  then show ?thesis unfolding map_of_js_map_of using assms(2) by (subst map_of_distinct_rev) (auto intro!: map_of_is_SomeI)
qed

lemma route_inv_start:
  assumes "distinct (map rg_key edges)"
  shows "route_inv (route_env_of nodes edges opts) (route_start nodes edges opts)"
  unfolding route_inv_def route_start_def route_env_of_def Let_def out_sides_def in_sides_def
  using forward_known passes_start[OF assms]
  by (auto intro!: sides_start refs_start exI[of _ "first_passes nodes _"] intro: sidePorts_ok simp: Let_def)

lemma foldl_straighten_inv:
  "route_inv v st \<Longrightarrow> snd ` set js \<subseteq> set (rv_fwd v) \<Longrightarrow> route_inv v (foldl (straighten v) st js)"
  by (induction js arbitrary: st) (auto intro: straighten_inv)

text \<open>A plan to lay lanes for: its ports are on its levels and it has a level per column.\<close>

definition plan_ok :: "plan \<Rightarrow> bool" where
  "plan_ok p \<longleftrightarrow> port_ok (pn_out p) \<and> port_ok (pn_into p) \<and> pn_first p < pn_last p \<and>
     length (pn_levels p) = nat (pn_last p - pn_first p) + 1 \<and>
     hd (pn_levels p) = pt_level (pn_out p) \<and> last (pn_levels p) = pt_level (pn_into p)"

lemma plans_of_ok:
  assumes "distinct (map rg_key edges)" and "p \<in> set (plans_of nodes edges opts)"
  shows "plan_ok p"
proof -
  let ?v = "route_env_of nodes edges opts"
  let ?st = "foldl (straighten ?v) (route_start nodes edges opts) (enumerate 0 (rv_fwd ?v))"
  have inv: "route_inv ?v ?st"
    by (rule foldl_straighten_inv[OF route_inv_start[OF assms(1)]]) (auto simp: in_set_enumerate_eq)
  from assms(2) obtain e where e: "e \<in> set (rv_fwd ?v)" "p = plan_of ?v ?st e" by (auto simp: plans_of_def Let_def)
  have "port_ok (out_port ?v ?st e)" "port_ok (in_port ?v ?st e)"
    using inv e(1) by (auto simp: out_port_def in_port_def route_inv_def intro!: port_at_ok)
  moreover have "length (passes_of (rs_passes ?st) e) = skipped nodes e"
    using inv e(1) by (auto simp: route_inv_def passes_of_def route_env_of_def)
  moreover have "rn_column (node_at nodes (rg_from e)) < rn_column (node_at nodes (rg_to e))"
    using e(1) forward_known[of e nodes edges] by (simp add: route_env_of_def)
  ultimately show ?thesis
    unfolding plan_ok_def e(2) plan_of_def by (simp add: route_env_of_def skipped_def nat_diff_distrib')
qed

lemma in_rightToLeft:
  assumes "p \<in> set plans" and "pn_first p \<le> g" and "g < pn_last p"
    and "pn_levels p ! nat (g - pn_first p) \<noteq> pn_levels p ! nat (g - pn_first p + 1)"
  shows "(p, pn_levels p ! nat (g - pn_first p), pn_levels p ! nat (g - pn_first p + 1)) \<in> set (rightToLeft plans g)"
  using assms by (auto simp: rightToLeft_def turning_def image_iff)

lemma length_lane_xs [simp]: "length (lane_xs opts lo hi n) = n"
  by (simp add: lane_xs_def Let_def)

lemma gap_lanes_keys: "map fst (gap_lanes opts columns plans g) = map (\<lambda>(p, _). lane_key (pn_edge p) g) (rightToLeft plans g)"
  by (simp add: gap_lanes_def Let_def)

lemma lane_found:
  assumes "p \<in> set plans" and "pn_first p \<le> g" and "g < pn_last p"
    and "pn_levels p ! nat (g - pn_first p) \<noteq> pn_levels p ! nat (g - pn_first p + 1)"
  shows "map_of (lanes_of opts nodes plans) (lane_key (pn_edge p) g) \<noteq> None"
proof -
  have "g \<in> set (gaps_of plans)" using assms(1-3) by (auto simp: gaps_of_def)
  moreover have "lane_key (pn_edge p) g \<in> set (map fst (gap_lanes opts (columnsOf nodes) plans g))"
    unfolding gap_lanes_keys using in_rightToLeft[OF assms] by force
  ultimately have "lane_key (pn_edge p) g \<in> fst ` set (concat (map (gap_lanes opts (columnsOf nodes) plans) (gaps_of plans)))"
    by (force simp: image_iff)
  from js_map_of_dom[OF this] show ?thesis unfolding lanes_of_def by blast
qed

lemma gap_points_run:
  assumes "p \<in> set plans" and "pn_first p \<le> g" and "g < pn_last p"
  shows "runs (pn_levels p ! nat (g - pn_first p)) (gap_points (lanes_of opts nodes plans) p g)
    (pn_levels p ! (nat (g - pn_first p) + 1))"
proof -
  have "nat (g - pn_first p + 1) = nat (g - pn_first p) + 1" using assms(2) by simp
  with lane_found[OF assms, of opts nodes] show ?thesis
    by (cases "map_of (lanes_of opts nodes plans) (lane_key (pn_edge p) g)")
      (auto simp: gap_points_def runs_def aligned_def Let_def)
qed

lemma gaps_run:
  assumes "p \<in> set plans" and "n \<le> nat (pn_last p - pn_first p)"
  shows "runs (pn_levels p ! 0)
    (concat (map (gap_points (lanes_of opts nodes plans) p) [pn_first p..pn_first p + int n - 1])) (pn_levels p ! n)"
  using assms(2)
proof (induction n)
  case (Suc n)
  have "[pn_first p..pn_first p + int (Suc n) - 1] = [pn_first p..pn_first p + int n - 1] @ [pn_first p + int n]"
    using upto_rec2[of "pn_first p" "pn_first p + int n"] by simp
  moreover have "runs (pn_levels p ! n) (gap_points (lanes_of opts nodes plans) p (pn_first p + int n)) (pn_levels p ! Suc n)"
    using gap_points_run[OF assms(1), of "pn_first p + int n"] Suc.prems by simp
  ultimately show ?case using Suc by (simp add: runs_append)
qed simp

lemma route_of_orthogonal:
  assumes "p \<in> set plans" and "plan_ok p"
  shows "orthogonal (route_of (lanes_of opts nodes plans) p) \<and>
    hd (route_of (lanes_of opts nodes plans) p) = hd (pt_points (pn_out p)) \<and>
    last (route_of (lanes_of opts nodes plans) p) = hd (pt_points (pn_into p))"
proof -
  let ?n = "nat (pn_last p - pn_first p)"
  let ?mid = "concat (map (gap_points (lanes_of opts nodes plans) p) [pn_first p..pn_last p - 1])"
  let ?all = "pt_points (pn_out p) @ ?mid @ rev (pt_points (pn_into p))"
  note ok = assms(2)[unfolded plan_ok_def]
  have ne: "pn_levels p \<noteq> []" using ok by auto
  have ends: "hd (pn_levels p) = pt_level (pn_out p)" "last (pn_levels p) = pt_level (pn_into p)" using ok by blast+
  have "length (pn_levels p) - 1 = ?n" using ok by simp
  then have "pn_levels p ! 0 = pt_level (pn_out p)" "pn_levels p ! ?n = pt_level (pn_into p)"
    using ends unfolding hd_conv_nth[OF ne] last_conv_nth[OF ne] by simp_all
  then have "runs (pt_level (pn_out p)) ?mid (pt_level (pn_into p))"
    using gaps_run[OF assms(1), of ?n opts nodes] ok by simp
  with port_run ok have "orthogonal ?all" by blast
  moreover have "?all \<noteq> []" using ok by (simp add: port_ok_def)
  ultimately show ?thesis
    using ok simplify_orthogonal[of ?all] simplify_ends[of ?all]
    by (simp add: route_of_def port_ok_def last_rev)
qed

lemma loop_route_orthogonal: "orthogonal (loop_route opts bottom e i out into)"
  by (simp add: loop_route_def Let_def aligned_def)

lemma alist_update_mem: "(k, v) \<in> set (AList.update a b m) \<Longrightarrow> (k, v) \<in> set m \<or> k = a \<and> v = b"
  by (induction m) (auto split: if_splits)

lemma route_loops_mem:
  "(k, pts) \<in> set (ls_routes (foldl (route_loop opts bottom) st ies)) \<Longrightarrow>
   (k, pts) \<in> set (ls_routes st) \<or> (\<exists>i e out into. k = be_key e \<and> pts = loop_route opts bottom e i out into)"
proof (induction ies arbitrary: st)
  case (Cons ie ies)
  have "(k, pts) \<in> set (ls_routes (route_loop opts bottom st ie)) \<Longrightarrow> (k, pts) \<in> set (ls_routes st) \<or>
    (\<exists>i e out into. k = be_key e \<and> pts = loop_route opts bottom e i out into)"
    by (auto simp: route_loop_def Let_def dest!: alist_update_mem)
  then show ?case using Cons by force
qed simp

lemma route_loops_keys:
  "fst ` set (ls_routes (foldl (route_loop opts bottom) st ies)) = fst ` set (ls_routes st) \<union> (be_key \<circ> snd) ` set ies"
  by (induction ies arbitrary: st) (auto simp: route_loop_def Let_def AList.dom_update)

lemma loop_routes_keys:
  "fst ` set (loop_routes nodes edges opts) = rg_key ` {e \<in> set edges. both_known nodes e \<and> \<not> goes_right nodes e}"
proof -
  have "snd ` set (enumerate 0 (backward_edges nodes edges)) = set (backward_edges nodes edges)" by (simp flip: set_map)
  then have "(be_key \<circ> snd) ` set (enumerate 0 (backward_edges nodes edges)) = be_key ` set (backward_edges nodes edges)"
    by (simp flip: image_image add: comp_def)
  then show ?thesis unfolding loop_routes_def route_loops_keys by (auto simp: backward_edges_def image_iff)
qed

lemma plans_of_edges: "map pn_edge (plans_of nodes edges opts) = forward_edges nodes edges"
  by (simp add: plans_of_def Let_def plan_of_def route_env_of_def comp_def)

lemma routes_orthogonal:
  assumes "distinct (map rg_key edges)"
  shows "fst ` set (routeEdges nodes edges opts) = rg_key ` {e. e \<in> set edges \<and> both_known nodes e} \<and>
    list_all (\<lambda>(k, pts). orthogonal pts) (routeEdges nodes edges opts)"
proof -
  let ?plans = "plans_of nodes edges opts"
  have keys: "fst ` set (routeEdges nodes edges opts) = fst ` set (loop_routes nodes edges opts) \<union> rg_key ` set (map pn_edge ?plans)"
    unfolding routeEdges_def Let_def using foldl_update_keys by (simp add: image_image)
  have "orthogonal pts" if r: "(k, pts) \<in> set (routeEdges nodes edges opts)" for k pts
  proof -
    consider (loop) "(k, pts) \<in> set (loop_routes nodes edges opts)"
      | (plan) p where "p \<in> set ?plans" "pts = route_of (lanes_of opts nodes ?plans) p"
      using foldl_update_mem[OF r[unfolded routeEdges_def Let_def]] by blast
    then show ?thesis
    proof cases
      case loop
      then show ?thesis using route_loops_mem[OF loop[unfolded loop_routes_def]] loop_route_orthogonal by auto
    next
      case plan
      then show ?thesis using route_of_orthogonal[OF plan(1) plans_of_ok[OF assms plan(1)]] by simp
    qed
  qed
  then show ?thesis unfolding keys plans_of_edges loop_routes_keys
    by (auto simp: list_all_iff forward_edges_def goes_right_def)
qed

text \<open>C11: every edge between boxes of the graph gets a route, and every route runs level or
  upright only, so an edge turns at right angles however its ports spilled or moved.\<close>

theorem routeEdges_orthogonal:
  assumes "distinct (map rg_key edges)"
  shows "fst ` set (routeEdges nodes edges opts) = rg_key ` {e. e \<in> set edges \<and> both_known nodes e} \<and>
    list_all (\<lambda>(k, pts). orthogonal pts) (routeEdges nodes edges opts)"
  by (rule routes_orthogonal[OF assms])

theorem routeEdges_orthogonal_witness:
  "fst ` set (routeEdges [\<lparr>rn_key = ''a'', rn_box = \<lparr>bx_left = 0, bx_top = 0, bx_width = 9, bx_height = 9\<rparr>, rn_column = 0\<rparr>,
        \<lparr>rn_key = ''b'', rn_box = \<lparr>bx_left = 90, bx_top = 0, bx_width = 9, bx_height = 9\<rparr>, rn_column = 1\<rparr>]
      [\<lparr>rg_key = ''e'', rg_from = ''a'', rg_to = ''b'', rg_passes = None\<rparr>] routeDefaults) = {''e''}"
proof -
  let ?ns = "[\<lparr>rn_key = ''a'', rn_box = \<lparr>bx_left = 0, bx_top = 0, bx_width = 9, bx_height = 9\<rparr>, rn_column = 0\<rparr>,
        \<lparr>rn_key = ''b'', rn_box = \<lparr>bx_left = 90, bx_top = 0, bx_width = 9, bx_height = 9\<rparr>, rn_column = 1\<rparr>]"
  let ?e = "\<lparr>rg_key = ''e'', rg_from = ''a'', rg_to = ''b'', rg_passes = None\<rparr>"
  have "both_known ?ns ?e" by (simp add: both_known_def node_map_def map_of_js_map_of)
  then have "{e. e \<in> set [?e] \<and> both_known ?ns e} = {?e}" by auto
  then show ?thesis using routeEdges_orthogonal[of "[?e]" ?ns routeDefaults] by simp
qed

section \<open>Lanes in a gap\<close>

lemma js_round_apart: "x + 1 \<le> y \<Longrightarrow> js_round x < js_round y"
  unfolding js_round_def less_floor_iff using of_int_floor_le[of "x + 1 / 2"] by linarith

lemma js_round_near: "x - 1 / 2 \<le> of_int (js_round x) \<and> of_int (js_round x) \<le> x + 1 / 2"
  unfolding js_round_def using floor_correct[of "x + 1 / 2"] by linarith

lemma lane_step_one:
  assumes "ro_spacing opts \<ge> 1 / 2" and "n > 1"
  shows "lane_step opts lo hi n \<ge> 1"
  using assms by (auto simp: lane_step_def)

lemma lane_xs_distinct:
  assumes "ro_spacing opts \<ge> 1 / 2"
  shows "distinct (lane_xs opts lo hi n)"
proof (cases "n > 1")
  case True
  let ?step = "lane_step opts lo hi n"
  let ?start = "(lo + hi) / 2 + ?step * (of_nat n - 1) / 2"
  have step: "1 \<le> ?step" using lane_step_one[OF assms True] .
  have "js_round (?start - ?step * of_nat k) < js_round (?start - ?step * of_nat j)" if "j < k" for j k
  proof (rule js_round_apart)
    have "1 \<le> rat_of_nat k - of_nat j" using that by (simp add: of_nat_diff flip: of_nat_Suc) 
    then have "?step * 1 \<le> ?step * (of_nat k - of_nat j)" using step by (intro mult_left_mono) auto
    then show "?start - ?step * of_nat k + 1 \<le> ?start - ?step * of_nat j" using step by (simp add: algebra_simps)
  qed
  then have "inj (\<lambda>k. js_round (?start - ?step * of_nat k))"
    by (intro linorder_injI) (metis less_irrefl)
  then show ?thesis unfolding lane_xs_def Let_def distinct_map by (auto intro: inj_on_subset)
next
  case False
  then have "n = 0 \<or> n = 1" by auto
  then show ?thesis by (auto simp: lane_xs_def)
qed

lemma lane_step_fits: "n > 0 \<Longrightarrow> of_nat n - 1 \<le> hi - lo \<Longrightarrow> lane_step opts lo hi n * (of_nat n - 1) \<le> hi - lo"
proof (cases "n > 1")
  case True
  assume room: "of_nat n - 1 \<le> hi - lo"
  have pos: "0 < rat_of_nat n - 1" using True by simp
  have "max 1 ((hi - lo) / (of_nat n - 1)) = (hi - lo) / (of_nat n - 1)"
    using room pos by (simp add: max_def le_divide_eq)
  then have "lane_step opts lo hi n \<le> (hi - lo) / (of_nat n - 1)" using True by (simp add: lane_step_def)
  then show ?thesis using pos by (simp add: le_divide_eq)
next
  case False
  assume "n > 0" and "of_nat n - 1 \<le> hi - lo"
  moreover from this(1) False have "n = 1" by simp
  ultimately show ?thesis by simp
qed

lemma lane_between:
  fixes lo hi A B :: rat
  assumes "B \<le> A" and "0 \<le> B" and "A \<le> hi - lo"
  shows "lo \<le> (lo + hi) / 2 + A / 2 - B \<and> (lo + hi) / 2 + A / 2 - B \<le> hi"
  using assms by (simp add: field_simps)

lemma lane_xs_in_gap:
  assumes "ro_spacing opts \<ge> 1 / 2" and "of_nat n - 1 \<le> hi - lo" and "x \<in> set (lane_xs opts lo hi n)"
  shows "lo - 1 / 2 \<le> of_int x \<and> of_int x \<le> hi + 1 / 2"
proof -
  let ?step = "lane_step opts lo hi n"
  let ?start = "(lo + hi) / 2 + ?step * (of_nat n - 1) / 2"
  from assms(3) obtain k where k: "k < n" "x = js_round (?start - ?step * of_nat k)"
    by (auto simp: lane_xs_def Let_def)
  have fits: "?step * (of_nat n - 1) \<le> hi - lo" using lane_step_fits[of n hi lo opts] k(1) assms(2) by simp
  have nn: "0 \<le> ?step" using assms(1) by (auto simp: lane_step_def)
  have "of_nat k \<le> rat_of_nat n - 1" using k(1) by (simp add: of_nat_diff flip: of_nat_Suc)
  then have "?step * of_nat k \<le> ?step * (of_nat n - 1)" "0 \<le> ?step * of_nat k" using nn by (auto intro: mult_left_mono)
  then have "lo \<le> ?start - ?step * of_nat k \<and> ?start - ?step * of_nat k \<le> hi"
    using fits by (intro lane_between)
  then show ?thesis using js_round_near[of "?start - ?step * of_nat k"] unfolding k(2) by linarith
qed

lemma add_crossing_counts:
  "coalesce (map_of (foldl add_crossing crossing gs) g) 0 = coalesce (map_of crossing g) 0 + length (filter ((=) g) gs)"
  by (induction gs arbitrary: crossing) (auto simp: add_crossing_def update_conv')

definition crosses :: "route_node list \<Rightarrow> int \<Rightarrow> route_edge \<Rightarrow> bool" where
  "crosses nodes g e \<longleftrightarrow> both_known nodes e \<and>
     rn_column (node_at nodes (rg_from e)) \<le> g \<and> g < rn_column (node_at nodes (rg_to e))"

lemma column_map_node: "map_of (column_map nodes) k = map_option rn_column (map_of (node_map nodes) k)"
proof -
  have "map (\<lambda>n. (rn_key n, rn_column n)) nodes = map (\<lambda>(k, n). (k, rn_column n)) (map (\<lambda>n. (rn_key n, n)) nodes)" by simp
  then show ?thesis
    unfolding node_map_def column_map_def map_of_js_map_of by (simp only: rev_map map_of_map) (simp add: comp_def)
qed

lemma upto_filter: "length (filter ((=) g) [a..b - 1]) = (if a \<le> g \<and> g < b then 1 else 0)"
  by (auto simp: distinct_length_filter)

lemma cross_edge_counts:
  "coalesce (map_of (cross_edge (column_map nodes) crossing e) g) 0 =
   coalesce (map_of crossing g) 0 + (if crosses nodes g e then 1 else 0)"
  by (cases "map_of (node_map nodes) (rg_from e)"; cases "map_of (node_map nodes) (rg_to e)")
    (simp_all add: cross_edge_def column_map_node add_crossing_counts upto_filter crosses_def both_known_def node_at_def)

lemma crossing_counts:
  "coalesce (map_of (foldl (cross_edge (column_map nodes)) crossing edges) g) 0 =
   coalesce (map_of crossing g) 0 + length (filter (crosses nodes g) edges)"
  by (induction edges arbitrary: crossing) (simp_all add: cross_edge_counts)

lemma foldl_max_ge: "(a :: 'a :: linorder) \<le> foldl max a xs \<and> (\<forall>x\<in>set xs. x \<le> foldl max a xs)"
proof (induction xs arbitrary: a)
  case (Cons x xs)
  from Cons[of "max a x"] show ?case by auto
qed simp

lemma most_crossing: "coalesce (map_of crossing g) 0 \<le> foldl max (0 :: nat) (map snd crossing)"
  using foldl_max_ge[of 0 "map snd crossing"] by (cases "map_of crossing g") (force dest: map_of_SomeD)+

lemma lanesNeeded_enough: "length (filter (crosses nodes g) edges) \<le> lanesNeeded nodes edges"
  using most_crossing[of "foldl (cross_edge (column_map nodes)) [] edges" g] crossing_counts[of nodes "[]" edges g]
  by (simp add: lanesNeeded_def)

lemma rightToLeft_count:
  "length (rightToLeft (plans_of nodes edges opts) g) \<le> lanesNeeded nodes edges"
proof -
  let ?ps = "plans_of nodes edges opts"
  have split: "length (filter (\<lambda>(p, from, to). to > from) ts) + length (filter (\<lambda>(p, from, to). to < from) ts) \<le> length ts"
    for ts :: "(plan \<times> rat \<times> rat) list" by (induction ts) auto
  have "length (rightToLeft ?ps g) \<le> length (turning ?ps g)" unfolding rightToLeft_def using split by simp
  also have "\<dots> \<le> length (filter (\<lambda>p. pn_first p \<le> g \<and> g < pn_last p) ?ps)"
    unfolding turning_def using length_filter_le by (metis (no_types, lifting) length_map)
  also have "\<dots> = length (filter (crosses nodes g) (forward_edges nodes edges))"
    by (auto simp: plans_of_def Let_def filter_map plan_of_def route_env_of_def crosses_def forward_edges_def
        goes_right_def comp_def intro!: arg_cong[where f = length] filter_cong)
  also have "\<dots> \<le> length (filter (crosses nodes g) edges)"
    unfolding forward_edges_def filter_filter by (induction edges) auto
  finally show ?thesis using lanesNeeded_enough[of nodes g edges] by linarith
qed

text \<open>C12: a gap wide enough for the lanes \<open>lanesNeeded\<close> counts gives every edge that turns
  in it a lane of its own, inside the gap.\<close>

theorem gap_lanes_apart:
  assumes "ro_spacing opts \<ge> 1 / 2"
    and "map_of (snd (columnsOf nodes)) g = Some r" and "map_of (fst (columnsOf nodes)) (g + 1) = Some l"
    and "of_nat (lanesNeeded nodes edges) - 1 \<le> (l - ro_leadIn opts) - (r + ro_leadOut opts)"
  shows "distinct (map snd (gap_lanes opts (columnsOf nodes) (plans_of nodes edges opts) g)) \<and>
    list_all (\<lambda>(k, x). r + ro_leadOut opts - 1 / 2 \<le> of_int x \<and> of_int x \<le> l - ro_leadIn opts + 1 / 2)
      (gap_lanes opts (columnsOf nodes) (plans_of nodes edges opts) g)"
proof -
  let ?n = "length (rightToLeft (plans_of nodes edges opts) g)"
  let ?xs = "lane_xs opts (r + ro_leadOut opts) (l - ro_leadIn opts) ?n"
  have gl: "map snd (gap_lanes opts (columnsOf nodes) (plans_of nodes edges opts) g) = ?xs"
    using assms(2,3) by (simp add: gap_lanes_def Let_def)
  have "rat_of_nat ?n \<le> of_nat (lanesNeeded nodes edges)" using rightToLeft_count of_nat_mono by blast
  then have room: "of_nat ?n - 1 \<le> (l - ro_leadIn opts) - (r + ro_leadOut opts)" using assms(4) by linarith
  have "r + ro_leadOut opts - 1 / 2 \<le> of_int x \<and> of_int x \<le> l - ro_leadIn opts + 1 / 2"
    if "(k, x) \<in> set (gap_lanes opts (columnsOf nodes) (plans_of nodes edges opts) g)" for k x
  proof (rule lane_xs_in_gap[OF assms(1) room])
    show "x \<in> set ?xs" unfolding gl[symmetric] using that by force
  qed
  then show ?thesis unfolding gl using lane_xs_distinct[OF assms(1)] by (auto simp: list_all_iff)
qed

theorem gap_lanes_apart_witness:
  "distinct (map snd (gap_lanes routeDefaults
     (columnsOf [\<lparr>rn_key = ''a'', rn_box = \<lparr>bx_left = 0, bx_top = 0, bx_width = 9, bx_height = 9\<rparr>, rn_column = 0\<rparr>,
        \<lparr>rn_key = ''b'', rn_box = \<lparr>bx_left = 90, bx_top = 50, bx_width = 9, bx_height = 9\<rparr>, rn_column = 1\<rparr>])
     (plans_of [\<lparr>rn_key = ''a'', rn_box = \<lparr>bx_left = 0, bx_top = 0, bx_width = 9, bx_height = 9\<rparr>, rn_column = 0\<rparr>,
        \<lparr>rn_key = ''b'', rn_box = \<lparr>bx_left = 90, bx_top = 50, bx_width = 9, bx_height = 9\<rparr>, rn_column = 1\<rparr>]
        [\<lparr>rg_key = ''e'', rg_from = ''a'', rg_to = ''b'', rg_passes = None\<rparr>] routeDefaults) 0))"
proof -
  let ?ns = "[\<lparr>rn_key = ''a'', rn_box = \<lparr>bx_left = 0, bx_top = 0, bx_width = 9, bx_height = 9\<rparr>, rn_column = 0\<rparr>,
        \<lparr>rn_key = ''b'', rn_box = \<lparr>bx_left = 90, bx_top = 50, bx_width = 9, bx_height = 9\<rparr>, rn_column = 1\<rparr>]"
  let ?es = "[\<lparr>rg_key = ''e'', rg_from = ''a'', rg_to = ''b'', rg_passes = None\<rparr>]"
  have "map_of (snd (columnsOf ?ns)) 0 = Some 9" "map_of (fst (columnsOf ?ns)) (0 + 1) = Some 90"
    by (simp_all add: columnsOf_def Let_def)
  moreover have "lanesNeeded ?ns ?es = 1" by code_simp
  ultimately show ?thesis
    using gap_lanes_apart[of routeDefaults ?ns 0 9 90 ?es] by (simp add: routeDefaults_def)
qed

end
