(* ===== verification/Backend_Session.thy ===== *)
theory Backend_Session
  imports Js_Prelude
begin

text \<open>
  The client's session with the API server (\<open>services/BackendService.ts\<close>,
  \<open>utils/storage.ts\<close>, \<open>utils/resetLogin.ts\<close>, \<open>api/status.ts\<close>): the
  interceptors that put the token on a request, refresh it once it has expired and retry the
  requests that met that, and what a caller sees of an error. A request is the promise its caller
  holds, named by a number; a step is one event of the browser: a request sent, an answer to a
  request in flight, an answer to the refresh. The callbacks of an event run before the next one.
\<close>

section \<open>Tokens and messages\<close>

record session_store =
  lo_token :: "string option"
  lo_refreshToken :: "string option"

definition getToken :: "session_store \<Rightarrow> string" where
  "getToken store = or_str (lo_token store) []"

text \<open>A list of tokens stores its first; of an empty list the store keeps the text
  \<open>undefined\<close>.\<close>

definition setToken :: "string list + string \<Rightarrow> session_store \<Rightarrow> session_store" where
  "setToken token store =
     store\<lparr>lo_token := Some (case token of Inl ts \<Rightarrow> coalesce (nth_opt ts 0) ''undefined'' | Inr t \<Rightarrow> t)\<rparr>"

definition removeToken :: "session_store \<Rightarrow> session_store" where
  "removeToken store = store\<lparr>lo_token := None\<rparr>"

definition hasToken :: "session_store \<Rightarrow> bool" where
  "hasToken store \<longleftrightarrow> getToken store \<noteq> []"

definition status_name :: "int \<Rightarrow> string option" where
  "status_name status = map_of
     [(400, ''BadRequest(400)''), (401, ''Unauthorized(401)''), (403, ''Forbidden(403)''), (404, ''NotFound(404)''),
      (408, ''TimeOut(408)''), (500, ''InternalServerError(500)''), (501, ''ServerNotImplements(501)''),
      (502, ''GatewayError(502)''), (503, ''InternalServerUnavailable(503)''), (504, ''GatewayTimeout(504)'')] status"

definition getMessage :: "int \<Rightarrow> string" where
  "getMessage status =
     coalesce (status_name status) (''connect error('' @ int_str status @ '')!'') @
     '', please check the network or contact the administrator!''"

definition bearer :: "string \<Rightarrow> string" where
  "bearer token = ''Bearer '' @ token"

section \<open>The state\<close>

text \<open>The chain that refreshes the token: none, waiting for the server's answer, or retrying
  the request that found the token expired.\<close>

datatype refresh = NoRefresh | Asking nat | Retrying nat

datatype outcome = Answered | Rejected | NullAnswer | ResetShown

record session =
  ss_store :: session_store
  ss_isRefreshing :: bool
  ss_retryRequests :: "nat list"
  ss_refresh :: refresh
  ss_sent :: "(nat, string option) js_map"
  ss_settled :: "(nat, outcome) js_map"
  ss_shown :: "string list"
  ss_reset :: bool

definition initial_session :: "session_store \<Rightarrow> session" where
  "initial_session store =
     \<lparr>ss_store = store, ss_isRefreshing = False, ss_retryRequests = [], ss_refresh = NoRefresh, ss_sent = [],
      ss_settled = [], ss_shown = [], ss_reset = False\<rparr>"

section \<open>What the callbacks do\<close>

text \<open>The request interceptor: the token goes on the request when there is one, else the
  header it had stays.\<close>

definition on_request :: "string option \<Rightarrow> session_store \<Rightarrow> string option" where
  "on_request header store = (if hasToken store then Some (bearer (getToken store)) else header)"

definition send_request :: "nat \<Rightarrow> string option \<Rightarrow> session \<Rightarrow> session" where
  "send_request r header s = s\<lparr>ss_sent := AList.update r (on_request header (ss_store s)) (ss_sent s)\<rparr>"

text \<open>\<open>ResetLogin.getInstance().reset\<close>: the dialog is opened by the first call only.\<close>

definition reset_login :: "session \<Rightarrow> session" where
  "reset_login s = s\<lparr>ss_reset := True\<rparr>"

text \<open>A promise settles. When it is the retried request of the refresh, the chain's
  \<open>catch\<close> turns a rejection into the login reset, and its \<open>finally\<close> ends the
  refresh.\<close>

definition settle :: "nat \<Rightarrow> outcome \<Rightarrow> session \<Rightarrow> session" where
  "settle r result s =
     (if ss_refresh s = Retrying r
      then (if result = Rejected then reset_login s else s)
        \<lparr>ss_settled := AList.update r (if result = Rejected then ResetShown else result) (ss_settled s),
         ss_isRefreshing := False, ss_refresh := NoRefresh\<rparr>
      else s\<lparr>ss_settled := AList.update r result (ss_settled s)\<rparr>)"

text \<open>An answer to a request: a response with its status, no response at all, or an error
  response with the business code its body carries, if any.\<close>

datatype answer = Response int | NoResponse | ErrorResponse "int option"

definition on_response :: "nat \<Rightarrow> int \<Rightarrow> session \<Rightarrow> session" where
  "on_response r status s =
     settle r Answered (if status = 200 then s else s\<lparr>ss_shown := ss_shown s @ [getMessage status]\<rparr>)"

definition on_error :: "nat \<Rightarrow> int option \<Rightarrow> session \<Rightarrow> session" where
  "on_error r code s =
     (if code = Some 12002 then
        if \<not> ss_isRefreshing s then s\<lparr>ss_isRefreshing := True, ss_refresh := Asking r\<rparr>
        else s\<lparr>ss_retryRequests := ss_retryRequests s @ [r]\<rparr>
      else if code = Some 12010 \<or> code = Some 12004 then settle r ResetShown (reset_login s)
      else settle r Rejected s)"

definition on_answer :: "nat \<Rightarrow> answer \<Rightarrow> session \<Rightarrow> session" where
  "on_answer r a s =
     (let s = s\<lparr>ss_sent := AList.delete r (ss_sent s)\<rparr>
      in case a of
           Response status \<Rightarrow> on_response r status s
         | NoResponse \<Rightarrow> settle r Rejected s
         | ErrorResponse code \<Rightarrow> on_error r code s)"

text \<open>The answer to the refresh: the tokens it carries, an answer without an access token, or
  a failure.\<close>

datatype refreshed = Tokens string string | NoTokens | RefreshFailed

definition retry_all :: "string \<Rightarrow> session \<Rightarrow> session" where
  "retry_all token s =
     (foldl (\<lambda>s r. send_request r (Some (bearer token)) s) s (ss_retryRequests s))\<lparr>ss_retryRequests := []\<rparr>"

definition end_refresh :: "nat \<Rightarrow> outcome \<Rightarrow> session \<Rightarrow> session" where
  "end_refresh r result s =
     s\<lparr>ss_settled := AList.update r result (ss_settled s), ss_isRefreshing := False, ss_refresh := NoRefresh\<rparr>"

definition on_refreshed :: "nat \<Rightarrow> refreshed \<Rightarrow> session \<Rightarrow> session" where
  "on_refreshed r a s =
     (case a of
        Tokens access again \<Rightarrow>
          if access \<noteq> [] then
            let s = s\<lparr>ss_store := \<lparr>lo_token = Some access, lo_refreshToken = Some again\<rparr>\<rparr>;
                s = retry_all (getToken (ss_store s)) s
            in send_request r (Some (bearer (getToken (ss_store s)))) (s\<lparr>ss_refresh := Retrying r\<rparr>)
          else end_refresh r NullAnswer s
      | NoTokens \<Rightarrow> end_refresh r NullAnswer s
      | RefreshFailed \<Rightarrow> end_refresh r ResetShown (reset_login s))"

section \<open>Steps of the session\<close>

text \<open>The requests already named: in flight, waiting to be retried, at the head of the
  refresh, or settled.\<close>

definition asking :: "session \<Rightarrow> nat list" where
  "asking s = (case ss_refresh s of Asking r \<Rightarrow> [r] | _ \<Rightarrow> [])"

definition places :: "session \<Rightarrow> nat list" where
  "places s = map fst (ss_sent s) @ ss_retryRequests s @ asking s @ map fst (ss_settled s)"

inductive session_step :: "session \<Rightarrow> session \<Rightarrow> bool" where
  send: "r \<notin> set (places s) \<Longrightarrow> session_step s (send_request r None s)"
| answer: "r \<in> fst ` set (ss_sent s) \<Longrightarrow> session_step s (on_answer r a s)"
| refreshed: "ss_refresh s = Asking r \<Longrightarrow> session_step s (on_refreshed r a s)"

inductive_cases session_stepE: "session_step s s'"

section \<open>What a caller sees of an error\<close>

text \<open>\<open>post\<close>, \<open>get\<close>, \<open>delete\<close> and \<open>put\<close> share this handling. The
  parameters are \<open>None\<close> when the caller gives none; reading their \<open>customError\<close>
  then throws.\<close>

record api_error =
  ae_status :: int
  ae_data :: "(int option \<times> string) option"

datatype error_outcome = Thrown "(int option \<times> string) option" | Shown string | Quiet | TypeError

definition isMatchBusinessCode :: "int \<Rightarrow> bool" where
  "isMatchBusinessCode businessCode \<longleftrightarrow> businessCode \<in> set [12002, 12010]"

definition handleError :: "int \<Rightarrow> string \<Rightarrow> error_outcome" where
  "handleError code message = (if \<not> isMatchBusinessCode code then Shown message else Quiet)"

definition handleAPIError :: "api_error \<Rightarrow> bool \<Rightarrow> error_outcome" where
  "handleAPIError err customError =
     (if customError then Thrown (ae_data err)
      else case ae_data err of
             Some (Some code, message) \<Rightarrow>
               if code \<noteq> 0 then handleError code message else Shown (getMessage (ae_status err))
           | _ \<Rightarrow> Shown (getMessage (ae_status err)))"

definition catch_error :: "bool option \<Rightarrow> bool \<Rightarrow> api_error \<Rightarrow> error_outcome" where
  "catch_error params customError err =
     (case params of None \<Rightarrow> TypeError | Some custom \<Rightarrow> handleAPIError err (custom \<or> customError))"

section \<open>No request is lost\<close>

definition session_ok :: "session \<Rightarrow> bool" where
  "session_ok s \<longleftrightarrow> distinct (places s) \<and> (ss_isRefreshing s \<longleftrightarrow> ss_refresh s \<noteq> NoRefresh) \<and>
     (case ss_refresh s of Retrying r \<Rightarrow> r \<in> fst ` set (ss_sent s) \<union> set (ss_retryRequests s) | _ \<Rightarrow> True)"

lemma mset_keys_update:
  "image_mset fst (mset (AList.update k v m)) =
   (if k \<in> fst ` set m then image_mset fst (mset m) else add_mset k (image_mset fst (mset m)))"
  by (induction m) auto

lemma mset_keys_delete:
  "distinct (map fst m) \<Longrightarrow> k \<in> fst ` set m \<Longrightarrow> 
   add_mset k (image_mset fst (mset (AList.delete k m))) = image_mset fst (mset m)"
proof (induction m)
  case (Cons kv m)
  have gone: "k \<notin> fst ` set m \<Longrightarrow> AList.delete k m = m" by (simp add: AList.delete_id)
  show ?case using Cons gone by (auto simp: add_mset_commute)
qed simp

lemma keys_delete: "fst ` set (AList.delete k m) = fst ` set m - {k}"
  by (simp flip: set_map add: delete_keys)

lemma foldl_send_request:
  "foldl (\<lambda>s r. send_request r h s) s rs =
   s\<lparr>ss_sent := foldl (\<lambda>m r. AList.update r (on_request h (ss_store s)) m) (ss_sent s) rs\<rparr>"
  by (induction rs arbitrary: s) (simp_all add: send_request_def)

lemma retry_all_eq:
  "retry_all token s = s\<lparr>ss_sent := foldl (\<lambda>m r. AList.update r (on_request (Some (bearer token)) (ss_store s)) m) (ss_sent s)
     (ss_retryRequests s), ss_retryRequests := []\<rparr>"
  by (simp add: retry_all_def foldl_send_request)

lemma mset_keys_foldl:
  "distinct (map fst m @ rs) \<Longrightarrow> 
   image_mset fst (mset (foldl (\<lambda>m r. AList.update r v m) m rs)) = image_mset fst (mset m) + mset rs"
proof (induction rs arbitrary: m)
  case (Cons r rs)
  have "distinct (map fst (AList.update r v m) @ rs)"
    using Cons.prems by (auto simp: AList.dom_update distinct_update)
  from Cons.IH[OF this] Cons.prems show ?case by (auto simp: mset_keys_update)
qed simp

lemmas session_defs = on_answer_def on_response_def on_error_def settle_def reset_login_def end_refresh_def

text \<open>Where the requests are after each event.\<close>

lemma places_send: "r \<notin> set (places s) \<Longrightarrow> mset (places (send_request r h s)) = add_mset r (mset (places s))"
  by (auto simp: places_def asking_def send_request_def mset_keys_update split: refresh.splits)

lemma places_answer:
  assumes "session_ok s" and "r \<in> fst ` set (ss_sent s)"
  shows "mset (places (on_answer r a s)) = mset (places s)"
proof -
  have d: "distinct (map fst (ss_sent s))" and f: "r \<notin> fst ` set (ss_settled s)" "\<not> (\<exists>q. ss_refresh s = Asking q \<and> q = r)"
    using assms by (auto simp: session_ok_def places_def asking_def)
  have ask: "ss_isRefreshing s \<or> asking s = []" using assms(1) by (auto simp: session_ok_def asking_def split: refresh.splits)
  note del = mset_keys_delete[OF d assms(2), symmetric]
  show ?thesis
    using f ask unfolding places_def mset_append mset_map del
    by (cases a) (auto simp: session_defs Let_def asking_def mset_keys_update split: refresh.splits)
qed

lemma places_refreshed:
  assumes "session_ok s" and "ss_refresh s = Asking r"
  shows "mset (places (on_refreshed r a s)) = mset (places s)"
proof -
  have d: "distinct (map fst (ss_sent s) @ ss_retryRequests s)" "r \<notin> fst ` set (ss_sent s)" "r \<notin> set (ss_retryRequests s)"
    "r \<notin> fst ` set (ss_settled s)"
    using assms by (auto simp: session_ok_def places_def asking_def)
  have keys: "r \<notin> fst ` set (foldl (\<lambda>m r. AList.update r v m) (ss_sent s) (ss_retryRequests s))" for v :: "string option"
    using d(2,3) mset_keys_foldl[OF d(1), of v] by (metis Un_iff set_image_mset set_mset_mset set_mset_union)
  show ?thesis
    using assms(2) d keys mset_keys_foldl[OF d(1)]
    by (cases a) (auto simp: on_refreshed_def Let_def retry_all_eq end_refresh_def reset_login_def
        places_def asking_def mset_keys_update send_request_def)
qed

lemma session_ok_step:
  assumes "session_step s s'" and "session_ok s"
  shows "session_ok s' \<and> set (places s) \<subseteq> set (places s')"
  using assms(1)
proof cases
  case (send r)
  have "mset (places s') = mset (r # places s)" using places_send[OF send(2)] send(1) by simp
  then have "distinct (places s')" "set (places s) \<subseteq> set (places s')"
    using assms(2) send(2) by (metis distinct.simps(2) mset_eq_imp_distinct_iff session_ok_def, metis mset_eq_setD set_subset_Cons)
  then show ?thesis using assms(2) send(1)
    by (auto simp: session_ok_def send_request_def AList.dom_update split: refresh.splits)
next
  case (answer r a)
  note same = places_answer[OF assms(2) answer(2), of a]
  then have "distinct (places s')" "set (places s) = set (places s')"
    using assms(2) answer(1) by (metis mset_eq_imp_distinct_iff session_ok_def, metis mset_eq_setD)
  moreover have "ss_isRefreshing s' \<longleftrightarrow> ss_refresh s' \<noteq> NoRefresh"
    using assms(2) answer(1) by (cases a) (auto simp: session_ok_def session_defs Let_def)
  moreover have "case ss_refresh s' of Retrying q \<Rightarrow> q \<in> fst ` set (ss_sent s') \<union> set (ss_retryRequests s') | _ \<Rightarrow> True"
    using assms(2) answer(1)
    by (cases a) (auto simp: session_ok_def session_defs Let_def keys_delete split: refresh.splits)
  ultimately show ?thesis by (simp add: session_ok_def)
next
  case (refreshed r a)
  note same = places_refreshed[OF assms(2) refreshed(2), of a]
  then have "distinct (places s')" "set (places s) = set (places s')"
    using assms(2) refreshed(1) by (metis mset_eq_imp_distinct_iff session_ok_def, metis mset_eq_setD)
  moreover have "ss_isRefreshing s' \<longleftrightarrow> ss_refresh s' \<noteq> NoRefresh"
    using assms(2) refreshed by (cases a) (auto simp: session_ok_def on_refreshed_def Let_def retry_all_eq end_refresh_def send_request_def)
  moreover have "case ss_refresh s' of Retrying q \<Rightarrow> q \<in> fst ` set (ss_sent s') \<union> set (ss_retryRequests s') | _ \<Rightarrow> True"
    using refreshed by (cases a) (auto simp: on_refreshed_def Let_def end_refresh_def reset_login_def send_request_def AList.dom_update)
  ultimately show ?thesis by (simp add: session_ok_def)
qed

lemma initial_session_ok: "session_ok (initial_session store)"
  by (simp add: session_ok_def initial_session_def places_def asking_def)

text \<open>A request that has settled is neither in flight nor at the head of a refresh, so no later
  event settles it again.\<close>

lemma settled_stays:
  assumes "session_step s s'" and "session_ok s" and "map_of (ss_settled s) r = Some result"
  shows "map_of (ss_settled s') r = Some result"
proof -
  have r: "r \<in> fst ` set (ss_settled s)" using assms(3) by (metis map_of_eq_None_iff option.distinct(1))
  from assms(1) show ?thesis
  proof cases
    case (send q)
    then show ?thesis using assms(3) by (simp add: send_request_def)
  next
    case (answer q a)
    then have "q \<noteq> r" using r assms(2) by (auto simp: session_ok_def places_def)
    then show ?thesis using answer(1) assms(3) by (cases a) (simp_all add: session_defs Let_def update_conv')
  next
    case (refreshed q a)
    then have "q \<noteq> r" using r assms(2) by (auto simp: session_ok_def places_def asking_def)
    then show ?thesis using refreshed(1) assms(3)
      by (cases a) (simp_all add: on_refreshed_def Let_def retry_all_eq end_refresh_def reset_login_def send_request_def update_conv')
  qed
qed

interpretation session_run: machine session_step session_ok "\<lambda>s. \<exists>store. s = initial_session store"
  by unfold_locales (auto simp: initial_session_ok dest: session_ok_step)

interpretation session_places: growing session_step session_ok "\<lambda>s. set (places s)"
  by unfold_locales (auto dest: session_ok_step)

interpretation session_settled: growing session_step session_ok "\<lambda>s. {(r, v). map_of (ss_settled s) r = Some v}"
  by unfold_locales (auto intro: settled_stays)

text \<open>C22: through any sequence of requests, answers and refreshes, every request sent is in one
  place: in flight, waiting to be retried, at the head of the refresh, or settled; it settles
  once, with the outcome it keeps, and the refreshing flag is set exactly while a refresh runs.\<close>

theorem session_requests_kept:
  assumes "session_step\<^sup>*\<^sup>* (initial_session store) s" and "session_step\<^sup>*\<^sup>* s s'"
  shows "distinct (places s') \<and> set (places s) \<subseteq> set (places s') \<and>
    (ss_isRefreshing s' \<longleftrightarrow> ss_refresh s' \<noteq> NoRefresh) \<and>
    (map_of (ss_settled s) r = Some result \<longrightarrow> map_of (ss_settled s') r = Some result)"
proof -
  have ok: "session_ok s" using session_run.reachable_inv assms(1) by blast
  have "map_of (ss_settled s') r = Some result" if "map_of (ss_settled s) r = Some result"
    using session_settled.steps_grow[OF assms(2) ok] that by auto
  then show ?thesis using session_run.steps_keep[OF assms(2) ok] session_places.steps_grow[OF assms(2) ok]
    by (auto simp: session_ok_def)
qed

text \<open>A concrete session: two requests carry an expired token; the first is refreshed and
  retried, and its retry is answered.\<close>

definition old_store :: session_store where
  "old_store = \<lparr>lo_token = Some ''old'', lo_refreshToken = Some ''again''\<rparr>"

definition two_sent :: session where
  "two_sent = send_request 2 None (send_request 1 None (initial_session old_store))"

definition first_refreshed :: session where
  "first_refreshed = on_refreshed 1 (Tokens ''new'' ''next'') (on_answer 1 (ErrorResponse (Some 12002)) two_sent)"

lemma two_sent_steps: "session_step\<^sup>*\<^sup>* (initial_session old_store) two_sent"
proof -
  have "session_step (initial_session old_store) (send_request 1 None (initial_session old_store))"
    by (rule session_step.send) code_simp
  moreover have "session_step (send_request 1 None (initial_session old_store)) two_sent"
    unfolding two_sent_def by (rule session_step.send) code_simp
  ultimately show ?thesis by simp
qed

lemma first_refreshed_steps: "session_step\<^sup>*\<^sup>* two_sent first_refreshed"
proof -
  have "session_step two_sent (on_answer 1 (ErrorResponse (Some 12002)) two_sent)"
    by (rule session_step.answer) code_simp
  moreover have "session_step (on_answer 1 (ErrorResponse (Some 12002)) two_sent) first_refreshed"
    unfolding first_refreshed_def by (rule session_step.refreshed) code_simp
  ultimately show ?thesis by simp
qed

theorem session_requests_kept_witness:
  "distinct (places (on_answer 1 (Response 200) first_refreshed)) \<and>
   map_of (ss_settled (on_answer 1 (Response 200) first_refreshed)) 1 = Some Answered"
proof -
  let ?s = "on_answer 1 (Response 200) first_refreshed"
  have "session_step first_refreshed ?s" by (rule session_step.answer) code_simp
  then have "session_step\<^sup>*\<^sup>* (initial_session old_store) ?s" using two_sent_steps first_refreshed_steps by simp
  from session_requests_kept[OF this rtranclp.rtrancl_refl, of 1 Answered] show ?thesis by code_simp
qed

section \<open>A refresh retries what waited for it\<close>

lemma map_of_foldl_update:
  "map_of (foldl (\<lambda>m r. AList.update r v m) m rs) q = (if q \<in> set rs then Some v else map_of m q)"
  by (induction rs arbitrary: m) (auto simp: update_conv')

text \<open>When a refresh brings a token, every request that waited for it, and the one that
  asked for it, is sent again with that token, in no case twice, nothing else in flight is
  touched, and nothing is left waiting.\<close>

theorem refresh_retries_waiting:
  assumes "session_ok s" and "ss_refresh s = Asking r" and "access \<noteq> []"
  shows "ss_retryRequests (on_refreshed r (Tokens access again) s) = [] \<and>
    ss_refresh (on_refreshed r (Tokens access again) s) = Retrying r \<and>
    ss_settled (on_refreshed r (Tokens access again) s) = ss_settled s \<and>
    getToken (ss_store (on_refreshed r (Tokens access again) s)) = access \<and>
    mset (map fst (ss_sent (on_refreshed r (Tokens access again) s))) =
      mset (map fst (ss_sent s)) + mset (ss_retryRequests s) + {#r#} \<and>
    map_of (ss_sent (on_refreshed r (Tokens access again) s)) q =
      (if q = r \<or> q \<in> set (ss_retryRequests s) then Some (Some (bearer access)) else map_of (ss_sent s) q)"
proof -
  let ?s' = "on_refreshed r (Tokens access again) s"
  have tok: "getToken \<lparr>lo_token = Some access, lo_refreshToken = Some again\<rparr> = access"
    using assms(3) by (simp add: getToken_def or_str_def truthy_iff)
  have "mset (places ?s') = mset (places s)" by (rule places_refreshed[OF assms(1,2)])
  moreover have shape: "ss_retryRequests ?s' = []" "ss_refresh ?s' = Retrying r" "ss_settled ?s' = ss_settled s"
    "getToken (ss_store ?s') = access"
    using assms(3) tok by (simp_all add: on_refreshed_def Let_def retry_all_eq send_request_def)
  ultimately have "mset (map fst (ss_sent ?s')) = mset (map fst (ss_sent s)) + mset (ss_retryRequests s) + {#r#}"
    using assms(2) by (simp add: places_def asking_def)
  moreover have "map_of (ss_sent ?s') q =
      (if q = r \<or> q \<in> set (ss_retryRequests s) then Some (Some (bearer access)) else map_of (ss_sent s) q)"
    using assms(3) tok
    by (simp add: on_refreshed_def Let_def retry_all_eq send_request_def update_conv' map_of_foldl_update on_request_def hasToken_def)
  ultimately show ?thesis using shape by simp
qed

theorem refresh_retries_waiting_witness:
  "map_of (ss_sent first_refreshed) 1 = Some (Some ''Bearer new'')"
proof -
  let ?s = "on_answer 1 (ErrorResponse (Some 12002)) two_sent"
  have "session_ok ?s" by code_simp
  moreover have "ss_refresh ?s = Asking 1" by code_simp
  ultimately show ?thesis
    using refresh_retries_waiting[of ?s 1 "''new''" "''next''" 1] by (simp add: first_refreshed_def bearer_def)
qed

section \<open>Requests that never settle\<close>

text \<open>The request retried at the end of a refresh waits for its own refresh.\<close>

definition waits_for_itself :: "nat \<Rightarrow> session \<Rightarrow> bool" where
  "waits_for_itself r s \<longleftrightarrow> session_ok s \<and> ss_refresh s = Retrying r \<and> r \<in> set (ss_retryRequests s)"

lemma waits_for_itself_step:
  assumes "session_step s s'" and "waits_for_itself r s"
  shows "waits_for_itself r s'"
proof -
  have ok: "session_ok s'" using session_ok_step[OF assms(1)] assms(2) by (simp add: waits_for_itself_def)
  from assms(1) show ?thesis
  proof cases
    case (send q)
    then show ?thesis using ok assms(2) by (simp add: waits_for_itself_def send_request_def)
  next
    case (answer q a)
    then have "q \<noteq> r" using assms(2) by (auto simp: waits_for_itself_def session_ok_def places_def)
    then show ?thesis using ok answer(1) assms(2)
      by (cases a) (auto simp: waits_for_itself_def session_ok_def session_defs Let_def)
  next
    case (refreshed q a)
    then show ?thesis using assms(2) by (simp add: waits_for_itself_def)
  qed
qed

interpretation session_stuck: preserving session_step "waits_for_itself r" for r
  by unfold_locales (rule waits_for_itself_step)

text \<open>C23: once the request a refresh retries is answered with an expired token again, it waits
  for a refresh that only its own answer can end: whatever follows, the client goes on believing
  it is refreshing, the request never settles, and every later request that meets an expired
  token joins it.\<close>

theorem retried_expiry_deadlocks:
  assumes "session_ok s" and "ss_refresh s = Retrying r" and "r \<in> fst ` set (ss_sent s)"
    and "session_step\<^sup>*\<^sup>* (on_answer r (ErrorResponse (Some 12002)) s) s'"
  shows "ss_isRefreshing s' \<and> r \<in> set (ss_retryRequests s') \<and> map_of (ss_settled s') r = None"
proof -
  let ?t = "on_answer r (ErrorResponse (Some 12002)) s"
  have "session_ok ?t" using session_ok_step[OF session_step.answer[OF assms(3)] assms(1)] by blast
  moreover have "ss_isRefreshing s" using assms(1,2) by (simp add: session_ok_def)
  ultimately have "waits_for_itself r ?t"
    using assms(2) by (simp add: waits_for_itself_def session_defs Let_def)
  with assms(4) have "waits_for_itself r s'" by (rule session_stuck.steps_keep)
  then show ?thesis
    by (auto simp: waits_for_itself_def session_ok_def places_def map_of_eq_None_iff)
qed

theorem retried_expiry_deadlocks_witness:
  "1 \<in> set (ss_retryRequests (on_answer 2 (Response 200) (on_answer 1 (ErrorResponse (Some 12002)) first_refreshed)))"
proof -
  let ?t = "on_answer 1 (ErrorResponse (Some 12002)) first_refreshed"
  have h: "session_ok first_refreshed" "ss_refresh first_refreshed = Retrying 1" "1 \<in> fst ` set (ss_sent first_refreshed)"
    by code_simp+
  have "session_step ?t (on_answer 2 (Response 200) ?t)" by (rule session_step.answer) code_simp
  then have "session_step\<^sup>*\<^sup>* ?t (on_answer 2 (Response 200) ?t)" by simp
  from retried_expiry_deadlocks[OF h this] show ?thesis by blast
qed

text \<open>A request still in flight with the old token when the refresh has already come through,
  and answered before the retry is, waits with no refresh left to wait for: the session is idle
  and the request unsettled. A refresh that fails leaves what waited for it the same way.\<close>

lemma late_expiry_hangs:
  "ss_isRefreshing (on_answer 1 (Response 200) (on_answer 2 (ErrorResponse (Some 12002)) first_refreshed)) = False \<and>
   ss_sent (on_answer 1 (Response 200) (on_answer 2 (ErrorResponse (Some 12002)) first_refreshed)) = [] \<and>
   ss_retryRequests (on_answer 1 (Response 200) (on_answer 2 (ErrorResponse (Some 12002)) first_refreshed)) = [2]"
  by code_simp

lemma failed_refresh_strands:
  assumes "ss_refresh s = Asking r"
  shows "ss_retryRequests (on_refreshed r RefreshFailed s) = ss_retryRequests s \<and>
    ss_isRefreshing (on_refreshed r RefreshFailed s) = False"
  by (simp add: on_refreshed_def end_refresh_def reset_login_def)

text \<open>A caller that gives no parameters never has its error handled: reading
  \<open>params.customError\<close> throws first.\<close>

lemma missing_params_throw: "catch_error None customError err = TypeError"
  by (simp add: catch_error_def)

end
