(* ===== verification/Graph_Layout.thy ===== *)
theory Graph_Layout
  imports Edge_Routing
begin

text \<open>
  The graph's layout around the routes: its extent and the shift that brings it into view
  (\<open>components/TreeGraph/layout.ts\<close>), and the chips of a component's traits
  (\<open>components/TreeGraph/traits.ts\<close>). Coordinates are exact rationals, \<open>None\<close> where
  the layout gave none. The points of an edge are the route's points.
\<close>

section \<open>The extent of a graph and its shift into view\<close>

record graph_node =
  gn_x :: "rat option"
  gn_y :: "rat option"
  gn_width :: rat
  gn_height :: rat

definition or_zero :: "rat option \<Rightarrow> rat" where
  "or_zero v = coalesce v 0"

definition getGraphSize :: "graph_node list \<Rightarrow> rat \<times> rat" where
  "getGraphSize nodes =
     foldl (\<lambda>(width, height) node.
       (max (or_zero (gn_x node) + gn_width node) width, max (or_zero (gn_y node) + gn_height node) height)) (0, 0) nodes"

text \<open>The least of the coordinates, \<open>None\<close> for the source's \<open>Infinity\<close>.\<close>

definition least :: "rat list \<Rightarrow> rat option" where
  "least ys = foldl (\<lambda>m y. Some (case m of None \<Rightarrow> y | Some z \<Rightarrow> min z y)) None ys"

definition shift_by :: "rat \<Rightarrow> rat list \<Rightarrow> rat" where
  "shift_by margin ys = (case least ys of None \<Rightarrow> 0 | Some m \<Rightarrow> if m < 0 then margin - m else 0)"

definition shift_node :: "rat \<Rightarrow> rat \<Rightarrow> graph_node \<Rightarrow> graph_node" where
  "shift_node dx dy n = n\<lparr>gn_x := Some (or_zero (gn_x n) + dx), gn_y := Some (or_zero (gn_y n) + dy)\<rparr>"

definition shift_point :: "rat \<Rightarrow> rat \<Rightarrow> point \<Rightarrow> point" where
  "shift_point dx dy p = \<lparr>px = px p + dx, py = py p + dy\<rparr>"

definition all_xs :: "graph_node list \<Rightarrow> point list list \<Rightarrow> rat list" where
  "all_xs nodes edges = map (or_zero \<circ> gn_x) nodes @ map px (concat edges)"

definition all_ys :: "graph_node list \<Rightarrow> point list list \<Rightarrow> rat list" where
  "all_ys nodes edges = map (or_zero \<circ> gn_y) nodes @ map py (concat edges)"

definition shiftIntoView ::
  "graph_node list \<Rightarrow> point list list \<Rightarrow> rat \<Rightarrow> graph_node list \<times> point list list" where
  "shiftIntoView nodes edges margin =
     (let dx = shift_by margin (all_xs nodes edges);
          dy = shift_by margin (all_ys nodes edges)
      in if dx = 0 \<and> dy = 0 then (nodes, edges)
         else (map (shift_node dx dy) nodes, map (map (shift_point dx dy)) edges))"

definition edgeOffset :: point where
  "edgeOffset = \<lparr>px = 40, py = 30\<rparr>"

record placed_box =
  pa_left :: rat
  pa_top :: rat
  pa_width :: rat
  pa_height :: "rat option"
  pa_minHeight :: "rat option"
  pa_margin :: rat

definition placeAt :: "rat \<Rightarrow> rat \<Rightarrow> rat \<Rightarrow> rat \<Rightarrow> bool \<Rightarrow> placed_box" where
  "placeAt x y width height grow =
     \<lparr>pa_left = x + px edgeOffset - width / 2, pa_top = y + py edgeOffset - height / 2, pa_width = width,
      pa_height = (if grow then None else Some height), pa_minHeight = (if grow then Some height else None),
      pa_margin = 0\<rparr>"

section \<open>Rows of trait chips\<close>

definition componentNodeWidth :: int where "componentNodeWidth = 360"

definition traitArea :: int where "traitArea = componentNodeWidth - 72"

definition maxTraitRows :: int where "maxTraitRows = 2"

definition chipHeight :: int where "chipHeight = 26"

definition chipGap :: int where "chipGap = 6"

definition moreChipWidth :: int where "moreChipWidth = 44"

definition traitChipWidth :: "string \<Rightarrow> int" where
  "traitChipWidth type = int (length type) * 7 + 30"

text \<open>The loop, from the types still to place: the rows filled, the row being filled and the
  width it uses.\<close>

primrec layout_from ::
  "int \<Rightarrow> int \<Rightarrow> string list \<Rightarrow> string list list \<Rightarrow> string list \<Rightarrow> int \<Rightarrow> string list list \<times> string list" where
  "layout_from width maxRows [] rows row used = (if row \<noteq> [] then rows @ [row] else rows, [])"
| "layout_from width maxRows (t # ts) rows row used =
     (let w = traitChipWidth t;
          lastRow = (int (length rows) = maxRows - 1);
          reserve = (if lastRow \<and> ts \<noteq> [] then moreChipWidth + chipGap else 0);
          over = (row \<noteq> [] \<and> used + chipGap + w + reserve > width);
          rows' = (if over then rows @ [row] else rows);
          row' = (if over then [] else row);
          used' = (if over then 0 else used)
      in if over \<and> int (length rows') = maxRows then (rows', t # ts)
         else if row' = [] \<and> lastRow \<and> ts \<noteq> [] \<and> w + chipGap + moreChipWidth > width then (rows' @ [[t]], ts)
         else layout_from width maxRows ts rows' (row' @ [t]) (used' + (if row' \<noteq> [] then chipGap else 0) + w))"

definition layoutTraits :: "string list \<Rightarrow> int \<Rightarrow> int \<Rightarrow> string list list \<times> string list" where
  "layoutTraits types width maxRows = layout_from width maxRows types [] [] 0"

definition componentNodeHeight :: "int \<Rightarrow> int" where
  "componentNodeHeight rows = 60 + rows * (chipHeight + 4)"

section \<open>Everything is in view\<close>

lemma least_step: "foldl (\<lambda>m y. Some (case m of None \<Rightarrow> y | Some z \<Rightarrow> min z y)) (Some a) ys = Some (foldl min a ys)"
  for a :: rat by (induction ys arbitrary: a) simp_all

lemma foldl_min_le: "foldl min a ys \<le> a \<and> (\<forall>y\<in>set ys. foldl min a ys \<le> y)" for a :: rat
proof (induction ys arbitrary: a)
  case (Cons y ys)
  from Cons[of "min a y"] show ?case by auto
qed simp

lemma foldl_min_mem: "foldl min a ys \<in> insert a (set ys)" for a :: rat
proof (induction ys arbitrary: a)
  case (Cons y ys)
  from Cons[of "min a y"] show ?case by (auto simp: min_def split: if_splits)
qed simp

lemma least_Some: "least ys = Some m \<longleftrightarrow> m \<in> set ys \<and> (\<forall>y\<in>set ys. m \<le> y)"
proof (cases ys)
  case (Cons a zs)
  then have "least ys = Some (foldl min a zs)" by (simp add: least_def least_step)
  moreover have "foldl min a zs \<in> set ys \<and> (\<forall>y\<in>set ys. foldl min a zs \<le> y)"
    using foldl_min_le[of a zs] foldl_min_mem[of a zs] Cons by auto
  ultimately show ?thesis by (metis antisym option.inject)
qed (simp add: least_def)

lemma least_None: "least ys = None \<longleftrightarrow> ys = []"
  by (cases ys) (simp_all add: least_def least_step)

lemma shift_by_view: "margin \<ge> 0 \<Longrightarrow> y \<in> set ys \<Longrightarrow> 0 \<le> y + shift_by margin ys"
proof -
  assume m: "margin \<ge> 0" and y: "y \<in> set ys"
  then obtain l where l: "least ys = Some l" using least_None[of ys] by (cases "least ys") auto
  then have "l \<le> y" using y least_Some by auto
  then show ?thesis using m l by (simp add: shift_by_def)
qed

lemma shift_by_none: "shift_by margin ys = 0 \<Longrightarrow> margin \<ge> 0 \<Longrightarrow> y \<in> set ys \<Longrightarrow> 0 \<le> y"
  using shift_by_view[of margin y ys] by simp

lemma all_xs_shift: "all_xs (map (shift_node dx dy) nodes) (map (map (shift_point dx dy)) edges) = map (\<lambda>x. x + dx) (all_xs nodes edges)"
  by (simp add: all_xs_def shift_node_def shift_point_def or_zero_def map_concat comp_def)

lemma all_ys_shift: "all_ys (map (shift_node dx dy) nodes) (map (map (shift_point dx dy)) edges) = map (\<lambda>y. y + dy) (all_ys nodes edges)"
  by (simp add: all_ys_def shift_node_def shift_point_def or_zero_def map_concat comp_def)

text \<open>After the shift no node and no edge point lies left of or above the origin, and the
  whole graph moved as one: every coordinate by the same distance, and by none where nothing was
  out of view.\<close>

theorem shiftIntoView_visible:
  assumes "margin \<ge> 0" and "shiftIntoView nodes edges margin = (nodes', edges')"
  shows "list_all ((\<le>) 0) (all_xs nodes' edges') \<and> list_all ((\<le>) 0) (all_ys nodes' edges') \<and>
    all_xs nodes' edges' = map (\<lambda>x. x + shift_by margin (all_xs nodes edges)) (all_xs nodes edges) \<and>
    all_ys nodes' edges' = map (\<lambda>y. y + shift_by margin (all_ys nodes edges)) (all_ys nodes edges) \<and>
    (list_all ((\<le>) 0) (all_xs nodes edges @ all_ys nodes edges) \<longrightarrow> nodes' = nodes \<and> edges' = edges)"
proof -
  let ?dx = "shift_by margin (all_xs nodes edges)" and ?dy = "shift_by margin (all_ys nodes edges)"
  have moved: "all_xs nodes' edges' = map (\<lambda>x. x + ?dx) (all_xs nodes edges)"
    "all_ys nodes' edges' = map (\<lambda>y. y + ?dy) (all_ys nodes edges)"
    using assms(2) by (auto simp: shiftIntoView_def Let_def all_xs_shift all_ys_shift split: if_splits)
  have still: "shift_by margin ys = 0" if "list_all ((\<le>) 0) ys" for ys
    using that least_Some[of ys] by (fastforce simp: shift_by_def list_all_iff split: option.splits)
  have "nodes' = nodes \<and> edges' = edges" if "list_all ((\<le>) 0) (all_xs nodes edges @ all_ys nodes edges)"
    using that still[of "all_xs nodes edges"] still[of "all_ys nodes edges"] assms(2) by (simp add: shiftIntoView_def)
  then show ?thesis unfolding moved using shift_by_view[OF assms(1)] by (auto simp: list_all_iff)
qed

theorem shiftIntoView_visible_witness:
  "list_all ((\<le>) 0) (all_ys (fst (shiftIntoView [] [[\<lparr>px = 3, py = - 5\<rparr>]] 10)) (snd (shiftIntoView [] [[\<lparr>px = 3, py = - 5\<rparr>]] 10)))"
  by (rule shiftIntoView_visible[of 10 "[]" "[[\<lparr>px = 3, py = - 5\<rparr>]]", THEN conjunct2, THEN conjunct1]) simp_all

section \<open>Every chip is shown or counted\<close>

definition row_width :: "string list \<Rightarrow> int" where
  "row_width row = sum_list (map traitChipWidth row) + chipGap * (int (length row) - 1)"

definition row_fits :: "int \<Rightarrow> string list \<Rightarrow> bool" where
  "row_fits width row \<longleftrightarrow> row \<noteq> [] \<and> (length row = 1 \<or> row_width row \<le> width)"

lemma row_width_snoc: "row \<noteq> [] \<Longrightarrow> row_width (row @ [t]) = row_width row + chipGap + traitChipWidth t"
  by (simp add: row_width_def algebra_simps)

definition laid_ok :: "int \<Rightarrow> string list list \<Rightarrow> string list \<Rightarrow> int \<Rightarrow> bool" where
  "laid_ok width rows row used \<longleftrightarrow> list_all (row_fits width) rows \<and>
     (if row = [] then used = 0 else row_fits width row \<and> used = row_width row)"

lemma laid_ok_push: "laid_ok width rows row used \<Longrightarrow> row \<noteq> [] \<Longrightarrow> laid_ok width (rows @ [row]) [] 0"
  by (simp add: laid_ok_def)

lemma laid_ok_place:
  assumes "laid_ok width rows row used" and "row = [] \<or> used + chipGap + traitChipWidth t \<le> width"
  shows "laid_ok width rows (row @ [t]) (used + (if row \<noteq> [] then chipGap else 0) + traitChipWidth t)"
  using assms row_width_snoc[of row t] by (auto simp: laid_ok_def row_fits_def row_width_def split: if_splits)

lemma layout_from_ok:
  assumes "layout_from width maxRows types rows row used = (shown, hidden)"
    and "laid_ok width rows row used" and "int (length rows) < maxRows"
  shows "concat shown @ hidden = concat rows @ row @ types \<and> list_all (row_fits width) shown \<and> int (length shown) \<le> maxRows"
  using assms
proof (induction types arbitrary: rows row used)
  case Nil
  then show ?case by (auto simp: laid_ok_def split: if_splits)
next
  case (Cons t ts)
  define lastRow where "lastRow \<longleftrightarrow> int (length rows) = maxRows - 1"
  define reserve where "reserve = (if lastRow \<and> ts \<noteq> [] then moreChipWidth + chipGap else 0)"
  define over where "over \<longleftrightarrow> row \<noteq> [] \<and> used + chipGap + traitChipWidth t + reserve > width"
  define rows' where "rows' = (if over then rows @ [row] else rows)"
  define row' where "row' = (if over then [] else row)"
  define used' where "used' = (if over then 0 else used)"
  note eq = Cons.prems(1)[unfolded layout_from.simps Let_def, folded lastRow_def, folded reserve_def, folded over_def,
      folded rows'_def row'_def used'_def]
  have "0 \<le> reserve" by (simp add: reserve_def moreChipWidth_def chipGap_def)
  then have ok': "laid_ok width rows' row' used'" and fit: "row' = [] \<or> used' + chipGap + traitChipWidth t \<le> width"
    using Cons.prems(2) laid_ok_push[of width rows row used] by (auto simp: rows'_def row'_def used'_def over_def)
  have same: "concat rows' @ row' = concat rows @ row" by (simp add: rows'_def row'_def)
  have len: "int (length rows') \<le> maxRows" "over \<or> rows' = rows" using Cons.prems(3) by (auto simp: rows'_def)
  consider (full) "over" "int (length rows') = maxRows"
    | (wide) "\<not> (over \<and> int (length rows') = maxRows)" "row' = [] \<and> lastRow \<and> ts \<noteq> [] \<and> traitChipWidth t + chipGap + moreChipWidth > width"
    | (next_chip) "\<not> (over \<and> int (length rows') = maxRows)" "\<not> (row' = [] \<and> lastRow \<and> ts \<noteq> [] \<and> traitChipWidth t + chipGap + moreChipWidth > width)"
    by blast
  then show ?case
  proof cases
    case full
    then have "shown = rows'" "hidden = t # ts" using eq by simp_all
    then show ?thesis using ok' same full len by (simp add: laid_ok_def row'_def)
  next
    case wide
    then have "shown = rows' @ [[t]]" "hidden = ts"
      using eq unfolding if_not_P[OF wide(1)] if_P[OF wide(2)] by simp_all
    moreover have "row_fits width [t]" by (simp add: row_fits_def)
    ultimately show ?thesis using ok' same wide len Cons.prems(3) by (auto simp: laid_ok_def)
  next
    case next_chip
    then have "layout_from width maxRows ts rows' (row' @ [t]) (used' + (if row' \<noteq> [] then chipGap else 0) + traitChipWidth t) = (shown, hidden)"
      using eq unfolding if_not_P[OF next_chip(1)] if_not_P[OF next_chip(2)] by simp
    moreover have "int (length rows') < maxRows" using next_chip(1) len Cons.prems(3) by auto
    ultimately show ?thesis using Cons.IH[OF _ laid_ok_place[OF ok' fit]] same by simp
  qed
qed

text \<open>Laying out trait chips loses none: the rows shown, in order, and those hidden behind
  the last chip are the traits given; there are at most as many rows as allowed, none is empty,
  and a row of two chips or more fits the width.\<close>

theorem layoutTraits_complete:
  assumes "maxRows > 0"
  shows "concat (fst (layoutTraits types width maxRows)) @ snd (layoutTraits types width maxRows) = types \<and>
    int (length (fst (layoutTraits types width maxRows))) \<le> maxRows \<and>
    list_all (row_fits width) (fst (layoutTraits types width maxRows))"
  using layout_from_ok[of width maxRows types "[]" "[]" 0 "fst (layoutTraits types width maxRows)"
      "snd (layoutTraits types width maxRows)"] assms
  by (simp add: layoutTraits_def laid_ok_def)

theorem layoutTraits_complete_witness:
  "length (fst (layoutTraits [''scaler'', ''ingress'', ''annotations'', ''labels'', ''storage''] 120 2)) \<le> 2"
  using layoutTraits_complete[of 2 "[''scaler'', ''ingress'', ''annotations'', ''labels'', ''storage'']" 120] by simp

end
