(* ===== verification/Definition_Utils.thy ===== *)
theory Definition_Utils
  imports Expression_Complete "HOL-Library.List_Lexorder" "HOL-Library.Char_ord"
begin

text \<open>
  What the pages say about definitions: their versions (\<open>utils/definitionVersion.ts\<close>), the
  namespaces that may use them (\<open>utils/restrictions.ts\<close>), the sources they declare
  (\<open>utils/source.ts\<close>), the labels an application carries (\<open>utils/appMeta.ts\<close>) and
  the values a warning quotes (\<open>utils/quoted.ts\<close>). Sorting is by code units.
\<close>

section \<open>Versions\<close>

definition splitType :: "string option \<Rightarrow> string \<times> string option" where
  "splitType type =
     (if \<not> truthy type then ([], None)
      else let t = the type
           in case index_of CHR ''@'' t of
                None \<Rightarrow> (t, None)
              | Some i \<Rightarrow> (take i t, or_undefined (drop (i + 1) t)))"

definition joinType :: "string \<Rightarrow> string option \<Rightarrow> string" where
  "joinType name version = (if truthy version then name @ ''@'' @ the version else name)"

record definition_revision =
  dr_revision :: nat
  dr_version :: string
  dr_hash :: string
  dr_createTime :: string

definition number_of :: "definition_revision \<Rightarrow> string" where
  "number_of r = ''v'' @ nat_str (dr_revision r)"

definition without_v :: "string \<Rightarrow> string" where
  "without_v s = (case s of [] \<Rightarrow> [] | c # r \<Rightarrow> if c = CHR ''v'' then r else s)"

definition isNamed :: "definition_revision \<Rightarrow> bool" where
  "isNamed r \<longleftrightarrow> dr_version r \<noteq> number_of r"

definition versionLabel :: "definition_revision \<Rightarrow> string" where
  "versionLabel r =
     (if dr_version r = number_of r then dr_version r else without_v (dr_version r) @ '' ('' @ number_of r @ '')'')"

definition latestLabel :: "definition_revision option \<Rightarrow> string" where
  "latestLabel newest =
     (case newest of
        None \<Rightarrow> ''latest''
      | Some r \<Rightarrow> if isNamed r then ''latest ('' @ without_v (dr_version r) @ '' / '' @ number_of r @ '')''
                  else ''latest ('' @ number_of r @ '')'')"

definition inUseLabel :: "string option \<Rightarrow> definition_revision list \<Rightarrow> string" where
  "inUseLabel version revisions =
     (if \<not> truthy version then latestLabel (nth_opt revisions 0)
      else let v = the version;
               wanted = (if take 1 v = ''v'' then v else ''v'' @ v)
           in case find (\<lambda>r. dr_version r = wanted \<or> number_of r = wanted) revisions of
                None \<Rightarrow> v
              | Some r \<Rightarrow> if isNamed r then without_v (dr_version r) @ '' / '' @ number_of r else number_of r)"

section \<open>Restrictions\<close>

record match_expression =
  mx_key :: string
  mx_operator :: string
  mx_values :: "string list option"

record label_selector =
  sl_matchLabels :: "(string, string) js_map option"
  sl_matchExpressions :: "match_expression list option"

record namespace_quota =
  nq_namespaces :: "string list option"
  nq_selector :: "label_selector option"
  nq_warn :: "int option"
  nq_limit :: "int option"

record restrictions =
  rx_namespaces :: "string list option"
  rx_selector :: "label_selector option"
  rx_quota :: "namespace_quota list option"

definition restrictsNamespaces :: "restrictions option \<Rightarrow> bool" where
  "restrictsNamespaces r \<longleftrightarrow>
     (case r of None \<Rightarrow> False | Some r \<Rightarrow> or_nil (rx_namespaces r) \<noteq> [] \<or> rx_selector r \<noteq> None)"

definition describe_expression :: "match_expression \<Rightarrow> string" where
  "describe_expression e =
     (if mx_operator e = ''In'' then mx_key e @ '' in ('' @ join_with '', '' (or_nil (mx_values e)) @ '')''
      else if mx_operator e = ''NotIn'' then mx_key e @ '' not in ('' @ join_with '', '' (or_nil (mx_values e)) @ '')''
      else if mx_operator e = ''Exists'' then mx_key e @ '' present''
      else mx_key e @ '' absent'')"

definition describeSelector :: "label_selector \<Rightarrow> string" where
  "describeSelector selector =
     (let matchLabels = or_nil (sl_matchLabels selector);
          labels = map (\<lambda>k. k @ ''='' @ the (map_of matchLabels k)) (sort (map fst matchLabels));
          terms = labels @ map describe_expression (or_nil (sl_matchExpressions selector))
      in if terms = [] then ''every namespace'' else ''labels '' @ join_with '', '' terms)"

definition describeNamespaces :: "restrictions option \<Rightarrow> string list" where
  "describeNamespaces r =
     (if \<not> restrictsNamespaces r then []
      else or_nil (rx_namespaces (the r)) @
           (case rx_selector (the r) of None \<Rightarrow> [] | Some s \<Rightarrow> [describeSelector s]))"

definition describeMatcher :: "namespace_quota \<Rightarrow> bool \<Rightarrow> string" where
  "describeMatcher q only =
     (let names = or_nil (nq_namespaces q)
      in if names = [] \<and> nq_selector q = None then (if only then ''every namespace'' else ''any other namespace'')
         else join_with '' or '' (names @ (case nq_selector q of None \<Rightarrow> [] | Some s \<Rightarrow> [describeSelector s])))"

definition describeLevels :: "namespace_quota \<Rightarrow> string" where
  "describeLevels q =
     (if nq_limit q = Some 0 then ''not allowed''
      else join_with '', ''
        ((case nq_warn q of None \<Rightarrow> [] | Some w \<Rightarrow> [''warn at '' @ int_str w]) @
         (case nq_limit q of None \<Rightarrow> [] | Some l \<Rightarrow> [''limit '' @ int_str l])))"

definition describeQuota :: "restrictions option \<Rightarrow> string list" where
  "describeQuota r =
     (let quota = (case r of None \<Rightarrow> [] | Some r \<Rightarrow> or_nil (rx_quota r))
      in map (\<lambda>q. describeMatcher q (length quota = 1) @ '': '' @ describeLevels q) quota)"

record deploy_target =
  dt_name :: string
  dt_alias :: "string option"
  dt_namespace :: string

definition deployNamespaces :: "deploy_target list option \<Rightarrow> string list" where
  "deployNamespaces envs = sort (js_set (filter (\<lambda>ns. ns \<noteq> []) (map dt_namespace (or_nil envs))))"

definition isUsable :: "string list option \<Rightarrow> bool" where
  "isUsable unusableIn \<longleftrightarrow> or_nil unusableIn = []"

definition usageState :: "string \<Rightarrow> string \<times> string" where
  "usageState state =
     (if state = ''ok'' then (''Within quota'', ''success'')
      else if state = ''warn'' then (''At warn level'', ''warning'')
      else if state = ''over'' then (''Over limit'', ''error'')
      else if state = ''exempt'' then (''Exempt'', ''normal'')
      else (''No quota'', ''normal''))"

section \<open>Labels of an application\<close>

definition sourceOfTruth :: string where "sourceOfTruth = ''app.oam.dev/source-of-truth''"

definition starts_with :: "string \<Rightarrow> string \<Rightarrow> bool" where
  "starts_with s p \<longleftrightarrow> take (length p) s = p"

definition isInternalLabel :: "string \<Rightarrow> bool" where
  "isInternalLabel key \<longleftrightarrow> key = sourceOfTruth \<or> starts_with key ''ux.oam.dev/''"

definition visibleLabels :: "(string, string) js_map option \<Rightarrow> string list" where
  "visibleLabels labels = filter (\<lambda>k. \<not> isInternalLabel k) (map fst (or_nil labels))"

record sync_info =
  si_fromCluster :: bool
  si_namespace :: "string option"
  si_revision :: "string option"
  si_generation :: "string option"

definition syncInfo :: "(string, string) js_map option \<Rightarrow> sync_info" where
  "syncInfo labels =
     (let l = or_nil labels
      in if map_of l sourceOfTruth \<noteq> Some ''from-k8s-resource''
         then \<lparr>si_fromCluster = False, si_namespace = None, si_revision = None, si_generation = None\<rparr>
         else \<lparr>si_fromCluster = True, si_namespace = map_of l ''ux.oam.dev/from-namespace'',
                si_revision = map_of l ''ux.oam.dev/synced-revision'',
                si_generation = map_of l ''ux.oam.dev/synced-generation''\<rparr>)"

definition isDefaultDescription :: "string option \<Rightarrow> bool" where
  "isDefaultDescription description \<longleftrightarrow>
     description = Some ''Automatically converted from KubeVela Application in Kubernetes.''"

section \<open>Sources\<close>

definition alnum :: "char \<Rightarrow> bool" where
  "alnum c \<longleftrightarrow> (let n = of_char c :: nat in (48 \<le> n \<and> n \<le> 57) \<or> (65 \<le> n \<and> n \<le> 90) \<or> (97 \<le> n \<and> n \<le> 122))"

definition sourceNamePattern :: "string \<Rightarrow> bool" where
  "sourceNamePattern s \<longleftrightarrow> is_identifier s"

text \<open>The first replacement: a run of other characters before an alphanumeric one makes way for
  its capital. \<open>sep\<close> is the run being read.\<close>

fun camel_from :: "string \<Rightarrow> string \<Rightarrow> string" where
  "camel_from sep [] = sep"
| "camel_from sep (c # s) =
     (if alnum c then (if sep = [] then c else upper_char c) # camel_from [] s else camel_from (sep @ [c]) s)"

definition sourceBindingName :: "string \<Rightarrow> string" where
  "sourceBindingName type =
     (let name = filter alnum (camel_from [] type)
      in if name \<noteq> [] \<and> (let n = of_char (hd name) :: nat in 48 \<le> n \<and> n \<le> 57) then ''source'' @ name else name)"

text \<open>A schema as the walk reads it; \<open>sc_additional\<close> is \<open>Some None\<close> where
  \<open>additionalProperties\<close> is set and is no object.\<close>

datatype schema = Schema (sc_type: "string option") (sc_description: "string option")
  (sc_properties: "(string \<times> schema) list option") (sc_items: "schema option") (sc_additional: "schema option option")

fun typeName :: "schema \<Rightarrow> string" where
  "typeName (Schema type descr props items additional) =
     (if type = Some ''array'' then ''array<'' @ (case items of Some s \<Rightarrow> typeName s | None \<Rightarrow> ''any'') @ ''>''
      else if type = Some ''object'' \<and> props = None \<and> additional \<noteq> None
      then ''map<'' @ (case additional of Some (Some s) \<Rightarrow> typeName s | _ \<Rightarrow> ''any'') @ ''>''
      else or_str type ''any'')"

record source_field =
  sf_path :: string
  sf_type :: string
  sf_description :: "string option"

fun walk_fields :: "nat \<Rightarrow> string \<Rightarrow> schema \<Rightarrow> source_field list" where
  "walk_fields 0 path s = []"
| "walk_fields (Suc levels) path s =
     concat (map (\<lambda>(key, child).
       \<lparr>sf_path = path @ ''.'' @ key, sf_type = typeName child, sf_description = sc_description child\<rparr> #
       walk_fields levels (path @ ''.'' @ key) child) (or_nil (sc_properties s)))"

definition sourceFields :: "string \<Rightarrow> schema option \<Rightarrow> nat \<Rightarrow> source_field list" where
  "sourceFields name schema depth = (case schema of None \<Rightarrow> [] | Some s \<Rightarrow> walk_fields depth (''source.'' @ name) s)"

section \<open>Quoted values\<close>

record quoted_part =
  qp_text :: string
  qp_quoted :: bool

definition plain_part :: "string \<Rightarrow> quoted_part list" where
  "plain_part s = (if s = [] then [] else [\<lparr>qp_text = s, qp_quoted = False\<rparr>])"

definition quote_mark :: char where "quote_mark = CHR 0x22"

function splitQuoted :: "string \<Rightarrow> quoted_part list" where
  "splitQuoted m =
     (case index_of quote_mark m of
        None \<Rightarrow> plain_part m
      | Some i \<Rightarrow>
          (case index_of quote_mark (drop (i + 1) m) of
             None \<Rightarrow> plain_part m
           | Some j \<Rightarrow> plain_part (take i m) @ [\<lparr>qp_text = take j (drop (i + 1) m), qp_quoted = True\<rparr>] @
                       splitQuoted (drop (i + j + 2) m)))"
  by pat_completeness auto
termination
  by (relation "measure length") (auto dest!: index_of_Some)

declare splitQuoted.simps [simp del]

section \<open>Round trips\<close>

lemma or_undefined_iff: "or_undefined s = (if s = [] then None else Some s)"
  by (simp add: or_undefined_def)

text \<open>A definition's name and version, joined, split back into themselves, and a type split
  and joined is the type itself, unless it ends in a lone at sign, which is dropped.\<close>

theorem splitType_joinType:
  assumes "CHR ''@'' \<notin> set name" and "name \<noteq> []" and "version \<noteq> Some []"
  shows "splitType (Some (joinType name version)) = (name, version) \<and>
    (case splitType (Some type) of (n, v) \<Rightarrow> joinType n v = type \<or> (v = None \<and> type = n @ ''@''))"
proof -
  have "splitType (Some (joinType name version)) = (name, version)"
  proof (cases version)
    case None
    then show ?thesis using assms by (simp add: splitType_def joinType_def truthy_iff index_of_None[THEN iffD2])
  next
    case (Some v)
    then show ?thesis
      using assms index_of_append[OF assms(1), of v] by (simp add: splitType_def joinType_def truthy_iff or_undefined_iff)
  qed
  moreover have "joinType n v = type \<or> (v = None \<and> type = n @ ''@'')" if "splitType (Some type) = (n, v)" for n v
  proof (cases "index_of CHR ''@'' type")
    case None
    then show ?thesis using that by (auto simp: splitType_def joinType_def truthy_iff split: if_splits)
  next
    case (Some i)
    then have "type \<noteq> []" "type = take i type @ CHR ''@'' # drop (Suc i) type" using index_of_split[OF Some] by auto
    then show ?thesis using that Some
      by (cases "drop (Suc i) type") (auto simp: splitType_def joinType_def truthy_iff or_undefined_iff)
  qed
  ultimately show ?thesis by (auto split: prod.splits)
qed

theorem splitType_joinType_witness: "splitType (Some (joinType ''webapp'' (Some ''v2''))) = (''webapp'', Some ''v2'')"
  using splitType_joinType[of "''webapp''" "Some ''v2''" "''webapp''"] by simp

definition requote :: "quoted_part \<Rightarrow> string" where
  "requote p = (if qp_quoted p then quote_mark # qp_text p @ [quote_mark] else qp_text p)"

lemma requote_plain: "concat (map requote (plain_part s)) = s"
  by (simp add: plain_part_def requote_def)

text \<open>The parts of a message put together, the quoted ones in their quotes again, are the
  message; no quoted value holds a quote, no plain part is empty, and only the last plain part can
  hold an unpaired quote.\<close>

theorem splitQuoted_partition:
  "concat (map requote (splitQuoted m)) = m \<and>
   list_all (\<lambda>p. if qp_quoted p then quote_mark \<notin> set (qp_text p) else qp_text p \<noteq> []) (splitQuoted m) \<and>
   list_all (\<lambda>p. quote_mark \<notin> set (qp_text p)) (butlast (splitQuoted m))"
proof (induction m rule: splitQuoted.induct)
  case (1 m)
  show ?case
  proof (cases "index_of quote_mark m")
    case None
    then show ?thesis by (simp add: splitQuoted.simps[of m] plain_part_def requote_def)
  next
    case (Some i)
    let ?r = "drop (i + 1) m"
    show ?thesis
    proof (cases "index_of quote_mark ?r")
      case None
      then show ?thesis using Some by (simp add: splitQuoted.simps[of m] plain_part_def requote_def)
    next
      case (Some j)
      note IH = 1[OF \<open>index_of quote_mark m = Some i\<close> Some]
      have split: "splitQuoted m = plain_part (take i m) @ [\<lparr>qp_text = take j ?r, qp_quoted = True\<rparr>] @ splitQuoted (drop (i + j + 2) m)"
        using \<open>index_of quote_mark m = Some i\<close> Some by (simp add: splitQuoted.simps[of m])
      have "m = take i m @ quote_mark # ?r" "?r = take j ?r @ quote_mark # drop (Suc j) ?r"
        using index_of_split[OF \<open>index_of quote_mark m = Some i\<close>] index_of_split[OF Some] by simp_all
      moreover have "drop (Suc j) ?r = drop (i + j + 2) m" by (simp add: add.commute)
      ultimately have whole: "take i m @ quote_mark # take j ?r @ quote_mark # drop (i + j + 2) m = m" by metis
      have clean: "quote_mark \<notin> set (take i m)" "quote_mark \<notin> set (take j ?r)"
        using index_of_Some[OF \<open>index_of quote_mark m = Some i\<close>] index_of_Some[OF Some] by simp_all
      have "concat (map requote (splitQuoted m)) = m"
        unfolding split using IH whole by (simp add: requote_plain) (simp add: requote_def)
      then show ?thesis using IH clean by (auto simp: split plain_part_def butlast_append)
    qed
  qed
qed

section \<open>Names a source may take\<close>

lemma upper_char_alnum: "alnum c \<Longrightarrow> alnum (upper_char c)"
proof -
  assume a: "alnum c"
  show ?thesis
  proof (cases "97 \<le> (of_char c :: nat) \<and> (of_char c :: nat) \<le> 122")
    case True
    then have "(of_char (char_of ((of_char c :: nat) - 32) :: char) :: nat) = of_char c - 32"
      by (auto simp: of_char_of intro!: mod_less)
    then show ?thesis using True by (simp add: upper_char_def alnum_def Let_def) linarith
  next
    case False
    then have "upper_char c = c" unfolding upper_char_def Let_def by (rule if_not_P)
    then show ?thesis using a by simp
  qed
qed

lemma camel_keeps_alnum: "list_ex alnum s \<Longrightarrow> list_ex alnum (camel_from sep s)"
  by (induction s arbitrary: sep) (auto simp: upper_char_alnum)

lemma alnum_word_char: "alnum c \<Longrightarrow> word_char c"
  by (auto simp: alnum_def word_char_def ident_start_def Let_def)

lemma alnum_start: "alnum c \<Longrightarrow> \<not> (48 \<le> (of_char c :: nat) \<and> (of_char c :: nat) \<le> 57) \<Longrightarrow> ident_start c"
  by (auto simp: alnum_def ident_start_def Let_def)

text \<open>The name suggested for a source of a type with a letter or a digit is one expressions
  can read: an identifier.\<close>

theorem sourceBindingName_valid:
  assumes "list_ex alnum type"
  shows "sourceNamePattern (sourceBindingName type)"
proof -
  let ?name = "filter alnum (camel_from [] type)"
  have "?name \<noteq> []" using camel_keeps_alnum[OF assms, of "[]"] by (auto simp: list_ex_iff filter_empty_conv)
  moreover from this have "alnum (hd ?name)" using hd_in_set[of ?name] by simp
  moreover have "list_all word_char ?name" by (auto simp: list_all_iff alnum_word_char)
  moreover have "list_all word_char ''source''" "ident_start (hd ''source'')" by code_simp+
  ultimately show ?thesis
    using alnum_start by (auto simp: sourceNamePattern_def is_identifier_def sourceBindingName_def Let_def)
qed

theorem sourceBindingName_valid_witness: "sourceNamePattern (sourceBindingName ''2-cluster-info'')"
  by (rule sourceBindingName_valid) code_simp

lemma deployNamespaces_sorted: "sorted (deployNamespaces envs) \<and> distinct (deployNamespaces envs) \<and> [] \<notin> set (deployNamespaces envs)"
  by (simp add: deployNamespaces_def)

end
