(* ===== verification/Url_Query.thy ===== *)
theory Url_Query
  imports Js_Prelude
begin

text \<open>
  Query strings and the location (\<open>services/LocationService.ts\<close>): printing a query map,
  parsing one back, and the partial update of the address. A value is what the declared type
  \<open>UrlQueryValue\<close> allows: a string, a number as it prints, a boolean, nothing, or a list of
  these. Code units from 128 to 255 are escaped as the two bytes of their UTF-8 form; an escape of
  a larger code point has no character here and is taken as one that does not decode.
\<close>

section \<open>Escapes\<close>

definition hex_digit :: "nat \<Rightarrow> char" where
  "hex_digit n = (if n < 10 then char_of (48 + n) else char_of (55 + n))"

definition escape_byte :: "nat \<Rightarrow> string" where
  "escape_byte b = [CHR ''%'', hex_digit (b div 16), hex_digit (b mod 16)]"

definition escape_char :: "char \<Rightarrow> string" where
  "escape_char c =
     (let n = of_char c :: nat
      in if n < 128 then escape_byte n else escape_byte (192 + n div 64) @ escape_byte (128 + n mod 64))"

definition unreserved :: "char \<Rightarrow> bool" where
  "unreserved c \<longleftrightarrow>
     (let n = of_char c :: nat in (48 \<le> n \<and> n \<le> 57) \<or> (65 \<le> n \<and> n \<le> 90) \<or> (97 \<le> n \<and> n \<le> 122)) \<or>
     c \<in> set ''-_.~''"

text \<open>\<open>encodeURIComponent\<close> and the replacements after it, character by character: no
  replacement spans two of them. The marks it leaves alone and the source escapes are
  \<open>!'()*\<close>.\<close>

definition encode_char :: "bool \<Rightarrow> char \<Rightarrow> string" where
  "encode_char pctEncodeSpaces c =
     (if unreserved c \<or> c \<in> set ''@:$,;'' then [c]
      else if c = CHR '' '' \<and> \<not> pctEncodeSpaces then ''+''
      else escape_char c)"

definition encodeURIComponent2 :: "string \<Rightarrow> bool \<Rightarrow> string" where
  "encodeURIComponent2 val pctEncodeSpaces = concat (map (encode_char pctEncodeSpaces) val)"

definition hex_value :: "char \<Rightarrow> nat option" where
  "hex_value c =
     (let n = of_char c :: nat
      in if 48 \<le> n \<and> n \<le> 57 then Some (n - 48)
         else if 65 \<le> n \<and> n \<le> 70 then Some (n - 55)
         else if 97 \<le> n \<and> n \<le> 102 then Some (n - 87)
         else None)"

definition escaped_byte :: "string \<Rightarrow> nat option" where
  "escaped_byte s =
     (if length s \<ge> 3 \<and> s ! 0 = CHR ''%'' then
        (case (hex_value (s ! 1), hex_value (s ! 2)) of (Some a, Some b) \<Rightarrow> Some (16 * a + b) | _ \<Rightarrow> None)
      else None)"

text \<open>\<open>None\<close> where decoding throws.\<close>

function tryDecodeURIComponent :: "string \<Rightarrow> string option" where
  "tryDecodeURIComponent s =
     (case s of
        [] \<Rightarrow> Some []
      | c # r \<Rightarrow>
          if c \<noteq> CHR ''%'' then map_option ((#) c) (tryDecodeURIComponent r)
          else case escaped_byte s of
                 None \<Rightarrow> None
               | Some b \<Rightarrow>
                   if b < 128 then map_option ((#) (char_of b)) (tryDecodeURIComponent (drop 3 s))
                   else if b = 194 \<or> b = 195 then
                     (case escaped_byte (drop 3 s) of
                        None \<Rightarrow> None
                      | Some b' \<Rightarrow> if 128 \<le> b' \<and> b' < 192
                          then map_option ((#) (char_of ((b - 192) * 64 + (b' - 128)))) (tryDecodeURIComponent (drop 6 s))
                          else None)
                   else None)"
  by pat_completeness auto
termination
  by (relation "measure length") auto

declare tryDecodeURIComponent.simps [simp del]

section \<open>Printing a query\<close>

datatype query_value = QStr string | QNum string | QBool bool | QNull | QList "query_value list"

definition add_param :: "string \<Rightarrow> query_value \<Rightarrow> string" where
  "add_param k v =
     (case v of
        QBool True \<Rightarrow> encodeURIComponent2 k True
      | QBool False \<Rightarrow> encodeURIComponent2 k True @ ''='' @ encodeURIComponent2 ''false'' True
      | QStr s \<Rightarrow> encodeURIComponent2 k True @ ''='' @ encodeURIComponent2 s True
      | QNum s \<Rightarrow> encodeURIComponent2 k True @ ''='' @ encodeURIComponent2 s True
      | _ \<Rightarrow> encodeURIComponent2 k True @ ''='')"

text \<open>A value is printed under its name, the members of a list each under the name of the list. A text
  that reads as JavaScript prints an object is taken for one, and walked by its indices. A key that is the
  empty string takes the branch meant for the whole query: a string is walked by its indices, the
  members of a list have neither name nor value.\<close>

definition object_text :: string where
  "object_text = ''[object Object]''"

definition rbracket :: "string \<Rightarrow> bool" where
  "rbracket pre \<longleftrightarrow> 2 \<le> length pre \<and> drop (length pre - 2) pre = ''[]''"

definition build_member :: "string \<Rightarrow> query_value \<Rightarrow> string list" where
  "build_member pre v =
     (if v = QStr object_text then map (\<lambda>(i, c). add_param (pre @ ''['' @ nat_str i @ '']'') (QStr [c])) (enumerate 0 object_text)
      else [add_param pre v])"

fun build_named :: "string \<Rightarrow> query_value \<Rightarrow> string list" where
  "build_named pre (QList vs) = concat (map (\<lambda>v. if rbracket pre then [add_param pre v] else build_named pre v) vs)"
| "build_named pre v = build_member pre v"

definition build_params :: "string \<Rightarrow> query_value \<Rightarrow> string list" where
  "build_params pre v =
     (if pre \<noteq> [] then build_named pre v
      else (case v of
              QList vs \<Rightarrow> map (\<lambda>_. add_param ''undefined'' QNull) vs
            | QStr s \<Rightarrow> map (\<lambda>(i, c). add_param (nat_str i) (QStr [c])) (enumerate 0 s)
            | _ \<Rightarrow> []))"

definition toUrlParams :: "(string, query_value) js_map \<Rightarrow> string" where
  "toUrlParams a = join_with ''&'' (concat (map (\<lambda>(k, v). build_params k v) a))"

definition renderUrl :: "string \<Rightarrow> (string, query_value) js_map option \<Rightarrow> string" where
  "renderUrl path query = (if or_nil query \<noteq> [] then path @ ''?'' @ toUrlParams (or_nil query) else path)"

section \<open>Parsing a query\<close>

text \<open>A value that does not decode is stored as \<open>undefined\<close>.\<close>

datatype parsed = PStr string | PBool bool | PUndef | PList "parsed list"

definition read_value :: "string option \<Rightarrow> parsed" where
  "read_value part =
     (case part of None \<Rightarrow> PBool True
      | Some s \<Rightarrow> (case tryDecodeURIComponent s of None \<Rightarrow> PUndef | Some v \<Rightarrow> PStr v))"

definition parsed_value :: "parsed \<Rightarrow> parsed" where
  "parsed_value v = (if v = PStr ''true'' then PBool True else if v = PStr ''false'' then PBool False else v)"

text \<open>One part. \<open>isNaN(parsedVal)\<close> holds of no boolean, and where it does hold
  \<open>val\<close> is \<open>parsedVal\<close>: what is stored is \<open>parsedVal\<close>. The name
  \<open>__proto__\<close> never becomes a member of its own. \<open>None\<close> is the error thrown once a
  parameter has replaced \<open>hasOwnProperty\<close>.\<close>

definition store_value :: "(string, parsed) js_map \<Rightarrow> string \<Rightarrow> parsed \<Rightarrow> (string, parsed) js_map" where
  "store_value obj key v =
     (case map_of obj key of
        None \<Rightarrow> if key = ''__proto__'' then obj else AList.update key (parsed_value v) obj
      | Some (PList vs) \<Rightarrow> AList.update key (PList (vs @ [v])) obj
      | Some old \<Rightarrow> AList.update key (PList [old, parsed_value v]) obj)"

definition plus_to_space :: "string \<Rightarrow> string" where
  "plus_to_space s = concat (map (\<lambda>c. if c = CHR ''+'' then ''%20'' else [c]) s)"

definition parse_part :: "(string, parsed) js_map \<Rightarrow> string \<Rightarrow> (string, parsed) js_map option" where
  "parse_part obj part =
     (if part = [] then Some obj
      else let kv = plus_to_space part;
               (key, val) = (case index_of CHR ''='' kv of None \<Rightarrow> (kv, None) | Some i \<Rightarrow> (take i kv, Some (drop (i + 1) kv)))
           in case tryDecodeURIComponent key of
                None \<Rightarrow> Some obj
              | Some k \<Rightarrow> if ''hasOwnProperty'' \<in> fst ` set obj then None else Some (store_value obj k (read_value val)))"

fun parse_parts :: "(string, parsed) js_map \<Rightarrow> string list \<Rightarrow> (string, parsed) js_map option" where
  "parse_parts obj [] = Some obj"
| "parse_parts obj (p # ps) = (case parse_part obj p of None \<Rightarrow> None | Some obj' \<Rightarrow> parse_parts obj' ps)"

definition parseKeyValue :: "string \<Rightarrow> (string, parsed) js_map option" where
  "parseKeyValue keyValue = parse_parts [] (split_on CHR ''&'' keyValue)"

definition locationSearchToObject :: "string \<Rightarrow> (string, parsed) js_map option" where
  "locationSearchToObject search =
     (case search of [] \<Rightarrow> Some [] | c # r \<Rightarrow> if c = CHR ''?'' then parseKeyValue r else parseKeyValue search)"

section \<open>Updating part of the query\<close>

fun to_query :: "parsed \<Rightarrow> query_value" where
  "to_query (PStr s) = QStr s"
| "to_query (PBool b) = QBool b"
| "to_query PUndef = QNull"
| "to_query (PList vs) = QList (map to_query vs)"

definition set_param :: "(string, query_value) js_map \<Rightarrow> string \<times> query_value \<Rightarrow> (string, query_value) js_map" where
  "set_param q kv = (if snd kv = QNull then AList.delete (fst kv) q else AList.update (fst kv) (snd kv) q)"

text \<open>The address the history is given, pushed or put in place of the current one.\<close>

definition partial_url :: "string \<Rightarrow> string \<Rightarrow> (string, query_value) js_map \<Rightarrow> string option" where
  "partial_url pathname search query =
     map_option (\<lambda>cur. renderUrl pathname (Some (foldl set_param (map (\<lambda>(k, v). (k, to_query v)) cur) query)))
       (locationSearchToObject search)"

definition reload_counter :: "nat option \<Rightarrow> nat" where
  "reload_counter prev = (case prev of None \<Rightarrow> 1 | Some n \<Rightarrow> if n = 0 then 1 else n + 1)"

section \<open>Decoding undoes encoding\<close>

lemma hex_value_digit: "n < 16 \<Longrightarrow> hex_value (hex_digit n) = Some n"
proof -
  assume "n < 16"
  then have "(of_char (hex_digit n) :: nat) = (if n < 10 then 48 + n else 55 + n)"
    by (auto simp: hex_digit_def of_char_of intro!: mod_less)
  then show ?thesis using \<open>n < 16\<close> by (auto simp: hex_value_def Let_def)
qed

lemma escaped_byte_escape: "b < 256 \<Longrightarrow> escaped_byte (escape_byte b @ r) = Some b"
  by (simp add: escaped_byte_def escape_byte_def hex_value_digit)

lemma escape_byte_shape: "escape_byte b @ r = CHR ''%'' # (hex_digit (b div 16) # hex_digit (b mod 16) # r)"
  by (simp add: escape_byte_def)

lemma decode_plain: "c \<noteq> CHR ''%'' \<Longrightarrow> tryDecodeURIComponent (c # r) = map_option ((#) c) (tryDecodeURIComponent r)"
  by (simp add: tryDecodeURIComponent.simps[of "c # r"])

lemma decode_percent:
  assumes "s = CHR ''%'' # r"
  shows "tryDecodeURIComponent s =
    (case escaped_byte s of
       None \<Rightarrow> None
     | Some b \<Rightarrow>
         if b < 128 then map_option ((#) (char_of b)) (tryDecodeURIComponent (drop 3 s))
         else if b = 194 \<or> b = 195 then
           (case escaped_byte (drop 3 s) of
              None \<Rightarrow> None
            | Some b' \<Rightarrow> if 128 \<le> b' \<and> b' < 192
                then map_option ((#) (char_of ((b - 192) * 64 + (b' - 128)))) (tryDecodeURIComponent (drop 6 s))
                else None)
         else None)"
  by (subst tryDecodeURIComponent.simps) (simp add: assms)

lemma drop_escape: "drop 3 (escape_byte b @ r) = r" "drop 6 (escape_byte b @ escape_byte b' @ r) = r"
  by (simp_all add: escape_byte_def)

lemma decode_escape1:
  assumes "b < 128"
  shows "tryDecodeURIComponent (escape_byte b @ r) = map_option ((#) (char_of b)) (tryDecodeURIComponent r)"
proof -
  have "escaped_byte (escape_byte b @ r) = Some b" using assms by (intro escaped_byte_escape) simp
  then show ?thesis unfolding decode_percent[OF escape_byte_shape] using assms by (simp only: drop_escape option.case if_True)
qed

lemma decode_escape2:
  assumes "b = 194 \<or> b = 195" and "128 \<le> b'" and "b' < 192"
  shows "tryDecodeURIComponent (escape_byte b @ escape_byte b' @ r) =
    map_option ((#) (char_of ((b - 192) * 64 + (b' - 128)))) (tryDecodeURIComponent r)"
proof -
  have "escaped_byte (escape_byte b @ escape_byte b' @ r) = Some b" "escaped_byte (escape_byte b' @ r) = Some b'"
    using assms by (auto intro!: escaped_byte_escape)
  moreover have "\<not> b < 128" using assms(1) by auto
  ultimately show ?thesis
    unfolding decode_percent[OF escape_byte_shape] using assms by (simp only: drop_escape option.case if_True if_False simp_thms)
qed

lemma byte_div: "n < 256 \<Longrightarrow> 128 \<le> n \<Longrightarrow> n div 64 = 2 \<or> n div 64 = (3 :: nat)"
proof -
  assume "n < 256" "128 \<le> n"
  then have "n div 64 < 4" "2 \<le> n div 64" using div_le_mono[of 128 n 64] by (auto simp: less_mult_imp_div_less)
  then show ?thesis by linarith
qed

lemma byte_parts: "n < 256 \<Longrightarrow> 192 + n div 64 < (256 :: nat) \<and> 128 + n mod 64 < (256 :: nat)"
proof -
  assume "n < 256"
  then have "n div 64 < 4" by (simp add: less_mult_imp_div_less)
  moreover have "n mod 64 < 64" by simp
  ultimately show ?thesis by linarith
qed

lemma char_byte: "(of_char c :: nat) < 256"
  by simp

lemma decode_escape_char: "tryDecodeURIComponent (escape_char c @ r) = map_option ((#) c) (tryDecodeURIComponent r)"
proof (cases "(of_char c :: nat) < 128")
  case True
  then show ?thesis by (simp add: escape_char_def Let_def decode_escape1)
next
  case False
  let ?n = "of_char c :: nat"
  have d: "?n div 64 = 2 \<or> ?n div 64 = 3" by (rule byte_div[OF char_byte]) (use False in simp)
  have m: "?n mod 64 < 64" by simp
  have "(192 + ?n div 64 - 192) * 64 + (128 + ?n mod 64 - 128) = ?n" by simp
  then show ?thesis
    using decode_escape2[of "192 + ?n div 64" "128 + ?n mod 64" r] d m False by (simp add: escape_char_def Let_def)
qed

lemma encode_char_True: "encode_char True c = (if unreserved c \<or> c \<in> set ''@:$,;'' then [c] else escape_char c)"
  by (simp add: encode_char_def)

lemma percent_reserved: "\<not> unreserved CHR ''%'' \<and> CHR ''%'' \<notin> set ''@:$,;''"
  by code_simp

lemma decode_encode: "tryDecodeURIComponent (encodeURIComponent2 s True @ r) = map_option ((@) s) (tryDecodeURIComponent r)"
proof (induction s)
  case Nil
  show ?case by (cases "tryDecodeURIComponent r") (simp_all add: encodeURIComponent2_def)
next
  case (Cons c s)
  have "tryDecodeURIComponent (encode_char True c @ encodeURIComponent2 s True @ r) =
      map_option ((#) c) (tryDecodeURIComponent (encodeURIComponent2 s True @ r))"
    unfolding encode_char_True using percent_reserved decode_escape_char by (auto intro!: decode_plain)
  then show ?case using Cons by (cases "tryDecodeURIComponent r") (simp_all add: encodeURIComponent2_def)
qed

lemma decode_encoded: "tryDecodeURIComponent (encodeURIComponent2 s True) = Some s"
  using decode_encode[of s "[]"] by (simp add: tryDecodeURIComponent.simps[of "[]"])

text \<open>The characters an encoded text is made of.\<close>

definition encoded_char :: "char \<Rightarrow> bool" where
  "encoded_char c \<longleftrightarrow> unreserved c \<or> c \<in> set ''@:$,;%''"

lemma hex_digit_encoded: "n < 16 \<Longrightarrow> encoded_char (hex_digit n)"
proof -
  assume "n < 16"
  then have "(of_char (hex_digit n) :: nat) = (if n < 10 then 48 + n else 55 + n)"
    by (auto simp: hex_digit_def of_char_of intro!: mod_less)
  then show ?thesis using \<open>n < 16\<close> by (auto simp: encoded_char_def unreserved_def Let_def)
qed

lemma escape_byte_encoded: "b < 256 \<Longrightarrow> list_all encoded_char (escape_byte b)"
  by (simp add: escape_byte_def hex_digit_encoded) (simp add: encoded_char_def)

lemma escape_char_encoded: "list_all encoded_char (escape_char c)"
  unfolding escape_char_def Let_def using byte_parts[OF char_byte[of c]] by (auto intro!: escape_byte_encoded)

lemma encode_char_encoded: "list_all encoded_char (encode_char True c)"
  using escape_char_encoded[of c] by (simp add: encode_char_True) (auto simp: encoded_char_def)

lemma encode_encoded: "list_all encoded_char (encodeURIComponent2 s True)"
  by (induction s) (simp_all add: encodeURIComponent2_def encode_char_encoded)

lemma separators_not_encoded: "\<not> encoded_char CHR ''&'' \<and> \<not> encoded_char CHR ''='' \<and> \<not> encoded_char CHR ''+''"
  by code_simp

lemma encoded_free: "d \<in> set ''&=+'' \<Longrightarrow> d \<notin> set (encodeURIComponent2 s True)"
  using encode_encoded[of s] separators_not_encoded by (auto simp: list_all_iff)

lemma plus_to_space_id: "CHR ''+'' \<notin> set s \<Longrightarrow> plus_to_space s = s"
  by (induction s) (auto simp: plus_to_space_def)

section \<open>A query printed and parsed\<close>

text \<open>The parameters that survive: strings that do not spell a boolean, and booleans, under a
  name that is not empty and not one the parser's object already answers to.\<close>

definition plain_param :: "string \<times> query_value \<Rightarrow> bool" where
  "plain_param kv \<longleftrightarrow> fst kv \<noteq> [] \<and> fst kv \<noteq> ''hasOwnProperty'' \<and> fst kv \<noteq> ''__proto__'' \<and>
     (case snd kv of QStr s \<Rightarrow> s \<noteq> ''true'' \<and> s \<noteq> ''false'' \<and> s \<noteq> object_text | QBool b \<Rightarrow> True | _ \<Rightarrow> False)"

fun of_query :: "query_value \<Rightarrow> parsed" where
  "of_query (QStr s) = PStr s"
| "of_query (QBool b) = PBool b"
| "of_query _ = PUndef"

lemma encode_char_nonempty: "encode_char True c \<noteq> []"
  by (simp add: encode_char_True escape_char_def escape_byte_def Let_def)

lemma encode_nonempty: "k \<noteq> [] \<Longrightarrow> encodeURIComponent2 k True \<noteq> []"
  by (cases k) (simp_all add: encodeURIComponent2_def encode_char_nonempty)

lemma add_param_free:
  assumes "d = CHR ''&'' \<or> d = CHR ''+''"
  shows "d \<notin> set (add_param k v)"
proof -
  have d: "d \<in> set ''&=+''" "d \<noteq> CHR ''=''" using assms by auto
  then show ?thesis
    using encoded_free[OF d(1), of k] encoded_free[OF d(1)] by (auto simp: add_param_def split: query_value.splits bool.splits)
qed

lemma index_of_encoded: "index_of CHR ''='' (encodeURIComponent2 k True) = None"
  using encoded_free[of "CHR ''=''" k] by (simp add: index_of_None)

lemma index_of_encoded_eq:
  "index_of CHR ''='' (encodeURIComponent2 k True @ CHR ''='' # r) = Some (length (encodeURIComponent2 k True))"
  using encoded_free[of "CHR ''=''" k] by (intro index_of_append) simp

lemma read_encoded: "read_value (Some (encodeURIComponent2 s True)) = PStr s"
  by (simp add: read_value_def decode_encoded)

lemma parse_add_param:
  assumes "plain_param (k, v)" and "k \<notin> fst ` set obj" and "''hasOwnProperty'' \<notin> fst ` set obj"
  shows "parse_part obj (add_param k v) = Some (obj @ [(k, of_query v)])"
proof -
  have k: "k \<noteq> []" "k \<noteq> ''__proto__''" using assms(1) by (auto simp: plain_param_def)
  have plus: "plus_to_space (add_param k v) = add_param k v" by (rule plus_to_space_id) (simp add: add_param_free)
  have none: "map_of obj k = None" using assms(2) by (simp add: map_of_eq_None_iff)
  have store: "store_value obj k w = obj @ [(k, parsed_value w)]" for w
    using none k(2) alist_update_fresh[OF assms(2)] by (simp add: store_value_def)
  show ?thesis
  proof (cases "v = QBool True")
    case True
    then show ?thesis
      using k(1) plus store assms(3) encode_nonempty[OF k(1)]
      by (simp add: parse_part_def Let_def add_param_def index_of_encoded decode_encoded read_value_def parsed_value_def)
  next
    case False
    then obtain s where s: "add_param k v = encodeURIComponent2 k True @ CHR ''='' # encodeURIComponent2 s True"
      "parsed_value (PStr s) = of_query v"
      using assms(1) by (auto simp: plain_param_def add_param_def parsed_value_def split: query_value.splits bool.splits)
    then show ?thesis
      using plus store assms(3) encode_nonempty[OF k(1)]
      by (simp add: parse_part_def Let_def index_of_encoded_eq decode_encoded read_encoded)
  qed
qed

lemma parse_params:
  assumes "list_all plain_param m" and "distinct (map fst (obj @ map (\<lambda>(k, v). (k, of_query v)) m))"
    and "''hasOwnProperty'' \<notin> fst ` set obj"
  shows "parse_parts obj (map (\<lambda>(k, v). add_param k v) m) = Some (obj @ map (\<lambda>(k, v). (k, of_query v)) m)"
  using assms
proof (induction m arbitrary: obj)
  case (Cons kv m)
  obtain k v where kv: "kv = (k, v)" by (cases kv)
  have step: "parse_part obj (add_param k v) = Some (obj @ [(k, of_query v)])"
    using Cons.prems by (intro parse_add_param) (auto simp: kv)
  have "''hasOwnProperty'' \<notin> fst ` set (obj @ [(k, of_query v)])"
    using Cons.prems by (auto simp: kv plain_param_def)
  then show ?case using Cons.IH[of "obj @ [(k, of_query v)]"] Cons.prems step by (simp add: kv)
qed simp

lemma build_plain: "plain_param (k, v) \<Longrightarrow> build_params k v = [add_param k v]"
  by (cases v) (auto simp: plain_param_def build_params_def build_member_def)

lemma build_params_plain: "list_all plain_param m \<Longrightarrow> concat (map (\<lambda>(k, v). build_params k v) m) = map (\<lambda>(k, v). add_param k v) m"
  by (induction m) (auto simp: build_plain)

lemma print_parse_plain:
  assumes "list_all plain_param m" and "distinct (map fst m)"
  shows "parseKeyValue (toUrlParams m) = Some (map (\<lambda>(k, v). (k, of_query v)) m)"
proof (cases "m = []")
  case True
  then show ?thesis by (simp add: parseKeyValue_def toUrlParams_def parse_part_def)
next
  case False
  let ?ps = "map (\<lambda>(k, v). add_param k v) m"
  have "split_on CHR ''&'' (join_with ''&'' ?ps) = ?ps"
    using False by (intro split_join) (auto simp: add_param_free)
  moreover have "distinct (map fst ([] @ map (\<lambda>(k, v). (k, of_query v)) m))"
    using assms(2) by (simp add: comp_def case_prod_beta)
  ultimately show ?thesis
    using parse_params[OF assms(1), of "[]"] by (simp add: parseKeyValue_def toUrlParams_def build_params_plain[OF assms(1)])
qed

text \<open>C24: a query of strings and booleans under names that are not empty, \<open>hasOwnProperty\<close> or
  \<open>__proto__\<close>, printed into an address and parsed back, is the query that was printed, whatever
  characters its names and values hold, unless a string is one of \<open>true\<close>, \<open>false\<close> and
  \<open>[object Object]\<close>.\<close>

theorem query_roundtrip:
  assumes "distinct (map fst m)" and "\<forall>(k, v)\<in>set m. k \<notin> {[], ''hasOwnProperty'', ''__proto__''} \<and>
      (\<exists>s. v = QStr s \<and> s \<notin> {''true'', ''false'', ''[object Object]''} \<or> (\<exists>b. v = QBool b))"
  shows "parseKeyValue (toUrlParams m) = Some (map (\<lambda>(k, v). (k, of_query v)) m)"
proof (rule print_parse_plain)
  have "plain_param (k, v)" if "(k, v) \<in> set m" for k v
    using bspec[OF assms(2) that] by (elim conjE disjE exE case_prodE) (simp_all add: plain_param_def object_text_def)
  then show "list_all plain_param m" by (auto simp: list_all_iff)
qed (rule assms(1))

theorem query_roundtrip_witness:
  "parseKeyValue (toUrlParams [(''q'', QStr ''a&b=c d''), (''open'', QBool True)]) = Some [(''q'', PStr ''a&b=c d''), (''open'', PBool True)]"
  using query_roundtrip[of "[(''q'', QStr ''a&b=c d''), (''open'', QBool True)]"] by fastforce

lemma map_of_set_params:
  assumes "distinct (map fst query)" and "distinct (map fst q)"
  shows "map_of (foldl set_param q query) k =
    (case map_of query k of None \<Rightarrow> map_of q k | Some v \<Rightarrow> if v = QNull then None else Some v) \<and>
    distinct (map fst (foldl set_param q query))"
  using assms
proof (induction query arbitrary: q)
  case (Cons kv query)
  have "distinct (map fst (set_param q kv))"
    using Cons.prems(2) by (simp add: set_param_def distinct_update distinct_delete)
  moreover have upd: "map_of (set_param q kv) k = (if k = fst kv then (if snd kv = QNull then None else Some (snd kv)) else map_of q k)"
    by (auto simp: set_param_def update_conv' delete_conv')
  moreover have "fst kv \<notin> fst ` set query" using Cons.prems(1) by simp
  ultimately show ?case
    using Cons.IH[of "set_param q kv"] Cons.prems(1) unfolding upd
    by (cases kv; cases "k = fst kv") (simp_all add: map_of_eq_None_iff[THEN iffD2])
qed simp

lemma set_params_plain:
  assumes "list_all plain_param q" and "list_all (\<lambda>kv. snd kv = QNull \<or> plain_param kv) query"
  shows "list_all plain_param (foldl set_param q query)"
  using assms
proof (induction query arbitrary: q)
  case (Cons kv query)
  have "plain_param (k, v)" if "(k, v) \<in> set (set_param q kv)" for k v
  proof (cases "snd kv = QNull")
    case True
    then have "(k, v) \<in> set q" using that by (auto simp: set_param_def AList.delete_eq)
    then show ?thesis using Cons.prems(1) by (auto simp: list_all_iff)
  next
    case False
    have "(k, v) \<in> set q \<or> (k, v) = kv"
      using that False foldl_update_mem[of k v fst snd q "[kv]"] by (cases kv) (auto simp: set_param_def)
    then show ?thesis using Cons.prems False by (auto simp: list_all_iff)
  qed
  then have "list_all plain_param (set_param q kv)" by (auto simp: list_all_iff)
  then show ?case using Cons by simp
qed simp

lemma store_value_distinct: "distinct (map fst obj) \<Longrightarrow> distinct (map fst (store_value obj k v))"
  by (auto simp: store_value_def distinct_update split: option.splits parsed.splits)

lemma parse_part_distinct: "parse_part obj p = Some obj' \<Longrightarrow> distinct (map fst obj) \<Longrightarrow> distinct (map fst obj')"
  by (auto simp: parse_part_def Let_def store_value_distinct split: if_splits option.splits prod.splits)

lemma parse_parts_distinct: "parse_parts obj ps = Some obj' \<Longrightarrow> distinct (map fst obj) \<Longrightarrow> distinct (map fst obj')"
  by (induction ps arbitrary: obj) (auto dest: parse_part_distinct split: option.splits)

lemma search_distinct: "locationSearchToObject search = Some cur \<Longrightarrow> distinct (map fst cur)"
  by (auto simp: locationSearchToObject_def parseKeyValue_def parse_parts_distinct split: list.splits if_splits)

text \<open>Updating part of the query sets the parameters given, removes those given as nothing
  and keeps all others: the new address, read back, has exactly these.\<close>

theorem partial_url_updates:
  assumes "locationSearchToObject search = Some cur" and "list_all (\<lambda>(k, v). plain_param (k, to_query v)) cur"
    and "distinct (map fst query)" and "list_all (\<lambda>kv. snd kv = QNull \<or> plain_param kv) query"
  shows "\<exists>q new. partial_url pathname search query = Some (pathname @ q) \<and> locationSearchToObject q = Some new \<and>
    map_of new k = (case map_of query k of None \<Rightarrow> map_of cur k | Some v \<Rightarrow> if v = QNull then None else Some (of_query v))"
proof -
  let ?cur = "map (\<lambda>(k, v). (k, to_query v)) cur"
  let ?m = "foldl set_param ?cur query"
  have undo: "of_query (to_query v) = v" if "plain_param (n, to_query v)" for n v
    using that by (cases v) (auto simp: plain_param_def)
  have keys: "map fst ?cur = map fst cur" by (simp add: comp_def case_prod_beta)
  have d: "distinct (map fst ?cur)" unfolding keys by (rule search_distinct[OF assms(1)])
  note look = map_of_set_params[OF assms(3) d, of k]
  have plain: "list_all plain_param ?m"
    using assms(2,4) by (intro set_params_plain) (auto simp: list_all_iff)
  define q where "q = (if ?m = [] then [] else CHR ''?'' # toUrlParams ?m)"
  have url: "partial_url pathname search query = Some (pathname @ q)"
    using assms(1) by (simp add: partial_url_def renderUrl_def q_def)
  have new: "locationSearchToObject q = Some (map (\<lambda>(k, v). (k, of_query v)) ?m)"
    using print_parse_plain[OF plain] look by (simp add: q_def locationSearchToObject_def)
  have cur: "map_option of_query (map_of ?cur k) = map_of cur k"
    using assms(2) undo by (induction cur) (auto simp: list_all_iff)
  have "map_of (map (\<lambda>(k, v). (k, of_query v)) ?m) k = map_option of_query (map_of ?m k)" by (simp add: map_of_map)
  also have "\<dots> = (case map_of query k of None \<Rightarrow> map_of cur k | Some v \<Rightarrow> if v = QNull then None else Some (of_query v))"
    using look cur by (auto split: option.splits)
  finally show ?thesis using url new by blast
qed

theorem partial_url_updates_witness:
  "\<exists>q new. partial_url ''/apps'' ''?project=a%20b&page=2'' [(''page'', QNull), (''view'', QStr ''graph'')] = Some (''/apps'' @ q) \<and>
    locationSearchToObject q = Some new \<and> map_of new ''project'' = Some (PStr ''a b'')"
proof -
  have h: "locationSearchToObject ''?project=a%20b&page=2'' = Some [(''project'', PStr ''a b''), (''page'', PStr ''2'')]"
    by code_simp
  have "list_all (\<lambda>(k, v). plain_param (k, to_query v)) [(''project'', PStr ''a b''), (''page'', PStr ''2'')]"
    "distinct (map fst [(''page'', QNull), (''view'', QStr ''graph'')])"
    "list_all (\<lambda>kv. snd kv = QNull \<or> plain_param kv) [(''page'', QNull), (''view'', QStr ''graph'')]"
    by (simp_all add: plain_param_def object_text_def)
  from partial_url_updates[OF h this, of "''/apps''" "''project''"] show ?thesis by simp
qed

text \<open>A list of one value comes back as the value, and a third equal boolean as text: the parser
  stores what it read, not what the text means, once the parameter is a list. A text that reads
  as a printed object comes back in letters. A parameter named after the method the parser calls stops it.\<close>

lemma query_list_lossy:
  "parseKeyValue (toUrlParams [(''a'', QList [QStr ''x''])]) = Some [(''a'', PStr ''x'')]"
  "parseKeyValue ''a=true&a=true&a=true'' = Some [(''a'', PList [PBool True, PBool True, PStr ''true''])]"
  by code_simp+

lemma object_text_walked:
  "take 10 (toUrlParams [(''q'', QStr ''[object Object]'')]) = ''q%5B0%5D=%''" "parseKeyValue (toUrlParams [(''q'', QStr ''[object Object]'')]) \<noteq> Some [(''q'', PStr ''[object Object]'')]"
  by code_simp+

lemma query_shadows_method: "parseKeyValue ''hasOwnProperty=1&page=2'' = None"
  by code_simp

end
