(* ===== verification/Plugin_Reports.thy ===== *)
theory Plugin_Reports
  imports Url_Query Complex_Main
begin

text \<open>
  The cache of plugin modules and their settings (\<open>services/plugin/PluginCache.ts\<close>), and
  the reports page: cells, charts, their colours, and the guard that lets only the latest request
  answer (\<open>pages/Reports/view.ts\<close>). The clock, the formatting of a date and the conversion
  of a value to a number are arguments; numbers of a chart are exact rationals.
\<close>

section \<open>The plugin cache\<close>

definition uri_char :: "char \<Rightarrow> bool" where
  "uri_char c \<longleftrightarrow> unreserved c \<or> c \<in> set '';,/?:@&=+$!*()#'' \<or> c = CHR 0x27"

definition encodeURI :: "string \<Rightarrow> string" where
  "encodeURI s = concat (map (\<lambda>c. if uri_char c then [c] else escape_char c) s)"

record 'm plugin_cache =
  pc_versions :: "(string, string) js_map"
  pc_info :: "(string, 'm option) js_map"

definition formatPluginId :: "string \<Rightarrow> string" where
  "formatPluginId pluginId = CHR ''$'' # pluginId"

text \<open>What the cache answers at once; \<open>None\<close> asks the server, whose answer
  \<open>plugin_answered\<close> keeps.\<close>

definition getPluginInfo :: "string \<Rightarrow> 'm plugin_cache \<Rightarrow> 'm option" where
  "getPluginInfo pluginId cache = (case map_of (pc_info cache) (formatPluginId pluginId) of Some v \<Rightarrow> v | None \<Rightarrow> None)"

definition plugin_answered :: "string \<Rightarrow> 'm option \<Rightarrow> 'm plugin_cache \<Rightarrow> 'm plugin_cache" where
  "plugin_answered pluginId settings cache =
     cache\<lparr>pc_info := AList.update (formatPluginId pluginId) settings (pc_info cache)\<rparr>"

definition clearPluginSettingsCache :: "string \<Rightarrow> 'm plugin_cache \<Rightarrow> 'm plugin_cache" where
  "clearPluginSettingsCache pluginId cache =
     (if formatPluginId pluginId \<noteq> [] then cache\<lparr>pc_info := AList.delete (formatPluginId pluginId) (pc_info cache)\<rparr>
      else cache\<lparr>pc_info := []\<rparr>)"

definition registerPluginInCache :: "string \<Rightarrow> string \<Rightarrow> 'm plugin_cache \<Rightarrow> 'm plugin_cache" where
  "registerPluginInCache path version cache =
     (if \<not> truthy (map_of (pc_versions cache) path)
      then cache\<lparr>pc_versions := AList.update path (encodeURI version) (pc_versions cache)\<rparr> else cache)"

definition plugin_path :: "string \<Rightarrow> string" where
  "plugin_path pluginId = ''plugins/'' @ pluginId @ ''/module''"

definition invalidatePluginInCache :: "string \<Rightarrow> 'm plugin_cache \<Rightarrow> 'm plugin_cache" where
  "invalidatePluginInCache pluginId cache =
     clearPluginSettingsCache pluginId
       (if truthy (map_of (pc_versions cache) (plugin_path pluginId))
        then cache\<lparr>pc_versions := AList.delete (plugin_path pluginId) (pc_versions cache)\<rparr> else cache)"

text \<open>The pattern \<open>/public/(plugins/.+/module).js\<close>, cases ignored: from its first place,
  the longest middle that is not empty and holds no line break.\<close>

definition module_end :: "string \<Rightarrow> nat option" where
  "module_end rest =
     (let line = takeWhile (\<lambda>c. c \<noteq> CHR 0x0A \<and> c \<noteq> CHR 0x0D) rest;
          ends = filter (\<lambda>k. to_lower (take 10 (drop k line)) = ''/module.js'') [1..<length line]
      in if ends = [] then None else Some (last ends))"

definition path_at :: "string \<Rightarrow> string option" where
  "path_at s =
     (if to_lower (take 16 s) = ''/public/plugins/''
      then map_option (\<lambda>k. take (15 + k) (drop 8 s)) (module_end (drop 16 s)) else None)"

fun extractPath :: "string \<Rightarrow> string option" where
  "extractPath [] = None"
| "extractPath (c # s) = (case path_at (c # s) of Some p \<Rightarrow> Some p | None \<Rightarrow> extractPath s)"

definition locateWithCache :: "string \<Rightarrow> string \<Rightarrow> 'm plugin_cache \<Rightarrow> string" where
  "locateWithCache address defaultBust cache =
     (case extractPath address of
        None \<Rightarrow> address @ ''?_cache='' @ defaultBust
      | Some path \<Rightarrow> address @ ''?_cache='' @ or_str (map_of (pc_versions cache) path) defaultBust)"

section \<open>Cells of a report\<close>

fun js_String :: "json \<Rightarrow> string" where
  "js_String JNull = ''null''"
| "js_String (JBool b) = (if b then ''true'' else ''false'')"
| "js_String (JInt i) = int_str i"
| "js_String (JDec s) = s"
| "js_String (JStr s) = s"
| "js_String (JArr vs) = join_with '','' (map (\<lambda>v. if v = JNull then [] else js_String v) vs)"
| "js_String (JObj kvs) = ''[object Object]''"

definition duration_units :: "(string \<times> int) list" where
  "duration_units = [(''d'', 86400), (''h'', 3600), (''m'', 60), (''s'', 1)]"

text \<open>The parts shown, each a unit with how many of it, and what is left.\<close>

definition take_unit :: "((string \<times> int) \<times> int) list \<times> int \<Rightarrow> string \<times> int \<Rightarrow> ((string \<times> int) \<times> int) list \<times> int" where
  "take_unit st unit =
     (let parts = fst st; left = snd st; size = snd unit
      in if length parts < 2 \<and> left \<ge> size then (parts @ [(unit, left div size)], left mod size) else st)"

definition duration_parts :: "int \<Rightarrow> ((string \<times> int) \<times> int) list \<times> int" where
  "duration_parts seconds = foldl take_unit ([], seconds) duration_units"

definition duration_text :: "int \<Rightarrow> string" where
  "duration_text seconds =
     (let parts = fst (duration_parts seconds)
      in if parts \<noteq> [] then join_with '' '' (map (\<lambda>((u, _), n). int_str n @ u) parts) else ''0s'')"

definition formatCell ::
  "(json \<Rightarrow> string) \<Rightarrow> (json \<Rightarrow> rat option) \<Rightarrow> json option \<Rightarrow> string option \<Rightarrow> string" where
  "formatCell momentDate number value format =
     (case value of
        None \<Rightarrow> []
      | Some v \<Rightarrow>
          if v = JNull then []
          else if format = Some ''time'' then momentDate v
          else if format = Some ''percent'' then js_String v @ ''%''
          else if format = Some ''duration'' then
            (case number v of None \<Rightarrow> js_String v | Some seconds \<Rightarrow> duration_text \<lfloor>seconds + 1 / 2\<rfloor>)
          else js_String v)"

section \<open>Charts\<close>

record chart_point =
  cp_label :: string
  cp_values :: "(string, rat) js_map"

record report_chart =
  rc_series :: "string list"
  rc_points :: "chart_point list"

datatype cell = CText string | CNum rat

type_synonym row_cells = "(string, cell) js_map"

definition chart_row :: "string list \<Rightarrow> chart_point \<Rightarrow> row_cells" where
  "chart_row series p =
     foldl (\<lambda>row s. AList.update s (CNum (coalesce (map_of (cp_values p) s) 0)) row) [(''label'', CText (cp_label p))] series"

definition chartRows :: "report_chart \<Rightarrow> row_cells list" where
  "chartRows chart = map (chart_row (rc_series chart)) (rc_points chart)"

text \<open>The number a row has for a series of its chart.\<close>

definition cell_num :: "string \<Rightarrow> row_cells \<Rightarrow> rat" where
  "cell_num series row = (case map_of row series of Some (CNum x) \<Rightarrow> x | _ \<Rightarrow> 0)"

definition pieSlices :: nat where "pieSlices = 7"

definition pieRows :: "report_chart \<Rightarrow> string \<Rightarrow> row_cells list" where
  "pieRows chart series =
     (let rows = sort_key (\<lambda>r. - cell_num series r) (chartRows chart)
      in if length rows \<le> pieSlices + 1 then rows
         else let other = foldl (\<lambda>sum r. sum + cell_num series r) 0 (drop pieSlices rows)
              in take pieSlices rows @ [AList.update series (CNum other) [(''label'', CText ''Other'')]])"

definition statusColour :: "string \<Rightarrow> string option" where
  "statusColour label =
     (let l = to_lower label; has = list_ex (\<lambda>w. sublist w l)
      in if has [''behind'', ''changed'', ''suspend'', ''wait'', ''pending''] then Some ''#ff8f1f''
         else if has [''fail'', ''missing'', ''unhealthy'', ''terminat'', ''cannot'', ''error''] then Some ''#e5484d''
         else if has [''succeed'', ''healthy'', ''up to date'', ''follows''] then Some ''#00b578''
         else if has [''running'', ''executing''] then Some ''#1b58f4''
         else None)"

section \<open>Only the latest request answers\<close>

record tracker =
  tk_latest :: nat
  tk_pending :: "nat list"
  tk_delivered :: "nat list"

datatype track_event = Track | Settle nat

text \<open>A request tracked takes the next number; one that settles reaches its caller only while
  that number is the latest. A request settles once.\<close>

definition track_step :: "tracker \<Rightarrow> track_event \<Rightarrow> tracker" where
  "track_step t e =
     (case e of
        Track \<Rightarrow> t\<lparr>tk_latest := tk_latest t + 1, tk_pending := tk_pending t @ [tk_latest t + 1]\<rparr>
      | Settle mine \<Rightarrow>
          if mine \<notin> set (tk_pending t) then t
          else t\<lparr>tk_pending := removeAll mine (tk_pending t),
                 tk_delivered := (if mine = tk_latest t then tk_delivered t @ [mine] else tk_delivered t)\<rparr>)"

definition latestOnly :: "track_event list \<Rightarrow> tracker" where
  "latestOnly events = foldl track_step \<lparr>tk_latest = 0, tk_pending = [], tk_delivered = []\<rparr> events"

section \<open>A table as CSV\<close>

definition csv_quote :: char where "csv_quote = CHR 0x22"

definition line_feed :: char where "line_feed = CHR 0x0A"

definition csv_cell :: "json option \<Rightarrow> string" where
  "csv_cell v =
     (let s = (case v of None \<Rightarrow> [] | Some j \<Rightarrow> if j = JNull then [] else js_String j)
      in if list_ex (\<lambda>c. c = csv_quote \<or> c = CHR '','' \<or> c = line_feed) s
         then [csv_quote] @ concat (map (\<lambda>c. if c = csv_quote then [csv_quote, csv_quote] else [c]) s) @ [csv_quote]
         else s)"

record csv_column =
  cc_key :: string
  cc_title :: string

definition toCSV :: "csv_column list \<Rightarrow> (string, json) js_map list \<Rightarrow> string" where
  "toCSV columns rows =
     (let head = join_with '','' (map (\<lambda>c. csv_cell (Some (JStr (cc_title c)))) columns);
          lines = map (\<lambda>r. join_with '','' (map (\<lambda>c. csv_cell (map_of r (cc_key c))) columns)) rows
      in join_with [line_feed] (head # lines) @ [line_feed])"

section \<open>Properties of the cache\<close>

lemma encodeURI_nonempty: "s \<noteq> [] \<Longrightarrow> encodeURI s \<noteq> []"
  by (cases s) (auto simp: encodeURI_def escape_char_def escape_byte_def Let_def)

text \<open>A plugin module is loaded with the version it was first registered under, whatever is
  registered after, until the plugin is invalidated; then it is loaded with the default again,
  and its settings are asked for anew.\<close>

theorem plugin_cache_busts:
  assumes "extractPath address = Some (plugin_path pluginId)" and "\<not> truthy (map_of (pc_versions cache) (plugin_path pluginId))"
    and "version \<noteq> []"
  shows "locateWithCache address bust (registerPluginInCache (plugin_path pluginId) later
        (registerPluginInCache (plugin_path pluginId) version cache)) = address @ ''?_cache='' @ encodeURI version \<and>
    locateWithCache address bust (invalidatePluginInCache pluginId
        (registerPluginInCache (plugin_path pluginId) version cache)) = address @ ''?_cache='' @ bust \<and>
    getPluginInfo pluginId (invalidatePluginInCache pluginId (plugin_answered pluginId settings cache)) = None"
proof -
  let ?reg = "registerPluginInCache (plugin_path pluginId) version cache"
  have v: "map_of (pc_versions ?reg) (plugin_path pluginId) = Some (encodeURI version)"
    using assms(2) by (simp add: registerPluginInCache_def update_conv')
  then have t: "truthy (map_of (pc_versions ?reg) (plugin_path pluginId))"
    using encodeURI_nonempty[OF assms(3)] by (simp add: truthy_iff)
  then have "registerPluginInCache (plugin_path pluginId) later ?reg = ?reg"
    by (simp add: registerPluginInCache_def[of _ later])
  then have "locateWithCache address bust (registerPluginInCache (plugin_path pluginId) later ?reg) =
      address @ ''?_cache='' @ encodeURI version"
    using assms(1) v t by (simp add: locateWithCache_def or_str_def)
  moreover have "map_of (pc_versions (invalidatePluginInCache pluginId ?reg)) (plugin_path pluginId) = None"
    using t by (simp add: invalidatePluginInCache_def clearPluginSettingsCache_def formatPluginId_def delete_conv')
  then have "locateWithCache address bust (invalidatePluginInCache pluginId ?reg) = address @ ''?_cache='' @ bust"
    using assms(1) by (simp add: locateWithCache_def or_str_def)
  moreover have "getPluginInfo pluginId (invalidatePluginInCache pluginId (plugin_answered pluginId settings cache)) = None"
    by (simp add: getPluginInfo_def invalidatePluginInCache_def clearPluginSettingsCache_def formatPluginId_def delete_conv')
  ultimately show ?thesis by simp
qed

theorem plugin_cache_busts_witness:
  "locateWithCache ''http://h/public/plugins/topology/module.js'' ''17''
     (registerPluginInCache (plugin_path ''topology'') ''2.0'' (registerPluginInCache (plugin_path ''topology'') ''1.0''
       \<lparr>pc_versions = [], pc_info = [(''$x'', Some ())]\<rparr>)) = ''http://h/public/plugins/topology/module.js?_cache=1.0''"
proof -
  have "extractPath ''http://h/public/plugins/topology/module.js'' = Some (plugin_path ''topology'')" by code_simp
  from plugin_cache_busts[OF this, of "\<lparr>pc_versions = [], pc_info = [(''$x'', Some ())]\<rparr>" "''1.0''" "''17''" "''2.0''" None]
  show ?thesis by (simp add: encodeURI_def uri_char_def unreserved_def)
qed

section \<open>Durations, pies and requests\<close>

lemma take_unit_left: "0 \<le> snd st \<Longrightarrow> 0 < snd u \<Longrightarrow> 0 \<le> snd (take_unit st u)"
  by (simp add: take_unit_def Let_def)

definition parts_value :: "((string \<times> int) \<times> int) list \<Rightarrow> int" where
  "parts_value parts = sum_list (map (\<lambda>((_, size), n). n * size) parts)"

lemma take_unit_value:
  "parts_value (fst (take_unit st u)) + snd (take_unit st u) = parts_value (fst st) + snd st"
  by (cases u) (simp add: take_unit_def parts_value_def Let_def)

lemma foldl_take_unit_value:
  "parts_value (fst (foldl take_unit st us)) + snd (foldl take_unit st us) = parts_value (fst st) + snd st"
  by (induction us arbitrary: st) (simp_all add: take_unit_value)

text \<open>A duration is cut off, never rounded up: the parts shown and what is left out make up the
  whole, there are at most two, and nothing is left out where fewer are shown.\<close>

lemma duration_parts_sum:
  assumes "0 \<le> seconds"
  shows "parts_value (fst (duration_parts seconds)) + snd (duration_parts seconds) = seconds \<and>
    length (fst (duration_parts seconds)) \<le> 2 \<and>
    (length (fst (duration_parts seconds)) < 2 \<longrightarrow> snd (duration_parts seconds) = 0)"
proof -
  have len: "length (fst st) \<le> 2 \<Longrightarrow> length (fst (take_unit st u)) \<le> 2" for st u
    by (simp add: take_unit_def Let_def)
  have "parts_value (fst (duration_parts seconds)) + snd (duration_parts seconds) = seconds"
    unfolding duration_parts_def foldl_take_unit_value by (simp add: parts_value_def)
  moreover have "length (fst (duration_parts seconds)) \<le> 2"
    unfolding duration_parts_def duration_units_def by (simp add: len)
  moreover have "snd (take_unit st (''s'', 1)) = 0"
    if "length (fst (take_unit st (''s'', 1))) < 2" "0 \<le> snd st" for st
    using that by (auto simp: take_unit_def Let_def split: if_splits)
  then have "length (fst (duration_parts seconds)) < 2 \<longrightarrow> snd (duration_parts seconds) = 0"
    unfolding duration_parts_def duration_units_def using assms by (simp add: take_unit_left)
  ultimately show ?thesis by blast
qed

lemma chart_row_num: "s \<in> set series \<Longrightarrow> cell_num s (chart_row series p) = coalesce (map_of (cp_values p) s) 0"
proof -
  have "map_of (foldl (\<lambda>row s. AList.update s (CNum (f s)) row) row series) s =
      (if s \<in> set series then Some (CNum (f s)) else map_of row s)" for f row
    by (induction series arbitrary: row) (auto simp: update_conv')
  then show "s \<in> set series \<Longrightarrow> ?thesis" by (simp add: chart_row_def cell_num_def)
qed

lemma foldl_plus: "foldl (\<lambda>sum r. sum + f r) a rs = a + sum_list (map f rs)" for a :: rat
  by (induction rs arbitrary: a) (simp_all add: add.assoc)

lemma sum_list_sort_key: "sum_list (map f (sort_key k xs)) = sum_list (map f xs)" for f :: "'a \<Rightarrow> rat"
  by (metis mset_map mset_sort sum_mset_sum_list)

lemma take_drop_sum: "sum_list (map f (take n xs)) + sum_list (map f (drop n xs)) = sum_list (map f xs)" for f :: "'a \<Rightarrow> rat"
  by (metis append_take_drop_id map_append sum_list_append)

text \<open>A pie shows at most eight slices, largest first, and they add up to the whole series:
  what is not shown alone is in the slice of the rest.\<close>

theorem pieRows_whole:
  assumes "series \<in> set (rc_series chart)"
  shows "sum_list (map (cell_num series) (pieRows chart series)) =
      sum_list (map (\<lambda>p. coalesce (map_of (cp_values p) series) 0) (rc_points chart)) \<and>
    length (pieRows chart series) \<le> pieSlices + 1 \<and>
    sorted (map (\<lambda>r. - cell_num series r) (take pieSlices (pieRows chart series)))"
proof -
  let ?rows = "sort_key (\<lambda>r. - cell_num series r) (chartRows chart)"
  have total: "sum_list (map (cell_num series) ?rows) = sum_list (map (\<lambda>p. coalesce (map_of (cp_values p) series) 0) (rc_points chart))"
    using assms by (simp add: sum_list_sort_key chartRows_def comp_def chart_row_num)
  have srt: "sorted (map (\<lambda>r. - cell_num series r) (take pieSlices ?rows))"
    by (simp add: sorted_wrt_take flip: take_map)
  show ?thesis
  proof (cases "length ?rows \<le> pieSlices + 1")
    case True
    then have "pieRows chart series = ?rows" by (simp add: pieRows_def)
    then show ?thesis using total srt True by simp
  next
    case False
    let ?other = "foldl (\<lambda>sum r. sum + cell_num series r) 0 (drop pieSlices ?rows)"
    have rows: "pieRows chart series = take pieSlices ?rows @ [AList.update series (CNum ?other) [(''label'', CText ''Other'')]]"
      using False by (simp add: pieRows_def Let_def)
    have "cell_num series (AList.update series (CNum ?other) [(''label'', CText ''Other'')]) = ?other"
      by (simp add: cell_num_def update_conv')
    then show ?thesis
      using total srt False take_drop_sum[of "cell_num series" pieSlices ?rows] by (simp add: rows foldl_plus)
  qed
qed

theorem pieRows_whole_witness:
  "length (pieRows \<lparr>rc_series = [''n''], rc_points = map (\<lambda>i. \<lparr>cp_label = [], cp_values = [(''n'', of_nat i)]\<rparr>) [0..<10]\<rparr> ''n'') \<le> 8"
  using pieRows_whole[of "''n''" "\<lparr>rc_series = [''n''], rc_points = map (\<lambda>i. \<lparr>cp_label = [], cp_values = [(''n'', of_nat i)]\<rparr>) [0..<10]\<rparr>"]
  by (simp add: pieSlices_def)

definition tracker_ok :: "tracker \<Rightarrow> bool" where
  "tracker_ok t \<longleftrightarrow> sorted_wrt (<) (tk_delivered t) \<and> list_all (\<lambda>i. i \<le> tk_latest t) (tk_delivered t @ tk_pending t) \<and>
     set (tk_delivered t) \<inter> set (tk_pending t) = {}"

lemma tracker_ok_step: "tracker_ok t \<Longrightarrow> tracker_ok (track_step t e)"
proof (cases e)
  case Track
  assume ok: "tracker_ok t"
  then have "Suc (tk_latest t) \<notin> set (tk_delivered t)" "\<forall>i\<in>set (tk_delivered t) \<union> set (tk_pending t). i \<le> Suc (tk_latest t)"
    unfolding tracker_ok_def list_all_iff set_append by (metis UnI1 Suc_n_not_le_n, metis le_SucI)
  then show ?thesis using Track ok by (simp add: tracker_ok_def track_step_def list_all_iff)
next
  case (Settle mine)
  assume ok: "tracker_ok t"
  show ?thesis
  proof (cases "mine \<in> set (tk_pending t) \<and> mine = tk_latest t")
    case True
    have "i < mine" if "i \<in> set (tk_delivered t)" for i
      using ok True that by (metis Un_iff disjoint_iff le_neq_implies_less list_all_iff set_append tracker_ok_def)
    then show ?thesis using Settle True ok by (auto simp: tracker_ok_def track_step_def list_all_iff sorted_wrt_append)
  next
    case False
    then show ?thesis using Settle ok by (auto simp: tracker_ok_def track_step_def list_all_iff)
  qed
qed

lemma track_new:
  assumes "n \<le> tk_latest t"
  shows "n \<le> tk_latest (track_step t e) \<and>
    (\<exists>new. tk_delivered (track_step t e) = tk_delivered t @ new \<and> list_all (\<lambda>i. n \<le> i) new)"
  using assms by (cases e) (auto simp: track_step_def)

lemma tracks_new:
  assumes "n \<le> tk_latest t"
  shows "\<exists>new. tk_delivered (foldl track_step t es) = tk_delivered t @ new \<and> list_all (\<lambda>i. n \<le> i) new"
  using assms
proof (induction es arbitrary: t)
  case (Cons e es)
  from track_new[OF Cons.prems, of e] obtain new where
    "tk_delivered (track_step t e) = tk_delivered t @ new" "list_all (\<lambda>i. n \<le> i) new" "n \<le> tk_latest (track_step t e)" by blast
  with Cons.IH[of "track_step t e"] show ?case by auto
qed simp

text \<open>Of the requests tracked, the answers reach their callers in the order the requests were
  made, each at most once, and once a newer request has started no earlier one answers.\<close>

theorem latestOnly_order:
  "sorted_wrt (<) (tk_delivered (latestOnly events)) \<and>
   (\<exists>new. tk_delivered (latestOnly (events @ Track # later)) = tk_delivered (latestOnly events) @ new \<and>
      list_all (\<lambda>i. i > tk_latest (latestOnly events)) new)"
proof -
  let ?t = "latestOnly events"
  have "tracker_ok (foldl track_step t es)" if "tracker_ok t" for t es
    using that by (induction es arbitrary: t) (simp_all add: tracker_ok_step)
  then have "tracker_ok ?t" unfolding latestOnly_def by (simp add: tracker_ok_def)
  moreover have "\<exists>new. tk_delivered (foldl track_step (track_step ?t Track) later) = tk_delivered (track_step ?t Track) @ new \<and>
      list_all (\<lambda>i. tk_latest ?t + 1 \<le> i) new"
    by (rule tracks_new) (simp add: track_step_def)
  moreover have "latestOnly (events @ Track # later) = foldl track_step (track_step ?t Track) later"
    by (simp add: latestOnly_def)
  moreover have "tk_delivered (track_step ?t Track) = tk_delivered ?t" by (simp add: track_step_def)
  ultimately show ?thesis by (auto simp: tracker_ok_def Suc_le_eq)
qed

section \<open>A table written is the table read\<close>

text \<open>The format as RFC 4180 and the usual spreadsheets read it, to state what is written against: a cell in
  quotes, where two quotes stand for one, or up to the next comma or line break, where a line break is
  a line feed, a carriage return or both.\<close>

definition carriage_return :: char where "carriage_return = CHR 0x0D"

fun read_quoted :: "string \<Rightarrow> string \<times> string" where
  "read_quoted [] = ([], [])"
| "read_quoted (c # s) =
     (if c \<noteq> csv_quote then (case read_quoted s of (v, r) \<Rightarrow> (c # v, r))
      else case s of
             d # s' \<Rightarrow> if d = csv_quote then (case read_quoted s' of (v, r) \<Rightarrow> (csv_quote # v, r)) else ([], s)
           | [] \<Rightarrow> ([], []))"

definition ends_cell :: "char \<Rightarrow> bool" where
  "ends_cell c \<longleftrightarrow> c = CHR '','' \<or> c = line_feed \<or> c = carriage_return"

definition after_break :: "char \<Rightarrow> string \<Rightarrow> string" where
  "after_break d r = (if d = carriage_return \<and> r \<noteq> [] \<and> hd r = line_feed then tl r else r)"

definition read_cell :: "string \<Rightarrow> string \<times> string" where
  "read_cell s =
     (case s of
        [] \<Rightarrow> ([], [])
      | c # r \<Rightarrow> if c = csv_quote then read_quoted r
                 else (takeWhile (\<lambda>c. \<not> ends_cell c) s, dropWhile (\<lambda>c. \<not> ends_cell c) s))"

lemma read_quoted_shorter: "length (snd (read_quoted s)) \<le> length s"
proof (induction s rule: read_quoted.induct)
  case (2 c s)
  show ?case
  proof (cases "c = csv_quote")
    case True
    show ?thesis
    proof (cases s)
      case (Cons d s')
      then show ?thesis using 2(2)[of d s'] True by (cases "d = csv_quote") (simp_all add: split_beta)
    qed (simp add: True)
  qed (use 2(1) in \<open>simp add: split_beta\<close>)
qed simp

lemma read_cell_shorter: "length (snd (read_cell s)) \<le> length s"
  using read_quoted_shorter[of "tl s"] length_dropWhile_le[of "\<lambda>c. \<not> ends_cell c" s]
  by (cases s) (auto simp: read_cell_def)

lemma read_cell_rest: "(v, d # r) = read_cell s \<Longrightarrow> length r < length s"
  using read_cell_shorter[of s] by (metis Suc_le_eq length_Cons snd_conv)

lemma after_break_shorter: "length (after_break d r) \<le> length r"
  by (simp add: after_break_def)

function read_rows :: "string list \<Rightarrow> string \<Rightarrow> string list list" where
  "read_rows row s =
     (if s = [] then []
      else case read_cell s of
             (v, []) \<Rightarrow> [row @ [v]]
           | (v, d # r) \<Rightarrow> if d = line_feed \<or> d = carriage_return then (row @ [v]) # read_rows [] (after_break d r)
                           else read_rows (row @ [v]) r)"
  by pat_completeness auto
termination
  by (relation "measure (\<lambda>(row, s). length s)") (auto dest!: read_cell_rest intro: le_less_trans[OF after_break_shorter])

declare read_rows.simps [simp del]

definition cell_text :: "json option \<Rightarrow> string" where
  "cell_text v = (case v of None \<Rightarrow> [] | Some j \<Rightarrow> if j = JNull then [] else js_String j)"

text \<open>A value that holds a carriage return is quoted only where it holds a comma, a quote or a line feed
  too.\<close>

definition break_quoted :: "json option \<Rightarrow> bool" where
  "break_quoted v \<longleftrightarrow> (carriage_return \<in> set (cell_text v) \<longrightarrow>
     list_ex (\<lambda>c. c = csv_quote \<or> c = CHR '','' \<or> c = line_feed) (cell_text v))"

lemma read_quoted_escaped:
  assumes "d \<noteq> csv_quote"
  shows "read_quoted (concat (map (\<lambda>c. if c = csv_quote then [csv_quote, csv_quote] else [c]) s) @ csv_quote # d # r) = (s, d # r)"
  using assms by (induction s) auto

lemma quote_no_end: "\<not> ends_cell csv_quote"
  by code_simp

lemma read_cell_printed:
  assumes "ends_cell d" and "break_quoted v"
  shows "read_cell (csv_cell v @ d # r) = (cell_text v, d # r)"
proof -
  have d: "d \<noteq> csv_quote" using assms(1) quote_no_end by blast
  let ?s = "cell_text v"
  show ?thesis
  proof (cases "list_ex (\<lambda>c. c = csv_quote \<or> c = CHR '','' \<or> c = line_feed) ?s")
    case True
    then have "csv_cell v = [csv_quote] @ concat (map (\<lambda>c. if c = csv_quote then [csv_quote, csv_quote] else [c]) ?s) @ [csv_quote]"
      by (simp add: csv_cell_def cell_text_def)
    then show ?thesis using read_quoted_escaped[OF d, of ?s r] by (simp add: read_cell_def)
  next
    case False
    then have c: "csv_cell v = ?s" by (simp add: csv_cell_def cell_text_def)
    have free: "\<forall>c\<in>set ?s. \<not> ends_cell c" "csv_quote \<notin> set ?s" using False assms(2) by (auto simp: list_ex_iff ends_cell_def break_quoted_def)
    have "takeWhile (\<lambda>c. \<not> ends_cell c) (?s @ d # r) = ?s" "dropWhile (\<lambda>c. \<not> ends_cell c) (?s @ d # r) = d # r"
      using free(1) assms(1) by (simp_all add: takeWhile_append dropWhile_append3)
    then show ?thesis using free d by (cases ?s) (auto simp: c read_cell_def)
  qed
qed

lemma read_row_printed:
  "vs \<noteq> [] \<Longrightarrow> list_all break_quoted vs \<Longrightarrow> read_rows row (join_with '','' (map csv_cell vs) @ line_feed # r) = (row @ map cell_text vs) # read_rows [] r"
proof (induction vs arbitrary: row)
  case (Cons v vs)
  have nl: "ends_cell line_feed" "ends_cell CHR '',''" "CHR '','' \<noteq> line_feed" "CHR '','' \<noteq> carriage_return" "line_feed \<noteq> carriage_return"
    by code_simp+
  have v: "break_quoted v" using Cons.prems by simp
  show ?case
  proof (cases vs)
    case Nil
    then show ?thesis using read_cell_printed[OF nl(1) v, of r] nl(5) by (simp add: read_rows.simps[of row] after_break_def)
  next
    case (Cons w ws)
    let ?rest = "join_with '','' (map csv_cell vs) @ line_feed # r"
    have split: "join_with '','' (map csv_cell (v # vs)) @ line_feed # r = csv_cell v @ CHR '','' # ?rest" using Cons by simp
    have "read_rows row (csv_cell v @ CHR '','' # ?rest) = read_rows (row @ [cell_text v]) ?rest"
      using read_cell_printed[OF nl(2) v, of ?rest] nl(3,4) by (simp add: read_rows.simps[of row])
    then show ?thesis unfolding split using Cons.IH Cons.prems Cons by simp
  qed
qed simp

lemma read_lines_printed:
  "list_all (\<lambda>vs. vs \<noteq> [] \<and> list_all break_quoted vs) rows \<Longrightarrow> rows \<noteq> [] \<Longrightarrow>
   read_rows [] (join_with [line_feed] (map (\<lambda>vs. join_with '','' (map csv_cell vs)) rows) @ [line_feed]) = map (map cell_text) rows"
proof (induction rows)
  case (Cons vs rows)
  show ?case
  proof (cases rows)
    case Nil
    then show ?thesis using Cons.prems read_row_printed[of vs "[]" "[]"] by (simp add: read_rows.simps[of "[]" "[]"])
  next
    case (Cons ws more)
    then show ?thesis using Cons.IH Cons.prems read_row_printed[of vs "[]"] by simp
  qed
qed simp

text \<open>C25: a report written as CSV and read back, line breaks of every kind ending a row, is the report: its
  titles, then the text of every cell, whatever commas, quotes and line feeds they hold; where no title
  or cell has a carriage return and neither comma, quote nor line feed, and there is a column.\<close>

theorem toCSV_roundtrip:
  assumes "columns \<noteq> []" and "\<forall>c\<in>set columns. break_quoted (Some (JStr (cc_title c))) \<and> (\<forall>r\<in>set rows. break_quoted (map_of r (cc_key c)))"
  shows "read_rows [] (toCSV columns rows) =
    map cc_title columns # map (\<lambda>r. map (\<lambda>c. cell_text (map_of r (cc_key c))) columns) rows"
proof -
  let ?cells = "map (\<lambda>c. Some (JStr (cc_title c))) columns # map (\<lambda>r. map (\<lambda>c. map_of r (cc_key c)) columns) rows"
  have "toCSV columns rows = join_with [line_feed] (map (\<lambda>vs. join_with '','' (map csv_cell vs)) ?cells) @ [line_feed]"
    by (simp add: toCSV_def comp_def)
  moreover have "list_all (\<lambda>vs. vs \<noteq> [] \<and> list_all break_quoted vs) ?cells" using assms by (simp add: list_all_iff)
  ultimately show ?thesis using read_lines_printed[of ?cells] by (simp add: cell_text_def comp_def)
qed

theorem toCSV_roundtrip_witness:
  "read_rows [] (toCSV [\<lparr>cc_key = ''a'', cc_title = ''A, B''\<rparr>] [[(''a'', JStr ''x'')]]) = [[''A, B''], [''x'']]"
proof -
  have "break_quoted (Some (JStr ''A, B''))" "break_quoted (Some (JStr ''x''))" by code_simp+
  then show ?thesis
    using toCSV_roundtrip[of "[\<lparr>cc_key = ''a'', cc_title = ''A, B''\<rparr>]" "[[(''a'', JStr ''x'')]]"] by (simp add: cell_text_def)
qed

text \<open>A carriage return alone is a line break that is not quoted, and splits its row.\<close>

lemma cr_not_quoted:
  "csv_cell (Some (JStr [CHR ''a'', carriage_return, CHR ''b''])) = [CHR ''a'', carriage_return, CHR ''b''] \<and>
   read_rows [] (toCSV [\<lparr>cc_key = ''k'', cc_title = ''K''\<rparr>] [[(''k'', JStr [CHR ''a'', carriage_return, CHR ''b''])]]) = [[''K''], [''a''], [''b'']]"
  by code_simp

end
