(* ===== verification/Resource_Utils.thy ===== *)
theory Resource_Utils
  imports Definition_Utils Complex_Main
begin

text \<open>
  Helpers the pages share: quantities, component types, links (\<open>utils/utils.ts\<close>), paths,
  names, lists and ages (\<open>utils/common.ts\<close>), a component's properties as rows
  (\<open>components/RowList/properties.ts\<close>), restarts (\<open>utils/reconciliation.ts\<close>), locked
  parameters (\<open>utils/immutable.ts\<close>) and what a reader took from a source
  (\<open>utils/sourceStatus.ts\<close>). JavaScript's \<open>Number\<close> and \<open>BigInt\<close> of a
  text are arguments, \<open>None\<close> where they give no number; so are the clock and dates.
\<close>

section \<open>Quantities\<close>

definition quantity_char :: "char \<Rightarrow> bool" where
  "quantity_char c \<longleftrightarrow> c = CHR ''.'' \<or> (let n = of_char c :: nat in 48 \<le> n \<and> n \<le> 57)"

definition findSuffix :: "string \<Rightarrow> string" where
  "findSuffix quantity =
     (if list_ex quantity_char quantity then rev (takeWhile (\<lambda>c. \<not> quantity_char c) (rev quantity)) else [])"

datatype quantity = QNumber rat | QNaN | QBigInt int

datatype quantity_error = UnknownQuantity string | UnknownSuffix string | NotAnInteger string

definition binary_factor :: "string \<Rightarrow> int option" where
  "binary_factor suf =
     map_of [(''Ki'', 2 ^ 10), (''Mi'', 2 ^ 20), (''Gi'', 2 ^ 30), (''Ti'', 2 ^ 40), (''Pi'', 2 ^ 50), (''Ei'', 2 ^ 60)] suf"

definition quotient :: "rat option \<Rightarrow> rat \<Rightarrow> quantity" where
  "quotient n d = (case n of None \<Rightarrow> QNaN | Some x \<Rightarrow> QNumber (x / d))"

definition quantityToScalar ::
  "(string \<Rightarrow> rat option) \<Rightarrow> (string \<Rightarrow> int option) \<Rightarrow> string \<Rightarrow> quantity_error + quantity" where
  "quantityToScalar number bigint quantity =
     (if quantity = [] then Inr (QNumber 0)
      else let suf = findSuffix quantity;
               cut = (\<lambda>n. take (length quantity - n) quantity)
           in if suf = [] then (case number quantity of None \<Rightarrow> Inl (UnknownQuantity quantity) | Some x \<Rightarrow> Inr (QNumber x))
              else if suf = ''n'' then Inr (quotient (number (cut 1)) 100000000)
              else if suf = ''m'' then Inr (quotient (number (cut 1)) 1000)
              else case binary_factor suf of
                     None \<Rightarrow> Inl (UnknownSuffix suf)
                   | Some f \<Rightarrow> (case bigint (cut 2) of None \<Rightarrow> Inl (NotAnInteger (cut 2)) | Some x \<Rightarrow> Inr (QBigInt (x * f))))"

section \<open>Component types and links\<close>

record definition_base =
  db_name :: string
  db_workloadType :: "string option"
  db_unusableIn :: "string list option"

record select_group =
  sg_label :: string
  sg_children :: "(string \<times> string) list"

definition core_types :: "string list" where
  "core_types = [''k8s-objects'', ''task'', ''webservice'', ''worker'']"

definition type_group :: "definition_base \<Rightarrow> string" where
  "type_group d =
     (if db_workloadType d = Some ''configurations.terraform.core.oam.dev'' then ''Cloud''
      else if db_name d \<in> set core_types then ''Core'' else ''Custom'')"

definition transComponentDefinitions :: "definition_base list option \<Rightarrow> select_group list" where
  "transComponentDefinitions definitions =
     (let usable = filter (\<lambda>d. isUsable (db_unusableIn d)) (or_nil definitions);
          group_of = (\<lambda>label. \<lparr>sg_label = label, sg_children = map (\<lambda>d. (db_name d, db_name d))
                                 (filter (\<lambda>d. type_group d = label) usable)\<rparr>)
      in filter (\<lambda>g. sg_children g \<noteq> []) [group_of ''Core'', group_of ''Custom'', group_of ''Cloud''])"

record endpoint =
  ep_appProtocol :: "string option"
  ep_host :: string
  ep_port :: "int option"
  ep_protocol :: "string option"
  ep_path :: "string option"

definition getLink :: "endpoint \<Rightarrow> string" where
  "getLink e =
     (let protocol = to_lower (coalesce (ep_protocol e) []);
          protocol = (if truthy (ep_appProtocol e) then the (ep_appProtocol e) else protocol);
          protocol = (if protocol = ''tcp'' then ''http'' else protocol);
          path = coalesce (ep_path e) []
      in if ep_host e = [] then path
         else let path = (if path = ''/'' then [] else path);
                  port = (if protocol = ''https'' \<and> ep_port e = Some 443 \<or> protocol = ''http'' \<and> ep_port e = Some 80 then []
                          else '':'' @ (case ep_port e of None \<Rightarrow> ''undefined'' | Some p \<Rightarrow> int_str p))
              in protocol @ ''://'' @ ep_host e @ port @ path)"

definition getSelectLabel :: "(string \<times> string option) list option \<Rightarrow> (string \<times> string) list" where
  "getSelectLabel data = map (\<lambda>(name, alias). (or_str alias name, name)) (or_nil data)"

section \<open>Paths and names\<close>

definition isApplicationPath :: "string option \<Rightarrow> bool" where
  "isApplicationPath pathname = starts_with (or_str pathname []) ''/applications''"

definition isClustersPath :: "string option \<Rightarrow> bool" where
  "isClustersPath pathname = starts_with (or_str pathname []) ''/clusters''"

definition isAddonsPath :: "string option \<Rightarrow> bool" where
  "isAddonsPath pathname = starts_with (or_str pathname []) ''/addons''"

definition isTargetURL :: "string option \<Rightarrow> bool" where
  "isTargetURL pathname = starts_with (or_str pathname []) ''/targets''"

definition isEnvPath :: "string option \<Rightarrow> bool" where
  "isEnvPath pathname = starts_with (or_str pathname []) ''/envs''"

text \<open>The pattern \<open>^/projects/.*./pipelines.*\<close>: at least one character between, none of
  them a line break.\<close>

definition project_pipelines :: "string \<Rightarrow> bool" where
  "project_pipelines s \<longleftrightarrow> starts_with s ''/projects/'' \<and>
     (let line = takeWhile (\<lambda>c. c \<noteq> CHR 0x0A \<and> c \<noteq> CHR 0x0D) (drop 10 s)
      in list_ex (\<lambda>k. starts_with (drop k line) ''/pipelines'') [1..<length line])"

definition isPipelinePath :: "string option \<Rightarrow> bool" where
  "isPipelinePath pathname \<longleftrightarrow>
     starts_with (or_str pathname []) ''/pipelines'' \<or> project_pipelines (coalesce pathname ''undefined'')"

definition isProjectPath :: "string option \<Rightarrow> bool" where
  "isProjectPath pathname \<longleftrightarrow>
     \<not> project_pipelines (coalesce pathname ''undefined'') \<and> starts_with (or_str pathname []) ''/projects''"

definition isConfigPath :: "string option \<Rightarrow> bool" where
  "isConfigPath pathname = starts_with (or_str pathname []) ''/config''"

definition isOperationPath :: "string option \<Rightarrow> bool" where
  "isOperationPath pathname = starts_with (or_str pathname []) ''/operation''"

definition isModelPath :: "string option \<Rightarrow> bool" where
  "isModelPath pathname = starts_with (or_str pathname []) ''/model''"

definition isAPPStorePath :: "string option \<Rightarrow> bool" where
  "isAPPStorePath pathname = starts_with (or_str pathname []) ''/appstores''"

definition isUsersPath :: "string option \<Rightarrow> bool" where
  "isUsersPath pathname = starts_with (or_str pathname []) ''/users''"

definition isRolesPath :: "string option \<Rightarrow> bool" where
  "isRolesPath pathname = starts_with (or_str pathname []) ''/roles''"

definition isDefinitionsPath :: "string option \<Rightarrow> bool" where
  "isDefinitionsPath pathname = starts_with (or_str pathname []) ''/definitions''"

definition equalArray :: "string list option \<Rightarrow> string list option \<Rightarrow> bool" where
  "equalArray a b \<longleftrightarrow>
     (case (a, b) of
        (None, None) \<Rightarrow> True
      | (Some a, Some b) \<Rightarrow>
          length a = length b \<and> list_all (\<lambda>i. sort a ! i = sort b ! i) [0..<length a]
      | _ \<Rightarrow> False)"

definition intersectionArray :: "string list option \<Rightarrow> string list option \<Rightarrow> string list option" where
  "intersectionArray a b = (case (a, b) of (Some a, Some b) \<Rightarrow> Some (filter (\<lambda>v. v \<in> set b) a) | _ \<Rightarrow> None)"

definition checkEnabledAddon :: "string \<Rightarrow> string list option \<Rightarrow> bool" where
  "checkEnabledAddon addonName enabled = (case enabled of None \<Rightarrow> False | Some names \<Rightarrow> addonName \<in> set names)"

definition showAlias :: "string \<Rightarrow> string option \<Rightarrow> string" where
  "showAlias name alias = (if truthy alias then name @ ''('' @ the alias @ '')'' else name)"

section \<open>The names a form accepts\<close>

definition lower_alnum :: "char \<Rightarrow> bool" where
  "lower_alnum c \<longleftrightarrow> (let n = of_char c :: nat in 97 \<le> n \<and> n \<le> 122 \<or> 48 \<le> n \<and> n \<le> 57)"

definition lower_letter :: "char \<Rightarrow> bool" where
  "lower_letter c \<longleftrightarrow> (let n = of_char c :: nat in 97 \<le> n \<and> n \<le> 122)"

definition label_char :: "char \<Rightarrow> bool" where
  "label_char c \<longleftrightarrow> lower_alnum c \<or> c = CHR ''-''"

text \<open>A part \<open>first([-a-z0-9]*[a-z0-9])?\<close>: what may start it, then letters, digits and dashes, not
  a dash last.\<close>

definition name_label :: "(char \<Rightarrow> bool) \<Rightarrow> string \<Rightarrow> bool" where
  "name_label first s \<longleftrightarrow> s \<noteq> [] \<and> first (hd s) \<and> list_all label_char s \<and> lower_alnum (last s)"

text \<open>The pattern writes a dot between the parts as \<open>\\.\<close>, which in a regular expression literal is a
  backslash and then any character but a line break.\<close>

definition backslash :: char where "backslash = CHR 0x5C"

definition line_break :: "char \<Rightarrow> bool" where
  "line_break c \<longleftrightarrow> c = CHR 0x0A \<or> c = CHR 0x0D"

function name_parts :: "(char \<Rightarrow> bool) \<Rightarrow> string \<Rightarrow> bool" where
  "name_parts first s \<longleftrightarrow>
     (let part = takeWhile label_char s
      in name_label first part \<and>
         (case dropWhile label_char s of
            [] \<Rightarrow> True
          | [b] \<Rightarrow> False
          | b # c # rest \<Rightarrow> b = backslash \<and> \<not> line_break c \<and> name_parts lower_alnum rest))"
  by pat_completeness auto
termination
proof (relation "measure (\<lambda>(first, s). length s)")
  fix first :: "char \<Rightarrow> bool" and s part b cs c rest
  assume "dropWhile label_char s = b # cs" and "cs = (c # rest :: string)"
  then have "length (b # c # rest) \<le> length s" by (metis length_dropWhile_le)
  then show "((lower_alnum, rest), first, s) \<in> measure (\<lambda>(first, s). length s)" by simp
qed simp

declare name_parts.simps [simp del]

definition checkName :: "string \<Rightarrow> bool" where
  "checkName s = name_parts lower_letter s"

text \<open>An age: the seconds between a time and now, in the largest unit that fits.\<close>

definition age_units :: "(string \<times> int) list" where
  "age_units = [(''year'', 31536000), (''month'', 2592000), (''week'', 604800), (''day'', 86400), (''hour'', 3600),
     (''minute'', 60), (''second'', 1)]"

definition beautifyTime :: "(string \<Rightarrow> int) \<Rightarrow> int \<Rightarrow> string option \<Rightarrow> string" where
  "beautifyTime unix now time =
     (if \<not> truthy time \<or> time = Some ''0001-01-01T00:00:00Z'' then []
      else let mistiming = now - unix (the time);
               postfix = (if mistiming > 0 then ''ago'' else ''later'');
               gap = \<bar>mistiming\<bar>
           in case find (\<lambda>(_, secs). gap div secs \<noteq> 0) age_units of
                None \<Rightarrow> []
              | Some (unit, secs) \<Rightarrow>
                  int_str (gap div secs) @ '' '' @ unit @ (if gap div secs = 1 then [] else ''s'') @ '' '' @ postfix)"

section \<open>Properties as rows\<close>

definition scalar :: "json \<Rightarrow> bool" where
  "scalar v = (case v of JArr _ \<Rightarrow> False | JObj _ \<Rightarrow> False | _ \<Rightarrow> True)"

fun scalar_text :: "json \<Rightarrow> string" where
  "scalar_text (JBool b) = (if b then ''true'' else ''false'')"
| "scalar_text (JInt i) = int_str i"
| "scalar_text (JDec s) = s"
| "scalar_text (JStr s) = s"
| "scalar_text _ = []"

function flattenProperties :: "json \<Rightarrow> string \<Rightarrow> (string \<times> string) list" where
  "flattenProperties JNull pre = []"
| "flattenProperties (JArr vs) pre =
     (if list_all scalar vs then [(pre, join_with '', '' (map scalar_text vs))]
      else if length vs \<le> 5
      then concat (map (\<lambda>(i, v). flattenProperties v (pre @ ''['' @ nat_str i @ '']'')) (zip [0..<length vs] vs))
      else [(pre, nat_str (length vs) @ '' items'')])"
| "flattenProperties (JObj kvs) pre =
     concat (map (\<lambda>(k, v). flattenProperties v (if pre \<noteq> [] then pre @ ''.'' @ k else k)) kvs)"
| "flattenProperties (JBool b) pre = [(pre, scalar_text (JBool b))]"
| "flattenProperties (JInt i) pre = [(pre, scalar_text (JInt i))]"
| "flattenProperties (JDec s) pre = [(pre, scalar_text (JDec s))]"
| "flattenProperties (JStr s) pre = [(pre, scalar_text (JStr s))]"
  by pat_completeness auto
termination
proof (relation "measure (\<lambda>(v, _). size v)", goal_cases)
  case (2 vs pre z x y)
  then have "y \<in> set vs" by (auto dest: set_zip_rightD)
  then show ?case by (auto intro!: le_imp_less_Suc size_list_estimation')
next
  case (3 kvs pre z x y)
  then have "(x, y) \<in> set kvs" by simp
  then have "size_prod (\<lambda>_. 0) size (x, y) \<le> size_list (size_prod (\<lambda>_. 0) size) kvs"
    by (rule size_list_estimation') simp
  then show ?case by (simp add: less_Suc_eq_le)
qed simp

section \<open>Restarts and locks\<close>

datatype restart_mode = RNone | RNow | ROnce | REvery

record restart_plan =
  rp_mode :: restart_mode
  rp_every :: "string option"
  rp_next :: "int option"

text \<open>A date is its milliseconds; reading one from text is an argument.\<close>

definition date_of :: "(string \<Rightarrow> int option) \<Rightarrow> string option \<Rightarrow> int option" where
  "date_of parse value = (if truthy value then parse (the value) else None)"

definition restartPlan :: "(string \<Rightarrow> int option) \<Rightarrow> string option \<Rightarrow> string option \<Rightarrow> restart_plan" where
  "restartPlan parse annotation scheduledAt =
     (if \<not> truthy annotation then
        (case date_of parse scheduledAt of
           Some t \<Rightarrow> \<lparr>rp_mode = ROnce, rp_every = None, rp_next = Some t\<rparr>
         | None \<Rightarrow> \<lparr>rp_mode = RNone, rp_every = None, rp_next = None\<rparr>)
      else if annotation = Some ''true'' then \<lparr>rp_mode = RNow, rp_every = None, rp_next = None\<rparr>
      else case date_of parse annotation of
             Some t \<Rightarrow> \<lparr>rp_mode = ROnce, rp_every = None, rp_next = Some (coalesce (date_of parse scheduledAt) t)\<rparr>
           | None \<Rightarrow> \<lparr>rp_mode = REvery, rp_every = annotation, rp_next = date_of parse scheduledAt\<rparr>)"

definition immutableLocked :: "bool \<Rightarrow> string \<Rightarrow> string \<Rightarrow> bool option \<Rightarrow> (string, json) js_map option \<Rightarrow> bool" where
  "immutableLocked immutable jsonKey mode deployed stored =
     (if \<not> immutable \<or> mode \<noteq> ''edit'' \<or> deployed = Some False then False
      else case map_of (or_nil stored) jsonKey of None \<Rightarrow> False | Some v \<Rightarrow> v \<noteq> JNull \<and> v \<noteq> JStr [])"

definition generatedStepProperties :: "string list option \<Rightarrow> (string option \<times> string option) option \<Rightarrow> string option" where
  "generatedStepProperties steps step =
     (case step of
        None \<Rightarrow> None
      | Some (name, type) \<Rightarrow>
          if \<not> truthy name \<or> type \<noteq> Some ''apply-component'' \<or> or_nil steps \<noteq> [] then None else name)"

section \<open>Properties\<close>

lemma sort_mset: "sort xs = sort ys \<longleftrightarrow> mset xs = mset ys" for xs :: "string list"
  by (metis mset_sort properties_for_sort sorted_sort)

text \<open>Two lists compare equal exactly when both are missing or both hold the same values the
  same number of times, in whatever order.\<close>

theorem equalArray_iff:
  "equalArray a b \<longleftrightarrow> (a = None \<and> b = None) \<or> (\<exists>xs ys. a = Some xs \<and> b = Some ys \<and> mset xs = mset ys)"
proof (cases a; cases b)
  fix xs ys
  assume ab: "a = Some xs" "b = Some ys"
  have "equalArray a b \<longleftrightarrow> length xs = length ys \<and> (\<forall>i<length xs. sort xs ! i = sort ys ! i)"
    unfolding ab equalArray_def by (auto simp: list_all_iff)
  also have "\<dots> \<longleftrightarrow> sort xs = sort ys" using nth_equalityI[of "sort xs" "sort ys"] by (metis length_sort)
  finally show ?thesis using ab sort_mset by simp
qed (auto simp: equalArray_def)

lemma starts_with_nth: "starts_with s p \<Longrightarrow> i < length p \<Longrightarrow> s ! i = p ! i"
  by (metis nth_take starts_with_def)

text \<open>A path is not both a project's and a pipeline's.\<close>

lemma project_or_pipeline: "\<not> (isProjectPath p \<and> isPipelinePath p)"
proof -
  have "\<not> (starts_with s ''/projects'' \<and> starts_with s ''/pipelines'')" for s
  proof
    assume "starts_with s ''/projects'' \<and> starts_with s ''/pipelines''"
    then show False using starts_with_nth[of s "''/projects''" 2] starts_with_nth[of s "''/pipelines''" 2] by simp
  qed
  then show ?thesis by (auto simp: isProjectPath_def isPipelinePath_def)
qed

text \<open>The types a picker offers are the usable ones, each in one group, and no group is
  empty.\<close>

theorem transComponentDefinitions_exact:
  "mset (concat (map (\<lambda>g. map fst (sg_children g)) (transComponentDefinitions definitions))) =
     mset (map db_name (filter (\<lambda>d. isUsable (db_unusableIn d)) (or_nil definitions))) \<and>
   list_all (\<lambda>g. sg_children g \<noteq> []) (transComponentDefinitions definitions)"
proof -
  let ?us = "filter (\<lambda>d. isUsable (db_unusableIn d)) (or_nil definitions)"
  let ?g = "\<lambda>label. \<lparr>sg_label = label, sg_children = map (\<lambda>d. (db_name d, db_name d)) (filter (\<lambda>d. type_group d = label) ?us)\<rparr>"
  have three: "type_group d = ''Core'' \<or> type_group d = ''Custom'' \<or> type_group d = ''Cloud''" for d
    by (simp add: type_group_def)
  have parts: "mset (map db_name (filter (\<lambda>d. type_group d = ''Core'') us) @ map db_name (filter (\<lambda>d. type_group d = ''Custom'') us) @
      map db_name (filter (\<lambda>d. type_group d = ''Cloud'') us)) = mset (map db_name us)" for us
    using three by (induction us) auto
  have drop: "concat (map f (filter (\<lambda>g. sg_children g \<noteq> []) gs)) = concat (map f gs)"
    if "\<And>g. sg_children g = [] \<Longrightarrow> f g = []" for f :: "select_group \<Rightarrow> string list" and gs
    using that by (induction gs) auto
  have "concat (map (\<lambda>g. map fst (sg_children g)) (transComponentDefinitions definitions)) =
      concat (map (\<lambda>g. map fst (sg_children g)) [?g ''Core'', ?g ''Custom'', ?g ''Cloud''])"
    unfolding transComponentDefinitions_def Let_def by (rule drop) simp
  then show ?thesis
    using parts[of ?us] by (simp add: transComponentDefinitions_def Let_def list_all_iff comp_def)
qed

text \<open>Kubernetes' suffix \<open>n\<close> is a billionth; the conversion divides by a hundred million. A
  quantity with a fraction and a binary suffix, such as one and a half gibibytes, throws, as
  \<open>BigInt\<close> reads integers only.\<close>

lemma nano_off_by_ten:
  assumes "number ''1000000000'' = Some 1000000000"
  shows "quantityToScalar number bigint ''1000000000n'' = Inr (QNumber 10)"
proof -
  have "findSuffix ''1000000000n'' = ''n''" by code_simp
  then show ?thesis using assms by (simp add: quantityToScalar_def quotient_def)
qed

lemma fraction_throws:
  assumes "bigint ''1.5'' = None"
  shows "quantityToScalar number bigint ''1.5Gi'' = Inl (NotAnInteger ''1.5'')"
proof -
  have "findSuffix ''1.5Gi'' = ''Gi''" "binary_factor ''Gi'' = Some (2 ^ 30)" by code_simp+
  then show ?thesis using assms by (simp add: quantityToScalar_def)
qed

lemma findSuffix_split: "list_ex quantity_char q \<Longrightarrow> \<exists>n. q = n @ findSuffix q \<and> n \<noteq> [] \<and> quantity_char (last n) \<and> list_all (\<lambda>c. \<not> quantity_char c) (findSuffix q)"
proof -
  assume ex: "list_ex quantity_char q"
  let ?p = "\<lambda>c. \<not> quantity_char c"
  have ne: "dropWhile ?p (rev q) \<noteq> []" using ex by (auto simp: list_ex_iff dropWhile_eq_Nil_conv)
  have "rev q = takeWhile ?p (rev q) @ dropWhile ?p (rev q)" by simp
  then have "q = rev (dropWhile ?p (rev q)) @ findSuffix q"
    using ex by (metis findSuffix_def rev_append rev_rev_ident)
  moreover have "quantity_char (last (rev (dropWhile ?p (rev q))))" using hd_dropWhile[OF ne] ne by (simp add: last_rev)
  moreover have "list_all ?p (findSuffix q)" using ex by (auto simp: findSuffix_def list_all_iff dest: set_takeWhileD)
  ultimately show ?thesis using ne by (intro exI[of _ "rev (dropWhile ?p (rev q))"]) simp
qed

text \<open>Where no backslash is written the pattern accepts one part, the name of a Kubernetes object
  that starts with a letter; a dotted name, which the pattern's second group is meant for, is
  refused, and one with a backslash and any character is taken instead.\<close>

lemma checkName_plain:
  assumes "backslash \<notin> set s"
  shows "checkName s \<longleftrightarrow> name_label lower_letter s"
proof (cases "dropWhile label_char s")
  case Nil
  then have "takeWhile label_char s = s" by (metis append_Nil2 takeWhile_dropWhile_id)
  then show ?thesis unfolding checkName_def name_parts.simps[of _ s] Let_def Nil by (simp only: list.case simp_thms)
next
  case (Cons b rest)
  then have "b \<in> set s" "\<not> label_char b" by (metis list.set_intros(1) set_dropWhileD, metis hd_dropWhile list.distinct(1) list.sel(1))
  then have "b \<noteq> backslash" "\<not> name_label lower_letter s" using assms by (auto simp: name_label_def list_all_iff)
  then show ?thesis using Cons by (simp add: checkName_def name_parts.simps[of _ s] Let_def split: list.splits)
qed

lemma checkName_dot: "\<not> checkName ''web.example'' \<and> checkName (''web'' @ [backslash] @ ''Xexample'')"
  by code_simp

end
