(* ===== verification/Search_Forms.thy ===== *)
theory Search_Forms
  imports Url_Query Definition_Utils Run_Loops Complex_Main "HOL-Library.Product_Lexorder"
begin

text \<open>
  Finding and filing: the quick search (\<open>components/QuickSearch/search.ts\<close>), the filters of
  packages and shared workflows (\<open>pages/Packages/packages.ts\<close>,
  \<open>utils/sharedWorkflows.ts\<close>), the templates of configs (\<open>pages/Configs/templates.ts\<close>),
  the new service form (\<open>pages/ApplicationList/components/NewServiceDialog/request.ts\<close>) and
  definition modules (\<open>pages/DefKitModules/defkit.ts\<close>). The order of \<open>localeCompare\<close>
  is given by a collation key, an argument.
\<close>

section \<open>Quick search\<close>

record search_item =
  it_group :: string
  it_label :: string
  it_detail :: "string option"
  it_to :: string

definition word_break :: "char \<Rightarrow> bool" where
  "word_break c \<longleftrightarrow> is_space c \<or> c \<in> set ''-_./()''"

text \<open>The words between runs of breaks. A break more only adds an empty word, which starts with
  no query.\<close>

fun words_of :: "string \<Rightarrow> string list" where
  "words_of [] = [[]]"
| "words_of (c # s) =
     (if word_break c then [] # words_of s else case words_of s of [] \<Rightarrow> [[c]] | w # ws \<Rightarrow> (c # w) # ws)"

definition score :: "string \<Rightarrow> search_item \<Rightarrow> int" where
  "score q item =
     (if q = [] then 1
      else let label = to_lower (it_label item);
               body = label @ '' '' @ to_lower (or_str (it_detail item) [])
           in if starts_with label q then 3
              else if list_ex (\<lambda>w. starts_with w q) (words_of body) then 2
              else if sublist q body then 1 else 0)"

definition matches_in :: "(string \<Rightarrow> 'k::linorder) \<Rightarrow> search_item list \<Rightarrow> string \<Rightarrow> string \<Rightarrow> (search_item \<times> int) list" where
  "matches_in collate items q g =
     sort_key (\<lambda>(item, s). (- s, collate (it_label item)))
       (filter (\<lambda>(item, s). s > 0) (map (\<lambda>item. (item, score q item)) (filter (\<lambda>item. it_group item = g) items)))"

definition matchItems ::
  "(string \<Rightarrow> 'k::linorder) \<Rightarrow> search_item list \<Rightarrow> string \<Rightarrow> string list \<Rightarrow> nat \<Rightarrow> search_item list" where
  "matchItems collate items query groups perGroup =
     concat (map (\<lambda>g. map fst (take perGroup (matches_in collate items (to_lower (trim query)) g))) groups)"

definition isQuickSearchKey :: "string \<Rightarrow> bool \<Rightarrow> bool \<Rightarrow> bool" where
  "isQuickSearchKey key metaKey ctrlKey \<longleftrightarrow> to_lower key = ''k'' \<and> (metaKey \<or> ctrlKey)"

definition maxRecent :: nat where "maxRecent = 6"

definition addRecent :: "search_item list \<Rightarrow> search_item \<Rightarrow> search_item list" where
  "addRecent items item = take maxRecent (item # filter (\<lambda>i. it_to i \<noteq> it_to item) items)"

text \<open>The pattern \<open>^/applications/([^/]+)/\<close>. Decoding a name that is not a valid escape
  throws, \<open>Inl\<close>.\<close>

definition recentFromPath :: "string \<Rightarrow> string + search_item option" where
  "recentFromPath path =
     (let rest = drop 14 path; name = takeWhile (\<lambda>c. c \<noteq> CHR ''/'') rest
      in if starts_with path ''/applications/'' \<and> name \<noteq> [] \<and> length name < length rest
         then (case tryDecodeURIComponent name of
                 None \<Rightarrow> Inl ''URIError''
               | Some label \<Rightarrow> Inr (Some \<lparr>it_group = ''Applications'', it_label = label, it_detail = None,
                                         it_to = ''/applications/'' @ name @ ''/config''\<rparr>))
         else Inr None)"

section \<open>Filters\<close>

record package =
  pk_name :: string
  pk_path :: string
  pk_builtin :: bool

definition filterPackages :: "package list \<Rightarrow> string \<Rightarrow> string \<Rightarrow> package list" where
  "filterPackages pkgs query source =
     (let q = to_lower (trim query)
      in filter (\<lambda>p. (source = ''all'' \<or> (source = ''builtin'') = pk_builtin p) \<and>
           (q = [] \<or> sublist q (to_lower (pk_name p)) \<or> sublist q (to_lower (pk_path p)))) pkgs)"

record shared_workflow =
  sw_name :: string
  sw_alias :: "string option"
  sw_description :: "string option"
  sw_scope :: string
  sw_hidden :: bool
  sw_usedBy :: "string list option"
  sw_usedElsewhere :: "nat option"

definition usableShared :: "shared_workflow \<Rightarrow> bool \<Rightarrow> bool" where
  "usableShared s projectUnavailable \<longleftrightarrow> \<not> sw_hidden s \<and> \<not> (projectUnavailable \<and> sw_scope s = ''project'')"

definition inUse :: "shared_workflow \<Rightarrow> bool" where
  "inUse s \<longleftrightarrow> length (or_nil (sw_usedBy s)) + coalesce (sw_usedElsewhere s) 0 > 0"

definition filterShared :: "shared_workflow list \<Rightarrow> string \<Rightarrow> string \<Rightarrow> string \<Rightarrow> shared_workflow list" where
  "filterShared shared query whr usage =
     (let q = to_lower (trim query)
      in filter (\<lambda>s. (whr = ''all'' \<or> sw_scope s = whr) \<and> (usage = ''all'' \<or> inUse s = (usage = ''used'')) \<and>
           (q = [] \<or> list_ex (\<lambda>t. case t of None \<Rightarrow> False | Some t \<Rightarrow> sublist q (to_lower t))
              [Some (sw_name s), sw_alias s, sw_description s])) shared)"

section \<open>Templates of configs\<close>

record template_option =
  to_name :: string
  to_alias :: "string option"
  to_global :: bool

record config_template =
  ct_name :: string
  ct_alias :: "string option"
  ct_namespace :: "string option"

record config =
  cf_template :: "(string \<times> string option) option"
  cf_templateAlias :: "string option"

definition is_global :: "string option \<Rightarrow> bool" where
  "is_global namespace \<longleftrightarrow> \<not> truthy namespace \<or> namespace = Some ''vela-system''"

definition add_option :: "template_option list \<Rightarrow> config \<Rightarrow> template_option list" where
  "add_option options c =
     (case cf_template c of
        None \<Rightarrow> options
      | Some (name, namespace) \<Rightarrow>
          if name \<noteq> [] \<and> \<not> list_ex (\<lambda>x. to_name x = name) options
          then options @ [\<lparr>to_name = name, to_alias = cf_templateAlias c, to_global = is_global namespace\<rparr>] else options)"

definition templateOptions :: "config_template list \<Rightarrow> config list \<Rightarrow> template_option list" where
  "templateOptions templates configs =
     foldl add_option
       (map (\<lambda>t. \<lparr>to_name = ct_name t, to_alias = ct_alias t, to_global = is_global (ct_namespace t)\<rparr>) templates) configs"

datatype filter_item = Item string string | ItemGroup string "(string \<times> string) list"

definition option_item :: "template_option \<Rightarrow> string \<times> string" where
  "option_item x = (or_str (to_alias x) (to_name x), to_name x)"

definition templateFilterItems :: "template_option list \<Rightarrow> (string \<times> string) option \<Rightarrow> filter_item list" where
  "templateFilterItems options groups =
     (case groups of
        None \<Rightarrow> map (\<lambda>x. Item (fst (option_item x)) (snd (option_item x))) options
      | Some (project, global) \<Rightarrow>
          map (\<lambda>(label, xs). ItemGroup label xs)
            (filter (\<lambda>(label, xs). xs \<noteq> [])
               [(project, map option_item (filter (\<lambda>x. \<not> to_global x) options)),
                (global, map option_item (filter to_global options))]))"

section \<open>A new service\<close>

record new_service =
  ns_name :: string
  ns_alias :: "string option"
  ns_description :: "string option"
  ns_project :: string
  ns_envs :: "string list option"
  ns_expressions :: bool
  ns_labels :: "(string, string) js_map option"
  ns_annotations :: "(string, string) js_map option"
  ns_paused :: bool
  ns_resyncInterval :: "string option"
  ns_workflowMode :: "string option"

record service_request =
  sq_name :: string
  sq_alias :: "string option"
  sq_description :: "string option"
  sq_project :: string
  sq_labels :: "(string, string) js_map option"
  sq_annotations :: "(string, string) js_map option"
  sq_envBinding :: "string list"
  sq_workflowMode :: "string option"

definition pauseLabel :: string where "pauseLabel = ''controller.core.oam.dev/pause''"
definition expressionsAnnotation :: string where "expressionsAnnotation = ''app.oam.dev/cel-expressions''"
definition resyncAnnotation :: string where "resyncAnnotation = ''app.oam.dev/reconcile-interval''"

definition unless_empty :: "('k, 'v) js_map \<Rightarrow> ('k, 'v) js_map option" where
  "unless_empty m = (if m = [] then None else Some m)"

definition newServiceRequest :: "new_service \<Rightarrow> service_request" where
  "newServiceRequest v =
     (let labels = or_nil (ns_labels v);
          annotations = or_nil (ns_annotations v);
          labels = (if ns_paused v then AList.update pauseLabel ''true'' labels else labels);
          annotations = (if ns_expressions v then AList.update expressionsAnnotation ''true'' annotations else annotations);
          annotations = (if truthy (ns_resyncInterval v) \<and> trim (the (ns_resyncInterval v)) \<noteq> []
                         then AList.update resyncAnnotation (trim (the (ns_resyncInterval v))) annotations else annotations)
      in \<lparr>sq_name = ns_name v, sq_alias = or_opt (ns_alias v) None, sq_description = or_opt (ns_description v) None,
          sq_project = ns_project v, sq_labels = unless_empty labels, sq_annotations = unless_empty annotations,
          sq_envBinding = or_nil (ns_envs v),
          sq_workflowMode = (if truthy (ns_workflowMode v) \<and> ns_workflowMode v \<noteq> Some ''StepByStep'' then ns_workflowMode v
                             else None)\<rparr>)"

definition defaultEnvs :: "string list \<Rightarrow> string list \<Rightarrow> string list" where
  "defaultEnvs available chosen = (if chosen \<noteq> [] \<or> length available \<noteq> 1 then chosen else available)"

section \<open>Definition modules\<close>

definition busy :: "string option \<Rightarrow> bool" where
  "busy phase \<longleftrightarrow> phase = Some ''rendering'' \<or> phase = Some ''applying''"

definition kindTypes :: "string \<Rightarrow> string option" where
  "kindTypes kind = map_of [(''ComponentDefinition'', ''component''), (''TraitDefinition'', ''trait''),
     (''PolicyDefinition'', ''policy''), (''WorkflowStepDefinition'', ''workflowstep'')] kind"

definition definitionLink :: "string \<Rightarrow> string \<Rightarrow> string" where
  "definitionLink kind name = ''/definitions/'' @ or_str (kindTypes kind) ''component'' @ ''/'' @ name @ ''/doc''"

record defkit_source =
  ds_git :: "string option"
  ds_ref :: "string option"
  ds_version :: "string option"
  ds_prefix :: "string option"
  ds_types :: "string list option"

definition sourceText :: "defkit_source \<Rightarrow> string" where
  "sourceText src =
     (let from = or_str (ds_git src) (or_str (ds_ref src) [])
      in if truthy (ds_version src) then from @ ''@'' @ the (ds_version src) else from)"

definition statusOrder :: "string list" where
  "statusOrder = [''conflict'', ''removed'', ''new'', ''changed'', ''unchanged'']"

record preview_item =
  pi_kind :: string
  pi_name :: string
  pi_status :: string

definition groupPreview :: "(string \<Rightarrow> 'k::linorder) \<Rightarrow> preview_item list \<Rightarrow> (string \<times> preview_item list) list" where
  "groupPreview collate items =
     filter (\<lambda>(status, is). is \<noteq> [])
       (map (\<lambda>status. (status, sort_key (\<lambda>i. collate (pi_kind i @ pi_name i)) (filter (\<lambda>i. pi_status i = status) items))) statusOrder)"

definition ends_in :: "string \<Rightarrow> string \<Rightarrow> bool" where
  "ends_in s e \<longleftrightarrow> length e \<le> length s \<and> drop (length s - length e) s = e"

definition parseSource :: "string \<Rightarrow> string \<Rightarrow> string \<Rightarrow> string list \<Rightarrow> defkit_source" where
  "parseSource from version pre types =
     (let trimmed = trim from;
          isGit = (list_ex (starts_with trimmed) [''http://'', ''https://'', ''git@'', ''ssh://''] \<or> ends_in trimmed ''.git'')
      in \<lparr>ds_git = (if isGit then Some trimmed else None), ds_ref = (if isGit then None else Some trimmed),
          ds_version = or_undefined (trim version), ds_prefix = or_undefined (trim pre),
          ds_types = (if types \<noteq> [] then Some types else None)\<rparr>)"

record defkit_settings =
  dk_autoUpdate :: bool
  dk_interval :: "string option"
  dk_overrides :: "(string, string) js_map option"

definition withOverride :: "defkit_settings \<Rightarrow> string \<Rightarrow> string option \<Rightarrow> defkit_settings" where
  "withOverride settings ident policy =
     (let overrides = or_nil (dk_overrides settings);
          overrides = (if truthy policy then AList.update ident (the policy) overrides else AList.delete ident overrides)
      in settings\<lparr>dk_overrides := unless_empty overrides\<rparr>)"

definition autoText :: "defkit_settings \<Rightarrow> string" where
  "autoText settings = (if dk_autoUpdate settings then or_str (dk_interval settings) ''10m'' else [])"

definition minIntervalMs :: rat where "minIntervalMs = 5 * 60 * 1000"

definition is_digit :: "char \<Rightarrow> bool" where
  "is_digit c \<longleftrightarrow> (let n = of_char c :: nat in 48 \<le> n \<and> n \<le> 57)"

definition digits_value :: "string \<Rightarrow> nat" where
  "digits_value s = foldl (\<lambda>n c. 10 * n + (of_char c - 48)) 0 s"

text \<open>A number \<open>[0-9]+(.[0-9]+)?\<close> at the start of a text, and what follows it.\<close>

definition read_decimal :: "string \<Rightarrow> (rat \<times> string) option" where
  "read_decimal s =
     (let whole = takeWhile is_digit s; rest = dropWhile is_digit s;
          frac = takeWhile is_digit (tl rest)
      in if whole = [] then None
         else if rest \<noteq> [] \<and> hd rest = CHR ''.'' \<and> frac \<noteq> []
         then Some (of_nat (digits_value whole) + of_nat (digits_value frac) / 10 ^ length frac, dropWhile is_digit (tl rest))
         else Some (of_nat (digits_value whole), rest))"

definition unit_ms :: "char \<Rightarrow> rat option" where
  "unit_ms c = map_of [(CHR ''h'', 3600000), (CHR ''m'', 60000), (CHR ''s'', 1000)] c"

lemma read_decimal_shorter: "read_decimal s = Some (x, r) \<Longrightarrow> length r \<le> length s"
proof -
  assume a: "read_decimal s = Some (x, r)"
  have "length (dropWhile is_digit s) \<le> length s" "length (dropWhile is_digit (tl (dropWhile is_digit s))) \<le> length (tl (dropWhile is_digit s))"
    by (rule length_dropWhile_le)+
  then show ?thesis using a by (auto simp: read_decimal_def Let_def split: if_splits)
qed

function duration_from :: "string \<Rightarrow> rat \<Rightarrow> rat option" where
  "duration_from s ms =
     (case read_decimal s of
        None \<Rightarrow> None
      | Some (x, []) \<Rightarrow> None
      | Some (x, c # r) \<Rightarrow>
          (case unit_ms c of
             None \<Rightarrow> None
           | Some u \<Rightarrow> if r = [] then Some (ms + x * u) else duration_from r (ms + x * u)))"
  by pat_completeness auto
termination
  by (relation "measure (\<lambda>(s, ms). length s)") (auto dest!: read_decimal_shorter)

declare duration_from.simps [simp del]

definition durationMs :: "string \<Rightarrow> rat option" where
  "durationMs value = duration_from (trim value) 0"

definition stepTone :: "string option \<Rightarrow> tone" where
  "stepTone phase =
     (if phase = Some ''succeeded'' then Healthy
      else if phase = Some ''failed'' then Failed
      else if phase = Some ''suspending'' then Suspended
      else if phase = Some ''running'' then Progressing
      else Neutral)"

section \<open>What the search promises\<close>

definition rank_key :: "(string \<Rightarrow> 'k::linorder) \<Rightarrow> string \<Rightarrow> search_item \<Rightarrow> int \<times> 'k" where
  "rank_key collate q item = (- score q item, collate (it_label item))"

lemma matches_in_items:
  "map fst (matches_in collate items q g) =
     sort_key (rank_key collate q) (filter (\<lambda>item. it_group item = g \<and> score q item > 0) items)"
proof -
  let ?xs = "filter (\<lambda>item. it_group item = g \<and> score q item > 0) items"
  have "filter (\<lambda>(item, s). s > 0) (map (\<lambda>item. (item, score q item)) (filter (\<lambda>item. it_group item = g) items)) =
    map (\<lambda>item. (item, score q item)) ?xs"
    by (simp add: filter_map comp_def conj_commute)
  moreover have "map fst (sort_key (\<lambda>(item, s). (- s, collate (it_label item))) (map (\<lambda>item. (item, score q item)) xs)) =
    sort_key (rank_key collate q) xs" for xs
  proof -
    have "insort_key (\<lambda>(item, s). (- s, collate (it_label item))) (x, score q x) (map (\<lambda>item. (item, score q item)) ys) =
      map (\<lambda>item. (item, score q item)) (insort_key (rank_key collate q) x ys)" for x ys
      by (induction ys) (auto simp: rank_key_def)
    then have "sort_key (\<lambda>(item, s). (- s, collate (it_label item))) (map (\<lambda>item. (item, score q item)) xs) =
      map (\<lambda>item. (item, score q item)) (sort_key (rank_key collate q) xs)"
      by (induction xs) (simp_all add: sort_key_def)
    then show ?thesis by (simp add: comp_def)
  qed
  ultimately show ?thesis by (simp add: matches_in_def)
qed

lemma sorted_take_best:
  assumes "sorted (map k xs)" and "x \<in> set (take n xs)" and "y \<in> set xs" and "y \<notin> set (take n xs)"
  shows "k x \<le> k y \<and> length (take n xs) = n"
proof -
  have xs: "take n xs @ drop n xs = xs" by simp
  have y: "y \<in> set (drop n xs)" using assms(3,4) xs by (metis Un_iff set_append)
  have "sorted (map k (take n xs) @ map k (drop n xs))" using assms(1) by (simp flip: map_append)
  then have "k x \<le> k y" using assms(2) y by (auto simp: sorted_append)
  moreover have "n < length xs" using y by (metis drop_all empty_iff empty_set not_less)
  ultimately show ?thesis by simp
qed

lemma concat_only: "distinct hs \<Longrightarrow> g \<in> set hs \<Longrightarrow> concat (map (\<lambda>h. if h = g then f h else []) hs) = f g"
proof (induction hs)
  case (Cons h hs)
  show ?case
  proof (cases "h = g")
    case True
    then have "\<forall>x \<in> set hs. x \<noteq> g" using Cons.prems by auto
    then have "concat (map (\<lambda>h. if h = g then f h else []) hs) = []" by simp
    then show ?thesis using True by simp
  qed (use Cons in simp)
qed simp

lemma matchItems_of_group:
  assumes "distinct groups" and "g \<in> set groups"
  shows "filter (\<lambda>x. it_group x = g) (matchItems collate items query groups n) =
    take n (sort_key (rank_key collate (to_lower (trim query)))
      (filter (\<lambda>item. it_group item = g \<and> score (to_lower (trim query)) item > 0) items))"
proof -
  let ?r = "\<lambda>h. take n (sort_key (rank_key collate (to_lower (trim query)))
      (filter (\<lambda>item. it_group item = h \<and> score (to_lower (trim query)) item > 0) items))"
  have m: "matchItems collate items query groups n = concat (map ?r groups)"
    by (simp add: matchItems_def flip: take_map matches_in_items)
  have r: "\<forall>x \<in> set (?r h). it_group x = h" for h by (auto dest!: in_set_takeD)
  have f: "filter (\<lambda>x. it_group x = g) (?r h) = (if h = g then ?r h else [])" for h
    using r[of h] by (auto simp only: filter_id_conv filter_empty_conv split: if_split)
  have "filter (\<lambda>x. it_group x = g) (concat (map ?r groups)) = concat (map (\<lambda>h. if h = g then ?r h else []) groups)"
    by (simp add: filter_concat comp_def f)
  also have "\<dots> = ?r g" by (rule concat_only[OF assms])
  finally show ?thesis by (simp only: m)
qed

text \<open>The quick search gives every group asked for at most as many results as it may show, all of
  them matching items of that group and the best ranked first; an item of the group that matches and
  is left out ranks no better than any that is shown, and only because the group is full. Nothing of
  another group is shown.\<close>
theorem matchItems_best:
  assumes "distinct groups" and "g \<in> set groups"
    and "shown = filter (\<lambda>x. it_group x = g) (matchItems collate items query groups n)"
    and "q = to_lower (trim query)"
  shows "length shown \<le> n \<and> sorted (map (rank_key collate q) shown) \<and>
    set shown \<subseteq> {x \<in> set items. score q x > 0} \<and>
    (\<forall>y \<in> set items. it_group y = g \<and> score q y > 0 \<and> y \<notin> set shown \<longrightarrow>
       length shown = n \<and> (\<forall>x \<in> set shown. rank_key collate q x \<le> rank_key collate q y)) \<and>
    it_group ` set (matchItems collate items query groups n) \<subseteq> set groups"
proof -
  let ?all = "sort_key (rank_key collate q) (filter (\<lambda>item. it_group item = g \<and> score q item > 0) items)"
  have shown: "shown = take n ?all" using matchItems_of_group[OF assms(1,2)] assms(3,4) by simp
  have s: "sorted (map (rank_key collate q) ?all)" by simp
  have "sorted (map (rank_key collate q) shown)"
    unfolding shown take_map[symmetric] using s by (rule sorted_wrt_take)
  moreover have "set shown \<subseteq> {x \<in> set items. score q x > 0}"
    unfolding shown by (auto dest: in_set_takeD)
  moreover have "length shown = n \<and> (\<forall>x \<in> set shown. rank_key collate q x \<le> rank_key collate q y)"
    if y: "y \<in> set items" "it_group y = g" "score q y > 0" "y \<notin> set shown" for y
  proof -
    have all: "y \<in> set ?all" using y by simp
    then have "n < length ?all" using y(4) by (metis linorder_not_less shown take_all)
    then show ?thesis using sorted_take_best[OF s _ all] y(4) by (simp add: shown)
  qed
  moreover have "it_group ` set (matchItems collate items query groups n) \<subseteq> set groups"
    by (auto simp: matchItems_def matches_in_def dest!: in_set_takeD)
  ultimately show ?thesis by (auto simp: shown)
qed

theorem matchItems_best_witness:
  "matchItems id
     [\<lparr>it_group = ''A'', it_label = ''web'', it_detail = None, it_to = ''/1''\<rparr>,
      \<lparr>it_group = ''A'', it_label = ''my web'', it_detail = None, it_to = ''/2''\<rparr>,
      \<lparr>it_group = ''B'', it_label = ''db'', it_detail = Some ''web'', it_to = ''/3''\<rparr>] '' Web'' [''B'', ''A''] 1 =
   [\<lparr>it_group = ''B'', it_label = ''db'', it_detail = Some ''web'', it_to = ''/3''\<rparr>,
    \<lparr>it_group = ''A'', it_label = ''web'', it_detail = None, it_to = ''/1''\<rparr>] \<and>
   length (filter (\<lambda>x. it_group x = ''A'') (matchItems id
     [\<lparr>it_group = ''A'', it_label = ''web'', it_detail = None, it_to = ''/1''\<rparr>,
      \<lparr>it_group = ''A'', it_label = ''my web'', it_detail = None, it_to = ''/2''\<rparr>,
      \<lparr>it_group = ''B'', it_label = ''db'', it_detail = Some ''web'', it_to = ''/3''\<rparr>] '' Web'' [''B'', ''A''] 1)) \<le> 1"
proof (rule conjI)
  show "matchItems id
     [\<lparr>it_group = ''A'', it_label = ''web'', it_detail = None, it_to = ''/1''\<rparr>,
      \<lparr>it_group = ''A'', it_label = ''my web'', it_detail = None, it_to = ''/2''\<rparr>,
      \<lparr>it_group = ''B'', it_label = ''db'', it_detail = Some ''web'', it_to = ''/3''\<rparr>] '' Web'' [''B'', ''A''] 1 =
   [\<lparr>it_group = ''B'', it_label = ''db'', it_detail = Some ''web'', it_to = ''/3''\<rparr>,
    \<lparr>it_group = ''A'', it_label = ''web'', it_detail = None, it_to = ''/1''\<rparr>]"
    by code_simp
qed (rule conjunct1[OF matchItems_best[where groups = "[''B'', ''A'']" and g = "''A''" and n = 1, OF _ _ refl refl]], simp_all)

text \<open>The recently opened are at most six, the last opened first, each target once: an invariant
  of \<open>addRecent\<close>.\<close>

definition recent_ok :: "search_item list \<Rightarrow> bool" where
  "recent_ok items \<longleftrightarrow> length items \<le> maxRecent \<and> distinct (map it_to items)"

lemma addRecent_ok: "recent_ok items \<Longrightarrow> recent_ok (addRecent items item) \<and> hd (addRecent items item) = item"
proof -
  assume "recent_ok items"
  then have "distinct (map it_to (item # filter (\<lambda>i. it_to i \<noteq> it_to item) items))"
    by (auto simp: recent_ok_def distinct_map_filter)
  then have "distinct (map it_to (take maxRecent (item # filter (\<lambda>i. it_to i \<noteq> it_to item) items)))"
    by (metis distinct_take take_map)
  then show ?thesis by (simp add: recent_ok_def addRecent_def maxRecent_def)
qed

text \<open>A preview is split, not thinned: the groups hold every item whose status is one of the
  order, each group one status and sorted, no group empty and no status twice.\<close>

lemma groupPreview_partition:
  "(\<forall>(status, is) \<in> set (groupPreview collate items). is \<noteq> [] \<and> (\<forall>i \<in> set is. pi_status i = status)) \<and>
   distinct (map fst (groupPreview collate items)) \<and>
   mset (concat (map snd (groupPreview collate items))) = mset (filter (\<lambda>i. pi_status i \<in> set statusOrder) items)"
proof -
  let ?g = "\<lambda>st. sort_key (\<lambda>i. collate (pi_kind i @ pi_name i)) (filter (\<lambda>i. pi_status i = st) items)"
  have c: "concat (map snd (filter (\<lambda>(st, is). is \<noteq> []) (map (\<lambda>st. (st, ?g st)) sts))) = concat (map ?g sts)" for sts
    by (induction sts) auto
  have "distinct sts \<Longrightarrow> mset (concat (map ?g sts)) = mset (filter (\<lambda>i. pi_status i \<in> set sts) items)" for sts
  proof (induction sts)
    case (Cons a sts)
    have "filter_mset (\<lambda>i. pi_status i = a \<or> pi_status i \<in> set sts) (mset items) =
      filter_mset (\<lambda>i. pi_status i = a) (mset items) + filter_mset (\<lambda>i. pi_status i \<in> set sts) (mset items)"
      using Cons.prems by (induction items) auto
    then show ?case using Cons by (simp add: mset_filter)
  qed simp
  then have "mset (concat (map snd (groupPreview collate items))) = mset (filter (\<lambda>i. pi_status i \<in> set statusOrder) items)"
    by (simp add: groupPreview_def c statusOrder_def del: filter.simps list.map concat.simps)
  moreover have "distinct (map fst (filter P (map (\<lambda>st. (st, ?g st)) statusOrder)))" for P
    by (rule distinct_map_filter) (simp add: statusOrder_def)
  ultimately show ?thesis by (auto simp: groupPreview_def)
qed

text \<open>Setting an override and removing it again leaves the settings without it, and an override
  set is the one read.\<close>

lemma withOverride_set: "policy \<noteq> [] \<Longrightarrow> map_of (or_nil (dk_overrides (withOverride s k (Some policy)))) k = Some policy"
  by (simp add: withOverride_def Let_def truthy_def unless_empty_def or_nil_def update_conv')

lemma withOverride_unset: "map_of (or_nil (dk_overrides (withOverride s k None))) k = None"
  by (simp add: withOverride_def Let_def truthy_def unless_empty_def or_nil_def delete_conv')

end
