(* ===== verification/Form_Schema.thy ===== *)
theory Form_Schema
  imports Plugin_Reports Resource_Utils
begin

text \<open>
  The form generator (\<open>components/UISchema/index.tsx\<close>): which parameters of a schema are shown,
  under what conditions and in what sections, the rules their values are checked by, and the
  state of a form with its handlers. A form's \<open>Field\<close> is the map of the values it holds;
  \<open>getValues\<close> gives a new object, so what a handler deletes from it stays in the form. A field
  is registered with a value as it is drawn, and its value leaves the form as it goes: what the
  library then holds is an argument (of \<open>mounted\<close>, \<open>setExpressionMode\<close> and the step \<open>held\<close>). The
  server's check of an expression is an argument, and answers when it likes. Numbers read from
  text by \<open>Number\<close> and patterns compiled by \<open>RegExp\<close> are arguments too. Of the members of a
  value only its own are read, not those its prototype has.
\<close>

section \<open>The schema\<close>

datatype condition_action = Disable | Enable

record param_condition =
  pc_jsonKey :: string
  pc_op :: "string option"
  pc_value :: "json option"
  pc_action :: "condition_action option"

record ui_validate =
  uv_required :: bool
  uv_min :: "json option"
  uv_max :: "json option"
  uv_minLength :: "nat option"
  uv_maxLength :: "nat option"
  uv_pattern :: "string option"
  uv_defaultValue :: "json option"
  uv_options :: "json list option"
  uv_immutable :: bool
  uv_message :: "string option"

record ui_style =
  us_colSpan :: "nat option"
  us_advanced :: bool
  us_section :: "string option"
  us_optionsFrom :: "string option"
  us_expression :: "string option"

datatype ui_param = UIParam
  (pm_jsonKey: string)
  (pm_uiType: string)
  (pm_style: "ui_style option")
  (pm_disable: bool)
  (pm_conditions: "param_condition list option")
  (pm_subParameters: "ui_param list option")
  (pm_validate: "ui_validate option")

definition required_param :: "ui_param \<Rightarrow> bool" where
  "required_param p = (case pm_validate p of None \<Rightarrow> False | Some v \<Rightarrow> uv_required v)"

definition advanced_param :: "ui_param \<Rightarrow> bool" where
  "advanced_param p = (case pm_style p of None \<Rightarrow> False | Some s \<Rightarrow> us_advanced s)"

definition param_section :: "ui_param \<Rightarrow> string option" where
  "param_section p = Option.bind (pm_style p) us_section"

definition never_expression :: "ui_param \<Rightarrow> bool" where
  "never_expression p \<longleftrightarrow> Option.bind (pm_style p) us_expression = Some ''never''"

section \<open>Values\<close>

definition falsy :: "json option \<Rightarrow> bool" where
  "falsy v \<longleftrightarrow> (case v of None \<Rightarrow> True | Some x \<Rightarrow> x = JNull \<or> x = JBool False \<or> x = JInt 0 \<or> x = JStr [])"

definition string_index :: "string \<Rightarrow> nat \<Rightarrow> nat option" where
  "string_index key n = List.find (\<lambda>i. nat_str i = key) [0..<n]"

definition json_member :: "json \<Rightarrow> string \<Rightarrow> json option" where
  "json_member v key =
     (case v of
        JObj kvs \<Rightarrow> map_of kvs key
      | JArr vs \<Rightarrow> if key = ''length'' then Some (JInt (int (length vs)))
                   else map_option (\<lambda>i. vs ! i) (string_index key (length vs))
      | JStr s \<Rightarrow> if key = ''length'' then Some (JInt (int (length s)))
                  else map_option (\<lambda>i. JStr [s ! i]) (string_index key (length s))
      | _ \<Rightarrow> None)"

lemma index_of_length: "index_of c s = Some i \<Longrightarrow> i < length s"
  by (induction s arbitrary: i) (auto split: if_splits)

function getValue :: "string \<Rightarrow> json option \<Rightarrow> json option" where
  "getValue key value =
     (if falsy value then Some JNull
      else case index_of CHR ''.'' key of
             Some i \<Rightarrow> getValue (drop (Suc i) key) (json_member (the value) (take i key))
           | None \<Rightarrow> json_member (the value) key)"
  by pat_completeness auto
termination
  by (relation "measure (\<lambda>(key, value). length key)") (auto dest: index_of_length)

declare getValue.simps [simp del]

text \<open>\<open>JSON.stringify\<close>.\<close>

definition stringify_char :: "char \<Rightarrow> string" where
  "stringify_char c =
     (let n = of_char c :: nat
      in if n = 0x22 \<or> n = 0x5C then [CHR 0x5C, c]
         else if n = 8 then [CHR 0x5C, CHR ''b'']
         else if n = 9 then [CHR 0x5C, CHR ''t'']
         else if n = 10 then [CHR 0x5C, CHR ''n'']
         else if n = 12 then [CHR 0x5C, CHR ''f'']
         else if n = 13 then [CHR 0x5C, CHR ''r'']
         else if n < 32 then CHR 0x5C # ''u00'' @ map lower_char [hex_digit (n div 16), hex_digit (n mod 16)]
         else [c])"

definition stringify_string :: "string \<Rightarrow> string" where
  "stringify_string s = CHR 0x22 # concat (map stringify_char s) @ [CHR 0x22]"

fun stringify :: "json \<Rightarrow> string" where
  "stringify JNull = ''null''"
| "stringify (JBool b) = (if b then ''true'' else ''false'')"
| "stringify (JInt i) = int_str i"
| "stringify (JDec s) = s"
| "stringify (JStr s) = stringify_string s"
| "stringify (JArr vs) = ''['' @ join_with '','' (map stringify vs) @ '']''"
| "stringify (JObj kvs) = ''{'' @ join_with '','' (map (\<lambda>(k, v). stringify_string k @ '':'' @ stringify v) kvs) @ ''}''"

definition convertAny :: "json option \<Rightarrow> string" where
  "convertAny data =
     (if falsy data then []
      else case the data of
             JStr s \<Rightarrow> s
           | JBool b \<Rightarrow> (if b then ''true'' else ''false'')
           | JInt i \<Rightarrow> int_str i
           | JDec s \<Rightarrow> s
           | v \<Rightarrow> stringify v)"

text \<open>The equality \<open>==\<close>. A value of the schema and one of the form are never the same object.\<close>

definition is_object :: "json \<Rightarrow> bool" where
  "is_object v \<longleftrightarrow> (case v of JArr _ \<Rightarrow> True | JObj _ \<Rightarrow> True | _ \<Rightarrow> False)"

definition primitive :: "json \<Rightarrow> json" where
  "primitive v = (if is_object v then JStr (js_String v) else v)"

definition to_number :: "(string \<Rightarrow> rat option) \<Rightarrow> json \<Rightarrow> rat option" where
  "to_number number v =
     (case v of JBool b \<Rightarrow> Some (if b then 1 else 0) | JInt i \<Rightarrow> Some (of_int i) | JDec s \<Rightarrow> number s | JStr s \<Rightarrow> number s | _ \<Rightarrow> None)"

definition nullish :: "json option \<Rightarrow> bool" where
  "nullish v \<longleftrightarrow> v = None \<or> v = Some JNull"

definition primitive_eq :: "(string \<Rightarrow> rat option) \<Rightarrow> json \<Rightarrow> json \<Rightarrow> bool" where
  "primitive_eq number p q \<longleftrightarrow>
     (case (p, q) of (JStr s, JStr t) \<Rightarrow> s = t | _ \<Rightarrow> to_number number p \<noteq> None \<and> to_number number p = to_number number q)"

definition loose_eq :: "(string \<Rightarrow> rat option) \<Rightarrow> json option \<Rightarrow> json option \<Rightarrow> bool" where
  "loose_eq number a b \<longleftrightarrow>
     (if nullish a \<or> nullish b then nullish a \<and> nullish b
      else if is_object (the a) \<and> is_object (the b) then False
      else primitive_eq number (primitive (the a)) (primitive (the b)))"

text \<open>\<open>Array.includes\<close>, which compares as \<open>===\<close> does.\<close>

definition includes_value :: "json list \<Rightarrow> json option \<Rightarrow> bool" where
  "includes_value vs v = (case v of None \<Rightarrow> False | Some x \<Rightarrow> \<not> is_object x \<and> x \<in> set vs)"

section \<open>Rules\<close>

definition expressibleTypes :: "string list" where
  "expressibleTypes = [''Input'', ''Number'', ''Switch'', ''Select'', ''Suggest'']"

text \<open>The rewriting of a backslash and a letter, at the start or after another character than a
  backslash, which the match takes with it.\<close>

fun anchors_from :: "char \<Rightarrow> char \<Rightarrow> bool \<Rightarrow> string \<Rightarrow> string" where
  "anchors_from letter r at_start (a # b # s) =
     (if at_start \<and> a = backslash \<and> b = letter then r # anchors_from letter r False s
      else if a \<noteq> backslash \<and> b = backslash \<and> s \<noteq> [] \<and> hd s = letter then a # r # anchors_from letter r False (tl s)
      else a # anchors_from letter r False (b # s))"
| "anchors_from letter r at_start s = s"

fun named_groups :: "string \<Rightarrow> string" where
  "named_groups s =
     (if s = [] then []
      else if starts_with s ''(?P<'' then ''(?<'' @ named_groups (drop 4 s)
      else hd s # named_groups (tl s))"

declare named_groups.simps [simp del]

definition inline_flags :: "string \<Rightarrow> string option" where
  "inline_flags s =
     (let flags = takeWhile (\<lambda>c. c \<in> set ''ims'') (drop 2 s)
      in if starts_with s ''(?'' \<and> flags \<noteq> [] \<and> starts_with (drop (2 + length flags) s) '')'' then Some flags else None)"

definition toJSRegExp :: "(string \<Rightarrow> string \<Rightarrow> bool) \<Rightarrow> string \<Rightarrow> (string \<times> string) option" where
  "toJSRegExp compiles pattern =
     (let (flags, source) = (case inline_flags pattern of
            None \<Rightarrow> ([], pattern)
          | Some fs \<Rightarrow> (js_set fs, drop (3 + length fs) pattern));
          source = named_groups (anchors_from CHR ''z'' CHR ''$'' True (anchors_from CHR ''A'' CHR ''^'' True source))
      in if compiles source flags then Some (source, flags) else None)"

definition expressionKind :: "ui_param \<Rightarrow> string" where
  "expressionKind p =
     (if pm_uiType p = ''Number'' then ''number''
      else if pm_uiType p = ''Switch'' then ''boolean''
      else if pm_uiType p = ''Select''
      then (case Option.bind (pm_validate p) uv_options of
              Some (JInt _ # _) \<Rightarrow> ''number'' | Some (JDec _ # _) \<Rightarrow> ''number'' | _ \<Rightarrow> ''string'')
      else ''string'')"

datatype rule =
    RuleRequired string
  | RuleMin json string
  | RuleMax json string
  | RuleMinLength nat string
  | RuleMaxLength nat string
  | RulePattern string string string

definition convertRule :: "(string \<Rightarrow> string \<Rightarrow> bool) \<Rightarrow> ui_validate option \<Rightarrow> rule list" where
  "convertRule compiles validate =
     (case validate of
        None \<Rightarrow> []
      | Some v \<Rightarrow>
          (if uv_required v then [RuleRequired ''This field is required.''] else []) @
          (if nullish (uv_min v) then []
           else [RuleMin (the (uv_min v)) (or_str (uv_message v) (''Enter a number greater than '' @ js_String (the (uv_min v))))]) @
          (if nullish (uv_max v) then []
           else [RuleMax (the (uv_max v)) (or_str (uv_message v) (''Enter a number less than '' @ js_String (the (uv_max v))))]) @
          (case uv_minLength v of None \<Rightarrow> []
           | Some n \<Rightarrow> [RuleMinLength n (or_str (uv_message v) (''Enter a minimum of '' @ nat_str n @ '' characters.''))]) @
          (case uv_maxLength v of None \<Rightarrow> []
           | Some n \<Rightarrow> [RuleMaxLength n (or_str (uv_message v) (''Enter a maximum of '' @ nat_str n @ '' characters.''))]) @
          (case (if truthy (uv_pattern v) then toJSRegExp compiles (the (uv_pattern v)) else None) of
             None \<Rightarrow> []
           | Some (source, flags) \<Rightarrow>
               [RulePattern source flags (or_str (uv_message v)
                  (''Please enter a value that conforms to the specification. '' @ the (uv_pattern v)))]))"

section \<open>Which parameters are shown\<close>

text \<open>A scope is the values of a form and of the forms around it, innermost first. A condition
  reaches out by one form for every step up its key starts with.\<close>

type_synonym scope = "json list"

function conditionValue :: "string \<Rightarrow> scope \<Rightarrow> json option" where
  "conditionValue key scope =
     (if starts_with key ''../'' then conditionValue (drop 3 key) (tl scope)
      else case scope of [] \<Rightarrow> None | values # _ \<Rightarrow> getValue key (Some values))"
  by pat_completeness auto
termination
proof (relation "measure (\<lambda>(key, scope). length key)")
  fix key :: string and scope :: scope
  assume "starts_with key ''../''"
  then have "key \<noteq> []" by (auto simp: starts_with_def)
  then show "((drop 3 key, tl scope), key, scope) \<in> measure (\<lambda>(key, scope). length key)" by simp
qed simp

declare conditionValue.simps [simp del]

definition acts :: "condition_action option \<Rightarrow> condition_action" where
  "acts a = coalesce a Enable"

definition condition_holds :: "(string \<Rightarrow> rat option) \<Rightarrow> scope \<Rightarrow> param_condition \<Rightarrow> bool" where
  "condition_holds number scope c \<longleftrightarrow>
     (let value = conditionValue (pc_jsonKey c) scope
      in if pc_op c = Some ''in''
         then (case pc_value c of Some (JArr vs) \<Rightarrow> includes_value vs value | _ \<Rightarrow> False)
         else if pc_op c = Some ''!='' then \<not> loose_eq number (pc_value c) value
         else loose_eq number (pc_value c) value)"

text \<open>The counters of the conditions that disable and that enable, and of all that would enable.\<close>

definition count_condition :: "(string \<Rightarrow> rat option) \<Rightarrow> scope \<Rightarrow> nat \<times> nat \<times> nat \<Rightarrow> param_condition \<Rightarrow> nat \<times> nat \<times> nat" where
  "count_condition number scope n c =
     (case n of (disable, enable, enableCount) \<Rightarrow>
        let enableCount = (if acts (pc_action c) = Enable then enableCount + 1 else enableCount)
        in if \<not> condition_holds number scope c then (disable, enable, enableCount)
           else case acts (pc_action c) of Disable \<Rightarrow> (disable + 1, enable, enableCount) | Enable \<Rightarrow> (disable, enable + 1, enableCount))"

definition conditionAllowRender :: "(string \<Rightarrow> rat option) \<Rightarrow> scope \<Rightarrow> param_condition list option \<Rightarrow> bool" where
  "conditionAllowRender number scope conditions \<longleftrightarrow>
     (case conditions of
        None \<Rightarrow> True
      | Some [] \<Rightarrow> True
      | Some cs \<Rightarrow>
          (case foldl (count_condition number scope) (0, 0, 0) cs of
             (disable, enable, enableCount) \<Rightarrow>
               if disable > 0 then False else enable > 0 \<and> enable = enableCount))"

definition could_show :: "(string \<Rightarrow> rat option) \<Rightarrow> scope \<Rightarrow> ui_param \<Rightarrow> bool" where
  "could_show number scope p \<longleftrightarrow> \<not> pm_disable p \<and> conditionAllowRender number scope (pm_conditions p)"

definition onlyShowRequired :: "(string \<Rightarrow> rat option) \<Rightarrow> scope \<Rightarrow> ui_param list \<Rightarrow> bool" where
  "onlyShowRequired number scope schema \<longleftrightarrow> length (filter (could_show number scope) schema) > 5"

definition shows_param :: "(string \<Rightarrow> rat option) \<Rightarrow> scope \<Rightarrow> bool \<Rightarrow> ui_param list \<Rightarrow> ui_param \<Rightarrow> bool" where
  "shows_param number scope advanced schema p \<longleftrightarrow>
     could_show number scope p \<and>
     \<not> (if list_ex advanced_param schema then advanced_param p \<and> \<not> advanced
        else onlyShowRequired number scope schema \<and> \<not> required_param p \<and> \<not> advanced)"

definition showAdvancedButton :: "(string \<Rightarrow> rat option) \<Rightarrow> scope \<Rightarrow> ui_param list \<Rightarrow> bool" where
  "showAdvancedButton number scope schema \<longleftrightarrow>
     (let shown = filter (could_show number scope) schema;
          couldBeDisabledParamCount = length (filter (\<lambda>p. \<not> required_param p) shown);
          requiredParamCount = length (filter required_param shown)
      in list_ex advanced_param schema \<or> couldBeDisabledParamCount \<noteq> length shown \<or> requiredParamCount = 0)"

text \<open>The parameters drawn, those of a section gathered where its first one is.\<close>

datatype 'a drawn = Alone 'a | Section string "'a list"

definition in_section :: "string \<Rightarrow> (string option \<times> 'a) \<Rightarrow> bool" where
  "in_section s x \<longleftrightarrow> fst x = Some s"

definition place_item :: "(string option \<times> 'a) list \<Rightarrow> 'a drawn list \<times> string list \<Rightarrow> string option \<times> 'a \<Rightarrow> 'a drawn list \<times> string list" where
  "place_item items acc x =
     (case acc of (out, placed) \<Rightarrow>
        if \<not> truthy (fst x) then (out @ [Alone (snd x)], placed)
        else let s = the (fst x)
             in if s \<in> set placed then (out, placed)
                else (out @ [Section s (map snd (filter (in_section s) items))], placed @ [s]))"

definition inSections :: "('p \<Rightarrow> string option) \<Rightarrow> 'p list \<Rightarrow> 'a option list \<Rightarrow> 'a drawn list" where
  "inSections section_of schema rendered =
     (let items = concat (map2 (\<lambda>p r. case r of None \<Rightarrow> [] | Some x \<Rightarrow> [(section_of p, x)]) schema rendered)
      in fst (foldl (place_item items) ([], []) items))"

definition col_span :: "nat option \<Rightarrow> ui_param \<Rightarrow> nat" where
  "col_span maxColSpan p =
     (let colSpan = (case maxColSpan of Some n \<Rightarrow> if n \<noteq> 0 then n else 24 | None \<Rightarrow> 24)
      in case Option.bind (pm_style p) us_colSpan of Some n \<Rightarrow> if n \<noteq> 0 then n else colSpan | None \<Rightarrow> colSpan)"

definition init_value :: "(string, json) js_map option \<Rightarrow> ui_param \<Rightarrow> json option" where
  "init_value value p =
     (case Option.bind value (\<lambda>m. map_of m (pm_jsonKey p)) of
        Some v \<Rightarrow> Some v
      | None \<Rightarrow> Option.bind (pm_validate p) uv_defaultValue)"

definition renderDocumentURL :: "(string \<times> string) option \<Rightarrow> string option" where
  "renderDocumentURL definition =
     (case definition of
        None \<Rightarrow> None
      | Some (type, name) \<Rightarrow>
          if type = ''component'' then Some (''https://kubevela.net/docs/end-user/components/references#'' @ name)
          else if type = ''trait'' then Some (''https://kubevela.net/docs/end-user/traits/references#'' @ name)
          else if type = ''policy'' then Some (''https://kubevela.net/docs/end-user/policies/references#'' @ name)
          else if type = ''workflowstep'' then Some (''https://kubevela.net/docs/end-user/workflow/built-in-workflow-defs#'' @ name)
          else None)"

section \<open>The state of a form\<close>

record form_env =
  fe_enabled :: bool
  fe_optedIn :: bool

text \<open>No expressions, or expressions whose environment may not have come yet.\<close>

record form_props =
  fp_uiSchema :: "ui_param list option"
  fp_value :: "(string, json) js_map option"
  fp_expressions :: "form_env option option"
  fp_advanced :: bool

text \<open>Besides what the component keeps: whether its timer runs, the values of the checks the server
  has yet to answer, and what \<open>onValidityChange\<close> has heard.\<close>

record form =
  fo_paramKeyMap :: "(string, ui_param) js_map"
  fo_values :: "(string, json option) js_map"
  fo_exprErrors :: "(string, bool) js_map"
  fo_childInvalid :: "(string, bool) js_map"
  fo_lastValid :: "bool option"
  fo_advanced :: bool
  fo_codeError :: "string option"
  fo_expressionKeys :: "(string, bool) js_map"
  fo_opened :: "string list"
  fo_focus :: "(string, bool) js_map"
  fo_timer :: bool
  fo_checks :: "(form_props \<times> (string, json option) js_map) list"
  fo_heard :: "bool list"

text \<open>As the constructor leaves it; the values registered by the first drawing come before it is mounted
  (\<open>mounted\<close>).\<close>

definition new_form :: "form_props \<Rightarrow> form" where
  "new_form props =
     \<lparr>fo_paramKeyMap = foldl (\<lambda>m p. AList.update (pm_jsonKey p) p m) [] (or_nil (fp_uiSchema props)),
      fo_values = [], fo_exprErrors = [], fo_childInvalid = [], fo_lastValid = None, fo_advanced = fp_advanced props,
      fo_codeError = None, fo_expressionKeys = [], fo_opened = [], fo_focus = [], fo_timer = False, fo_checks = [], fo_heard = []\<rparr>"

definition empty_value :: "json option \<Rightarrow> bool" where
  "empty_value v \<longleftrightarrow> v = None \<or> v = Some JNull \<or> v = Some (JStr [])"

definition value_at :: "(string, json option) js_map \<Rightarrow> string \<Rightarrow> json option" where
  "value_at values key = Option.bind (map_of values key) id"

definition missing_param :: "(string, json option) js_map \<Rightarrow> ui_param \<Rightarrow> bool" where
  "missing_param values p \<longleftrightarrow> required_param p \<and> \<not> pm_disable p \<and> or_nil (pm_conditions p) = [] \<and>
     or_nil (pm_subParameters p) = [] \<and> empty_value (value_at values (pm_jsonKey p))"

definition form_valid :: "ui_param list option \<Rightarrow> form \<Rightarrow> bool" where
  "form_valid schema f \<longleftrightarrow> \<not> list_ex (missing_param (fo_values f)) (or_nil schema) \<and>
     \<not> list_ex snd (fo_exprErrors f) \<and> \<not> list_ex snd (fo_childInvalid f)"

definition reportValidity :: "ui_param list option \<Rightarrow> form \<Rightarrow> form" where
  "reportValidity schema f =
     (let valid = form_valid schema f
      in if Some valid \<noteq> fo_lastValid f then f\<lparr>fo_lastValid := Some valid, fo_heard := fo_heard f @ [valid]\<rparr> else f)"

definition refreshExpressionErrors :: "form \<Rightarrow> form" where
  "refreshExpressionErrors f = f\<lparr>fo_timer := True\<rparr>"

definition setValues :: "form_props \<Rightarrow> form \<Rightarrow> form" where
  "setValues props f = (case fp_value props of None \<Rightarrow> f
     | Some value \<Rightarrow> f\<lparr>fo_values := foldl (\<lambda>m (k, v). AList.update k (Some v) m) (fo_values f) value\<rparr>)"

definition form_didMount :: "form_props \<Rightarrow> form \<Rightarrow> form" where
  "form_didMount props f = refreshExpressionErrors (reportValidity (fp_uiSchema props) (setValues props f))"

definition form_didUpdate :: "bool \<Rightarrow> form_props \<Rightarrow> form \<Rightarrow> form" where
  "form_didUpdate changed props f =
     (if changed
      then refreshExpressionErrors (reportValidity (fp_uiSchema props)
             (f\<lparr>fo_exprErrors := [], fo_childInvalid := [], fo_lastValid := None\<rparr>))
      else f)"

text \<open>A field changed: the form holds the value, the caller is given the values without one that may
  not be empty.\<close>

definition given_values :: "form \<Rightarrow> string \<Rightarrow> json option \<Rightarrow> (string, json option) js_map" where
  "given_values f name v =
     (let values = fo_values f;
          values = (if (case map_of (fo_paramKeyMap f) name of Some p \<Rightarrow> pm_uiType p = ''Number'' | None \<Rightarrow> False) \<and> v = Some (JStr [])
                    then AList.delete name values else values)
      in if v = Some (JArr []) then AList.delete name values else values)"

definition field_onChange :: "form_props \<Rightarrow> string \<Rightarrow> json option \<Rightarrow> form \<Rightarrow> form \<times> (string, json option) js_map" where
  "field_onChange props name v f =
     (let f = f\<lparr>fo_values := AList.update name v (fo_values f)\<rparr>
      in (refreshExpressionErrors (reportValidity (fp_uiSchema props) f), given_values f name v))"

definition onChangeAdvanced :: "bool \<Rightarrow> form \<Rightarrow> form" where
  "onChangeAdvanced advanced f = f\<lparr>fo_advanced := advanced\<rparr>"

definition onStatus :: "form_props \<Rightarrow> string \<Rightarrow> bool \<Rightarrow> form \<Rightarrow> form" where
  "onStatus props key error f =
     reportValidity (fp_uiSchema props) (f\<lparr>fo_exprErrors := AList.update key error (fo_exprErrors f)\<rparr>)"

definition onChildValidity :: "form_props \<Rightarrow> string \<Rightarrow> bool \<Rightarrow> form \<Rightarrow> form" where
  "onChildValidity props key valid f =
     reportValidity (fp_uiSchema props) (f\<lparr>fo_childInvalid := AList.update key (\<not> valid) (fo_childInvalid f)\<rparr>)"

definition onBlurEditor :: "string option \<Rightarrow> form \<Rightarrow> form" where
  "onBlurEditor err f =
     f\<lparr>fo_codeError := Some (case err of None \<Rightarrow> [] | Some e \<Rightarrow> ''Please input a valid yaml config:'' @ e)\<rparr>"

section \<open>Expressions in a form\<close>

definition expressible :: "form_props \<Rightarrow> ui_param \<Rightarrow> bool" where
  "expressible props p \<longleftrightarrow> (case fp_expressions props of Some (Some e) \<Rightarrow> fe_enabled e \<and> fe_optedIn e | _ \<Rightarrow> False) \<and>
     \<not> never_expression p \<and> pm_uiType p \<in> set expressibleTypes"

definition inExpressionMode :: "bool \<Rightarrow> ui_param \<Rightarrow> json option \<Rightarrow> form \<Rightarrow> bool \<times> form" where
  "inExpressionMode typing p initValue f =
     (case map_of (fo_expressionKeys f) (pm_jsonKey p) of
        Some chosen \<Rightarrow> (chosen, f)
      | None \<Rightarrow>
          if pm_jsonKey p \<in> set (fo_opened f) then (True, f)
          else let v = (case value_at (fo_values f) (pm_jsonKey p) of Some c \<Rightarrow> Some c | None \<Rightarrow> initValue);
                   held = (case v of Some x \<Rightarrow> hasExpression x | None \<Rightarrow> False) \<and> \<not> never_expression p
               in (held, if held then f\<lparr>fo_opened := set_add (fo_opened f) (pm_jsonKey p),
                                        fo_focus := AList.update (pm_jsonKey p) typing (fo_focus f)\<rparr> else f))"

text \<open>The validity is reported once the form is drawn again with the parameter switched, which may
  register the field anew: \<open>drawn\<close> is what the field library then makes of the values.\<close>

definition setExpressionMode ::
  "form_props \<Rightarrow> ui_param \<Rightarrow> bool \<Rightarrow> ((string, json option) js_map \<Rightarrow> (string, json option) js_map) \<Rightarrow> form \<Rightarrow> form" where
  "setExpressionMode props p on drawn f =
     (let key = pm_jsonKey p; v = value_at (fo_values f) key;
          is_text = (case v of Some (JStr _) \<Rightarrow> True | _ \<Rightarrow> False);
          f = (if on \<and> \<not> empty_value v \<and> \<not> is_text
               then f\<lparr>fo_values := AList.update key (Some (JStr (''$('' @ stringify (the v) @ '')''))) (fo_values f)\<rparr> else f);
          f = (if \<not> on \<and> is_text \<and> hasExpression (the v) then f\<lparr>fo_values := AList.update key None (fo_values f)\<rparr> else f);
          f = (if \<not> on then f\<lparr>fo_exprErrors := AList.delete key (fo_exprErrors f)\<rparr> else f)
      in reportValidity (fp_uiSchema props)
           (f\<lparr>fo_expressionKeys := AList.update key on (fo_expressionKeys f), fo_values := drawn (fo_values f)\<rparr>))"

definition toggleExpression ::
  "form_props \<Rightarrow> ui_param \<Rightarrow> bool \<Rightarrow> ((string, json option) js_map \<Rightarrow> (string, json option) js_map) \<Rightarrow> form \<Rightarrow> form" where
  "toggleExpression props p active drawn f =
     setExpressionMode props p (\<not> active) drawn (f\<lparr>fo_focus := AList.update (pm_jsonKey p) (\<not> active) (fo_focus f)\<rparr>)"

definition expressions_note :: "form_props \<Rightarrow> form \<Rightarrow> bool" where
  "expressions_note props f \<longleftrightarrow>
     (case fp_expressions props of
        Some (Some e) \<Rightarrow> fe_enabled e \<and> \<not> fe_optedIn e \<and>
          sublist ''$('' (stringify (JObj (concat (map (\<lambda>(k, v). case v of None \<Rightarrow> [] | Some x \<Rightarrow> [(k, x)]) (fo_values f)))))
      | _ \<Rightarrow> False)"

text \<open>The server's answer to one expression: the issues it finds, or no answer where the request
  fails.\<close>

type_synonym server = "ui_param \<Rightarrow> json \<Rightarrow> expression_issue list option"

definition checkOne :: "server \<Rightarrow> form_props \<Rightarrow> ui_param \<Rightarrow> json option \<Rightarrow> string option" where
  "checkOne server props p v =
     (case v of
        Some x \<Rightarrow> if fp_expressions props \<noteq> None \<and> hasExpression x then map_option is_message (blockingIssue (server p x)) else None
      | None \<Rightarrow> None)"

definition checked_values :: "form_props \<Rightarrow> form \<Rightarrow> (string, json option) js_map" where
  "checked_values props f =
     foldl (\<lambda>m (k, v). AList.update k v m) (map (\<lambda>(k, v). (k, Some v)) (or_nil (fp_value props))) (fo_values f)"

definition check_param ::
  "server \<Rightarrow> form_props \<Rightarrow> (string, json option) js_map \<Rightarrow> (string, string) js_map \<Rightarrow> ui_param \<Rightarrow> (string, string) js_map" where
  "check_param server props values out p =
     (let message = checkOne server props p (value_at values (pm_jsonKey p))
      in if truthy message then AList.update (pm_jsonKey p) (the message) out else out)"

definition checkExpressions :: "server \<Rightarrow> form_props \<Rightarrow> (string, json option) js_map \<Rightarrow> (string, string) js_map" where
  "checkExpressions server props values = foldl (check_param server props values) [] (or_nil (fp_uiSchema props))"

definition timer_fires :: "form_props \<Rightarrow> form \<Rightarrow> form" where
  "timer_fires props f = f\<lparr>fo_timer := False, fo_checks := fo_checks f @ [(props, checked_values props f)]\<rparr>"

definition check_answered :: "server \<Rightarrow> form_props \<Rightarrow> nat \<Rightarrow> form \<Rightarrow> form" where
  "check_answered server props i f =
     (let errors = checkExpressions server (fst (fo_checks f ! i)) (snd (fo_checks f ! i))
      in reportValidity (fp_uiSchema props)
           (f\<lparr>fo_checks := take i (fo_checks f) @ drop (Suc i) (fo_checks f),
              fo_exprErrors := map (\<lambda>(k, _). (k, True)) errors,
              fo_advanced := fo_advanced f \<or> errors \<noteq> []\<rparr>))"

text \<open>The check on save. The library's own check of the fields shown is an argument.\<close>

definition form_validate :: "server \<Rightarrow> form_props \<Rightarrow> bool \<Rightarrow> form \<Rightarrow> form \<times> string option" where
  "form_validate server props field_errors f =
     (if field_errors \<or> truthy (fo_codeError f) then (f, Some ''ui schema validate failure'')
      else case checkExpressions server props (checked_values props f) of
             [] \<Rightarrow> (f, None)
           | (_, message) # _ \<Rightarrow> (f\<lparr>fo_advanced := True\<rparr>, Some message))"

section \<open>When a condition shows a parameter\<close>

lemma counts:
  "foldl (count_condition number scope) (d, e, n) cs =
     (d + length (filter (\<lambda>c. acts (pc_action c) = Disable \<and> condition_holds number scope c) cs),
      e + length (filter (\<lambda>c. acts (pc_action c) = Enable \<and> condition_holds number scope c) cs),
      n + length (filter (\<lambda>c. acts (pc_action c) = Enable) cs))"
  by (induction cs arbitrary: d e n) (auto simp: count_condition_def Let_def split: condition_action.splits)

lemma filter_all_iff: "length (filter (\<lambda>x. P x \<and> Q x) xs) = length (filter P xs) \<longleftrightarrow> (\<forall>x \<in> set xs. P x \<longrightarrow> Q x)"
proof -
  have eq: "filter (\<lambda>x. P x \<and> Q x) xs = filter Q (filter P xs)" by (simp add: conj_commute)
  have "length (filter Q ys) = length ys \<longleftrightarrow> (\<forall>y \<in> set ys. Q y)" for ys
    by (metis filter_True length_filter_less less_irrefl)
  from this[of "filter P xs"] show ?thesis unfolding eq by auto
qed

lemma allow_iff:
  "conditionAllowRender number scope conditions \<longleftrightarrow>
     or_nil conditions = [] \<or>
     (\<not> (\<exists>c \<in> set (or_nil conditions). acts (pc_action c) = Disable \<and> condition_holds number scope c) \<and>
      (\<exists>c \<in> set (or_nil conditions). acts (pc_action c) = Enable) \<and>
      (\<forall>c \<in> set (or_nil conditions). acts (pc_action c) = Enable \<longrightarrow> condition_holds number scope c))"
proof (cases "or_nil conditions")
  case Nil
  then show ?thesis by (cases conditions) (auto simp: conditionAllowRender_def)
next
  case (Cons c cs)
  then have eq: "conditions = Some (c # cs)" by (cases conditions) auto
  let ?en = "\<lambda>x. acts (pc_action x) = Enable" and ?h = "condition_holds number scope"
  have "conditionAllowRender number scope conditions \<longleftrightarrow>
    filter (\<lambda>x. acts (pc_action x) = Disable \<and> ?h x) (c # cs) = [] \<and> filter (\<lambda>x. ?en x \<and> ?h x) (c # cs) \<noteq> [] \<and>
    length (filter (\<lambda>x. ?en x \<and> ?h x) (c # cs)) = length (filter ?en (c # cs))"
    unfolding conditionAllowRender_def eq option.case list.case counts prod.case by simp
  then show ?thesis unfolding filter_all_iff Cons filter_empty_conv by blast
qed

text \<open>C21: a parameter with conditions is shown exactly when none that disables it holds, and there
  are conditions that enable it and all of them hold.\<close>

theorem conditionAllowRender_iff:
  "conditionAllowRender number scope conditions \<longleftrightarrow>
     or_nil conditions = [] \<or>
     (\<not> (\<exists>c \<in> set (or_nil conditions). acts (pc_action c) = Disable \<and> condition_holds number scope c) \<and>
      (\<exists>c \<in> set (or_nil conditions). acts (pc_action c) = Enable) \<and>
      (\<forall>c \<in> set (or_nil conditions). acts (pc_action c) = Enable \<longrightarrow> condition_holds number scope c))"
  by (rule allow_iff)

definition when_https :: "condition_action option \<Rightarrow> param_condition" where
  "when_https action = \<lparr>pc_jsonKey = ''../scheme'', pc_op = None, pc_value = Some (JStr ''https''), pc_action = action\<rparr>"

theorem conditionAllowRender_iff_witness:
  "conditionAllowRender (\<lambda>_. None) [JObj [], JObj [(''scheme'', JStr ''https'')]] (Some [when_https None]) \<and>
   \<not> conditionAllowRender (\<lambda>_. None) [JObj [], JObj [(''scheme'', JStr ''https'')]] (Some [when_https None, when_https (Some Disable)])"
proof -
  let ?s = "[JObj [], JObj [(''scheme'', JStr ''https'')]]"
  have "condition_holds (\<lambda>_. None) ?s (when_https None)" "condition_holds (\<lambda>_. None) ?s (when_https (Some Disable))" by code_simp+
  moreover have "acts (pc_action (when_https None)) = Enable" "acts (pc_action (when_https (Some Disable))) = Disable" by code_simp+
  ultimately show ?thesis unfolding conditionAllowRender_iff by simp
qed

text \<open>A parameter that has only conditions that disable it is never shown, whether they hold or
  not.\<close>

lemma disable_only_hides:
  assumes "cs \<noteq> []" and "\<forall>c \<in> set cs. pc_action c = Some Disable"
  shows "\<not> conditionAllowRender number scope (Some cs)"
  using assms by (auto simp: allow_iff acts_def coalesce_def)

lemma conditionValue_outer [simp]: "conditionValue (''../'' @ key) scope = conditionValue key (tl scope)"
  by (subst conditionValue.simps) (simp add: starts_with_def)

text \<open>The switch of the advanced parameters is offered whatever the schema: its condition always
  holds, since the parameters that may be hidden and those required are all there are.\<close>

lemma showAdvancedButton_always: "showAdvancedButton number scope schema"
proof -
  have "length (filter (\<lambda>p. \<not> required_param p) xs) + length (filter required_param xs) = length xs" for xs
    by (induction xs) auto
  from this[of "filter (could_show number scope) schema"] show ?thesis
    unfolding showAdvancedButton_def Let_def by linarith
qed

section \<open>Sections lose nothing\<close>

fun drawn_items :: "'a drawn \<Rightarrow> 'a list" where
  "drawn_items (Alone x) = [x]"
| "drawn_items (Section s xs) = xs"

fun drawn_section :: "'a drawn \<Rightarrow> string list" where
  "drawn_section (Alone x) = []"
| "drawn_section (Section s xs) = [s]"

lemma place_item_fold:
  assumes "foldl (place_item items) ([], []) ys = (out, placed)"
  shows "mset (concat (map drawn_items out)) =
      mset (map snd (filter (\<lambda>x. \<not> truthy (fst x)) ys)) +
      mset (map snd (filter (\<lambda>x. truthy (fst x) \<and> the (fst x) \<in> set placed) items)) \<and>
    set placed = {s. s \<noteq> [] \<and> Some s \<in> fst ` set ys} \<and> distinct placed \<and> concat (map drawn_section out) = placed"
  using assms
proof (induction ys arbitrary: out placed rule: rev_induct)
  case Nil
  then show ?case by simp
next
  case (snoc x ys)
  obtain o' p' where f: "foldl (place_item items) ([], []) ys = (o', p')" by fastforce
  note IH = snoc.IH[OF f]
  have now: "(out, placed) = place_item items (o', p') x" using snoc.prems f by simp
  show ?case
  proof (cases "truthy (fst x)")
    case False
    then have "out = o' @ [Alone (snd x)]" "placed = p'" using now by (simp_all add: place_item_def)
    moreover have "{s. s \<noteq> [] \<and> Some s \<in> fst ` set (ys @ [x])} = {s. s \<noteq> [] \<and> Some s \<in> fst ` set ys}"
      using False by (auto simp: truthy_def split: option.splits)
    ultimately show ?thesis using IH False by simp
  next
    case True
    then obtain s where s: "fst x = Some s" "s \<noteq> []" by (cases "fst x") (auto simp: truthy_def)
    show ?thesis
    proof (cases "s \<in> set p'")
      case True
      then have "out = o'" "placed = p'" using now s by (simp_all add: place_item_def truthy_def)
      then show ?thesis using IH s True by (auto simp: truthy_def)
    next
      case False
      then have o: "out = o' @ [Section s (map snd (filter (in_section s) items))]" and p: "placed = p' @ [s]"
        using now s by (simp_all add: place_item_def truthy_def Let_def)
      have m': "mset (filter (\<lambda>x. truthy (fst x) \<and> the (fst x) \<in> set placed) is) =
        mset (filter (\<lambda>x. truthy (fst x) \<and> the (fst x) \<in> set p') is) + mset (filter (in_section s) is)" for "is" :: "(string option \<times> 'a) list"
      proof (induction "is")
        case (Cons i "is")
        then show ?case using False s by (cases "fst i") (auto simp: p in_section_def truthy_def)
      qed simp
      have m: "mset (map snd (filter (\<lambda>x. truthy (fst x) \<and> the (fst x) \<in> set placed) items)) =
        mset (map snd (filter (\<lambda>x. truthy (fst x) \<and> the (fst x) \<in> set p') items)) + mset (map snd (filter (in_section s) items))"
        by (simp only: mset_map m' image_mset_union)
      have t: "filter (\<lambda>x. \<not> truthy (fst x)) (ys @ [x]) = filter (\<lambda>x. \<not> truthy (fst x)) ys" using s by (simp add: truthy_def)
      have "set placed = {s. s \<noteq> [] \<and> Some s \<in> fst ` set (ys @ [x])}" using IH p s by auto
      moreover have "mset (concat (map drawn_items out)) = mset (map snd (filter (\<lambda>x. \<not> truthy (fst x)) (ys @ [x]))) +
        mset (map snd (filter (\<lambda>x. truthy (fst x) \<and> the (fst x) \<in> set placed) items))"
        unfolding m t using IH by (simp add: o)
      ultimately show ?thesis using IH o p False by simp
    qed
  qed
qed

text \<open>Gathering the parameters drawn into sections loses none and repeats none, and draws every
  section once.\<close>

theorem inSections_partition:
  assumes "length schema = length rendered"
  shows "mset (concat (map drawn_items (inSections section_of schema rendered))) = mset (List.map_filter id rendered) \<and>
    distinct (concat (map drawn_section (inSections section_of schema rendered)))"
proof -
  define items where "items = concat (map2 (\<lambda>p r. case r of None \<Rightarrow> [] | Some x \<Rightarrow> [(section_of p, x)]) schema rendered)"
  obtain out placed where f: "foldl (place_item items) ([], []) items = (out, placed)" by fastforce
  have out: "inSections section_of schema rendered = out" by (simp add: inSections_def flip: items_def) (simp add: f)
  have all: "map snd items = List.map_filter id rendered"
    using assms unfolding items_def by (induction schema rendered rule: list_induct2) (auto simp: map_filter_simps split: option.splits)
  note r = place_item_fold[OF f]
  have "filter (\<lambda>x. truthy (fst x) \<and> the (fst x) \<in> set placed) items = filter (\<lambda>x. truthy (fst x)) items"
  proof (rule filter_cong)
    fix x assume x: "x \<in> set items"
    have "the (fst x) \<in> set placed" if "truthy (fst x)"
    proof -
      have "fst x = Some (the (fst x))" "the (fst x) \<noteq> []" using that by (cases "fst x"; auto simp: truthy_def)+
      then show ?thesis using r x by (metis (mono_tags, lifting) imageI mem_Collect_eq)
    qed
    then show "(truthy (fst x) \<and> the (fst x) \<in> set placed) = truthy (fst x)" by blast
  qed simp
  moreover have "mset (filter (\<lambda>x. \<not> truthy (fst x)) items) + mset (filter (\<lambda>x. truthy (fst x)) items) = mset items"
    by (simp add: multiset_partition[symmetric] add.commute)
  ultimately have "mset (concat (map drawn_items out)) = mset (map snd items)"
    using r by (metis image_mset_union mset_map)
  then show ?thesis using out all r by simp
qed

theorem inSections_partition_witness:
  "mset (concat (map drawn_items (inSections id [Some ''a'', None, Some ''a'', Some ''b''] [Some 1, Some 2, Some (3 :: nat), None]))) =
     mset (List.map_filter id [Some 1, Some 2, Some 3, None]) \<and>
   inSections id [Some ''a'', None, Some ''a'', Some ''b''] [Some 1, Some 2, Some (3 :: nat), None] = [Section ''a'' [1, 3], Alone 2]"
proof
  show "inSections id [Some ''a'', None, Some ''a'', Some ''b''] [Some 1, Some 2, Some (3 :: nat), None] = [Section ''a'' [1, 3], Alone 2]"
    by code_simp
qed (rule conjunct1[OF inSections_partition], simp)

section \<open>What a form says of itself\<close>

text \<open>The form as a transition system: what its fields, its editors, its nested forms, its timer and
  the server do to it, in any order. Some events end in a report of the validity. The others do
  not: the values a parameter's field is registered with as it is drawn, and its value leaving
  the form as it goes, are held or gone without a word (\<open>held\<close>), and the code editor's
  error is asked for on save alone. New properties bring a new schema, which is judged afresh, or
  the same one.\<close>

inductive form_reports :: "server \<Rightarrow> form_props \<times> form \<Rightarrow> form_props \<times> form \<Rightarrow> bool" for server where
  change: "form_reports server (p, f) (p, fst (field_onChange p name v f))"
| status: "form_reports server (p, f) (p, onStatus p key error f)"
| child: "form_reports server (p, f) (p, onChildValidity p key valid f)"
| toggle: "form_reports server (p, f) (p, toggleExpression p param active drawn f)"
| answered: "i < length (fo_checks f) \<Longrightarrow> form_reports server (p, f) (p, check_answered server p i f)"

inductive form_silent :: "server \<Rightarrow> form_props \<times> form \<Rightarrow> form_props \<times> form \<Rightarrow> bool" for server where
  held: "form_silent server (p, f) (p, f\<lparr>fo_values := values\<rparr>)"
| advanced: "form_silent server (p, f) (p, onChangeAdvanced a f)"
| blur: "form_silent server (p, f) (p, onBlurEditor err f)"
| draw: "form_silent server (p, f) (p, snd (inExpressionMode typing param initValue f))"
| update: "fp_uiSchema p' = fp_uiSchema p \<Longrightarrow> form_silent server (p, f) (p', form_didUpdate False p' f)"
| fires: "fo_timer f \<Longrightarrow> form_silent server (p, f) (p, timer_fires p f)"
| save: "form_silent server (p, f) (p, fst (form_validate server p field_errors f))"

inductive form_step :: "server \<Rightarrow> form_props \<times> form \<Rightarrow> form_props \<times> form \<Rightarrow> bool" for server where
  reports: "form_reports server x y \<Longrightarrow> form_step server x y"
| silent: "form_silent server x y \<Longrightarrow> form_step server x y"
| renewed: "form_step server (p, f) (p', form_didUpdate True p' f)"

inductive_cases form_stepE: "form_step server (p, f) (p', f')"

lemma form_valid_cong [simp]:
  "form_valid schema (f\<lparr>fo_lastValid := l\<rparr>) = form_valid schema f"
  "form_valid schema (f\<lparr>fo_heard := h\<rparr>) = form_valid schema f"
  "form_valid schema (f\<lparr>fo_timer := t\<rparr>) = form_valid schema f"
  by (simp_all add: form_valid_def)

text \<open>Whatever was changed before it, a report leaves the parent told, where what the parent last
  heard was the last validity or nothing is known of it.\<close>

definition heard_last :: "form \<Rightarrow> bool" where
  "heard_last f \<longleftrightarrow> fo_heard f \<noteq> [] \<and> fo_lastValid f = Some (last (fo_heard f))"

definition told :: "form_props \<Rightarrow> bool list \<Rightarrow> form \<Rightarrow> bool" where
  "told p earlier f \<longleftrightarrow> last (fo_heard f) = form_valid (fp_uiSchema p) f \<and>
     fo_heard f = earlier @ (if last earlier = form_valid (fp_uiSchema p) f then [] else [form_valid (fp_uiSchema p) f])"



lemma refresh_keeps [simp]:
  "told p earlier (refreshExpressionErrors f) = told p earlier f" "heard_last (refreshExpressionErrors f) = heard_last f"
  "form_valid schema (refreshExpressionErrors f) = form_valid schema f" "fo_heard (refreshExpressionErrors f) = fo_heard f"
  by (simp_all add: told_def heard_last_def refreshExpressionErrors_def)




definition mounted :: "form_props \<Rightarrow> (string, json option) js_map \<Rightarrow> form" where
  "mounted props registered = form_didMount props ((new_form props)\<lparr>fo_values := registered\<rparr>)"




text \<open>A schema of one required text, and a server that refuses one expression.\<close>

definition host_param :: ui_param where
  "host_param = UIParam ''host'' ''Input'' None False None None
     (Some \<lparr>uv_required = True, uv_min = None, uv_max = None, uv_minLength = None, uv_maxLength = None, uv_pattern = None,
        uv_defaultValue = None, uv_options = None, uv_immutable = False, uv_message = None\<rparr>)"

definition host_props :: form_props where
  "host_props = \<lparr>fp_uiSchema = Some [host_param], fp_value = None, fp_expressions = Some None, fp_advanced = False\<rparr>"

definition strict_server :: server where
  "strict_server p v = (if v = JStr ''$(bad)''
     then Some [\<lparr>is_message = ''undeclared'', is_start = 2, is_end = 5, is_warning = False, is_fix = None\<rparr>] else None)"

definition host_form :: form where
  "host_form = mounted host_props []"

definition typed :: "string \<Rightarrow> form \<Rightarrow> form" where
  "typed s f = fst (field_onChange host_props ''host'' (Some (JStr s)) f)"


section \<open>Errors of expressions\<close>

lemma checkExpressions_keys:
  "fst ` set (checkExpressions server props values) =
     {pm_jsonKey p |p. p \<in> set (or_nil (fp_uiSchema props)) \<and> truthy (checkOne server props p (value_at values (pm_jsonKey p)))}"
proof -
  have "fst ` set (foldl (check_param server props values) out ps) =
      fst ` set out \<union> {pm_jsonKey p |p. p \<in> set ps \<and> truthy (checkOne server props p (value_at values (pm_jsonKey p)))}" for out ps
    by (induction ps arbitrary: out) (auto simp: check_param_def Let_def dom_update)
  from this[of "[]"] show ?thesis by (simp add: checkExpressions_def)
qed

lemma reportValidity_keeps [simp]:
  "fo_values (reportValidity schema f) = fo_values f" "fo_exprErrors (reportValidity schema f) = fo_exprErrors f"
  "fo_childInvalid (reportValidity schema f) = fo_childInvalid f" "fo_advanced (reportValidity schema f) = fo_advanced f"
  "form_valid schema' (reportValidity schema f) = form_valid schema' f"
  by (simp_all add: reportValidity_def Let_def)

text \<open>When the server answers the check of the values a form now has, the form is held valid
  exactly when no required field is empty, no nested form is invalid, and the server finds no
  error in any expression of the schema, shown or folded away; where it finds one the folded
  parameters are shown.\<close>

theorem check_answered_exact:
  assumes "fo_checks f ! i = (props, checked_values props f)"
  shows "(form_valid (fp_uiSchema props) (check_answered server props i f) \<longleftrightarrow>
      \<not> list_ex (missing_param (fo_values f)) (or_nil (fp_uiSchema props)) \<and> \<not> list_ex snd (fo_childInvalid f) \<and>
      \<not> (\<exists>p \<in> set (or_nil (fp_uiSchema props)). truthy (checkOne server props p (value_at (checked_values props f) (pm_jsonKey p))))) \<and>
    ((\<exists>p \<in> set (or_nil (fp_uiSchema props)). truthy (checkOne server props p (value_at (checked_values props f) (pm_jsonKey p)))) \<longrightarrow>
      fo_advanced (check_answered server props i f))"
proof -
  let ?e = "checkExpressions server props (checked_values props f)"
  let ?bad = "\<exists>p \<in> set (or_nil (fp_uiSchema props)). truthy (checkOne server props p (value_at (checked_values props f) (pm_jsonKey p)))"
  have "fst ` set ?e = {} \<longleftrightarrow> \<not> ?bad" unfolding checkExpressions_keys by blast
  then have e: "?e = [] \<longleftrightarrow> \<not> ?bad" by simp
  have "list_ex snd (map (\<lambda>(k, _). (k, True)) ?e) \<longleftrightarrow> ?e \<noteq> []" by (cases ?e) (auto simp: list_ex_iff)
  then have "form_valid (fp_uiSchema props) (check_answered server props i f) \<longleftrightarrow>
      \<not> list_ex (missing_param (fo_values f)) (or_nil (fp_uiSchema props)) \<and> \<not> list_ex snd (fo_childInvalid f) \<and> ?e = []"
    using assms by (auto simp: check_answered_def Let_def form_valid_def)
  moreover have "?e \<noteq> [] \<Longrightarrow> fo_advanced (check_answered server props i f)"
    using assms by (simp add: check_answered_def Let_def)
  ultimately show ?thesis using e by blast
qed

theorem check_answered_exact_witness:
  "fo_checks (timer_fires host_props (typed ''$(bad)'' host_form)) ! 0 = (host_props, checked_values host_props (timer_fires host_props (typed ''$(bad)'' host_form))) \<and>
   \<not> form_valid (fp_uiSchema host_props) (check_answered strict_server host_props 0 (timer_fires host_props (typed ''$(bad)'' host_form)))"
proof -
  let ?f = "timer_fires host_props (typed ''$(bad)'' host_form)"
  have h: "fo_checks ?f ! 0 = (host_props, checked_values host_props ?f)" by code_simp
  have bad: "host_param \<in> set (or_nil (fp_uiSchema host_props))" by code_simp
  have t: "truthy (checkOne strict_server host_props host_param (value_at (checked_values host_props ?f) (pm_jsonKey host_param)))"
    by code_simp
  from check_answered_exact[OF h, of strict_server] h bad t show ?thesis by blast
qed

text \<open>The answer of an earlier check that arrives after a later one's is taken for the latest: the
  form is held invalid for an expression it no longer has, and nothing checks it again.\<close>

lemma stale_check_blocks:
  "let f1 = timer_fires host_props (typed ''$(bad)'' host_form);
       f2 = timer_fires host_props (typed ''db'' f1);
       f3 = check_answered strict_server host_props 0 (check_answered strict_server host_props 1 f2)
   in fo_checks f3 = [] \<and> \<not> fo_timer f3 \<and> fo_heard f3 = [False, True, False] \<and>
      value_at (fo_values f3) ''host'' = Some (JStr ''db'')"
  by code_simp

text \<open>The parameters a number may not be empty for are those of the schema the form was made with:
  after a new schema an emptied number is given to the caller as an empty text.\<close>

lemma new_schema_empty_number:
  "let number = UIParam ''n'' ''Number'' None False None None None;
       props = host_props\<lparr>fp_uiSchema := Some [number]\<rparr>;
       f = form_didUpdate True props host_form
   in snd (field_onChange props ''n'' (Some (JStr [])) f) = [(''n'', Some (JStr []))] \<and>
      snd (field_onChange props ''n'' (Some (JStr [])) (form_didMount props (new_form props))) = []"
  by code_simp

text \<open>Switching an expression off leaves neither it nor its error, where drawing the form again
  registers no value of its own.\<close>

lemma value_at_update: "value_at (AList.update k v m) k' = (if k = k' then v else value_at m k')"
  by (simp add: value_at_def update_conv')

lemma setExpressionMode_off:
  "(case value_at (fo_values (setExpressionMode props p False (\<lambda>vs. vs) f)) (pm_jsonKey p) of
      Some v \<Rightarrow> \<not> hasExpression v | None \<Rightarrow> True) \<and>
   pm_jsonKey p \<notin> fst ` set (fo_exprErrors (setExpressionMode props p False (\<lambda>vs. vs) f)) \<and>
   map_of (fo_expressionKeys (setExpressionMode props p False (\<lambda>vs. vs) f)) (pm_jsonKey p) = Some False"
  by (auto simp: setExpressionMode_def Let_def value_at_update hasExpression_def reportValidity_def update_conv'
      simp flip: set_map simp add: delete_keys split: option.splits json.splits)

section \<open>Patterns\<close>

lemma anchors_plain: "backslash \<notin> set s \<Longrightarrow> anchors_from letter r at_start s = s"
  by (induction letter r at_start s rule: anchors_from.induct) auto

lemma starts_with_split: "starts_with s p \<Longrightarrow> s = p @ drop (length p) s"
  by (metis append_take_drop_id starts_with_def)

lemma named_groups_plain: "\<not> sublist ''(?'' s \<Longrightarrow> named_groups s = s"
proof (induction s)
  case (Cons c s)
  have "\<not> starts_with (c # s) ''(?P<''"
  proof
    assume "starts_with (c # s) ''(?P<''"
    then have "c # s = ''(?P<'' @ drop (length ''(?P<'') (c # s)" by (rule starts_with_split)
    then obtain r where "c # s = ''(?P<'' @ r" by blast
    then have "c # s = [] @ ''(?'' @ ''P<'' @ r" by simp
    then show False using Cons.prems by (metis sublist_appendI)
  qed
  moreover have "\<not> sublist ''(?'' s" using Cons.prems by (metis sublist_Cons_right)
  ultimately show ?case using Cons.IH by (simp add: named_groups.simps[of "c # s"])
qed (simp add: named_groups.simps)

text \<open>A pattern with neither a backslash nor a special group is compiled as it is, with no flag.\<close>

lemma toJSRegExp_plain:
  assumes "backslash \<notin> set pattern" and "\<not> sublist ''(?'' pattern"
  shows "toJSRegExp compiles pattern = (if compiles pattern [] then Some (pattern, []) else None)"
proof -
  have "\<not> starts_with pattern ''(?''"
    using assms(2) by (metis append_Nil append_take_drop_id starts_with_def sublist_appendI)
  then show ?thesis using assms by (simp add: toJSRegExp_def inline_flags_def Let_def anchors_plain named_groups_plain)
qed

end
