(* ===== verification/Branding_Views.thy ===== *)
theory Branding_Views
  imports Form_Schema Component_Dependencies Search_Forms
begin

text \<open>
  How a VelaUX is branded and what its views say: the terms renamed in every text
  (\<open>utils/terminology.ts\<close>), the colours of the sidebar (\<open>utils/theme.ts\<close>), the service that holds
  the branding (\<open>services/CustomisationService.ts\<close>), the tabs of an application
  (\<open>layout/Application/components/AppTabs/add.ts\<close>), the tooltips of the graph
  (\<open>components/TreeGraph/tooltip.ts\<close>) and the reads of a source (\<open>utils/sourceStatus.ts\<close>).
\<close>

section \<open>Terminology\<close>

record renamed_term =
  tm_singular :: string
  tm_plural :: string

definition to_upper :: "string \<Rightarrow> string" where
  "to_upper s = map upper_char s"

definition is_vowel :: "char \<Rightarrow> bool" where
  "is_vowel c \<longleftrightarrow> lower_char c \<in> set ''aeiou''"

definition ends_on :: "string \<Rightarrow> string \<Rightarrow> bool" where
  "ends_on s e \<longleftrightarrow> ends_in (to_lower s) e"

definition pluralOf :: "string \<Rightarrow> string" where
  "pluralOf word =
     (if length word \<ge> 2 \<and> ends_on word ''y'' \<and> \<not> is_vowel (word ! (length word - 2)) then butlast word @ ''ies''
      else if list_ex (ends_on word) [''s'', ''x'', ''z'', ''ch'', ''sh''] then word @ ''es''
      else word @ ''s'')"

text \<open>An empty text has no first character, and asking for its case throws, \<open>None\<close>.\<close>

definition matchCase :: "string \<Rightarrow> string \<Rightarrow> string option" where
  "matchCase found replacement =
     (if found = to_upper found \<and> found \<noteq> to_lower found then Some (to_upper replacement)
      else if found = [] \<or> replacement = [] then None
      else if hd found = upper_char (hd found) then Some (upper_char (hd replacement) # tl replacement)
      else Some (lower_char (hd replacement) # tl replacement))"

definition term_words :: "(string, renamed_term) js_map \<Rightarrow> (string, string) js_map" where
  "term_words terms =
     foldl (\<lambda>words (name, t). AList.update (to_lower name) (tm_singular t)
              (AList.update (to_lower (pluralOf name)) (tm_plural t) words)) [] terms"

definition alternatives :: "(string, string) js_map \<Rightarrow> string list" where
  "alternatives words = sort_key (\<lambda>w. - int (length w)) (map fst words)"

definition part_of_word :: "char \<Rightarrow> bool" where
  "part_of_word c \<longleftrightarrow> alnum c \<or> c = CHR ''_''"

text \<open>A boundary of words between what comes before and what follows.\<close>

definition boundary :: "char option \<Rightarrow> string \<Rightarrow> bool" where
  "boundary before_char rest \<longleftrightarrow>
     (case before_char of None \<Rightarrow> False | Some c \<Rightarrow> part_of_word c) \<noteq> (rest \<noteq> [] \<and> part_of_word (hd rest))"

definition word_here :: "char option \<Rightarrow> string \<Rightarrow> string \<Rightarrow> bool" where
  "word_here before_char rest w \<longleftrightarrow>
     boundary before_char rest \<and> starts_with (to_lower rest) w \<and> length w \<le> length rest \<and>
     boundary (if w = [] then before_char else Some (rest ! (length w - 1))) (drop (length w) rest)"

definition found_here :: "string list \<Rightarrow> char option \<Rightarrow> string \<Rightarrow> string option" where
  "found_here words before_char rest = map_option (\<lambda>w. take (length w) rest) (find (word_here before_char rest) words)"

lemma found_here_length: "found_here words b rest = Some found \<Longrightarrow> length found \<le> length rest"
  by (auto simp: found_here_def)

definition or_found :: "(string, string) js_map \<Rightarrow> string \<Rightarrow> string" where
  "or_found words found = or_str (map_of words (to_lower found)) found"

text \<open>The replacement of every match, left to right; an empty match throws in \<open>matchCase\<close>.\<close>

function rename_from :: "(string, string) js_map \<Rightarrow> char option \<Rightarrow> string \<Rightarrow> string option" where
  "rename_from words before_char rest =
     (case found_here (alternatives words) before_char rest of
        Some found \<Rightarrow>
          if found = [] then None
          else (case matchCase found (or_found words found) of
                  None \<Rightarrow> None
                | Some r \<Rightarrow> map_option (\<lambda>s. r @ s) (rename_from words (Some (last found)) (drop (length found) rest)))
      | None \<Rightarrow> (case rest of [] \<Rightarrow> Some [] | c # cs \<Rightarrow> map_option (\<lambda>s. c # s) (rename_from words (Some c) cs)))"
  by pat_completeness auto
termination
proof (relation "measure (\<lambda>(words, before_char, rest). length rest)")
  fix words :: "(string, string) js_map" and before_char rest found
  assume "found_here (alternatives words) before_char rest = Some found" and "found \<noteq> []"
  then have "0 < length found" "length found \<le> length rest" using found_here_length by auto
  then have "length rest - length found < length rest" by linarith
  then show "((words, Some (last found), drop (length found) rest), words, before_char, rest)
    \<in> measure (\<lambda>(words, before_char, rest). length rest)" by simp
qed auto

declare rename_from.simps [simp del]

definition applyTerminology :: "string \<Rightarrow> (string, renamed_term) js_map \<Rightarrow> string option" where
  "applyTerminology text_in terms =
     (if text_in = [] \<or> terms = [] then Some text_in else rename_from (term_words terms) None text_in)"

section \<open>Colours of the sidebar\<close>

definition hash_char :: char where "hash_char = CHR ''#''"

text \<open>\<open>replace('#', '')\<close> takes out the first one. A colour of three digits is each of them twice.\<close>

definition hex_pairs :: "string \<Rightarrow> string" where
  "hex_pairs hex =
     (let h = (case index_of hash_char hex of None \<Rightarrow> hex | Some i \<Rightarrow> take i hex @ drop (Suc i) hex)
      in if length h = 3 then concat (map (\<lambda>c. [c, c]) h) else h)"

text \<open>\<open>parseInt\<close> of two characters that are no space, sign or \<open>0x\<close>: as many as are hexadecimal, none
  being no number.\<close>

definition parse_pair :: "string \<Rightarrow> nat option" where
  "parse_pair s =
     (case map hex_value (take 2 s) of
        Some a # Some b # _ \<Rightarrow> Some (16 * a + b)
      | Some a # _ \<Rightarrow> Some a
      | _ \<Rightarrow> None)"

definition channels :: "string \<Rightarrow> nat option list" where
  "channels hex = map (\<lambda>i. parse_pair (drop i (hex_pairs hex))) [0, 2, 4]"

definition linear :: "nat \<Rightarrow> real" where
  "linear n = (let c = real n / 255 in if c \<le> 3928 / 100000 then c / (1292 / 100) else ((c + 55 / 1000) / (1055 / 1000)) powr (24 / 10))"

definition isLight :: "string \<Rightarrow> bool" where
  "isLight hex \<longleftrightarrow>
     (case channels hex of
        [Some r, Some g, Some b] \<Rightarrow> 2126 / 10000 * linear r + 7152 / 10000 * linear g + 722 / 10000 * linear b > 4 / 10
      | _ \<Rightarrow> False)"

definition channel_text :: "nat option \<Rightarrow> string" where
  "channel_text c = (case c of None \<Rightarrow> ''NaN'' | Some n \<Rightarrow> nat_str n)"

definition rgba :: "string \<Rightarrow> string \<Rightarrow> string" where
  "rgba hex alpha = ''rgba('' @ join_with '', '' (map channel_text (channels hex)) @ '', '' @ alpha @ '')''"

text \<open>Whether the background is light is an argument, \<^const>\<open>isLight\<close> in the program.\<close>

definition sidebarTheme :: "(string \<Rightarrow> bool) \<Rightarrow> string option \<Rightarrow> string option \<Rightarrow> (string, string) js_map" where
  "sidebarTheme is_light background accent =
     (if \<not> truthy background
      then (if truthy accent then [(''--sb-accent'', the accent), (''--sb-active'', rgba (the accent) ''0.16'')] else [])
      else let light = is_light (the background);
               theme = (if light
                 then [(''--sb-bg'', the background), (''--sb-text'', ''#334155''), (''--sb-text-strong'', ''#0f172a''),
                       (''--sb-muted'', ''#64748b''), (''--sb-hover'', ''rgba(15, 23, 42, 0.06)''), (''--sb-border'', ''rgba(15, 23, 42, 0.08)'')]
                 else [(''--sb-bg'', the background), (''--sb-text'', ''#a3adbd''), (''--sb-text-strong'', ''#f1f5f9''),
                       (''--sb-muted'', ''#64748b''), (''--sb-hover'', ''rgba(255, 255, 255, 0.06)''), (''--sb-border'', ''rgba(255, 255, 255, 0.06)'')])
           in if truthy accent
              then theme @ [(''--sb-accent'', the accent), (''--sb-active'', rgba (the accent) (if light then ''0.14'' else ''0.2'')),
                            (''--sb-active-text'', if light then the accent else ''#f1f5f9'')]
              else theme)"

section \<open>The branding of the page\<close>

record customisation =
  cu_pageTitle :: "string option"
  cu_logoURL :: "string option"
  cu_iconURL :: "string option"
  cu_sidebarColor :: "string option"
  cu_accentColor :: "string option"
  cu_terminology :: "(string, renamed_term) js_map option"
  cu_terminologyError :: "string option"

text \<open>The service, and of the page its title, the properties of its root and the icon it links to, if
  any. A listener is a number, its calls are what it was told.\<close>

record branding =
  br_current :: customisation
  br_listeners :: "nat list"
  br_defaultTitle :: string
  br_rootTheme :: "(string, string) js_map"
  br_defaultIcon :: string
  br_title :: string
  br_style :: "(string, string) js_map"
  br_icon :: "string option"
  br_told :: "(nat \<times> customisation) list"

definition no_customisation :: customisation where
  "no_customisation = \<lparr>cu_pageTitle = None, cu_logoURL = None, cu_iconURL = None, cu_sidebarColor = None, cu_accentColor = None, cu_terminology = None,
     cu_terminologyError = None\<rparr>"

definition new_branding :: "string \<Rightarrow> (string, string) js_map \<Rightarrow> string option \<Rightarrow> branding" where
  "new_branding title style icon =
     \<lparr>br_current = no_customisation, br_listeners = [], br_defaultTitle = title, br_rootTheme = [],
      br_defaultIcon = or_str icon [], br_title = title, br_style = style, br_icon = icon, br_told = []\<rparr>"

definition set_customisation :: "(string \<Rightarrow> bool) \<Rightarrow> customisation \<Rightarrow> branding \<Rightarrow> branding" where
  "set_customisation is_light c b =
     (let theme = sidebarTheme is_light (cu_sidebarColor c) (cu_accentColor c);
          cleared = foldl (\<lambda>s k. AList.delete k s) (br_style b) (map fst (br_rootTheme b));
          href = or_str (cu_iconURL c) (br_defaultIcon b)
      in b\<lparr>br_current := c, br_title := or_str (cu_pageTitle c) (br_defaultTitle b), br_rootTheme := theme,
           br_style := foldl (\<lambda>s (k, v). AList.update k v s) cleared theme,
           br_icon := (if br_icon b \<noteq> None \<and> href \<noteq> [] then Some href else br_icon b),
           br_told := br_told b @ map (\<lambda>l. (l, c)) (br_listeners b)\<rparr>)"

definition subscribe :: "nat \<Rightarrow> branding \<Rightarrow> branding" where
  "subscribe l b = b\<lparr>br_listeners := br_listeners b @ [l]\<rparr>"

definition unsubscribe :: "nat \<Rightarrow> branding \<Rightarrow> branding" where
  "unsubscribe l b = b\<lparr>br_listeners := filter (\<lambda>x. x \<noteq> l) (br_listeners b)\<rparr>"

definition translate :: "string \<Rightarrow> branding \<Rightarrow> string option" where
  "translate s b = applyTerminology s (or_nil (cu_terminology (br_current b)))"

section \<open>Tabs\<close>

definition addLink :: "string \<Rightarrow> string" where
  "addLink link = link @ ''?'' @ ''add=1''"

definition tabsReadOnly :: "(string option \<times> bool) option \<Rightarrow> string \<Rightarrow> bool" where
  "tabsReadOnly detail appName =
     (case detail of None \<Rightarrow> True | Some (name, readOnly) \<Rightarrow> if name \<noteq> Some appName then True else readOnly)"

definition add_tab :: "('t \<Rightarrow> string option) \<Rightarrow> (string option \<times> 't list) list \<Rightarrow> 't \<Rightarrow> (string option \<times> 't list) list" where
  "add_tab group_of runs t =
     (if runs \<noteq> [] \<and> fst (last runs) = group_of t
      then butlast runs @ [(fst (last runs), snd (last runs) @ [t])]
      else runs @ [(group_of t, [t])])"

definition tabRuns :: "('t \<Rightarrow> string option) \<Rightarrow> 't list \<Rightarrow> (string option \<times> 't list) list" where
  "tabRuns group_of tabs = foldl (add_tab group_of) [] tabs"

definition under_path :: "string \<Rightarrow> string \<Rightarrow> bool" where
  "under_path path p \<longleftrightarrow> path = p \<or> starts_with path (p @ ''/'')"

record env_view =
  ev_key :: string
  ev_label :: string
  ev_to :: string
  ev_active :: "string \<Rightarrow> bool"

definition environmentViews :: "string \<Rightarrow> env_view list" where
  "environmentViews base =
     (let status = base @ ''/status''
      in [\<lparr>ev_key = ''overview'', ev_label = ''Overview'', ev_to = status @ ''/overview'', ev_active = (\<lambda>p. under_path p (status @ ''/overview''))\<rparr>,
          \<lparr>ev_key = ''resources'', ev_label = ''Resource Graph'', ev_to = status, ev_active = (\<lambda>p. p = status \<or> p = status @ ''/'')\<rparr>,
          \<lparr>ev_key = ''graph'', ev_label = ''Application Graph'', ev_to = status @ ''/graph'', ev_active = (\<lambda>p. under_path p (status @ ''/graph''))\<rparr>,
          \<lparr>ev_key = ''instances'', ev_label = ''Instances'', ev_to = base @ ''/instances'', ev_active = (\<lambda>p. under_path p (base @ ''/instances''))\<rparr>,
          \<lparr>ev_key = ''logs'', ev_label = ''Logs'', ev_to = base @ ''/logs'', ev_active = (\<lambda>p. under_path p (base @ ''/logs''))\<rparr>,
          \<lparr>ev_key = ''workflow'', ev_label = ''Workflow'', ev_to = base @ ''/workflow'', ev_active = (\<lambda>p. under_path p (base @ ''/workflow''))\<rparr>,
          \<lparr>ev_key = ''yaml'', ev_label = ''YAML'', ev_to = base @ ''/yaml'', ev_active = (\<lambda>p. under_path p (base @ ''/yaml''))\<rparr>])"

definition statusMode :: "string option \<Rightarrow> string" where
  "statusMode view =
     (if view = Some ''overview'' then ''overview'' else if view = Some ''graph'' then ''application-graph'' else ''resource-graph'')"

section \<open>Tooltips\<close>

record tooltip =
  tt_title :: string
  tt_on :: "string option"
  tt_healthSource :: "string option"
  tt_healthy :: "bool option"
  tt_pending :: "bool option"
  tt_progressing :: "bool option"
  tt_summary :: "(string \<times> string) list"
  tt_message :: "string option"
  tt_details :: "(string, string) js_map option"

definition plain_tooltip :: "string \<Rightarrow> (string \<times> string) list \<Rightarrow> tooltip" where
  "plain_tooltip title summary =
     \<lparr>tt_title = title, tt_on = None, tt_healthSource = None, tt_healthy = None, tt_pending = None, tt_progressing = None,
      tt_summary = summary, tt_message = None, tt_details = None\<rparr>"

record resource_health =
  rh_statusCode :: string
  rh_reason :: "json option"
  rh_message :: "json option"
  rh_source :: "string option"

record tree_node =
  tn_kind :: string
  tn_name :: string
  tn_apiVersion :: "string option"
  tn_namespace :: "string option"
  tn_cluster :: "string option"
  tn_health :: "resource_health option"
  tn_info :: "(string, json) js_map option"

definition info_text :: "json option \<Rightarrow> string option" where
  "info_text v = (if empty_value v then None else Some (js_String (the v)))"

definition resourceTooltip :: "tree_node \<Rightarrow> tooltip" where
  "resourceTooltip res =
     (let code = map_option rh_statusCode (tn_health res);
          info = (\<lambda>k. info_text (map_of (or_nil (tn_info res)) k));
          pod = (tn_kind res = ''Pod'')
      in (plain_tooltip (tn_name res) (summaryEntries
            [(''Kind'', One (Some (tn_kind res))), (''API Version'', One (tn_apiVersion res)), (''Namespace'', One (tn_namespace res)),
             (''Cluster'', One (tn_cluster res)), (''Status'', One (if pod then info ''Status'' else None)),
             (''Ready'', One (if pod then info ''Ready'' else None)), (''Restarts'', One (if pod then info ''Restarts'' else None)),
             (''Age'', One (if pod then info ''Age'' else None)), (''EIP'', One (if tn_kind res = ''Service'' then info ''EIP'' else None)),
             (''Reason'', One (info_text (Option.bind (tn_health res) rh_reason)))]))
         \<lparr>tt_healthy := (if code = Some ''Healthy'' then Some True else if code = Some ''UnHealthy'' then Some False else None),
          tt_progressing := Some (code = Some ''Progressing''),
          tt_message := info_text (Option.bind (tn_health res) rh_message),
          tt_healthSource := or_opt (Option.bind (tn_health res) rh_source) None\<rparr>)"

definition clusterTooltip :: "string \<Rightarrow> tooltip" where
  "clusterTooltip name = plain_tooltip name [(''Kind'', ''Cluster'')]"

definition targetTooltip :: "string \<Rightarrow> tooltip" where
  "targetTooltip name =
     (let parts = split_on CHR ''/'' name
      in plain_tooltip name (summaryEntries [(''Cluster'', One (nth_opt parts 0)), (''Namespace'', One (nth_opt parts 1))]))"

definition traitTooltip :: "string \<Rightarrow> bool \<Rightarrow> bool option \<Rightarrow> string option \<Rightarrow> (string, string) js_map option \<Rightarrow> tooltip" where
  "traitTooltip type healthy pending message details =
     (plain_tooltip type [(''Kind'', ''Trait'')])\<lparr>tt_healthy := Some healthy, tt_pending := pending, tt_message := message, tt_details := details\<rparr>"

text \<open>A source as its status has it: the phase, and where the binding was resolved.\<close>

record bound_source = source_status +
  bs_phase :: string
  bs_autoUpdate :: "bool option"
  bs_message :: "string option"
  bs_resolutions :: "string option list option"

definition sourceTooltip :: "bound_source \<Rightarrow> source_consumer list \<Rightarrow> tooltip" where
  "sourceTooltip source elsewhere =
     (let phase = bs_phase source
      in (plain_tooltip (so_name source) (summaryEntries
            [(''Kind'', One (Some ''Source'')), (''Definition'', One (so_type source)), (''Phase'', One (Some phase)),
             (''Auto update'', One (map_option (\<lambda>on. if on then ''On'' else ''Off'') (bs_autoUpdate source))),
             (''Readers'', One (Some (nat_str (length (or_nil (so_consumedBy source)))))),
             (''Also read by'', One (or_undefined (join_with '', ''
                (map (\<lambda>c. sc_name c @ '' ('' @ sc_definitionKind c @ '')'') elsewhere))))]))
         \<lparr>tt_healthy := (if phase = ''Resolved'' then Some True else if phase = ''Failed'' then Some False else None),
          tt_progressing := Some (phase = ''Stale''),
          tt_message := or_opt (bs_message source) (Option.bind (find truthy (or_nil (bs_resolutions source))) id)\<rparr>)"

definition componentOriginTooltip :: "resource_origin \<Rightarrow> string \<Rightarrow> tooltip" where
  "componentOriginTooltip origin revision =
     (plain_tooltip (ro_component origin) (summaryEntries
        [(''Type'', One (if truthy (ro_type origin) then Some (fst (splitType (ro_type origin))) else None)),
         (''Revision'', One (if truthy (ro_type origin) then Some revision else None))]))
     \<lparr>tt_healthy := ro_healthy origin, tt_message := ro_message origin\<rparr>"

definition traitOriginTooltip :: "resource_origin \<Rightarrow> string \<Rightarrow> tooltip" where
  "traitOriginTooltip origin revision =
     (plain_tooltip (or_str (ro_trait origin) []) (summaryEntries [(''Revision'', One (Some revision))]))
     \<lparr>tt_on := Some (ro_component origin), tt_healthy := ro_traitHealthy origin, tt_pending := ro_traitPending origin,
      tt_message := ro_traitMessage origin\<rparr>"

section \<open>The reads of a source\<close>

record source_value =
  sv_sourceAttr :: string
  sv_property :: "string option"
  sv_value :: "json option"

record reading_consumer = source_consumer +
  rc_type :: "string option"
  rc_values :: "source_value list option"

record source_read =
  rd_attr :: "string option"
  rd_value :: "string option"
  rd_reader :: string
  rd_readerKind :: string
  rd_readerType :: "string option"
  rd_property :: "string option"
  rd_placement :: "string option"

definition value_text :: "json \<Rightarrow> string" where
  "value_text v = (case v of JStr s \<Rightarrow> s | _ \<Rightarrow> stringify v)"

definition consumer_reads :: "reading_consumer \<Rightarrow> source_read list" where
  "consumer_reads c =
     (let placement = (if truthy (sc_cluster c) \<or> truthy (sc_namespace c)
            then Some (join_with ''/'' (map the (filter truthy [sc_cluster c, sc_namespace c]))) else None);
          read = (\<lambda>attr value property. \<lparr>rd_attr = attr, rd_value = value, rd_reader = sc_name c, rd_readerKind = sc_definitionKind c,
            rd_readerType = rc_type c, rd_property = property, rd_placement = placement\<rparr>)
      in if or_nil (rc_values c) = [] then [read None None None]
         else map (\<lambda>v. read (Some (sv_sourceAttr v)) (map_option value_text (sv_value v)) (sv_property v)) (or_nil (rc_values c)))"

definition source_reads :: "reading_consumer list option \<Rightarrow> source_read list" where
  "source_reads consumedBy = concat (map consumer_reads (or_nil consumedBy))"

section \<open>What renaming keeps\<close>

text \<open>A text cut into what renaming keeps and what it replaces.\<close>

definition renamed_segment :: "(string, string) js_map \<Rightarrow> string \<times> string \<Rightarrow> bool" where
  "renamed_segment words seg \<longleftrightarrow> to_lower (fst seg) \<in> fst ` set words \<and> matchCase (fst seg) (or_found words (fst seg)) = Some (snd seg)"

definition kept_segment :: "string \<times> string \<Rightarrow> bool" where
  "kept_segment seg \<longleftrightarrow> length (fst seg) = 1 \<and> snd seg = fst seg"

lemma found_here_word:
  assumes "found_here (alternatives words) b rest = Some found"
  shows "to_lower found \<in> fst ` set words \<and> rest = found @ drop (length found) rest"
proof -
  obtain w where w: "find (word_here b rest) (alternatives words) = Some w" and f: "found = take (length w) rest"
    using assms by (auto simp: found_here_def)
  then have "word_here b rest w" "w \<in> set (alternatives words)" by (auto simp: find_Some_iff in_set_conv_nth)
  then have "to_lower found = w" "w \<in> fst ` set words" "length w \<le> length rest"
    using f by (auto simp: word_here_def starts_with_def to_lower_def alternatives_def take_map)
  then show ?thesis using f by (metis append_take_drop_id length_take min.absorb2)
qed

lemma rename_from_segments:
  assumes "rename_from words b rest = Some out"
  shows "\<exists>segs. concat (map fst segs) = rest \<and> concat (map snd segs) = out \<and>
    list_all (\<lambda>s. kept_segment s \<or> renamed_segment words s) segs"
  using assms
proof (induction words b rest arbitrary: out rule: rename_from.induct)
  case (1 words b rest)
  show ?case
  proof (cases "found_here (alternatives words) b rest")
    case None
    show ?thesis
    proof (cases rest)
      case Nil
      then have "out = []" using "1.prems" None by (simp add: rename_from.simps[of words b "[]"])
      then show ?thesis using Nil by (intro exI[of _ "[]"]) simp
    next
      case (Cons c cs)
      then obtain s where s: "rename_from words (Some c) cs = Some s" "out = c # s"
        using "1.prems" None by (auto simp: rename_from.simps[of words b "c # cs"])
      from "1.IH"(1)[OF None Cons s(1)] obtain segs where
        "concat (map fst segs) = cs" "concat (map snd segs) = s" "list_all (\<lambda>s. kept_segment s \<or> renamed_segment words s) segs" by blast
      then show ?thesis using Cons s(2) by (intro exI[of _ "([c], [c]) # segs"]) (simp add: kept_segment_def)
    qed
  next
    case (Some found)
    then obtain r s where f: "found \<noteq> []" and r: "matchCase found (or_found words found) = Some r"
      and s: "rename_from words (Some (last found)) (drop (length found) rest) = Some s" "out = r @ s"
      using "1.prems" by (auto simp: rename_from.simps[of words b rest] split: if_splits option.splits)
    note word = found_here_word[OF Some]
    from "1.IH"(2)[OF Some f r s(1)] obtain segs where
      "concat (map fst segs) = drop (length found) rest" "concat (map snd segs) = s" "list_all (\<lambda>s. kept_segment s \<or> renamed_segment words s) segs"
      by blast
    then show ?thesis using word r s(2) by (intro exI[of _ "(found, r) # segs"]) (simp add: renamed_segment_def)
  qed
qed

text \<open>The word found is the longest of the terms that stand there, so a plural is taken before the
  singular it starts with.\<close>

lemma found_here_longest:
  assumes "found_here (alternatives words) b rest = Some found" and "w \<in> fst ` set words" and "word_here b rest w"
  shows "length w \<le> length found"
proof -
  let ?alts = "alternatives words"
  obtain v where v: "find (word_here b rest) ?alts = Some v" and f: "found = take (length v) rest"
    using assms(1) by (auto simp: found_here_def)
  from v obtain i where i: "i < length ?alts" "?alts ! i = v" "word_here b rest v" "\<forall>j<i. \<not> word_here b rest (?alts ! j)"
    by (auto simp: find_Some_iff)
  have "w \<in> set ?alts" using assms(2) by (simp add: alternatives_def)
  then obtain j where j: "j < length ?alts" "?alts ! j = w" by (auto simp: in_set_conv_nth)
  have "i \<le> j" using i(4) j assms(3) by (metis linorder_not_less)
  moreover have "sorted (map (\<lambda>w. - int (length w)) ?alts)" by (simp add: alternatives_def)
  ultimately have "- int (length v) \<le> - int (length w)" using i j by (metis (no_types, lifting) length_map nth_map sorted_iff_nth_mono)
  moreover have "length v \<le> length rest" using i(3) by (simp add: word_here_def)
  ultimately show ?thesis using f by simp
qed

text \<open>Renaming the terms of a text changes nothing but whole words that are a term's singular or
  plural in any case, each replaced by the renamed one in the case it was found in; the rest of
  the text is kept, in order. Without terms the text is kept as it is.\<close>

theorem applyTerminology_segments:
  "(applyTerminology s terms = Some out \<longrightarrow>
     (\<exists>segs. concat (map fst segs) = s \<and> concat (map snd segs) = out \<and>
        list_all (\<lambda>seg. kept_segment seg \<or> renamed_segment (term_words terms) seg) segs)) \<and>
   applyTerminology s [] = Some s"
proof (intro conjI impI)
  assume a: "applyTerminology s terms = Some out"
  show "\<exists>segs. concat (map fst segs) = s \<and> concat (map snd segs) = out \<and>
      list_all (\<lambda>seg. kept_segment seg \<or> renamed_segment (term_words terms) seg) segs"
  proof (cases "s = [] \<or> terms = []")
    case True
    then have "out = s" using a by (auto simp: applyTerminology_def)
    then show ?thesis by (intro exI[of _ "map (\<lambda>c. ([c], [c])) s"]) (simp add: comp_def concat_map_singleton list_all_iff kept_segment_def)
  next
    case False
    then show ?thesis using a rename_from_segments by (simp add: applyTerminology_def)
  qed
qed (simp add: applyTerminology_def)

definition env_terms :: "(string, renamed_term) js_map" where
  "env_terms = [(''Environment'', \<lparr>tm_singular = ''stage'', tm_plural = ''stages''\<rparr>)]"

theorem applyTerminology_segments_witness:
  "applyTerminology ''All Environments of an environment'' env_terms = Some ''All Stages of an stage'' \<and>
   (\<exists>segs. concat (map fst segs) = ''All Environments of an environment'' \<and> concat (map snd segs) = ''All Stages of an stage'' \<and>
      list_all (\<lambda>seg. kept_segment seg \<or> renamed_segment (term_words env_terms) seg) segs)"
proof -
  have a: "applyTerminology ''All Environments of an environment'' env_terms = Some ''All Stages of an stage''" by code_simp
  from applyTerminology_segments[of "''All Environments of an environment''" env_terms "''All Stages of an stage''"] a show ?thesis by blast
qed

section \<open>The page follows the branding\<close>

text \<open>The properties the theme sets, and their place on the root: whatever was set before, they are
  those of the current branding and no others, the page's own being kept.\<close>

definition theme_keys :: "string list" where
  "theme_keys = [''--sb-bg'', ''--sb-text'', ''--sb-text-strong'', ''--sb-muted'', ''--sb-hover'', ''--sb-border'',
     ''--sb-accent'', ''--sb-active'', ''--sb-active-text'']"

lemma sidebarTheme_keys: "fst ` set (sidebarTheme is_light bg accent) \<subseteq> set theme_keys \<and> distinct (map fst (sidebarTheme is_light bg accent))"
  by (auto simp: sidebarTheme_def Let_def theme_keys_def)

lemma map_of_foldl_delete: "map_of (foldl (\<lambda>s k. AList.delete k s) m ks) x = (if x \<in> set ks then None else map_of m x)"
  by (induction ks arbitrary: m) (auto simp: delete_conv')

lemma map_of_foldl_set:
  "distinct (map fst kvs) \<Longrightarrow>
   map_of (foldl (\<lambda>s (k, v). AList.update k v s) m kvs) x = (case map_of kvs x of Some v \<Rightarrow> Some v | None \<Rightarrow> map_of m x)"
proof (induction kvs arbitrary: m)
  case (Cons kv kvs)
  have "map_of kvs (fst kv) = None" using Cons.prems by (simp add: map_of_eq_None_iff)
  then show ?case using Cons by (cases kv) (auto simp: update_conv' split: option.splits)
qed simp

inductive branding_step :: "(string \<Rightarrow> bool) \<Rightarrow> branding \<Rightarrow> branding \<Rightarrow> bool" for is_light where
  customise: "branding_step is_light b (set_customisation is_light c b)"
| listen: "branding_step is_light b (subscribe l b)"
| leave: "branding_step is_light b (unsubscribe l b)"

definition page_follows :: "(string \<Rightarrow> bool) \<Rightarrow> string \<Rightarrow> (string, string) js_map \<Rightarrow> branding \<Rightarrow> bool" where
  "page_follows is_light title style b \<longleftrightarrow>
     br_rootTheme b = sidebarTheme is_light (cu_sidebarColor (br_current b)) (cu_accentColor (br_current b)) \<and>
     br_defaultTitle b = title \<and> br_title b = or_str (cu_pageTitle (br_current b)) title \<and>
     (\<forall>k. map_of (br_style b) k = (case map_of (br_rootTheme b) k of Some v \<Rightarrow> Some v | None \<Rightarrow> map_of style k))"

lemma set_customisation_style:
  assumes "page_follows is_light title style b" and "\<forall>k \<in> set theme_keys. map_of style k = None"
  shows "map_of (br_style (set_customisation is_light c b)) k =
    (case map_of (sidebarTheme is_light (cu_sidebarColor c) (cu_accentColor c)) k of Some v \<Rightarrow> Some v | None \<Rightarrow> map_of style k)"
proof -
  have "map_of (foldl (\<lambda>s k. AList.delete k s) (br_style b) (map fst (br_rootTheme b))) k = map_of style k"
  proof (cases "k \<in> fst ` set (br_rootTheme b)")
    case True
    moreover have "fst ` set (br_rootTheme b) \<subseteq> set theme_keys" using assms(1) sidebarTheme_keys by (simp only: page_follows_def)
    ultimately have "k \<in> set theme_keys" by (rule rev_subsetD)
    then show ?thesis using True assms(2) by (auto simp: map_of_foldl_delete)
  next
    case False
    then have "map_of (br_rootTheme b) k = None" by (simp add: map_of_eq_None_iff)
    then show ?thesis using False assms(1) by (simp add: map_of_foldl_delete page_follows_def)
  qed
  then show ?thesis using sidebarTheme_keys by (simp add: set_customisation_def Let_def map_of_foldl_set split: option.split)
qed

lemma branding_step_follows:
  assumes "branding_step is_light b b'" and "page_follows is_light title style b" and "\<forall>k \<in> set theme_keys. map_of style k = None"
  shows "page_follows is_light title style b'"
  using assms(1)
proof cases
  case (customise c)
  then show ?thesis using set_customisation_style[OF assms(2,3), of c] assms(2)
    by (simp add: page_follows_def) (simp add: set_customisation_def Let_def)
next
  case (listen l)
  then show ?thesis using assms(2) by (simp add: page_follows_def subscribe_def)
next
  case (leave l)
  then show ?thesis using assms(2) by (simp add: page_follows_def unsubscribe_def)
qed

interpretation branding: machine "branding_step is_light"
  "\<lambda>b. (\<forall>k \<in> set theme_keys. map_of style k = None) \<longrightarrow> page_follows is_light title style b"
  "\<lambda>b. \<exists>icon. b = new_branding title style icon" for is_light title style
proof unfold_locales
  show "(\<forall>k \<in> set theme_keys. map_of style k = None) \<longrightarrow> page_follows is_light title style b"
    if "\<exists>icon. b = new_branding title style icon" for b
    using that by (auto simp: page_follows_def new_branding_def no_customisation_def sidebarTheme_def or_str_def)
qed (blast intro: branding_step_follows)

text \<open>After any sequence of brandings and of listeners coming and going, the page's title is the
  branding's or its own, and its root has the colours of the current branding and none left of an
  earlier one, besides the properties of its own.\<close>

theorem branding_page:
  assumes "\<forall>k \<in> set theme_keys. map_of style k = None"
    and "(branding_step is_light)\<^sup>*\<^sup>* (new_branding title style icon) b"
  shows "br_title b = or_str (cu_pageTitle (br_current b)) title \<and>
    map_of (br_style b) k =
      (case map_of (sidebarTheme is_light (cu_sidebarColor (br_current b)) (cu_accentColor (br_current b))) k of
         Some v \<Rightarrow> Some v | None \<Rightarrow> map_of style k)"
proof -
  have "page_follows is_light title style b" using branding.reachable_inv[OF _ assms(2)] assms(1) by blast
  then show ?thesis by (auto simp: page_follows_def)
qed

definition pale :: customisation where
  "pale = no_customisation\<lparr>cu_sidebarColor := Some ''#fff'', cu_accentColor := Some ''#0af''\<rparr>"

theorem branding_page_witness:
  "map_of (br_style (set_customisation (\<lambda>_. True) no_customisation (set_customisation (\<lambda>_. True) pale (new_branding ''VelaUX'' [(''color'', ''red'')] None)))) ''--sb-bg'' = None \<and>
   map_of (br_style (set_customisation (\<lambda>_. True) pale (new_branding ''VelaUX'' [(''color'', ''red'')] None))) ''--sb-active'' = Some ''rgba(0, 170, 255, 0.14)''"
proof -
  let ?b0 = "new_branding ''VelaUX'' [(''color'', ''red'')] None"
  let ?b1 = "set_customisation (\<lambda>_. True) pale ?b0" and ?b2 = "set_customisation (\<lambda>_. True) no_customisation (set_customisation (\<lambda>_. True) pale ?b0)"
  have k: "\<forall>k \<in> set theme_keys. map_of [(''color'', ''red'')] k = None" by code_simp
  have 1: "(branding_step (\<lambda>_. True))\<^sup>*\<^sup>* ?b0 ?b1" by (intro r_into_rtranclp branding_step.customise)
  then have 2: "(branding_step (\<lambda>_. True))\<^sup>*\<^sup>* ?b0 ?b2" by (rule rtranclp.rtrancl_into_rtrancl) (rule branding_step.customise)
  have c: "br_current ?b2 = no_customisation" "br_current ?b1 = pale" by (simp_all add: set_customisation_def Let_def)
  have t: "map_of (sidebarTheme (\<lambda>_. True) (cu_sidebarColor no_customisation) (cu_accentColor no_customisation)) ''--sb-bg'' = None"
    "map_of (sidebarTheme (\<lambda>_. True) (cu_sidebarColor pale) (cu_accentColor pale)) ''--sb-active'' = Some ''rgba(0, 170, 255, 0.14)''"
    by code_simp+
  from branding_page[OF k 2, of "''--sb-bg''"] branding_page[OF k 1, of "''--sb-active''"] show ?thesis unfolding c t by simp
qed

section \<open>Runs of tabs and the view that is open\<close>

lemma tabRuns_ok:
  "concat (map snd (tabRuns g tabs)) = tabs \<and> list_all (\<lambda>(k, ts). ts \<noteq> [] \<and> list_all (\<lambda>t. g t = k) ts) (tabRuns g tabs) \<and>
   successively (\<lambda>a b. fst a \<noteq> fst b) (tabRuns g tabs)"
proof (induction tabs rule: rev_induct)
  case (snoc t tabs)
  have r: "tabRuns g (tabs @ [t]) = add_tab g (tabRuns g tabs) t" by (simp add: tabRuns_def)
  show ?case
  proof (cases "tabRuns g tabs" rule: rev_cases)
    case Nil
    then show ?thesis using snoc unfolding r by (simp add: add_tab_def)
  next
    case (snoc runs run)
    then show ?thesis using snoc.IH unfolding r
      by (cases "fst run = g t") (auto simp: add_tab_def successively_append_iff case_prod_beta list_all_iff)
  qed
qed (simp add: tabRuns_def)

lemma under_path_prefix: "under_path p x \<longleftrightarrow> prefix (x @ ''/'') (p @ ''/'')"
proof
  assume "under_path p x"
  then show "prefix (x @ ''/'') (p @ ''/'')"
    by (auto simp: under_path_def intro!: prefixI dest!: starts_with_split)
next
  assume "prefix (x @ ''/'') (p @ ''/'')"
  then obtain zs where z: "p @ ''/'' = (x @ ''/'') @ zs" by (auto elim: prefixE)
  show "under_path p x"
  proof (cases zs rule: rev_cases)
    case Nil
    then show ?thesis using z by (simp add: under_path_def)
  next
    case (snoc ys y)
    then have "p = (x @ ''/'') @ ys" using z by (metis append.assoc butlast_snoc)
    then show ?thesis by (simp add: under_path_def starts_with_def)
  qed
qed

lemma under_path_apart:
  assumes "under_path p (base @ x)" and "under_path p (base @ y)"
  shows "prefix (x @ ''/'') (y @ ''/'') \<or> prefix (y @ ''/'') (x @ ''/'')"
proof -
  have "prefix (base @ x @ ''/'') (p @ ''/'')" "prefix (base @ y @ ''/'') (p @ ''/'')"
    using assms by (simp_all add: under_path_prefix)
  then have "prefix (base @ x @ ''/'') (base @ y @ ''/'') \<or> prefix (base @ y @ ''/'') (base @ x @ ''/'')"
    by (rule prefix_same_cases)
  then show ?thesis by simp
qed

text \<open>Of the views of an environment at most one is open at a path.\<close>

definition view_ends :: "string list" where
  "view_ends = [''/status/overview'', ''/status/graph'', ''/instances'', ''/logs'', ''/workflow'', ''/yaml'']"

lemma view_ends_apart:
  assumes "x \<in> set view_ends" and "y \<in> set view_ends" and "under_path p (base @ x)" and "under_path p (base @ y)"
  shows "x = y"
proof -
  have "\<forall>x \<in> set view_ends. \<forall>y \<in> set view_ends. prefix (x @ ''/'') (y @ ''/'') \<longrightarrow> x = y" by code_simp
  then show ?thesis using under_path_apart[OF assms(3,4)] assms(1,2) by metis
qed

lemma status_not_view:
  assumes "x \<in> set view_ends" and "p = base @ ''/status'' \<or> p = base @ ''/status/''"
  shows "\<not> under_path p (base @ x)"
proof
  assume u: "under_path p (base @ x)"
  have "\<forall>x \<in> set view_ends. \<not> prefix (x @ ''/'') ''/status/'' \<and> \<not> prefix (x @ ''/'') ''/status//''" by code_simp
  moreover have "prefix (base @ x @ ''/'') (p @ ''/'')" using u by (simp only: under_path_prefix append.assoc)
  then have "prefix (x @ ''/'') (''/status'' @ ''/'') \<or> prefix (x @ ''/'') (''/status/'' @ ''/'')"
    using assms(2) by (elim disjE) (simp_all only: append.assoc same_prefix_prefix simp_thms)
  ultimately show False using assms(1) by (simp del: prefix_snoc)
qed

lemma filter_one: "sorted_wrt (\<lambda>a b. \<not> (P a \<and> P b)) xs \<Longrightarrow> length (filter P xs) \<le> 1"
proof (induction xs)
  case (Cons x xs)
  then have "P x \<Longrightarrow> filter P xs = []" by (auto simp: filter_empty_conv)
  then show ?case using Cons by auto
qed simp

lemma environmentViews_one: "length (filter (\<lambda>v. ev_active v p) (environmentViews base)) \<le> 1"
proof -
  let ?u = "\<lambda>x. under_path p (base @ x)" and ?s = "p = base @ ''/status'' \<or> p = base @ ''/status/''"
  have n: "\<not> (?s \<and> ?u x) \<and> \<not> (?u x \<and> ?s)" if "x \<in> set view_ends" for x using status_not_view[OF that] by blast
  have u: "\<not> (?u x \<and> ?u y)" if "x \<in> set view_ends" "y \<in> set view_ends" "x \<noteq> y" for x y using view_ends_apart that by blast
  have m: "''/status/overview'' \<in> set view_ends" "''/status/graph'' \<in> set view_ends" "''/instances'' \<in> set view_ends"
    "''/logs'' \<in> set view_ends" "''/workflow'' \<in> set view_ends" "''/yaml'' \<in> set view_ends" by (simp_all add: view_ends_def)
  let ?actives = "[?u ''/status/overview'', ?s, ?u ''/status/graph'', ?u ''/instances'', ?u ''/logs'', ?u ''/workflow'', ?u ''/yaml'']"
  have "sorted_wrt (\<lambda>a b. \<not> (a \<and> b)) ?actives"
    unfolding sorted_wrt.simps list.set ball_simps
    using n[OF m(1)] n[OF m(2)] n[OF m(3)] n[OF m(4)] n[OF m(5)] n[OF m(6)]
      u[OF m(1) m(2)] u[OF m(1) m(3)] u[OF m(1) m(4)] u[OF m(1) m(5)] u[OF m(1) m(6)]
      u[OF m(2) m(3)] u[OF m(2) m(4)] u[OF m(2) m(5)] u[OF m(2) m(6)] u[OF m(3) m(4)] u[OF m(3) m(5)] u[OF m(3) m(6)]
      u[OF m(4) m(5)] u[OF m(4) m(6)] u[OF m(5) m(6)] by force
  then have "length (filter id ?actives) \<le> 1" using filter_one[of id ?actives] by simp
  moreover have "map (\<lambda>v. ev_active v p) (environmentViews base) = ?actives" by (simp add: environmentViews_def Let_def)
  ultimately have "length (filter id (map (\<lambda>v. ev_active v p) (environmentViews base))) \<le> 1" by (simp only:)
  then show ?thesis by (simp add: filter_map comp_def)
qed

end
