(* ===== verification/Field_Widgets.thy ===== *)
theory Field_Widgets
  imports Branding_Views
begin

text \<open>
  The widgets of generated forms that turn a value into another (\<open>extends/\<close>): the values of a
  chart as flat keys, maps of structures as rows, the group that is switched on and off,
  quantities with a unit and the objects typed as YAML.

  The \<open>Field\<close> of a widget is the map of the values set in it, in the order they were first set; a
  value may be set to nothing, \<open>None\<close>. \<open>Date.now()\<close>, printed, is an argument.
\<close>

section \<open>The fields of a widget\<close>

type_synonym fields = "(string, json option) js_map"

text \<open>\<open>xs.forEach((x, i) => P x && xs.splice(i, 1))\<close>: the element that moves into the place of one
  taken out is not visited.\<close>

fun splice_each :: "('a \<Rightarrow> bool) \<Rightarrow> 'a list \<Rightarrow> 'a list" where
  "splice_each P (x # y # xs) = (if P x then y # splice_each P xs else x # splice_each P (y # xs))"
| "splice_each P [x] = (if P x then [] else [x])"
| "splice_each P [] = []"

section \<open>The values of a chart\<close>

text \<open>\<open>setValues\<close> on the members of an object. Setting a member of a text, number or boolean throws,
  \<open>None\<close>; a list is no value of a flat map.\<close>

fun set_value :: "(string \<times> json) list \<Rightarrow> json \<Rightarrow> string \<Rightarrow> string list \<Rightarrow> (string \<times> json) list option" where
  "set_value target v key [] = Some (AList.update key v target)"
| "set_value target v key (k # ks) =
     (if falsy (map_of target key)
      then map_option (\<lambda>m. AList.update key (JObj m) target) (set_value [] v k ks)
      else (case map_of target key of
              Some (JObj m) \<Rightarrow> map_option (\<lambda>m'. AList.update key (JObj m') target) (set_value m v k ks)
            | _ \<Rightarrow> None))"

definition dotted :: "string \<Rightarrow> string \<Rightarrow> string" where
  "dotted key sub = (if key \<noteq> [] then key @ ''.'' @ sub else sub)"

text \<open>\<open>getValues\<close>, adding to the flat values. The members of a list are those of its indices.\<close>

fun get_values :: "json \<Rightarrow> string \<Rightarrow> (string, json) js_map \<Rightarrow> (string, json) js_map"
and get_members :: "(string \<times> json) list \<Rightarrow> string \<Rightarrow> (string, json) js_map \<Rightarrow> (string, json) js_map"
and get_items :: "json list \<Rightarrow> nat \<Rightarrow> string \<Rightarrow> (string, json) js_map \<Rightarrow> (string, json) js_map" where
  "get_values (JObj kvs) key out = get_members kvs key out"
| "get_values (JArr vs) key out = get_items vs 0 key out"
| "get_values v key out = AList.update key v out"
| "get_members [] key out = out"
| "get_members ((k, v) # kvs) key out = get_members kvs key (get_values v (dotted key k) out)"
| "get_items [] i key out = out"
| "get_items (v # vs) i key out = get_items vs (Suc i) key (get_values v (dotted key (nat_str i)) out)"

definition helm_onChange :: "(string, json) js_map option \<Rightarrow> (string \<times> json) list option" where
  "helm_onChange values =
     foldl (\<lambda>target (key, v). Option.bind target (\<lambda>t. set_value t v (hd (split_on CHR ''.'' key)) (tl (split_on CHR ''.'' key))))
       (Some []) (or_nil values)"

text \<open>A chart with no values shows one value, not given, under the empty key.\<close>

definition helm_renderValue :: "json option \<Rightarrow> (string, json option) js_map" where
  "helm_renderValue v = (case v of None \<Rightarrow> [([], None)] | Some x \<Rightarrow> map (\<lambda>(k, y). (k, Some y)) (get_values x [] []))"

record helm_chart =
  hc_url :: string
  hc_chart :: string
  hc_version :: string

definition renderHelmKey :: "helm_chart option \<Rightarrow> string" where
  "renderHelmKey params = (case params of None \<Rightarrow> [] | Some h \<Rightarrow> hc_url h @ hc_chart h @ hc_version h)"

record helm_state =
  hs_values :: "(string, json option) js_map option"
  hs_helm :: "helm_chart option"
  hs_loading :: bool
  hs_valueFiles :: "(string, string) js_map option"

text \<open>\<open>loadChartValues\<close>: whether the files are asked for, and what an answer does. \<open>load\<close> is the
  YAML parser, \<open>None\<close> when it throws; an empty document is no value.\<close>

definition asks_chart_values :: "helm_chart option \<Rightarrow> bool" where
  "asks_chart_values helm = (case helm of None \<Rightarrow> False | Some h \<Rightarrow> hc_chart h \<noteq> [] \<and> hc_version h \<noteq> [] \<and> hc_url h \<noteq> [])"

definition chart_values_answered ::
  "(string option \<Rightarrow> json option option) \<Rightarrow> helm_chart \<Rightarrow> (string, string) js_map option \<Rightarrow> helm_state \<Rightarrow> helm_state" where
  "chart_values_answered load helm re st =
     (case re of
        None \<Rightarrow> st
      | Some files \<Rightarrow>
          (case load (map_of files ''values.yaml'') of
             None \<Rightarrow> st
           | Some v \<Rightarrow> st\<lparr>hs_values := Some (helm_renderValue v), hs_valueFiles := Some files, hs_helm := Some helm, hs_loading := False\<rparr>))"

section \<open>A map of structures as rows\<close>

definition keyField :: string where "keyField = ''__key''"

text \<open>\<open>...v\<close> of a value: its own members.\<close>

definition spread :: "json \<Rightarrow> (string \<times> json) list" where
  "spread v =
     (case v of
        JObj kvs \<Rightarrow> kvs
      | JArr vs \<Rightarrow> map (\<lambda>i. (nat_str i, vs ! i)) [0..<length vs]
      | JStr s \<Rightarrow> map (\<lambda>i. (nat_str i, JStr [s ! i])) [0..<length s]
      | _ \<Rightarrow> [])"

definition toRows :: "(string, json) js_map option \<Rightarrow> json list option" where
  "toRows value =
     map_option (map (\<lambda>(key, v). JObj (foldl (\<lambda>m (k, x). AList.update k x m) [(keyField, JStr key)] (spread v)))) value"

definition add_row :: "(string, json) js_map \<Rightarrow> json option \<Rightarrow> (string, json) js_map" where
  "add_row out row =
     (case row of
        Some (JObj kvs) \<Rightarrow>
          if falsy (map_of kvs keyField) then out
          else AList.update (js_String (the (map_of kvs keyField))) (JObj (AList.delete keyField kvs)) out
      | _ \<Rightarrow> out)"

definition toMap :: "json option list option \<Rightarrow> (string, json) js_map" where
  "toMap rows = foldl add_row [] (or_nil rows)"

section \<open>A group that is switched on and off\<close>

record group_props =
  gp_jsonKey :: "string option"
  gp_propertyValue :: "(string, json) js_map option"
  gp_alwaysShow :: bool
  gp_required :: bool
  gp_closed :: bool
  gp_initClose :: bool
  gp_onChange :: bool
  gp_emptyValue :: "json option"

text \<open>\<open>closed\<close> and \<open>enable\<close> may be undefined, which is read as false. The form a group is in may be
  missing; it is told its values when the group changes them.\<close>

record group_state =
  gs_closed :: bool
  gs_enable :: bool
  gs_checked :: bool
  gs_field :: "fields option"
  gs_heard :: "fields list"

definition group_new :: "group_props \<Rightarrow> fields option \<Rightarrow> group_state" where
  "group_new props f = \<lparr>gs_closed = gp_closed props, gs_enable = gp_required props, gs_checked = False, gs_field = f, gs_heard = []\<rparr>"

definition toggleShowClass :: "group_state \<Rightarrow> group_state" where
  "toggleShowClass st = st\<lparr>gs_closed := \<not> gs_closed st\<rparr>"

definition initSwitchState :: "group_props \<Rightarrow> group_state \<Rightarrow> group_state" where
  "initSwitchState props st =
     (let key = or_str (gp_jsonKey props) [];
          findKey = (key \<noteq> [] \<and> key \<in> fst ` set (or_nil (gp_propertyValue props)))
      in if findKey \<or> gp_alwaysShow props then st\<lparr>gs_enable := True, gs_closed := gp_initClose props, gs_checked := True\<rparr>
         else if gp_required props then st\<lparr>gs_enable := True, gs_closed := gp_initClose props, gs_checked := True\<rparr>
         else st\<lparr>gs_enable := False, gs_closed := gp_closed props \<or> gp_initClose props, gs_checked := False\<rparr>)"

definition setEmptyValue :: "group_props \<Rightarrow> group_state \<Rightarrow> group_state" where
  "setEmptyValue props st =
     (let key = or_str (gp_jsonKey props) []
      in case gs_field st of
           None \<Rightarrow> st
         | Some f \<Rightarrow>
             if gp_emptyValue props = None \<or> \<not> gp_onChange props \<or> value_at f key \<noteq> None then st
             else let f' = AList.update key (gp_emptyValue props) f in st\<lparr>gs_field := Some f', gs_heard := gs_heard st @ [f']\<rparr>)"

definition removeJsonKeyValue :: "group_props \<Rightarrow> group_state \<Rightarrow> group_state" where
  "removeJsonKeyValue props st =
     (case gs_field st of
        None \<Rightarrow> st
      | Some f \<Rightarrow>
          if gp_onChange props
          then let f' = AList.delete (or_str (gp_jsonKey props) []) f in st\<lparr>gs_field := Some f', gs_heard := gs_heard st @ [f']\<rparr>
          else st)"

definition group_on :: "group_props \<Rightarrow> group_state \<Rightarrow> group_state" where
  "group_on props st = setEmptyValue props (st\<lparr>gs_enable := True, gs_closed := False, gs_checked := True\<rparr>)"

text \<open>Switching off, once it is confirmed.\<close>

definition group_off :: "group_props \<Rightarrow> group_state \<Rightarrow> group_state" where
  "group_off props st = removeJsonKeyValue props (st\<lparr>gs_enable := False, gs_closed := False, gs_checked := False\<rparr>)"

section \<open>Quantities with a unit\<close>

fun replace_first :: "string \<Rightarrow> string \<Rightarrow> string" where
  "replace_first w s =
     (if starts_with s w then drop (length w) s else case s of [] \<Rightarrow> [] | c # r \<Rightarrow> c # replace_first w r)"

declare replace_first.simps [simp del]

text \<open>\<open>parseInt(s, 10)\<close>: the digits after spaces and a sign, \<open>None\<close> being no number.\<close>

definition digits_value :: "string \<Rightarrow> nat" where
  "digits_value s = foldl (\<lambda>n c. 10 * n + (of_char c - 48)) 0 s"

definition is_digit_char :: "char \<Rightarrow> bool" where
  "is_digit_char c \<longleftrightarrow> 48 \<le> (of_char c :: nat) \<and> (of_char c :: nat) \<le> 57"

definition parse_int :: "string \<Rightarrow> int option" where
  "parse_int s =
     (let t = dropWhile is_space s;
          (neg, u) = (case t of c # r \<Rightarrow> if c = CHR ''-'' then (True, r) else if c = CHR ''+'' then (False, r) else (False, t) | [] \<Rightarrow> (False, []));
          ds = takeWhile is_digit_char u
      in if ds = [] then None else Some (if neg then - int (digits_value ds) else int (digits_value ds)))"

definition memory_onChange :: "string \<Rightarrow> string" where "memory_onChange value = value @ ''Mi''"

definition memory_shown :: "string option \<Rightarrow> int option option" where
  "memory_shown value = (if truthy value then Some (parse_int (replace_first ''Mi'' (the value))) else None)"

definition disk_onChange :: "string \<Rightarrow> string" where "disk_onChange value = value @ ''Gi''"

definition disk_shown :: "string option \<Rightarrow> int option option" where
  "disk_shown value = (if truthy value then Some (parse_int (replace_first ''Gi'' (the value))) else None)"

definition cpu_onChange :: "string \<Rightarrow> string" where "cpu_onChange value = value"

section \<open>Objects typed as YAML\<close>

text \<open>The YAML library is four arguments: parsing one document or all, each the message of an error or
  the value (\<open>None\<close> for an empty document), and printing, which may throw.\<close>

record yaml =
  ym_load :: "string \<Rightarrow> string + json option"
  ym_loadAll :: "string \<Rightarrow> string + json option list"
  ym_dump :: "json option \<Rightarrow> string + string"

record code_state =
  co_message :: string
  co_code :: "string option"
  co_heard :: "json list list"

definition dashes :: string where "dashes = ''---'' @ [CHR 10]"

definition dump_all :: "yaml \<Rightarrow> json list \<Rightarrow> string + string" where
  "dump_all y vs =
     foldl (\<lambda>code v. case code of Inl e \<Rightarrow> Inl e
       | Inr s \<Rightarrow> if falsy (Some v) then Inr s else (case ym_dump y (Some v) of Inl e \<Rightarrow> Inl e | Inr d \<Rightarrow> Inr (s @ d @ dashes)))
     (Inr dashes) vs"

definition k8s_setValues :: "yaml \<Rightarrow> json option \<Rightarrow> code_state \<Rightarrow> code_state" where
  "k8s_setValues y value st =
     (if falsy value then st
      else case (case the value of
                   JArr vs \<Rightarrow> dump_all y vs
                 | _ \<Rightarrow> (case ym_dump y value of Inl e \<Rightarrow> Inl e | Inr d \<Rightarrow> Inr (d @ dashes))) of
             Inl e \<Rightarrow> st
           | Inr code \<Rightarrow> st\<lparr>co_code := Some code\<rparr>)"

definition documents :: "json option list \<Rightarrow> json list" where
  "documents ds = map the (filter (\<lambda>d. \<not> nullish d) ds)"

text \<open>The message of an error is assigned where it is meant to be compared: every error is taken for
  that of several documents.\<close>

definition k8s_onChange :: "yaml \<Rightarrow> json option \<Rightarrow> string \<Rightarrow> code_state \<Rightarrow> code_state" where
  "k8s_onChange y value v st =
     (let again =
        (case ym_loadAll y v of
           Inl e \<Rightarrow> st\<lparr>co_message := e\<rparr>
         | Inr ds \<Rightarrow>
             (case ym_dump y value of
                Inl e \<Rightarrow> st\<lparr>co_message := e\<rparr>
              | Inr d \<Rightarrow> st\<lparr>co_heard := (if d \<noteq> v then co_heard st @ [documents ds] else co_heard st), co_message := []\<rparr>))
      in case ym_load y v of
           Inl e \<Rightarrow> again
         | Inr d \<Rightarrow>
             (let objects = documents (case d of Some (JArr vs) \<Rightarrow> map Some vs | _ \<Rightarrow> [d])
              in case ym_dump y value of
                   Inl e \<Rightarrow> again
                 | Inr s \<Rightarrow> st\<lparr>co_heard := (if s \<noteq> v then co_heard st @ [objects] else co_heard st), co_message := []\<rparr>))"

definition isDeployment :: "json \<Rightarrow> bool" where
  "isDeployment object \<longleftrightarrow> json_member object ''kind'' = Some (JStr ''Deployment'')"

definition isShowConvertButton :: "json list \<Rightarrow> bool" where
  "isShowConvertButton objects \<longleftrightarrow> length (filter isDeployment objects) > 0"

section \<open>Flat values and back\<close>

lemma splice_each_first:
  "\<not> (\<exists>u \<in> set us. P u) \<Longrightarrow> P x \<Longrightarrow> \<not> (\<exists>v \<in> set vs. P v) \<Longrightarrow> splice_each P (us @ x # vs) = us @ vs"
proof (induction us)
  case Nil
  then have "splice_each P ys = ys" if "set ys \<subseteq> set vs" for ys
    using that by (induction P ys rule: splice_each.induct) auto
  then show ?case using Nil by (cases vs) auto
next
  case (Cons u us)
  then show ?case by (cases "us @ x # vs") auto
qed

lemma splice_each_none: "\<not> (\<exists>u \<in> set xs. P u) \<Longrightarrow> splice_each P xs = xs"
  by (induction P xs rule: splice_each.induct) auto

lemma splice_each_filter:
  assumes "distinct (map f xs)"
  shows "splice_each (\<lambda>x. f x = k) xs = filter (\<lambda>x. f x \<noteq> k) xs"
proof (cases "k \<in> f ` set xs")
  case True
  then obtain us x vs where xs: "xs = us @ x # vs" "f x = k" by (metis imageE split_list)
  then have "\<not> (\<exists>u \<in> set us. f u = k)" "\<not> (\<exists>v \<in> set vs. f v = k)" using assms by (auto simp: image_iff)
  moreover from this have "filter (\<lambda>x. f x \<noteq> k) us = us" "filter (\<lambda>x. f x \<noteq> k) vs = vs" by (auto simp: filter_id_conv)
  ultimately show ?thesis using xs splice_each_first[of us "\<lambda>x. f x = k" x vs] by simp
next
  case False
  then have "filter (\<lambda>x. f x \<noteq> k) xs = xs" by (auto simp: filter_id_conv)
  then show ?thesis using False splice_each_none[of xs "\<lambda>x. f x = k"] by auto
qed

text \<open>An object the flat form keeps: no list, no empty object inside another, and keys that are not
  empty and hold no dot.\<close>

fun plain_value :: "json \<Rightarrow> bool" and plain_members :: "(string \<times> json) list \<Rightarrow> bool" where
  "plain_value (JObj kvs) \<longleftrightarrow> kvs \<noteq> [] \<and> plain_members kvs"
| "plain_value (JArr vs) \<longleftrightarrow> False"
| "plain_value v \<longleftrightarrow> True"
| "plain_members [] \<longleftrightarrow> True"
| "plain_members ((k, v) # kvs) \<longleftrightarrow> k \<noteq> [] \<and> CHR ''.'' \<notin> set k \<and> k \<notin> fst ` set kvs \<and> plain_value v \<and> plain_members kvs"

text \<open>The leaves of an object with their paths.\<close>

fun leaves :: "json \<Rightarrow> (string list \<times> json) list" and member_leaves :: "(string \<times> json) list \<Rightarrow> (string list \<times> json) list" where
  "leaves (JObj kvs) = member_leaves kvs"
| "leaves v = [([], v)]"
| "member_leaves [] = []"
| "member_leaves ((k, v) # kvs) = map (\<lambda>(p, x). (k # p, x)) (leaves v) @ member_leaves kvs"

definition set_path :: "(string \<times> json) list option \<Rightarrow> string list \<times> json \<Rightarrow> (string \<times> json) list option" where
  "set_path target leaf = Option.bind target (\<lambda>t. set_value t (snd leaf) (hd (fst leaf)) (tl (fst leaf)))"

definition dot_key :: "string list \<Rightarrow> string" where
  "dot_key p = join_with [CHR ''.''] p"

definition clean_path :: "string list \<Rightarrow> bool" where
  "clean_path p \<longleftrightarrow> list_all (\<lambda>k. k \<noteq> [] \<and> CHR ''.'' \<notin> set k) p"

lemma member_leaves_nonempty: "l \<in> set (member_leaves kvs) \<Longrightarrow> fst l \<noteq> []"
  by (induction kvs) auto

lemma leaves_clean:
  "plain_value v \<Longrightarrow> l \<in> set (leaves v) \<Longrightarrow> clean_path (fst l)"
  "plain_members kvs \<Longrightarrow> l \<in> set (member_leaves kvs) \<Longrightarrow> clean_path (fst l)"
  by (induction v and kvs arbitrary: l and l rule: leaves_member_leaves.induct) (auto simp: clean_path_def)

lemma leaves_some:
  "plain_value v \<Longrightarrow> leaves v \<noteq> []"
  "plain_members kvs \<Longrightarrow> kvs \<noteq> [] \<Longrightarrow> member_leaves kvs \<noteq> []"
  by (induction v and kvs rule: leaves_member_leaves.induct) auto

lemma foldl_set_None [simp]: "foldl set_path None ls = None"
  by (induction ls) (simp_all add: set_path_def)

lemma update_last: "k \<notin> fst ` set m \<Longrightarrow> AList.update k y (m @ [(k, x)]) = m @ [(k, y)]"
  by (induction m) auto

lemma set_under_last:
  assumes "k \<notin> fst ` set m" and "list_all (\<lambda>l. fst l \<noteq> []) ls"
  shows "foldl set_path (Some (m @ [(k, JObj b)])) (map (\<lambda>(p, x). (k # p, x)) ls) =
    map_option (\<lambda>b'. m @ [(k, JObj b')]) (foldl set_path (Some b) ls)"
  using assms
proof (induction ls arbitrary: b)
  case (Cons l ls)
  obtain j p x where l: "l = (j # p, x)" using Cons.prems by (cases l; cases "fst l") auto
  have "map_of (m @ [(k, JObj b)]) k = Some (JObj b)" 
    using Cons.prems(1) by (simp add: map_add_def map_of_eq_None_iff[THEN iffD2])
  then have "set_path (Some (m @ [(k, JObj b)])) (k # j # p, x) = map_option (\<lambda>b'. m @ [(k, JObj b')]) (set_path (Some b) (j # p, x))"
    using update_last[OF Cons.prems(1)] by (simp add: set_path_def falsy_def)
  then show ?case using Cons by (cases "set_path (Some b) (j # p, x)") (simp_all add: l)
qed simp

lemma set_under_new:
  assumes "k \<notin> fst ` set m" and "list_all (\<lambda>l. fst l \<noteq> []) ls" and "ls \<noteq> []"
  shows "foldl set_path (Some m) (map (\<lambda>(p, x). (k # p, x)) ls) = map_option (\<lambda>b'. m @ [(k, JObj b')]) (foldl set_path (Some []) ls)"
proof -
  obtain j p x ls' where l: "ls = (j # p, x) # ls'" using assms(2,3) by (cases ls; cases "fst (hd ls)") auto
  have "map_of m k = None" using assms(1) by (simp add: map_of_eq_None_iff)
  then have "set_path (Some m) (k # j # p, x) = map_option (\<lambda>b'. m @ [(k, JObj b')]) (set_path (Some []) (j # p, x))"
    using alist_update_fresh[OF assms(1)] by (simp add: set_path_def falsy_def)
  then show ?thesis using set_under_last[of k m ls'] assms l by (cases "set_path (Some []) (j # p, x)") simp_all
qed

lemma set_leaves:
  "plain_value v \<Longrightarrow> v = JObj ms \<Longrightarrow> foldl set_path (Some []) (leaves v) = Some ms"
  "plain_members kvs \<Longrightarrow> fst ` set kvs \<inter> fst ` set m = {} \<Longrightarrow> foldl set_path (Some m) (member_leaves kvs) = Some (m @ kvs)"
proof (induction v and kvs arbitrary: ms and m rule: leaves_member_leaves.induct)
  case (4 k v kvs)
  have k: "k \<notin> fst ` set m" using 4 by auto
  have "foldl set_path (Some m) (map (\<lambda>(p, x). (k # p, x)) (leaves v)) = Some (m @ [(k, v)])"
  proof (cases "\<exists>ms. v = JObj ms")
    case True
    then obtain ms where v: "v = JObj ms" by blast
    have "list_all (\<lambda>l. fst l \<noteq> []) (leaves v)" using member_leaves_nonempty by (auto simp: v list_all_iff)
    then show ?thesis using 4 set_under_new[OF k] leaves_some(1)[of v] v by simp
  next
    case False
    then have "leaves v = [([], v)]" using 4 by (cases v) auto
    then show ?thesis using alist_update_fresh[OF k] by (simp add: set_path_def)
  qed
  then show ?case using "4.IH"(2)[of "m @ [(k, v)]"] "4.prems" by auto
qed auto

lemma join_snoc: "p \<noteq> [] \<Longrightarrow> join_with sep (p @ [k]) = join_with sep p @ sep @ k"
  by (induction sep p rule: join_with.induct) (auto simp: neq_Nil_conv)

lemma dotted_dot_key: "clean_path p \<Longrightarrow> dotted (dot_key p) k = dot_key (p @ [k])"
proof (cases p)
  case (Cons j p')
  moreover assume "clean_path p"
  ultimately have "dot_key p \<noteq> []" by (cases p') (auto simp: clean_path_def dot_key_def)
  then show ?thesis using Cons join_snoc[of p] by (simp add: dotted_def dot_key_def)
qed (simp add: dotted_def dot_key_def)

lemma get_values_leaves:
  "plain_value v \<Longrightarrow> clean_path p \<Longrightarrow>
     get_values v (dot_key p) out = foldl (\<lambda>m l. AList.update (dot_key (p @ fst l)) (snd l) m) out (leaves v)"
  "plain_members kvs \<Longrightarrow> clean_path p \<Longrightarrow>
     get_members kvs (dot_key p) out = foldl (\<lambda>m l. AList.update (dot_key (p @ fst l)) (snd l) m) out (member_leaves kvs)"
proof (induction v and kvs arbitrary: p out and p out rule: leaves_member_leaves.induct)
  case (4 k v kvs)
  have "clean_path (p @ [k])" using 4 by (simp add: clean_path_def)
  then show ?case using 4 by (simp add: dotted_dot_key foldl_map case_prod_beta)
qed auto

lemma dot_key_split: "clean_path p \<Longrightarrow> p \<noteq> [] \<Longrightarrow> split_on CHR ''.'' (dot_key p) = p"
  by (simp add: dot_key_def clean_path_def list_all_iff split_join)

lemma member_leaves_paths: "l \<in> set (member_leaves kvs) \<Longrightarrow> hd (fst l) \<in> fst ` set kvs"
  by (induction kvs) (auto simp: image_iff)

lemma leaves_distinct:
  "plain_value v \<Longrightarrow> distinct (map fst (leaves v))"
  "plain_members kvs \<Longrightarrow> distinct (map fst (member_leaves kvs))"
proof (induction v and kvs rule: leaves_member_leaves.induct)
  case (4 k v kvs)
  have m: "map fst (map (\<lambda>(p, x). (k # p, x)) (leaves v)) = map ((#) k) (map fst (leaves v))" by (simp add: case_prod_beta)
  have "distinct (map fst (leaves v))" using 4 by simp
  then have "distinct (map fst (map (\<lambda>(p, x). (k # p, x)) (leaves v)))"
    unfolding m distinct_map[of "(#) k"] by (simp add: inj_on_def)
  moreover have "\<not> (\<exists>l \<in> set (member_leaves kvs). hd (fst l) = k)" using 4 member_leaves_paths by fastforce
  ultimately show ?case using 4 by (fastforce simp: case_prod_beta)
qed auto

lemma flat_values:
  assumes "plain_members kvs"
  shows "get_values (JObj kvs) [] [] = map (\<lambda>l. (dot_key (fst l), snd l)) (member_leaves kvs)"
proof -
  have "inj_on dot_key (fst ` set (member_leaves kvs))"
    using leaves_clean(2)[OF assms] member_leaves_nonempty dot_key_split by (auto intro!: inj_onI) (metis fst_conv)
  then have "distinct (map (\<lambda>l. dot_key (fst l)) (member_leaves kvs))"
    using leaves_distinct(2)[OF assms] by (simp add: distinct_map comp_inj_on_iff flip: map_map comp_def[of dot_key fst])
  from foldl_update_append[OF this, of "[]" snd] show ?thesis
    using get_values_leaves(2)[OF assms, of "[]" "[]"] by (simp add: clean_path_def dot_key_def)
qed

text \<open>The values of a chart shown as flat keys and handed back unedited are the same object,
  in the same order, for every object without lists, empty objects inside it and keys that are
  empty or hold a dot.\<close>

theorem helm_values_roundtrip:
  assumes "plain_members kvs"
  shows "\<exists>flat. helm_renderValue (Some (JObj kvs)) = map (\<lambda>(k, v). (k, Some v)) flat \<and> helm_onChange (Some flat) = Some kvs"
proof (intro exI conjI)
  let ?flat = "get_values (JObj kvs) [] []"
  show "helm_renderValue (Some (JObj kvs)) = map (\<lambda>(k, v). (k, Some v)) ?flat" by (simp add: helm_renderValue_def)
  have "helm_onChange (Some ?flat) = foldl (\<lambda>t l. Option.bind t (\<lambda>t. set_value t (snd l)
      (hd (split_on CHR ''.'' (dot_key (fst l)))) (tl (split_on CHR ''.'' (dot_key (fst l)))))) (Some []) (member_leaves kvs)"
    unfolding flat_values[OF assms] by (simp add: helm_onChange_def foldl_map)
  also have "\<dots> = foldl set_path (Some []) (member_leaves kvs)"
    using leaves_clean(2)[OF assms] member_leaves_nonempty
    by (intro foldl_cong) (auto simp: set_path_def dot_key_split)
  finally show "helm_onChange (Some ?flat) = Some kvs" using set_leaves(2)[OF assms, of "[]"] by simp
qed

definition ingress_values :: "(string \<times> json) list" where
  "ingress_values = [(''image'', JObj [(''tag'', JStr ''v1''), (''pull'', JBool False)]), (''replicas'', JInt 0)]"

theorem helm_values_roundtrip_witness:
  "plain_members ingress_values \<and>
   (\<exists>flat. helm_renderValue (Some (JObj ingress_values)) = map (\<lambda>(k, v). (k, Some v)) flat \<and> helm_onChange (Some flat) = Some ingress_values)"
proof -
  have "plain_members ingress_values" by code_simp
  with helm_values_roundtrip[OF this] show ?thesis by blast
qed

text \<open>What the flat form does not keep: a list comes back as an object, a key with a dot as nested
  objects, and an object with nothing in it not at all.\<close>

lemma helm_values_lossy:
  "helm_onChange (Some (get_values (JObj [(''args'', JArr [JStr ''-v''])]) [] [])) = Some [(''args'', JObj [(''0'', JStr ''-v'')])]"
  "helm_onChange (Some (get_values (JObj [(''app.kubernetes.io'', JStr ''x'')]) [] [])) =
     Some [(''app'', JObj [(''kubernetes'', JObj [(''io'', JStr ''x'')])])]"
  "helm_onChange (Some (get_values (JObj [(''resources'', JObj [])]) [] [])) = Some []"
  by code_simp+

text \<open>A key and another that goes on from it, the first with a value: the edit throws.\<close>

lemma helm_onChange_throws: "helm_onChange (Some [(''a'', JStr ''x''), (''a.b'', JStr ''y'')]) = None"
  by code_simp

section \<open>Rows and back\<close>

definition row_map :: "(string, json) js_map \<Rightarrow> bool" where
  "row_map m \<longleftrightarrow> distinct (map fst m) \<and>
     list_all (\<lambda>(k, v). k \<noteq> [] \<and> (case v of JObj ms \<Rightarrow> distinct (keyField # map fst ms) | _ \<Rightarrow> False)) m"

lemma foldl_spread:
  assumes "distinct (keyField # map fst ms)"
  shows "foldl (\<lambda>m (k, x). AList.update k x m) [(keyField, x)] ms = (keyField, x) # ms"
  using foldl_update_append[of fst ms "[(keyField, x)]" snd] assms by (simp add: case_prod_beta')

lemma add_row_spread:
  assumes "key \<noteq> []" and "distinct (keyField # map fst ms)"
  shows "add_row out (Some (JObj ((keyField, JStr key) # ms))) = AList.update key (JObj ms) out"
proof -
  have "AList.delete keyField ms = ms" using assms(2) by (force simp: AList.delete_eq filter_id_conv)
  then show ?thesis using assms(1) by (simp add: add_row_def falsy_def)
qed

text \<open>A map of structures edited as rows and left as it was is the same map, in the same order,
  when its keys are not empty and no structure has the member that holds the key of a row.\<close>

theorem struct_map_roundtrip:
  assumes "row_map m"
  shows "toMap (map_option (map Some) (toRows (Some m))) = m"
proof -
  let ?row = "\<lambda>(key, v). Some (JObj (foldl (\<lambda>m (k, x). AList.update k x m) [(keyField, JStr key)] (spread v)))"
  have r: "add_row out (?row kv) = AList.update (fst kv) (snd kv) out" if "kv \<in> set m" for kv out
  proof -
    obtain key v where kv: "kv = (key, v)" by (cases kv)
    then have "key \<noteq> [] \<and> (case v of JObj ms \<Rightarrow> distinct (keyField # map fst ms) | _ \<Rightarrow> False)"
      using that assms unfolding row_map_def list_all_iff by blast
    then obtain ms where "kv = (key, JObj ms)" "key \<noteq> []" "distinct (keyField # map fst ms)" using kv by (cases v) auto
    then show ?thesis by (simp add: spread_def foldl_spread add_row_spread)
  qed
  have "toMap (map_option (map Some) (toRows (Some m))) = foldl (\<lambda>out kv. add_row out (?row kv)) [] m"
    by (simp add: toMap_def toRows_def foldl_map comp_def case_prod_beta)
  also have "\<dots> = foldl (\<lambda>out kv. AList.update (fst kv) (snd kv) out) [] m" using r by (intro foldl_cong) auto
  also have "\<dots> = m" using foldl_update_append[of fst m "[]" snd] assms by (simp add: row_map_def)
  finally show ?thesis .
qed

definition port_map :: "(string, json) js_map" where
  "port_map = [(''http'', JObj [(''port'', JInt 80)]), (''admin'', JObj [])]"

theorem struct_map_roundtrip_witness: "row_map port_map \<and> toMap (map_option (map Some) (toRows (Some port_map))) = port_map"
proof -
  have "row_map port_map" by code_simp
  with struct_map_roundtrip[OF this] show ?thesis by blast
qed

section \<open>Switching a group\<close>

inductive group_step :: "group_props \<Rightarrow> group_state \<Rightarrow> group_state \<Rightarrow> bool" for props where
  toggle: "group_step props st (toggleShowClass st)"
| on: "group_step props st (group_on props st)"
| off: "group_step props st (group_off props st)"

lemma group_set_flags [simp]:
  "gs_enable (setEmptyValue props st) = gs_enable st" "gs_checked (setEmptyValue props st) = gs_checked st"
  "gs_enable (removeJsonKeyValue props st) = gs_enable st" "gs_checked (removeJsonKeyValue props st) = gs_checked st"
  by (auto simp: setEmptyValue_def removeJsonKeyValue_def Let_def split: option.splits)

interpretation group_switch: machine "group_step props" "\<lambda>st. gs_enable st = gs_checked st" "\<lambda>st. \<exists>f. st = initSwitchState props (group_new props f)" for props
proof unfold_locales
  show "gs_enable st' = gs_checked st'" if "group_step props st st'" "gs_enable st = gs_checked st" for st st'
    using that by (induction rule: group_step.induct) (auto simp: toggleShowClass_def group_on_def group_off_def)
qed (elim exE, simp add: initSwitchState_def Let_def)

text \<open>A group mounted shows its parameters exactly when its switch is on, whatever is switched.
  Switching it on gives it its empty value and overwrites none; switching it off takes its value
  out of the form and keeps the others.\<close>

lemma group_shown: "(group_step props)\<^sup>*\<^sup>* (initSwitchState props (group_new props f)) st \<Longrightarrow> gs_enable st = gs_checked st"
  using group_switch.reachable_inv by blast

lemma group_on_value:
  assumes "gs_field st = Some f" and "gp_onChange props" and "gp_emptyValue props = Some e" and "gs_field (group_on props st) = Some f'"
  shows "value_at f' k = (if k = or_str (gp_jsonKey props) [] \<and> value_at f k = None then Some e else value_at f k)"
  using assms by (auto simp: group_on_def setEmptyValue_def Let_def value_at_def update_conv' split: if_splits)

lemma group_off_value:
  assumes "gs_field st = Some f" and "gp_onChange props" and "gs_field (group_off props st) = Some f'"
  shows "value_at f' k = (if k = or_str (gp_jsonKey props) [] then None else value_at f k) \<and> gs_heard (group_off props st) = gs_heard st @ [f']"
  using assms by (auto simp: group_off_def removeJsonKeyValue_def Let_def value_at_def delete_conv')

section \<open>Quantities and YAML\<close>

lemma digits_value_snoc: "digits_value (s @ [c]) = 10 * digits_value s + (of_char c - 48)"
  by (simp add: digits_value_def)

lemma digits_value_nat_str: "digits_value (nat_str n) = n"
proof (induction n rule: nat_str.induct)
  case (1 n)
  show ?case
  proof (cases "n < 10")
    case True
    then show ?thesis by (subst nat_str.simps) (simp add: digits_value_def of_char_digit)
  next
    case False
    then have "digits_value (nat_str n) = 10 * (n div 10) + n mod 10"
      using 1 by (subst nat_str.simps) (simp add: digits_value_snoc of_char_digit)
    then show ?thesis by simp
  qed
qed

lemma nat_str_all_digits: "list_all is_digit_char (nat_str n)"
  using nat_str_digits by (simp add: list_all_iff is_digit_char_def)

lemma replace_first_unit:
  assumes "list_all is_digit_char s"
  shows "replace_first (CHR ''M'' # ''i'') (s @ ''Mi'') = s" and "replace_first (CHR ''G'' # ''i'') (s @ ''Gi'') = s"
  using assms by (induction s) (auto simp: replace_first.simps[of _ "_ # _"] starts_with_def is_digit_char_def)

lemma parse_int_digits:
  assumes "list_all is_digit_char s" and "s \<noteq> []"
  shows "parse_int s = Some (int (digits_value s))"
proof -
  obtain c r where s: "s = c # r" using assms(2) by (cases s) auto
  have "\<not> is_space c" "c \<noteq> CHR ''-''" "c \<noteq> CHR ''+''" using assms(1) by (auto simp: s is_digit_char_def is_space_def)
  moreover have "takeWhile is_digit_char s = s" using assms(1) by (simp add: list_all_iff)
  ultimately show ?thesis by (simp add: parse_int_def Let_def s)
qed

text \<open>A quantity typed is the quantity shown; one in another unit is shown as if it were in this one.\<close>

lemma memory_shown_typed: "memory_shown (Some (memory_onChange (nat_str n))) = Some (Some (int n))"
  using replace_first_unit(1)[OF nat_str_all_digits] parse_int_digits[OF nat_str_all_digits nat_str_nonempty]
  by (simp add: memory_shown_def memory_onChange_def truthy_iff digits_value_nat_str)

lemma disk_shown_typed: "disk_shown (Some (disk_onChange (nat_str n))) = Some (Some (int n))"
  using replace_first_unit(2)[OF nat_str_all_digits] parse_int_digits[OF nat_str_all_digits nat_str_nonempty]
  by (simp add: disk_shown_def disk_onChange_def truthy_iff digits_value_nat_str)

lemma memory_unit_misread: "memory_shown (Some ''2Gi'') = memory_shown (Some ''2Mi'')"
  by code_simp

text \<open>What the parser says of one document is never shown: a text it refuses is read again as several
  documents whatever the error was.\<close>

lemma yaml_error_ignored:
  assumes "ym_load y v = Inl e"
  shows "k8s_onChange (y\<lparr>ym_load := \<lambda>_. Inl e'\<rparr>) value v st = k8s_onChange y value v st"
  using assms by (cases "ym_loadAll y v") (simp_all add: k8s_onChange_def Let_def)

lemma k8s_told_objects:
  assumes "co_heard (k8s_onChange y value v st) \<noteq> co_heard st"
  shows "\<exists>ds. co_heard (k8s_onChange y value v st) = co_heard st @ [documents ds] \<and> co_message (k8s_onChange y value v st) = [] \<and>
    (ym_loadAll y v = Inr ds \<or> (\<exists>d. ym_load y v = Inr d \<and> ds = (case d of Some (JArr vs) \<Rightarrow> map Some vs | _ \<Rightarrow> [d])))"
  using assms by (auto simp: k8s_onChange_def Let_def split: sum.splits if_splits)

end
