(* ===== verification/Field_Rows.thy ===== *)
theory Field_Rows
  imports Field_Widgets
begin

text \<open>
  The widgets that edit rows: those of a map (\<open>extends/KV\<close>), the items of a list
  (\<open>extends/Strings\<close>, \<open>extends/Numbers\<close>) and a list of structures (\<open>extends/Structs\<close>). Each keeps
  rows with keys of the moment they were added and the values typed in a \<open>Field\<close>, and hands over
  what it makes of both.
\<close>

section \<open>The rows of a map\<close>

text \<open>\<open>typeof\<close>.\<close>

fun js_typeof :: "json \<Rightarrow> string" where
  "js_typeof (JBool b) = ''boolean''"
| "js_typeof (JInt i) = ''number''"
| "js_typeof (JDec s) = ''number''"
| "js_typeof (JStr s) = ''string''"
| "js_typeof v = ''object''"

text \<open>The name of a member: what a value prints as.\<close>

definition member_name :: "json option \<Rightarrow> string" where
  "member_name v = (case v of None \<Rightarrow> ''undefined'' | Some x \<Rightarrow> js_String x)"

record kv_props =
  kp_value :: "(string, json) js_map option"
  kp_additional :: bool
  kp_additionalType :: "string option"
  kp_keyOptions :: "(string, json) js_map option"

record kv_item =
  ki_key :: string
  ki_label :: string
  ki_value :: "json option"
  ki_valueType :: string

record kv_state =
  kv_items :: "kv_item list"
  kv_inputValue :: "string option"
  kv_form :: fields
  kv_heard :: "fields list"

definition matchOutSideValueType :: "kv_props \<Rightarrow> string" where
  "matchOutSideValueType props =
     (if kp_additional props \<and> truthy (kp_additionalType props)
      then coalesce (map_of [(''Number'', ''number''), (''Switch'', ''boolean'')] (the (kp_additionalType props))) ''string''
      else ''string'')"

definition getValueType :: "kv_props \<Rightarrow> json option \<Rightarrow> string" where
  "getValueType props value =
     (let outside = matchOutSideValueType props
      in if outside \<in> {''number'', ''boolean''} then outside
         else if \<not> nullish value then js_typeof (the value) else ''string'')"

definition envKey :: "string \<Rightarrow> string" where "envKey key = ''envKey-'' @ key"

definition envValue :: "string \<Rightarrow> string" where "envValue key = ''envValue-'' @ key"

definition kv_new :: kv_state where
  "kv_new = \<lparr>kv_items = [], kv_inputValue = None, kv_form = [], kv_heard = []\<rparr>"

definition kv_seed :: "kv_props \<Rightarrow> string \<Rightarrow> kv_state \<Rightarrow> string \<times> json \<Rightarrow> kv_state" where
  "kv_seed props now st lv =
     (let (label, v) = lv; key = now @ label
      in st\<lparr>kv_items := kv_items st @ [\<lparr>ki_key = key, ki_label = label, ki_value = Some v, ki_valueType = getValueType props (Some v)\<rparr>],
            kv_form := AList.update (envValue key) (Some v) (AList.update (envKey key) (Some (JStr label)) (kv_form st))\<rparr>)"

definition kv_setValues :: "kv_props \<Rightarrow> string \<Rightarrow> kv_state \<Rightarrow> kv_state" where
  "kv_setValues props now st = foldl (kv_seed props now) st (or_nil (kp_value props))"

definition kv_addItem :: "kv_props \<Rightarrow> string \<Rightarrow> kv_state \<Rightarrow> kv_state" where
  "kv_addItem props now st =
     st\<lparr>kv_items := kv_items st @ [\<lparr>ki_key = now, ki_label = [], ki_value = Some (JStr []), ki_valueType = getValueType props (Some (JStr []))\<rparr>]\<rparr>"

text \<open>An entry of the form adds to the row of its index: a label, or a value.\<close>

definition submit_entry :: "(string, string \<times> json option) js_map \<Rightarrow> string \<times> json option \<Rightarrow> (string, string \<times> json option) js_map" where
  "submit_entry rows entry =
     (let (name, v) = entry;
          row = (\<lambda>rs i. coalesce (map_of rs i) ([], None));
          rows = (if starts_with name ''envKey-''
            then AList.update (drop 7 name) (member_name v, snd (row rows (drop 7 name))) rows else rows)
      in if starts_with name ''envValue-''
         then AList.update (drop 9 name) (fst (row rows (drop 9 name)), v) rows else rows)"

definition kv_object :: "fields \<Rightarrow> fields" where
  "kv_object form = js_map_of (map snd (foldl submit_entry [] form))"

definition kv_submit :: "kv_state \<Rightarrow> kv_state" where
  "kv_submit st = st\<lparr>kv_heard := kv_heard st @ [kv_object (kv_form st)]\<rparr>"

fun occurs_in :: "string \<Rightarrow> string \<Rightarrow> bool" where
  "occurs_in w [] = (w = [])"
| "occurs_in w (c # s) = (starts_with (c # s) w \<or> occurs_in w s)"

definition kv_onChange :: "kv_props \<Rightarrow> string \<Rightarrow> json option \<Rightarrow> kv_state \<Rightarrow> kv_state" where
  "kv_onChange props name value st =
     (let st = st\<lparr>kv_form := AList.update name value (kv_form st)\<rparr>
      in kv_submit
           (case kp_keyOptions props of
              Some options \<Rightarrow>
                if occurs_in ''envKey-'' name
                then (let key = drop (Suc (the (index_of CHR ''-'' name))) name; v = map_of options (member_name value)
                      in st\<lparr>kv_form := AList.update (envValue key) v (kv_form st),
                            kv_items := map (\<lambda>it. if ki_key it = key then it\<lparr>ki_value := v, ki_valueType := getValueType props v\<rparr> else it) (kv_items st)\<rparr>)
                else st
            | None \<Rightarrow> st))"

definition kv_remove :: "string \<Rightarrow> kv_state \<Rightarrow> kv_state" where
  "kv_remove key st =
     kv_submit (st\<lparr>kv_items := splice_each (\<lambda>it. ki_key it = key) (kv_items st),
                   kv_form := AList.delete (envValue key) (AList.delete (envKey key) (kv_form st))\<rparr>)"

definition kv_onSearch :: "string \<Rightarrow> kv_state \<Rightarrow> kv_state" where
  "kv_onSearch v st = st\<lparr>kv_inputValue := Some v\<rparr>"

section \<open>The items of a list\<close>

type_synonym list_item = "string \<times> json option"

record strings_state =
  si_inputList :: "list_item list"
  si_field :: fields
  si_heard :: "json option list list"

definition strings_new :: "string \<Rightarrow> json option \<Rightarrow> strings_state" where
  "strings_new now value =
     \<lparr>si_inputList = (case value of Some (JArr vs) \<Rightarrow> map (\<lambda>i. (now @ nat_str i, Some (vs ! i))) [0..<length vs] | _ \<Rightarrow> []),
      si_field = [], si_heard = []\<rparr>"

definition strings_didMount :: "json option \<Rightarrow> strings_state \<Rightarrow> strings_state" where
  "strings_didMount value st =
     (case value of
        Some (JArr vs) \<Rightarrow> st
      | _ \<Rightarrow> if nullish value then st else st\<lparr>si_heard := si_heard st @ [[]]\<rparr>)"

definition take_value :: "list_item list \<Rightarrow> string \<times> json option \<Rightarrow> list_item list" where
  "take_value items entry = map (\<lambda>it. if fst it = fst entry then (fst it, snd entry) else it) items"

definition strings_changeValues :: "strings_state \<Rightarrow> strings_state" where
  "strings_changeValues st =
     (let items = foldl take_value (si_inputList st) (si_field st)
      in st\<lparr>si_inputList := items, si_heard := si_heard st @ [map snd items]\<rparr>)"

definition strings_type :: "string \<Rightarrow> json option \<Rightarrow> strings_state \<Rightarrow> strings_state" where
  "strings_type key v st = strings_changeValues (st\<lparr>si_field := AList.update key v (si_field st)\<rparr>)"

definition strings_add :: "string \<Rightarrow> strings_state \<Rightarrow> strings_state" where
  "strings_add now st = st\<lparr>si_inputList := si_inputList st @ [(now, None)]\<rparr>"

definition strings_remove :: "string \<Rightarrow> strings_state \<Rightarrow> strings_state" where
  "strings_remove key st =
     strings_changeValues (st\<lparr>si_inputList := splice_each (\<lambda>it. fst it = key) (si_inputList st),
       si_field := (if key \<in> fst ` set (si_inputList st) then AList.delete key (si_field st) else si_field st)\<rparr>)"

text \<open>\<open>Numbers\<close> is the same component over number inputs.\<close>

definition numbers_new :: "string \<Rightarrow> json option \<Rightarrow> strings_state" where "numbers_new = strings_new"
definition numbers_didMount :: "json option \<Rightarrow> strings_state \<Rightarrow> strings_state" where "numbers_didMount = strings_didMount"
definition numbers_changeValues :: "strings_state \<Rightarrow> strings_state" where "numbers_changeValues = strings_changeValues"
definition numbers_add :: "string \<Rightarrow> strings_state \<Rightarrow> strings_state" where "numbers_add = strings_add"
definition numbers_remove :: "string \<Rightarrow> strings_state \<Rightarrow> strings_state" where "numbers_remove = strings_remove"

section \<open>The list of structures\<close>

definition heavyTypes :: "string list" where
  "heavyTypes = [''Structs'', ''Strings'', ''CertBase64'', ''Group'', ''ImageInput'', ''K8sObjectsCode'', ''KV'']"

fun getParamCount :: "ui_param \<Rightarrow> nat" where
  "getParamCount (UIParam jsonKey uiType style disable conditions subs validate) =
     (if \<not> disable \<and> uiType \<noteq> ''Ignore'' \<and> uiType \<noteq> ''InnerGroup'' then (if uiType \<in> set heavyTypes then 3 else 1) else 0) +
     (if disable then 0 else case subs of None \<Rightarrow> 0 | Some ps \<Rightarrow> sum_list (map getParamCount ps))"

definition paramCount :: "ui_param list option \<Rightarrow> nat" where
  "paramCount params = sum_list (map getParamCount (or_nil params))"

text \<open>The parameters of an option, by their keys; a key with no parameter gives none, which the count
  then reads and throws.\<close>

definition option_schemas :: "string list option \<Rightarrow> ui_param list option \<Rightarrow> ui_param option list option" where
  "option_schemas keys params =
     (case keys of
        Some (k # ks) \<Rightarrow>
          (case params of
             None \<Rightarrow> None
           | Some ps \<Rightarrow> Some (map (map_of (rev (map (\<lambda>p. (pm_jsonKey p, p)) ps))) (k # ks)))
      | _ \<Rightarrow> map_option (map Some) params)"

record struct_item =
  sr_key :: string
  sr_option :: "string list option"
  sr_value :: "json option"

record structs_state =
  sr_list :: "struct_item list"
  sr_field :: fields
  sr_heard :: "json option list list"

record group_option =
  go_label :: string
  go_keys :: "string list option"

text \<open>The keys an item has, sorted and joined, pick its option; the keys of an option are sorted in
  place on the way. Two options of the same keys are the later one's.\<close>

definition sorted_keys :: "string list \<Rightarrow> string list" where
  "sorted_keys ks = sort ks"

definition option_map :: "group_option list \<Rightarrow> (string, string list) js_map" where
  "option_map options =
     foldl (\<lambda>m g. case go_keys g of None \<Rightarrow> m | Some ks \<Rightarrow> AList.update (join_with '','' (sorted_keys ks)) (sorted_keys ks) m) [] options"

definition firstOption :: "group_option list \<Rightarrow> string list option" where
  "firstOption options = Option.bind (find (\<lambda>g. go_keys g \<noteq> None) options) (map_option (sorted_keys) \<circ> go_keys)"

definition item_option :: "group_option list \<Rightarrow> json \<Rightarrow> string list option" where
  "item_option options item =
     (case map_of (option_map options) (join_with '','' (sorted_keys (map fst (spread item)))) of
        Some ks \<Rightarrow> Some ks
      | None \<Rightarrow> firstOption options)"

definition structs_init :: "string \<Rightarrow> group_option list \<Rightarrow> json list option \<Rightarrow> structs_state \<Rightarrow> structs_state" where
  "structs_init now options value st =
     (case value of
        None \<Rightarrow> st
      | Some vs \<Rightarrow>
          st\<lparr>sr_list := map (\<lambda>i. \<lparr>sr_key = now @ nat_str i, sr_option = item_option options (vs ! i), sr_value = Some (JArr vs)\<rparr>) [0..<length vs],
             sr_field := foldl (\<lambda>f i. AList.update (''struct'' @ now @ nat_str i) (Some (vs ! i)) f) (sr_field st) [0..<length vs]\<rparr>)"

definition structs_values :: "fields \<Rightarrow> json option list" where
  "structs_values f = map snd f"

definition structs_setValues :: "structs_state \<Rightarrow> structs_state" where
  "structs_setValues st = st\<lparr>sr_heard := sr_heard st @ [structs_values (sr_field st)]\<rparr>"

definition structs_type :: "string \<Rightarrow> json option \<Rightarrow> structs_state \<Rightarrow> structs_state" where
  "structs_type key v st = structs_setValues (st\<lparr>sr_field := AList.update (''struct'' @ key) v (sr_field st)\<rparr>)"

definition addStructPlanItem :: "bool \<Rightarrow> string \<Rightarrow> string list option \<Rightarrow> json option \<Rightarrow> structs_state \<Rightarrow> structs_state" where
  "addStructPlanItem valid now option value st =
     (if \<not> valid then st else st\<lparr>sr_list := sr_list st @ [\<lparr>sr_key = now, sr_option = option, sr_value = value\<rparr>]\<rparr>)"

definition removeStructPlanItem :: "string \<Rightarrow> structs_state \<Rightarrow> structs_state" where
  "removeStructPlanItem key st =
     structs_setValues (st\<lparr>sr_list := splice_each (\<lambda>it. sr_key it = key) (sr_list st), sr_field := AList.delete (''struct'' @ key) (sr_field st)\<rparr>)"

definition row_member :: "json option \<Rightarrow> string \<Rightarrow> json option" where
  "row_member v key = (if nullish v then None else json_member (the v) key)"

definition duplicateKey :: "string option \<Rightarrow> fields \<Rightarrow> string \<Rightarrow> string option" where
  "duplicateKey rowKey f key =
     (if \<not> truthy rowKey then None
      else let own = row_member (value_at f (''struct'' @ key)) (the rowKey)
           in if own = None \<or> own = Some (JStr []) then None
              else if list_ex (\<lambda>(k, v). k \<noteq> ''struct'' @ key \<and> \<not> is_object (the own) \<and> row_member v (the rowKey) = own) f
              then Some (js_String (the own)) else None)"

definition see_key :: "string \<Rightarrow> string list \<times> string list \<Rightarrow> string \<times> json option \<Rightarrow> string list \<times> string list" where
  "see_key rowKey acc entry =
     (let v = row_member (snd entry) rowKey; (seen, dups) = acc
      in if v = None \<or> v = Some (JStr []) then acc
         else (set_add seen (js_String (the v)), if js_String (the v) \<in> set seen then set_add dups (js_String (the v)) else dups))"

definition duplicateKeys :: "string option \<Rightarrow> fields \<Rightarrow> string list" where
  "duplicateKeys rowKey f = (if \<not> truthy rowKey then [] else snd (foldl (see_key (the rowKey)) ([], []) f))"

definition struct_validator :: "string option \<Rightarrow> string option \<Rightarrow> string option" where
  "struct_validator dup ui_error = (if truthy dup then Some (the dup @ '' is used by another item'') else ui_error)"

section \<open>What the rows of a map submit\<close>

lemma starts_env [simp]:
  "starts_with (envKey k) ''envKey-''" "\<not> starts_with (envKey k) ''envValue-''"
  "starts_with (envValue k) ''envValue-''" "\<not> starts_with (envValue k) ''envKey-''"
  "drop 7 (envKey k) = k" "drop 9 (envValue k) = k"
  by (simp_all add: envKey_def envValue_def starts_with_def)

lemma env_inj [simp]:
  "envKey k = envKey j \<longleftrightarrow> k = j" "envValue k = envValue j \<longleftrightarrow> k = j" "envKey k \<noteq> envValue j" "envValue j \<noteq> envKey k"
  by (simp_all add: envKey_def envValue_def)

lemma submit_entry_env:
  "submit_entry rows (envKey k, v) = AList.update k (member_name v, snd (coalesce (map_of rows k) ([], None))) rows"
  "submit_entry rows (envValue k, v) = AList.update k (fst (coalesce (map_of rows k) ([], None)), v) rows"
  by (simp_all add: submit_entry_def Let_def)

text \<open>An entry with neither name is no row's.\<close>

lemma starts_with_iff: "starts_with s p \<longleftrightarrow> (\<exists>r. s = p @ r)"
proof
  assume "starts_with s p"
  then show "\<exists>r. s = p @ r" using starts_with_split by blast
qed (auto simp: starts_with_def)

lemma submit_entry_other:
  assumes "\<not> (\<exists>k. name = envKey k)" and "\<not> (\<exists>k. name = envValue k)"
  shows "submit_entry rows (name, v) = rows"
proof -
  have "\<not> starts_with name ''envKey-''" "\<not> starts_with name ''envValue-''"
    using assms unfolding starts_with_iff envKey_def envValue_def by blast+
  then show ?thesis by (simp add: submit_entry_def Let_def)
qed

text \<open>The label and the value a form holds for a row.\<close>

definition kv_label :: "fields \<Rightarrow> string \<Rightarrow> string" where
  "kv_label form k = (case map_of form (envKey k) of None \<Rightarrow> [] | Some v \<Rightarrow> member_name v)"

definition kv_row :: "fields \<Rightarrow> string \<Rightarrow> (string \<times> json option) option" where
  "kv_row form k =
     (if map_of form (envKey k) = None \<and> map_of form (envValue k) = None then None else Some (kv_label form k, value_at form (envValue k)))"

lemma kv_row_append:
  assumes "name \<notin> fst ` set form"
  shows "kv_row (form @ [(name, v)]) k =
    (if name = envKey k then Some (member_name v, value_at form (envValue k))
     else if name = envValue k then Some (kv_label form k, v) else kv_row form k)"
proof -
  have n: "map_of form name = None" using assms by (simp add: map_of_eq_None_iff)
  have m: "map_of (form @ [(name, v)]) x = (if x = name then Some v else map_of form x)" for x
    using n by (simp add: map_add_def split: option.splits)
  show ?thesis unfolding kv_row_def kv_label_def value_at_def m using n by simp
qed

lemma submit_rows:
  assumes "distinct (map fst form)"
  shows "map_of (foldl submit_entry [] form) k = kv_row form k"
  using assms
proof (induction form arbitrary: k rule: rev_induct)
  case Nil
  then show ?case by (simp add: kv_row_def)
next
  case (snoc e form)
  obtain name v where e: "e = (name, v)" by (cases e)
  then have n: "name \<notin> fst ` set form" using snoc.prems by simp
  let ?rows = "foldl submit_entry [] form"
  have IH: "map_of ?rows j = kv_row form j" for j using snoc by simp
  have row: "fst (coalesce (kv_row form j) ([], None)) = kv_label form j" "snd (coalesce (kv_row form j) ([], None)) = value_at form (envValue j)" for j
    by (auto simp: kv_row_def kv_label_def value_at_def split: option.splits)
  consider (label) j where "name = envKey j" | (val) j where "name = envValue j"
    | (other) "\<not> (\<exists>j. name = envKey j)" "\<not> (\<exists>j. name = envValue j)" by blast
  then show ?case
  proof cases
    case (label j)
    then show ?thesis using n kv_row_append[OF n, of v k] IH by (simp add: e submit_entry_env update_conv' row)
  next
    case (val j)
    then show ?thesis using n kv_row_append[OF n, of v k] IH by (simp add: e submit_entry_env update_conv' row)
  next
    case other
    then have "submit_entry ?rows (name, v) = ?rows" by (rule submit_entry_other)
    moreover have "name \<noteq> envKey k" "name \<noteq> envValue k" using other by blast+
    ultimately show ?thesis using kv_row_append[OF n, of v k] IH by (simp add: e)
  qed
qed

lemma submit_keys_distinct: "distinct (map fst rows) \<Longrightarrow> distinct (map fst (foldl submit_entry rows form))"
  by (induction form arbitrary: rows) (auto simp: submit_entry_def Let_def distinct_update split: prod.splits)

lemma kv_object_iff:
  assumes "distinct (map fst form)"
  shows "fst ` set (kv_object form) = {l. \<exists>k v. kv_row form k = Some (l, v)}"
    and "map_of (kv_object form) l = Some v \<Longrightarrow> \<exists>k. kv_row form k = Some (l, v)"
proof -
  let ?rows = "foldl submit_entry [] form"
  have d: "distinct (map fst ?rows)" by (rule submit_keys_distinct) simp
  have r: "(k, x) \<in> set ?rows \<longleftrightarrow> kv_row form k = Some x" for k x
    unfolding submit_rows[OF assms, symmetric] using d by (simp add: map_of_eq_Some_iff)
  have "fst ` set (kv_object form) = fst ` snd ` set ?rows"
    using foldl_update_keys[of fst "\<lambda>m. snd" "[]" "map snd ?rows"] by (simp add: kv_object_def js_map_of_def image_image)
  then show "fst ` set (kv_object form) = {l. \<exists>k v. kv_row form k = Some (l, v)}" unfolding r[symmetric] by (force simp: image_iff)
  assume "map_of (kv_object form) l = Some v"
  then have "(l, v) \<in> snd ` set ?rows" using map_of_SomeD by (force simp: kv_object_def map_of_js_map_of)
  then show "\<exists>k. kv_row form k = Some (l, v)" using r by force
qed

text \<open>The form of the rows holds only what belongs to a row shown.\<close>

definition row_names :: "string set \<Rightarrow> string set" where
  "row_names keys = envKey ` keys \<union> envValue ` keys"

definition kv_inv :: "kv_state \<Rightarrow> bool" where
  "kv_inv st \<longleftrightarrow> distinct (map fst (kv_form st)) \<and> fst ` set (kv_form st) \<subseteq> row_names (ki_key ` set (kv_items st))"

lemma row_names_simps [simp]: "envKey k \<in> row_names keys \<longleftrightarrow> k \<in> keys" "envValue k \<in> row_names keys \<longleftrightarrow> k \<in> keys"
  by (auto simp: row_names_def)

lemma row_names_mono: "keys \<subseteq> keys' \<Longrightarrow> row_names keys \<subseteq> row_names keys'"
  by (auto simp: row_names_def)

lemma kv_invD: "kv_inv st \<Longrightarrow> name \<in> fst ` set (kv_form st) \<Longrightarrow> name \<in> row_names (ki_key ` set (kv_items st))"
  unfolding kv_inv_def by blast

inductive kv_step :: "kv_props \<Rightarrow> kv_state \<Rightarrow> kv_state \<Rightarrow> bool" for props where
  add: "kv_step props st (kv_addItem props now st)"
| type: "it \<in> set (kv_items st) \<Longrightarrow> name \<in> {envKey (ki_key it), envValue (ki_key it)} \<Longrightarrow> kv_step props st (kv_onChange props name v st)"
| remove: "kv_step props st (kv_remove key st)"
| search: "kv_step props st (kv_onSearch s st)"

lemma splice_each_keeps: "set (filter (\<lambda>x. \<not> P x) xs) \<subseteq> set (splice_each P xs)"
  by (induction P xs rule: splice_each.induct) auto

lemma kv_inv_update:
  assumes "kv_inv st" and "name \<in> row_names keys" and "ki_key ` set (kv_items st) \<subseteq> keys" and "ki_key ` set items = keys"
  shows "kv_inv (st\<lparr>kv_form := AList.update name v (kv_form st), kv_items := items\<rparr>)"
  using assms row_names_mono[OF assms(3)] unfolding kv_inv_def by (auto simp: distinct_update dom_update)

lemma kv_inv_seed:
  assumes "kv_inv st" shows "kv_inv (kv_seed props now st lv)"
proof -
  obtain l v where lv: "lv = (l, v)" by (cases lv)
  let ?items = "kv_items st @ [\<lparr>ki_key = now @ l, ki_label = l, ki_value = Some v, ki_valueType = getValueType props (Some v)\<rparr>]"
  have "kv_inv (st\<lparr>kv_form := AList.update (envKey (now @ l)) (Some (JStr l)) (kv_form st), kv_items := ?items\<rparr>)"
    using assms by (rule kv_inv_update) auto
  from kv_inv_update[OF this, of "envValue (now @ l)" "ki_key ` set ?items" ?items "Some v"]
  show ?thesis by (simp add: lv kv_seed_def Let_def kv_inv_def)
qed

lemma env_after_dash: "drop (Suc (the (index_of CHR ''-'' (envKey k)))) (envKey k) = k"
  "drop (Suc (the (index_of CHR ''-'' (envValue k)))) (envValue k) = k"
  by (simp_all add: envKey_def envValue_def)

lemma form_keys_delete: "fst ` set (AList.delete k al) = fst ` set al - {k}"
  using arg_cong[OF delete_keys[of k al], of set] by simp

lemma kv_inv_submit [simp]: "kv_inv (kv_submit st) = kv_inv st"
  by (simp add: kv_inv_def kv_submit_def)

lemma kv_step_inv: "kv_step props st st' \<Longrightarrow> kv_inv st \<Longrightarrow> kv_inv st'"
proof (induction rule: kv_step.induct)
  case (add st now)
  then show ?case using row_names_mono[of "ki_key ` set (kv_items st)"] by (auto simp: kv_inv_def kv_addItem_def)
next
  case (type it st name v)
  have k: "drop (Suc (the (index_of CHR ''-'' name))) name = ki_key it" using type(2) env_after_dash by auto
  have n: "name \<in> row_names (ki_key ` set (kv_items st))" using type by auto
  have i: "ki_key ` set (map (\<lambda>x. if ki_key x = ki_key it then x\<lparr>ki_value := w, ki_valueType := t\<rparr> else x) (kv_items st)) = ki_key ` set (kv_items st)"
    for w t unfolding set_map image_image by (rule image_cong) auto
  have 1: "kv_inv (st\<lparr>kv_form := AList.update name v (kv_form st)\<rparr>)" using kv_inv_update[OF type(3) n, of "kv_items st" v] by simp
  have 2: "kv_inv (st\<lparr>kv_form := AList.update (envValue (ki_key it)) w (AList.update name v (kv_form st)),
      kv_items := map (\<lambda>x. if ki_key x = ki_key it then x\<lparr>ki_value := w, ki_valueType := t\<rparr> else x) (kv_items st)\<rparr>)" for w t
    using kv_inv_update[OF 1, of "envValue (ki_key it)" "ki_key ` set (kv_items st)" _ w] i type(1) by simp
  show ?case using 1 2 unfolding kv_onChange_def kv_inv_submit k Let_def by (simp split: option.split)
next
  case (remove st key)
  let ?form = "AList.delete (envValue key) (AList.delete (envKey key) (kv_form st))" and ?items = "splice_each (\<lambda>it. ki_key it = key) (kv_items st)"
  have "distinct (map fst ?form)" using remove by (simp add: kv_inv_def distinct_delete)
  moreover have "name \<in> row_names (ki_key ` set ?items)" if "name \<in> fst ` set ?form" for name
  proof -
    have "name \<in> fst ` set (kv_form st)" "name \<noteq> envKey key" "name \<noteq> envValue key" using that by (auto simp only: form_keys_delete)
    then obtain it where "it \<in> set (kv_items st)" "name = envKey (ki_key it) \<or> name = envValue (ki_key it)" "ki_key it \<noteq> key"
      using kv_invD[OF remove, of name] by (auto simp: row_names_def)
    then show ?thesis using splice_each_keeps[of "\<lambda>it. ki_key it = key" "kv_items st"] by (auto simp: subset_iff)
  qed
  ultimately show ?case unfolding kv_remove_def kv_inv_submit by (simp add: kv_inv_def subset_iff)
next
  case (search st s)
  then show ?case by (simp add: kv_inv_def kv_onSearch_def)
qed

interpretation kv: machine "kv_step props" kv_inv "\<lambda>st. \<exists>now. st = kv_setValues props now kv_new" for props
proof unfold_locales
  show "kv_inv st" if "\<exists>now. st = kv_setValues props now kv_new" for st
  proof -
    have "kv_inv (foldl (kv_seed props now) st lvs)" if "kv_inv st" for now st lvs
      using that by (induction lvs arbitrary: st) (auto intro: kv_inv_seed)
    moreover have "kv_inv kv_new" by (simp add: kv_inv_def kv_new_def)
    ultimately show ?thesis using that unfolding kv_setValues_def by blast
  qed
qed (rule kv_step_inv)

text \<open>Through any sequence of adding, typing, picking, searching and removing, what the rows of a
  map hand over is exactly the rows shown that hold something: every label handed over is that of
  such a row, every such row has its label there, and a label goes with the value of a row that
  has it.\<close>

theorem kv_object_rows:
  assumes "(kv_step props)\<^sup>*\<^sup>* (kv_setValues props now kv_new) st"
  shows "fst ` set (kv_object (kv_form st)) =
      {l. \<exists>it \<in> set (kv_items st). \<exists>v. kv_row (kv_form st) (ki_key it) = Some (l, v)} \<and>
    (map_of (kv_object (kv_form st)) label = Some v \<longrightarrow> (\<exists>it \<in> set (kv_items st). kv_row (kv_form st) (ki_key it) = Some (label, v)))"
proof -
  have inv: "kv_inv st" using kv.reachable_inv[OF _ assms] by blast
  have shown: "\<exists>it \<in> set (kv_items st). ki_key it = k" if "kv_row (kv_form st) k = Some x" for k x
  proof -
    have "envKey k \<in> fst ` set (kv_form st) \<or> envValue k \<in> fst ` set (kv_form st)"
      using that by (auto simp: kv_row_def map_of_eq_None_iff split: if_splits)
    then have "k \<in> ki_key ` set (kv_items st)" using kv_invD[OF inv, of "envKey k"] kv_invD[OF inv, of "envValue k"] by auto
    then show ?thesis by auto
  qed
  have "distinct (map fst (kv_form st))" using inv by (simp add: kv_inv_def)
  from kv_object_iff[OF this] shown show ?thesis by fast
qed

text \<open>The map a widget is given is the map its rows hand over, until one is edited.\<close>

lemma kv_form_seeded:
  assumes "distinct (map fst m)" and "\<forall>l \<in> fst ` set m. envKey (now @ l) \<notin> fst ` set (kv_form st) \<and> envValue (now @ l) \<notin> fst ` set (kv_form st)"
  shows "kv_form (foldl (kv_seed props now) st m) =
    kv_form st @ concat (map (\<lambda>(l, v). [(envKey (now @ l), Some (JStr l)), (envValue (now @ l), Some v)]) m)"
  using assms
proof (induction m arbitrary: st)
  case (Cons lv m)
  obtain l v where lv: "lv = (l, v)" by (cases lv)
  then have f: "kv_form (kv_seed props now st lv) = kv_form st @ [(envKey (now @ l), Some (JStr l)), (envValue (now @ l), Some v)]"
    using Cons.prems(2) by (simp add: kv_seed_def Let_def alist_update_fresh)
  have "kv_form (foldl (kv_seed props now) (kv_seed props now st lv) m) = kv_form (kv_seed props now st lv) @
      concat (map (\<lambda>(l, v). [(envKey (now @ l), Some (JStr l)), (envValue (now @ l), Some v)]) m)"
  proof (rule Cons.IH)
    show "distinct (map fst m)" using Cons.prems by simp
    have "l \<notin> fst ` set m" using Cons.prems(1) lv by simp
    then show "\<forall>l \<in> fst ` set m. envKey (now @ l) \<notin> fst ` set (kv_form (kv_seed props now st lv)) \<and>
        envValue (now @ l) \<notin> fst ` set (kv_form (kv_seed props now st lv))"
      using Cons.prems(2) unfolding f by (auto simp: lv)
  qed
  then show ?case unfolding f by (simp add: lv)
qed simp

lemma submit_seeded:
  assumes "distinct (map fst m)" and "(\<lambda>l. now @ l) ` fst ` set m \<inter> fst ` set rows = {}"
  shows "foldl submit_entry rows (concat (map (\<lambda>(l, v). [(envKey (now @ l), Some (JStr l)), (envValue (now @ l), Some v)]) m)) =
    rows @ map (\<lambda>(l, v). (now @ l, (l, Some v))) m"
  using assms
proof (induction m arbitrary: rows)
  case (Cons lv m)
  obtain l v where lv: "lv = (l, v)" by (cases lv)
  have n: "now @ l \<notin> fst ` set rows" using Cons.prems(2) by (auto simp: lv)
  then have "map_of (rows @ [(now @ l, (l, None))]) (now @ l) = Some (l, None)"
    by (simp add: map_add_def map_of_eq_None_iff[THEN iffD2])
  then have "submit_entry (submit_entry rows (envKey (now @ l), Some (JStr l))) (envValue (now @ l), Some v) = rows @ [(now @ l, (l, Some v))]"
    using n map_of_eq_None_iff[of rows "now @ l"] by (simp add: submit_entry_env member_name_def alist_update_fresh update_last)
  moreover have "(\<lambda>l. now @ l) ` fst ` set m \<inter> fst ` set (rows @ [(now @ l, (l, Some v))]) = {}" using Cons.prems by (auto simp: lv)
  ultimately show ?case using Cons.IH[of "rows @ [(now @ l, (l, Some v))]"] Cons.prems(1) by (simp add: lv)
qed simp

text \<open>The rows of a map, as they are first shown, hand over that same map.\<close>

theorem kv_roundtrip:
  assumes "distinct (map fst m)" and "kp_value props = Some m"
  shows "kv_object (kv_form (kv_setValues props now kv_new)) = map (\<lambda>(l, v). (l, Some v)) m"
proof -
  let ?rows = "map (\<lambda>(l, v). (l, Some v)) m"
  have "foldl submit_entry [] (kv_form (kv_setValues props now kv_new)) = map (\<lambda>(l, v). (now @ l, (l, Some v))) m"
    using kv_form_seeded[OF assms(1), of now kv_new props] submit_seeded[OF assms(1), of now "[]"] assms(2)
    by (simp add: kv_setValues_def kv_new_def)
  then have "kv_object (kv_form (kv_setValues props now kv_new)) = js_map_of ?rows" by (simp add: kv_object_def comp_def case_prod_beta')
  also have "\<dots> = ?rows" using foldl_update_append[of fst ?rows "[]" snd] assms(1)
    by (simp add: js_map_of_def comp_def case_prod_beta')
  finally show ?thesis .
qed

definition label_props :: kv_props where
  "label_props = \<lparr>kp_value = Some [(''app'', JStr ''web''), (''tier'', JInt 2)], kp_additional = False, kp_additionalType = None, kp_keyOptions = None\<rparr>"

theorem kv_roundtrip_witness:
  "kv_object (kv_form (kv_setValues label_props ''17'' kv_new)) = [(''app'', Some (JStr ''web'')), (''tier'', Some (JInt 2))]"
proof -
  have "distinct (map fst [(''app'', JStr ''web''), (''tier'', JInt 2)])" by simp
  from kv_roundtrip[OF this, of label_props "''17''"] show ?thesis by (simp add: label_props_def)
qed

definition relabelled :: kv_state where
  "relabelled = kv_remove ''17tier'' (kv_onChange label_props (envKey ''17app'') (Some (JStr ''name'')) (kv_setValues label_props ''17'' kv_new))"

theorem kv_object_rows_witness:
  "map_of (kv_object (kv_form relabelled)) ''name'' = Some (Some (JStr ''web'')) \<and>
   (\<exists>it. it \<in> set (kv_items relabelled) \<and> kv_row (kv_form relabelled) (ki_key it) = Some (''name'', Some (JStr ''web'')))"
proof -
  let ?s = "kv_setValues label_props ''17'' kv_new"
  let ?s1 = "kv_onChange label_props (envKey ''17app'') (Some (JStr ''name'')) ?s"
  have "ki_key (hd (kv_items ?s)) = ''17app''" "hd (kv_items ?s) \<in> set (kv_items ?s)" by code_simp+
  then have "kv_step label_props ?s ?s1" by (metis insertI1 kv_step.type)
  then have "(kv_step label_props)\<^sup>*\<^sup>* ?s relabelled" unfolding relabelled_def
    by (rule converse_rtranclp_into_rtranclp) (blast intro: kv_step.remove)
  moreover have "map_of (kv_object (kv_form relabelled)) ''name'' = Some (Some (JStr ''web''))" by code_simp
  ultimately show ?thesis using kv_object_rows[of label_props "''17''" relabelled "''name''" "Some (JStr ''web'')"] by blast
qed

section \<open>Editing the items of a list\<close>

text \<open>The contract: editing a list by position. What is set and taken out is told, the whole list after it;
  an item that is added is not told by itself.\<close>

datatype 'a list_edit = SetItem nat "'a option" | GrowList | TakeOut nat

fun edit_list :: "'a option list \<Rightarrow> 'a list_edit \<Rightarrow> 'a option list" where
  "edit_list xs (SetItem i v) = xs[i := v]"
| "edit_list xs GrowList = xs @ [None]"
| "edit_list xs (TakeOut i) = take i xs @ drop (Suc i) xs"

fun edits_told :: "'a option list \<Rightarrow> 'a list_edit list \<Rightarrow> 'a option list list" where
  "edits_told xs [] = []"
| "edits_told xs (e # es) = (if e = GrowList then [] else [edit_list xs e]) @ edits_told (edit_list xs e) es"

lemma edits_told_snoc:
  "edits_told xs (es @ [e]) = edits_told xs es @ (if e = GrowList then [] else [edit_list (foldl edit_list xs es) e])"
  by (induction es arbitrary: xs) auto

abbreviation strings_items :: "strings_state \<Rightarrow> json option list" where
  "strings_items st \<equiv> map snd (si_inputList st)"

text \<open>What is done to the widget, and the edits that stand for it: typing in the input of the item at a
  position, adding an item, whose key is that of its moment and of no other, and taking one out.\<close>

inductive strings_run :: "strings_state \<Rightarrow> json list_edit list \<Rightarrow> strings_state \<Rightarrow> bool" for st0 where
  untouched: "strings_run st0 [] st0"
| type: "strings_run st0 es st \<Longrightarrow> i < length (si_inputList st) \<Longrightarrow>
    strings_run st0 (es @ [SetItem i v]) (strings_type (fst (si_inputList st ! i)) v st)"
| add: "strings_run st0 es st \<Longrightarrow> now \<notin> fst ` set (si_inputList st) \<Longrightarrow> strings_run st0 (es @ [GrowList]) (strings_add now st)"
| remove: "strings_run st0 es st \<Longrightarrow> i < length (si_inputList st) \<Longrightarrow>
    strings_run st0 (es @ [TakeOut i]) (strings_remove (fst (si_inputList st ! i)) st)"

definition strings_inv :: "strings_state \<Rightarrow> bool" where
  "strings_inv st \<longleftrightarrow> distinct (map fst (si_inputList st)) \<and> distinct (map fst (si_field st)) \<and>
     (\<forall>k v. map_of (si_field st) k = Some v \<longrightarrow> map_of (si_inputList st) k = Some v)"

lemma take_values:
  "foldl take_value items es = map (\<lambda>it. (fst it, case map_of (rev es) (fst it) of None \<Rightarrow> snd it | Some v \<Rightarrow> v)) items"
proof (induction es rule: rev_induct)
  case (snoc e es)
  then show ?case by (cases e) (auto simp: take_value_def)
qed simp

lemma strings_agree:
  assumes "strings_inv st" and "it \<in> set (si_inputList st)" and "map_of (si_field st) (fst it) = Some v"
  shows "v = snd it"
proof -
  have "map_of (si_inputList st) (fst it) = Some v" using assms(1,3) unfolding strings_inv_def by blast
  moreover have "map_of (si_inputList st) (fst it) = Some (snd it)" using assms(1,2) unfolding strings_inv_def by (cases it) simp
  ultimately show ?thesis by simp
qed

lemma map_of_without: "map_of (filter (\<lambda>it. fst it \<noteq> k) m) x = (if x = k then None else map_of m x)"
  by (induction m) auto

lemma take_same:
  assumes "strings_inv st"
  shows "foldl take_value (si_inputList st) (si_field st) = si_inputList st"
proof -
  have "map_of (rev (si_field st)) (fst it) = Some v \<Longrightarrow> v = snd it" if "it \<in> set (si_inputList st)" for it v
    using strings_agree[OF assms that] assms by (simp add: strings_inv_def map_of_distinct_rev)
  then show ?thesis unfolding take_values by (intro map_idI) (auto split: option.split)
qed

lemma take_typed:
  assumes "strings_inv st" and "i < length (si_inputList st)"
  shows "foldl take_value (si_inputList st) (AList.update (fst (si_inputList st ! i)) v (si_field st)) =
    (si_inputList st)[i := (fst (si_inputList st ! i), v)]"
proof (rule nth_equalityI)
  let ?l = "si_inputList st" and ?k = "fst (si_inputList st ! i)"
  fix j assume "j < length (foldl take_value ?l (AList.update ?k v (si_field st)))"
  then have j: "j < length ?l" by (simp add: take_values)
  have d: "distinct (map fst (AList.update ?k v (si_field st)))" using assms(1) by (simp add: strings_inv_def distinct_update)
  have "fst (?l ! j) = ?k \<longleftrightarrow> j = i"
    using assms j nth_eq_iff_index_eq[of "map fst ?l" j i] by (simp add: strings_inv_def)
  moreover have "map_of (si_field st) (fst (?l ! j)) = Some w \<Longrightarrow> w = snd (?l ! j)" for w
    using strings_agree[OF assms(1) nth_mem[OF j]] .
  ultimately show "foldl take_value ?l (AList.update ?k v (si_field st)) ! j = ?l[i := (?k, v)] ! j"
    using j by (auto simp: take_values map_of_distinct_rev[OF d] update_conv' nth_list_update split: option.split)
qed (simp add: take_values)

lemma strings_type_step:
  assumes "strings_inv st" and "i < length (si_inputList st)" and "key = fst (si_inputList st ! i)"
  shows "si_inputList (strings_type key v st) = (si_inputList st)[i := (key, v)]" and "strings_inv (strings_type key v st)"
proof -
  let ?l = "(si_inputList st)[i := (key, v)]"
  show l: "si_inputList (strings_type key v st) = ?l"
    using take_typed[OF assms(1,2)] assms(3) by (simp add: strings_type_def strings_changeValues_def Let_def)
  have k: "map fst ?l = map fst (si_inputList st)" using assms(2,3) by (simp add: map_update list_update_same_conv)
  then have d: "distinct (map fst ?l)" using assms(1) by (simp add: strings_inv_def)
  have f: "si_field (strings_type key v st) = AList.update key v (si_field st)" by (simp add: strings_type_def strings_changeValues_def Let_def)
  have "map_of ?l x = (if x = key then Some v else map_of (si_inputList st) x)" for x
  proof (cases "x = key")
    case True
    have "(key, v) \<in> set ?l" using assms(2) by (simp add: set_update_memI)
    then show ?thesis using d True by simp
  next
    case False
    have "(x, w) \<in> set ?l \<longleftrightarrow> (x, w) \<in> set (si_inputList st)" for w
    proof
      assume "(x, w) \<in> set ?l"
      then show "(x, w) \<in> set (si_inputList st)" using False set_update_subset_insert[of "si_inputList st" i "(key, v)"] by auto
    next
      assume "(x, w) \<in> set (si_inputList st)"
      then obtain j where "j < length (si_inputList st)" "si_inputList st ! j = (x, w)" by (auto simp: in_set_conv_nth)
      moreover from this have "j \<noteq> i" using assms(3) False by auto
      ultimately show "(x, w) \<in> set ?l" by (auto simp: in_set_conv_nth intro!: exI[of _ j])
    qed
    then have "map_of ?l x = Some w \<longleftrightarrow> map_of (si_inputList st) x = Some w" for w
      using d assms(1) by (simp add: strings_inv_def)
    then show ?thesis using False by (cases "map_of (si_inputList st) x") (auto simp: option.expand)
  qed
  then show "strings_inv (strings_type key v st)" using assms(1) d unfolding strings_inv_def l f by (simp add: distinct_update update_conv')
qed

lemma strings_remove_step:
  assumes "strings_inv st" and "i < length (si_inputList st)" and "key = fst (si_inputList st ! i)"
  shows "si_inputList (strings_remove key st) = take i (si_inputList st) @ drop (Suc i) (si_inputList st)" and "strings_inv (strings_remove key st)"
proof -
  let ?l = "si_inputList st" and ?r = "filter (\<lambda>it. fst it \<noteq> key) (si_inputList st)"
  have s: "splice_each (\<lambda>it. fst it = key) ?l = ?r" using splice_each_filter[of fst ?l key] assms(1) by (simp add: strings_inv_def)
  let ?st = "st\<lparr>si_inputList := ?r, si_field := AList.delete key (si_field st)\<rparr>"
  have k: "key \<in> fst ` set ?l" using assms(2,3) by (auto simp: image_iff)
  then have c: "strings_remove key st = strings_changeValues ?st" using s by (simp add: strings_remove_def)
  have inv: "strings_inv ?st" using assms(1) unfolding strings_inv_def
    by (simp add: distinct_map_filter distinct_delete delete_conv' map_of_without del: map_of_eq_Some_iff)
  then have l: "si_inputList (strings_remove key st) = ?r" using take_same[OF inv] by (simp add: c strings_changeValues_def Let_def)
  have "?l = take i ?l @ ?l ! i # drop (Suc i) ?l" using assms(2) by (rule id_take_nth_drop)
  then obtain us it vs where u: "?l = us @ it # vs" "us = take i ?l" "vs = drop (Suc i) ?l" "fst it = key" using assms(3) by auto
  then have "distinct (map fst (us @ it # vs))" using assms(1) by (metis strings_inv_def)
  then have "key \<notin> fst ` set us" "key \<notin> fst ` set vs" using u(4) by auto
  then have "splice_each (\<lambda>it. fst it = key) (us @ it # vs) = us @ vs" using u(4) by (intro splice_each_first) (auto simp: image_iff)
  then have "?r = us @ vs" using s u(1) by simp
  then show "si_inputList (strings_remove key st) = take i ?l @ drop (Suc i) ?l" using l u by metis
  show "strings_inv (strings_remove key st)" using inv take_same[OF inv] by (simp add: c strings_changeValues_def Let_def strings_inv_def)
qed

lemma strings_add_inv:
  assumes "strings_inv st" and "now \<notin> fst ` set (si_inputList st)" shows "strings_inv (strings_add now st)"
proof -
  have "map_of (si_inputList st) now = None" using assms(2) by (simp add: map_of_eq_None_iff)
  then show ?thesis using assms unfolding strings_inv_def strings_add_def
    by (auto simp: map_add_Some_iff simp del: map_of_eq_Some_iff)
qed

lemma strings_heard:
  "si_heard (strings_type key v st) = si_heard st @ [strings_items (strings_type key v st)]"
  "si_heard (strings_remove key st) = si_heard st @ [strings_items (strings_remove key st)]"
  by (simp_all add: strings_type_def strings_remove_def strings_changeValues_def Let_def)

lemma strings_run_edits:
  assumes "strings_run st0 es st" and "strings_inv st0"
  shows "strings_inv st \<and> strings_items st = foldl edit_list (strings_items st0) es \<and>
    si_heard st = si_heard st0 @ edits_told (strings_items st0) es"
  using assms
proof (induction rule: strings_run.induct)
  case (type es st i v)
  note s = strings_type_step[OF _ type(2) refl, of v]
  show ?case using s type by (simp add: strings_heard edits_told_snoc map_update)
next
  case (add es st now)
  then show ?case using strings_add_inv[of st now] by (simp add: strings_add_def edits_told_snoc)
next
  case (remove es st i)
  note s = strings_remove_step[OF _ remove(2) refl]
  show ?case using s remove by (simp add: strings_heard edits_told_snoc take_map[symmetric] drop_map[symmetric])
qed simp

lemma strings_new_inv: "strings_inv (strings_new now value)"
  by (auto simp: strings_inv_def strings_new_def comp_def distinct_map inj_on_def nat_str_inj split: option.splits json.splits)

text \<open>C26: the widget of a list refines the editing of a list by position: after whatever is typed, added and
  removed, in any order and where the key of an item added is one no other item has, the items shown are
  exactly the list given with those edits made, and the lists handed over are exactly those after each
  item typed and each removed, in their order.\<close>

theorem strings_refines:
  assumes "strings_run (strings_new now (Some (JArr vs))) es st"
  shows "strings_items st = foldl edit_list (map Some vs) es \<and> si_heard st = edits_told (map Some vs) es"
proof -
  have "strings_items (strings_new now (Some (JArr vs))) = map Some vs" by (rule nth_equalityI) (simp_all add: strings_new_def)
  then show ?thesis using strings_run_edits[OF assms strings_new_inv] by (simp add: strings_new_def)
qed

definition typed_list :: strings_state where
  "typed_list = strings_type ''18'' (Some (JStr ''c'')) (strings_add ''18'' (strings_remove ''170'' (strings_new ''17'' (Some (JArr [JStr ''a'', JStr ''b''])))))"

theorem strings_refines_witness:
  "strings_items typed_list = [Some (JStr ''b''), Some (JStr ''c'')] \<and>
   si_heard typed_list = [[Some (JStr ''b'')], [Some (JStr ''b''), Some (JStr ''c'')]]"
proof -
  define s where "s = strings_new ''17'' (Some (JArr [JStr ''a'', JStr ''b'']))"
  define r where "r = strings_remove ''170'' s"
  define a where "a = strings_add ''18'' r"
  have k: "0 < length (si_inputList s)" "fst (si_inputList s ! 0) = ''170''" "''18'' \<notin> fst ` set (si_inputList r)"
    "1 < length (si_inputList a)" "fst (si_inputList a ! 1) = ''18''" unfolding a_def r_def s_def by code_simp+
  have "strings_run s [TakeOut 0] r" using strings_run.remove[OF strings_run.untouched k(1)] k(2) by (simp add: r_def)
  then have "strings_run s [TakeOut 0, GrowList] a" using strings_run.add[OF _ k(3)] by (fastforce simp: a_def)
  then have "strings_run s [TakeOut 0, GrowList, SetItem 1 (Some (JStr ''c''))] typed_list"
    using strings_run.type[OF _ k(4), of s "[TakeOut 0, GrowList]" "Some (JStr ''c'')"] k(5)
    by (simp add: typed_list_def a_def r_def s_def)
  from strings_refines[OF this[unfolded s_def]] show ?thesis by simp
qed

section \<open>Keys two rows share\<close>

text \<open>The keys the rows of a list have, printed, in their order.\<close>

definition row_keys :: "string \<Rightarrow> fields \<Rightarrow> string list" where
  "row_keys rowKey f =
     map (js_String \<circ> the) (filter (\<lambda>v. v \<noteq> None \<and> v \<noteq> Some (JStr [])) (map (\<lambda>e. row_member (snd e) rowKey) f))"

lemma row_keys_simps:
  "row_keys rowKey [] = []"
  "row_keys rowKey (e # f) = (let v = row_member (snd e) rowKey
     in if v = None \<or> v = Some (JStr []) then row_keys rowKey f else js_String (the v) # row_keys rowKey f)"
  by (simp_all add: row_keys_def Let_def)

lemma see_keys:
  "set (fst (foldl (see_key rowKey) acc f)) = set (fst acc) \<union> set (row_keys rowKey f) \<and>
   set (snd (foldl (see_key rowKey) acc f)) =
     set (snd acc) \<union> {x. (x \<in> set (fst acc) \<and> x \<in> set (row_keys rowKey f)) \<or> count_list (row_keys rowKey f) x \<ge> 2} \<and>
   (distinct (snd acc) \<longrightarrow> distinct (snd (foldl (see_key rowKey) acc f)))"
proof (induction f arbitrary: acc)
  case (Cons e f)
  obtain seen dups where acc: "acc = (seen, dups)" by (cases acc)
  define v where "v = row_member (snd e) rowKey"
  show ?case
  proof (cases "v = None \<or> v = Some (JStr [])")
    case True
    then have "see_key rowKey acc e = acc" "row_keys rowKey (e # f) = row_keys rowKey f"
      by (auto simp: see_key_def row_keys_simps Let_def v_def)
    then show ?thesis using Cons by simp
  next
    case False
    let ?x = "js_String (the v)"
    have s: "see_key rowKey acc e = (set_add seen ?x, if ?x \<in> set seen then set_add dups ?x else dups)"
      and k: "row_keys rowKey (e # f) = ?x # row_keys rowKey f"
      using False by (auto simp: see_key_def row_keys_simps Let_def v_def acc)
    have "{y. (y \<in> set (set_add seen ?x) \<and> y \<in> set (row_keys rowKey f)) \<or> count_list (row_keys rowKey f) y \<ge> 2} \<union> (if ?x \<in> set seen then {?x} else {}) =
        {y. (y \<in> set seen \<and> y \<in> set (row_keys rowKey (e # f))) \<or> count_list (row_keys rowKey (e # f)) y \<ge> 2}"
      unfolding k using count_list_0_iff[of "row_keys rowKey f" ?x] by (auto simp: not_le)
    moreover have "set (snd (see_key rowKey acc e)) = set dups \<union> (if ?x \<in> set seen then {?x} else {})" by (simp add: s)
    moreover have "fst (see_key rowKey acc e) = set_add seen ?x" "distinct dups \<Longrightarrow> distinct (snd (see_key rowKey acc e))" by (simp_all add: s)
    ultimately show ?thesis using Cons[of "see_key rowKey acc e"] unfolding foldl.simps acc fst_conv snd_conv
      by (simp add: k Un_assoc Un_commute Un_left_commute del: count_list.simps)
  qed
qed (simp add: row_keys_simps)

lemma distinct_count_list: "distinct xs \<longleftrightarrow> (\<forall>x. \<not> 2 \<le> count_list xs x)"
  unfolding not_le
proof (induction xs)
  case (Cons a xs)
  have "(\<forall>x. count_list (a # xs) x < 2) \<longleftrightarrow> count_list xs a = 0 \<and> (\<forall>x. count_list xs x < 2)" (is "?l \<longleftrightarrow> ?r")
  proof
    assume l: ?l
    from l[rule_format, of a] have "count_list xs a = 0" by simp
    moreover have "count_list xs x < 2" for x using l[rule_format, of x] by (cases "x = a") auto
    ultimately show ?r by blast
  qed auto
  then show ?case using Cons by (simp only: distinct.simps count_list_0_iff)
qed simp

text \<open>The keys reported as shared are exactly those that two rows or more have, each once; so no
  key is reported exactly when the keys of the rows are distinct.\<close>

theorem duplicateKeys_exact:
  "k \<noteq> [] \<Longrightarrow> set (duplicateKeys (Some k) f) = {x. count_list (row_keys k f) x \<ge> 2} \<and> distinct (duplicateKeys (Some k) f) \<and>
    (duplicateKeys (Some k) f = [] \<longleftrightarrow> distinct (row_keys k f))"
proof -
  assume "k \<noteq> []"
  then have s: "set (duplicateKeys (Some k) f) = {x. count_list (row_keys k f) x \<ge> 2}" and d: "distinct (duplicateKeys (Some k) f)"
    using see_keys[of k "([], [])" f] by (simp_all add: duplicateKeys_def truthy_iff)
  have "distinct (row_keys k f) \<longleftrightarrow> {x. count_list (row_keys k f) x \<ge> 2} = {}"
    unfolding distinct_count_list by blast
  then show ?thesis using s d by auto
qed

definition two_ports :: fields where
  "two_ports = [(''struct1'', Some (JObj [(''__key'', JStr ''http'')])), (''struct2'', None), (''struct3'', Some (JObj [(''__key'', JStr ''http''), (''port'', JInt 80)]))]"

theorem duplicateKeys_exact_witness: "set (duplicateKeys (Some keyField) two_ports) = {''http''} \<and> distinct (duplicateKeys (Some keyField) two_ports)"
proof -
  have "keyField \<noteq> []" by (simp add: keyField_def)
  moreover have "row_keys keyField two_ports = [''http'', ''http'']" by code_simp
  ultimately show ?thesis using duplicateKeys_exact[of keyField two_ports] by (auto split: if_splits)
qed

text \<open>A row of the map, when it has a key.\<close>

definition keyed_row :: "json option \<Rightarrow> (string \<times> json) option" where
  "keyed_row row =
     (case row of
        Some (JObj kvs) \<Rightarrow>
          if falsy (map_of kvs keyField) then None
          else Some (js_String (the (map_of kvs keyField)), JObj (AList.delete keyField kvs))
      | _ \<Rightarrow> None)"

lemma toMap_keyed: "toMap (Some rows) = js_map_of (List.map_filter keyed_row rows)"
proof -
  have "add_row out row = (case keyed_row row of None \<Rightarrow> out | Some (k, v) \<Rightarrow> AList.update k v out)" for out row
    by (simp add: add_row_def keyed_row_def split: option.split json.split)
  then have "foldl add_row out rows = foldl (\<lambda>m kv. AList.update (fst kv) (snd kv) m) out (List.map_filter keyed_row rows)" for out
    by (induction rows arbitrary: out) (auto simp: map_filter_simps split: option.split)
  then show ?thesis by (simp add: toMap_def js_map_of_def)
qed

lemma keyed_row_key:
  assumes "keyed_row v = Some (k, x)"
  shows "\<exists>w. row_member v keyField = Some w \<and> w \<noteq> JStr [] \<and> js_String w = k"
proof -
  obtain kvs where v: "v = Some (JObj kvs)" and f: "\<not> falsy (map_of kvs keyField)" and k: "k = js_String (the (map_of kvs keyField))"
    using assms by (auto simp: keyed_row_def split: option.splits json.splits if_splits)
  from f obtain w where "map_of kvs keyField = Some w" "w \<noteq> JStr []" by (auto simp: falsy_def split: option.splits)
  then show ?thesis using v k by (simp add: row_member_def nullish_def json_member_def)
qed

lemma keyed_rows_keys: "subseq (map fst (List.map_filter keyed_row (structs_values f))) (row_keys keyField f)"
proof (induction f)
  case (Cons e f)
  show ?case
  proof (cases "keyed_row (snd e)")
    case None
    then show ?thesis using Cons by (auto simp: structs_values_def map_filter_simps row_keys_simps Let_def intro: list_emb_Cons)
  next
    case (Some kx)
    obtain w where w: "row_member (snd e) keyField = Some w" "w \<noteq> JStr []" "js_String w = fst kx"
      using keyed_row_key[of "snd e" "fst kx" "snd kx"] Some by auto
    then show ?thesis using Cons Some by (simp add: structs_values_def map_filter_simps row_keys_simps)
  qed
qed (simp add: structs_values_def map_filter_simps)

text \<open>While no key is reported as shared, the map handed over has every row with a key, under its
  key and with its other members: no row overwrites another.\<close>

theorem struct_map_keeps_rows:
  assumes "duplicateKeys (Some keyField) f = []" and "(name, row) \<in> set f" and "keyed_row row = Some (k, v)"
  shows "map_of (toMap (Some (structs_values f))) k = Some v"
proof -
  let ?rows = "List.map_filter keyed_row (structs_values f)"
  have "distinct (row_keys keyField f)"
    using assms(1) see_keys[of keyField "([], [])" f] unfolding distinct_count_list
    by (simp add: duplicateKeys_def keyField_def)
  then have d: "distinct (map fst ?rows)" using keyed_rows_keys[of f] by (metis subseq_conv_nths distinct_nthsI)
  have "row \<in> set (structs_values f)" using assms(2) by (force simp: structs_values_def)
  then have "(k, v) \<in> set ?rows" using assms(3) by (force simp: List.map_filter_def)
  then show ?thesis using d by (simp add: toMap_keyed map_of_js_map_of map_of_distinct_rev)
qed

definition port_rows :: fields where
  "port_rows = [(''struct1'', Some (JObj [(''__key'', JStr ''http''), (''port'', JInt 80)])), (''struct2'', Some (JObj [(''__key'', JStr ''admin'')]))]"

theorem struct_map_keeps_rows_witness:
  "map_of (toMap (Some (structs_values port_rows))) ''http'' = Some (JObj [(''port'', JInt 80)])"
proof (rule struct_map_keeps_rows)
  show "duplicateKeys (Some keyField) port_rows = []" by code_simp
  show "(''struct1'', Some (JObj [(''__key'', JStr ''http''), (''port'', JInt 80)])) \<in> set port_rows" by (simp add: port_rows_def)
  show "keyed_row (Some (JObj [(''__key'', JStr ''http''), (''port'', JInt 80)])) = Some (''http'', JObj [(''port'', JInt 80)])" by code_simp
qed

end
