(* ===== verification/Field_Choices.thy ===== *)
theory Field_Choices
  imports Field_Widgets Step_Dependencies
begin

text \<open>
  The widgets that offer choices (\<open>extends/\<close>): the steps a step may wait on, the objects of the
  platform, the charts and versions of a repository, the repositories, secrets and images, and
  the patches of components. What the backend answers arrives when it likes: a request in
  flight is an entry of a list, and an answer or a failure takes it out.
\<close>

record choice =
  ch_label :: string
  ch_value :: string

section \<open>Steps to wait on\<close>

definition step_alias :: "'a step_base_scheme \<Rightarrow> string option" where
  "step_alias s = (case map_of (st_rest s) ''alias'' of Some (JStr a) \<Rightarrow> Some a | _ \<Rightarrow> None)"

definition step_label :: "'a step_base_scheme \<Rightarrow> string" where
  "step_label s = showAlias (st_name s) (step_alias s)"

text \<open>The group that holds the step: the last one that has a sub-step of its name.\<close>

definition groupStep :: "string \<Rightarrow> wf_step list \<Rightarrow> wf_step option" where
  "groupStep stepName steps =
     (case filter (\<lambda>s. list_ex (\<lambda>b. st_name b = stepName) (or_nil (st_subSteps s))) steps of [] \<Rightarrow> None | gs \<Rightarrow> Some (last gs))"

definition stepOptions :: "string \<Rightarrow> wf_step list option \<Rightarrow> string option \<Rightarrow> choice list" where
  "stepOptions stepName steps mode =
     (case groupStep stepName (or_nil steps) of
        Some g \<Rightarrow> map (\<lambda>b. \<lparr>ch_label = step_label b, ch_value = st_name b\<rparr>) (filter (\<lambda>b. st_name b \<noteq> stepName) (or_nil (st_subSteps g)))
      | None \<Rightarrow> concat (map (\<lambda>s. \<lparr>ch_label = step_label s, ch_value = st_name s\<rparr> #
            (if mode = Some ''DAG''
             then map (\<lambda>b. \<lparr>ch_label = step_label s @ ''/'' @ step_label b, ch_value = st_name b\<rparr>) (or_nil (st_subSteps s))
             else []))
          (filter (\<lambda>s. st_name s \<noteq> stepName) (or_nil steps))))"

section \<open>Objects of the platform\<close>

definition optionsSources :: "string list" where
  "optionsSources = [''configs:'', ''clusters'', ''envs'']"

definition isOptionsSource :: "string option \<Rightarrow> bool" where
  "isOptionsSource source \<longleftrightarrow>
     truthy source \<and> list_ex (\<lambda>s. if ends_in s '':'' then starts_with (the source) s else the source = s) optionsSources"

datatype options_request = ReqConfigs string | ReqClusters | ReqEnvs

record named =
  na_name :: string
  na_alias :: "string option"

record options_state =
  os_options :: "choice list"
  os_loading :: bool

text \<open>\<open>load\<close>: what is asked for, and the options after the answer, \<open>None\<close> when there is none or the
  request fails.\<close>

definition options_request :: "string \<Rightarrow> options_request option" where
  "options_request source =
     (if starts_with source ''configs:'' then Some (ReqConfigs (drop 8 source))
      else if source = ''clusters'' then Some ReqClusters
      else if source = ''envs'' then Some ReqEnvs else None)"

definition options_answered :: "named list option \<Rightarrow> options_state \<Rightarrow> options_state" where
  "options_answered items st =
     st\<lparr>os_options := map (\<lambda>i. \<lparr>ch_label = or_str (na_alias i) (na_name i), ch_value = na_name i\<rparr>) (or_nil items), os_loading := False\<rparr>"

section \<open>Components, policies, secrets\<close>

record app_component =
  ac_name :: string
  ac_alias :: "string option"
  ac_type :: string
  ac_traits :: "string list option"

definition componentOptions :: "app_component list option \<Rightarrow> choice list" where
  "componentOptions components =
     map (\<lambda>c. \<lparr>ch_label = ac_name c @ ''('' @ or_str (ac_alias c) ''-'' @ '')'', ch_value = ac_name c\<rparr>) (or_nil components)"

definition policyOptions :: "(string \<times> string) list option \<Rightarrow> choice list" where
  "policyOptions policies = map (\<lambda>(name, type). \<lparr>ch_label = name @ ''('' @ type @ '')'', ch_value = name\<rparr>) (or_nil policies)"

record cloud_secret =
  cl_alias :: "string option"
  cl_data :: "(string, string) js_map option"

definition getSecretKeys :: "cloud_secret list option \<Rightarrow> string option \<Rightarrow> string list" where
  "getSecretKeys secrets name =
     foldl (\<lambda>keys s. if cl_alias s = name \<and> cl_data s \<noteq> None then map fst (the (cl_data s)) else keys) [] (or_nil secrets)"

definition secretOptions :: "cloud_secret list option \<Rightarrow> choice list" where
  "secretOptions secrets =
     map (\<lambda>s. \<lparr>ch_label = the (cl_alias s), ch_value = the (cl_alias s)\<rparr>) (filter (\<lambda>s. truthy (cl_alias s)) (or_nil secrets))"

section \<open>Charts of a repository\<close>

record chart_ref =
  cr_url :: string
  cr_repoType :: string
  cr_chart :: string

record charts_state =
  hl_charts :: "string list option"
  hl_loading :: bool
  hl_inputChart :: string
  hl_helm :: "chart_ref option"
  hl_props :: "chart_ref option"
  hl_sent :: "chart_ref list"
  hl_heard :: "string list"

definition helm_url :: "chart_ref option \<Rightarrow> string option" where
  "helm_url h = map_option cr_url h"

definition new_charts :: "chart_ref option \<Rightarrow> charts_state" where
  "new_charts props =
     \<lparr>hl_charts = None, hl_loading = False, hl_inputChart = [], hl_helm = None, hl_props = props, hl_sent = [], hl_heard = []\<rparr>"

definition loadCharts :: "charts_state \<Rightarrow> charts_state" where
  "loadCharts st =
     (case hl_props st of
        None \<Rightarrow> st
      | Some h \<Rightarrow>
          if cr_url h \<noteq> [] \<and> (\<not> hl_loading st \<or> helm_url (hl_helm st) \<noteq> Some (cr_url h))
          then st\<lparr>hl_heard := (if hl_helm st = None then hl_heard st else hl_heard st @ [[]]),
                  hl_loading := True, hl_helm := Some h, hl_sent := hl_sent st @ [h]\<rparr>
          else st)"

definition render_charts :: "charts_state \<Rightarrow> charts_state" where
  "render_charts st = (if helm_url (hl_props st) \<noteq> helm_url (hl_helm st) then loadCharts st else st)"

text \<open>An answer, \<open>None\<close> where it is not a list: a request that fails is answered with nothing, as \<open>get\<close> of
  \<open>api/request.ts\<close> handles the error itself.\<close>

definition charts_answered :: "nat \<Rightarrow> string list option \<Rightarrow> charts_state \<Rightarrow> charts_state" where
  "charts_answered i re st =
     render_charts (st\<lparr>hl_charts := Some (or_nil re), hl_loading := False, hl_helm := Some (hl_sent st ! i),
                       hl_sent := take i (hl_sent st) @ drop (Suc i) (hl_sent st)\<rparr>)"

definition charts_props :: "chart_ref option \<Rightarrow> charts_state \<Rightarrow> charts_state" where
  "charts_props h st = render_charts (st\<lparr>hl_props := h\<rparr>)"

definition charts_search :: "string \<Rightarrow> charts_state \<Rightarrow> charts_state" where
  "charts_search s st = render_charts (st\<lparr>hl_inputChart := s\<rparr>)"

text \<open>Mounting draws the widget and then loads once more before the state of the first load is set, so a
  complete reference is asked for twice.\<close>

definition charts_mount :: "charts_state \<Rightarrow> charts_state" where
  "charts_mount st = (let a = render_charts st in a\<lparr>hl_sent := hl_sent a @ drop (length (hl_sent st)) (hl_sent (loadCharts st))\<rparr>)"

definition chartOptions :: "charts_state \<Rightarrow> choice list" where
  "chartOptions st =
     (let options = map (\<lambda>c. \<lparr>ch_label = c, ch_value = c\<rparr>) (or_nil (hl_charts st))
      in if hl_inputChart st \<noteq> [] then \<lparr>ch_label = hl_inputChart st, ch_value = hl_inputChart st\<rparr> # options else options)"

section \<open>Versions of a chart\<close>

record versions_state =
  hv_versions :: "string list option"
  hv_loading :: bool
  hv_inputVersion :: string
  hv_helm :: "chart_ref option"
  hv_props :: "chart_ref option"
  hv_sent :: "chart_ref list"
  hv_heard :: "string list"

definition new_versions :: "chart_ref option \<Rightarrow> versions_state" where
  "new_versions props =
     \<lparr>hv_versions = None, hv_loading = False, hv_inputVersion = [], hv_helm = None, hv_props = props, hv_sent = [], hv_heard = []\<rparr>"

definition helm_chart_of :: "chart_ref option \<Rightarrow> (string \<times> string) option" where
  "helm_chart_of h = map_option (\<lambda>h. (cr_url h, cr_chart h)) h"

definition loadChartVersions :: "versions_state \<Rightarrow> versions_state" where
  "loadChartVersions st =
     (case hv_props st of
        None \<Rightarrow> st
      | Some h \<Rightarrow>
          if cr_url h \<noteq> [] \<and> cr_chart h \<noteq> [] \<and> \<not> hv_loading st \<and> helm_chart_of (hv_helm st) \<noteq> helm_chart_of (Some h)
          then st\<lparr>hv_loading := True, hv_helm := Some h, hv_heard := (if hv_helm st = None then hv_heard st else hv_heard st @ [[]]),
                  hv_sent := hv_sent st @ [h]\<rparr>
          else st)"

definition render_versions :: "versions_state \<Rightarrow> versions_state" where
  "render_versions st = (if helm_chart_of (hv_props st) \<noteq> helm_chart_of (hv_helm st) then loadChartVersions st else st)"

definition versions_answered :: "nat \<Rightarrow> string list option option \<Rightarrow> versions_state \<Rightarrow> versions_state" where
  "versions_answered i re st =
     (let h = hv_sent st ! i; st = st\<lparr>hv_sent := take i (hv_sent st) @ drop (Suc i) (hv_sent st)\<rparr>
      in case re of
           None \<Rightarrow> st
         | Some versions \<Rightarrow> render_versions (st\<lparr>hv_versions := Some (or_nil versions), hv_loading := False, hv_helm := Some h\<rparr>))"

definition versions_failed :: "nat \<Rightarrow> versions_state \<Rightarrow> versions_state" where
  "versions_failed i st = st\<lparr>hv_sent := take i (hv_sent st) @ drop (Suc i) (hv_sent st)\<rparr>"

definition versions_props :: "chart_ref option \<Rightarrow> versions_state \<Rightarrow> versions_state" where
  "versions_props h st = render_versions (st\<lparr>hv_props := h\<rparr>)"

definition versions_search :: "string \<Rightarrow> versions_state \<Rightarrow> versions_state" where
  "versions_search s st = render_versions (st\<lparr>hv_inputVersion := s\<rparr>)"

definition versions_mount :: "versions_state \<Rightarrow> versions_state" where
  "versions_mount st = (let a = render_versions st in a\<lparr>hv_sent := hv_sent a @ drop (length (hv_sent st)) (hv_sent (loadChartVersions st))\<rparr>)"

definition versionOptions :: "versions_state \<Rightarrow> choice list" where
  "versionOptions st =
     (let options = map (\<lambda>v. \<lparr>ch_label = v, ch_value = v\<rparr>) (or_nil (hv_versions st))
      in if hv_inputVersion st \<noteq> [] then \<lparr>ch_label = hv_inputVersion st, ch_value = hv_inputVersion st\<rparr> # options else options)"

section \<open>Repositories\<close>

record helm_repo =
  hr_url :: string
  hr_type :: string
  hr_secretName :: "string option"

record repos_state =
  rs_repos :: "helm_repo list"
  rs_inputRepo :: string
  rs_loading :: bool
  rs_sent :: "string list"

definition defaultRepos :: "helm_repo list" where
  "defaultRepos = [\<lparr>hr_url = ''https://charts.bitnami.com/bitnami'', hr_type = ''helm'', hr_secretName = None\<rparr>]"

definition typed_repo :: "string \<Rightarrow> helm_repo" where
  "typed_repo url = \<lparr>hr_url = url, hr_type = ''helm'', hr_secretName = None\<rparr>"

text \<open>Drawing the options puts the typed address in front of the list of the state itself.\<close>

definition render_repos :: "repos_state \<Rightarrow> repos_state" where
  "render_repos st = (if rs_inputRepo st \<noteq> [] then st\<lparr>rs_repos := typed_repo (rs_inputRepo st) # rs_repos st\<rparr> else st)"

definition onLoadRepos :: "string \<Rightarrow> repos_state \<Rightarrow> repos_state" where
  "onLoadRepos repoType st =
     render_repos (st\<lparr>rs_loading := True, rs_repos := (if repoType = ''helm'' then defaultRepos else []), rs_sent := rs_sent st @ [repoType]\<rparr>)"

definition repos_didMount :: "string option \<Rightarrow> repos_state \<Rightarrow> repos_state" where
  "repos_didMount repoType st = (if \<not> truthy repoType \<or> repoType = Some ''helm'' then onLoadRepos (or_str repoType ''helm'') st else st)"

definition repos_willReceive :: "string option \<Rightarrow> string option \<Rightarrow> repos_state \<Rightarrow> repos_state" where
  "repos_willReceive old next st =
     (if next \<noteq> old \<and> (next = Some ''helm'' \<or> next = Some ''oci'') then onLoadRepos (the next) st else render_repos st)"

definition repos_of_type :: "string \<Rightarrow> helm_repo list \<Rightarrow> helm_repo list" where
  "repos_of_type repoType repos =
     filter (\<lambda>r. repoType = ''oci'' \<and> starts_with (hr_url r) ''oci://'' \<or> repoType = ''helm'' \<and> \<not> starts_with (hr_url r) ''oci://'') repos"

definition repos_answered :: "nat \<Rightarrow> helm_repo list option \<Rightarrow> repos_state \<Rightarrow> repos_state" where
  "repos_answered i res st =
     (let repoType = rs_sent st ! i;
          repos = repos_of_type repoType (or_nil res) @ (if repoType = ''helm'' then defaultRepos else [])
      in render_repos (st\<lparr>rs_repos := repos, rs_loading := False, rs_sent := take i (rs_sent st) @ drop (Suc i) (rs_sent st)\<rparr>))"

definition repos_search :: "string \<Rightarrow> repos_state \<Rightarrow> repos_state" where
  "repos_search s st = render_repos (st\<lparr>rs_inputRepo := s\<rparr>)"

definition findSecretName :: "helm_repo list \<Rightarrow> string \<Rightarrow> string" where
  "findSecretName repos v = (case find (\<lambda>r. hr_url r = v) repos of None \<Rightarrow> [] | Some r \<Rightarrow> or_str (hr_secretName r) [])"

text \<open>Choosing a repository: the repositories put in the store, in turn, the value and the secret.\<close>

definition repos_onChange :: "string \<Rightarrow> repos_state \<Rightarrow> helm_repo list \<times> string \<times> string" where
  "repos_onChange v st =
     (filter (\<lambda>r. hr_url r = v \<and> hr_secretName r \<noteq> Some []) (rs_repos st), v, findSecretName (rs_repos st) v)"

definition convertHelmRepositoryOptions :: "helm_repo list \<Rightarrow> choice list" where
  "convertHelmRepositoryOptions repos =
     map (\<lambda>r. \<lparr>ch_label = (if truthy (hr_secretName r) then ''('' @ the (hr_secretName r) @ '') '' @ hr_url r else hr_url r), ch_value = hr_url r\<rparr>) repos"

section \<open>Secrets of image registries\<close>

record image_registry =
  ir_secretName :: string
  ir_name :: string
  ir_domain :: "string option"

record registries_state =
  rg_registries :: "image_registry list option"
  rg_inputRepo :: string
  rg_loading :: bool

definition render_registries :: "registries_state \<Rightarrow> registries_state" where
  "render_registries st =
     (if rg_inputRepo st \<noteq> [] \<and> rg_registries st \<noteq> None
      then st\<lparr>rg_registries := Some (\<lparr>ir_secretName = rg_inputRepo st, ir_name = rg_inputRepo st, ir_domain = None\<rparr> # the (rg_registries st))\<rparr>
      else st)"

definition registries_load :: "string option \<Rightarrow> registries_state \<Rightarrow> registries_state" where
  "registries_load project st = (if truthy project then render_registries (st\<lparr>rg_loading := True\<rparr>) else st)"

text \<open>The answer, whose list may be missing, and the end of the request, answered or failed.\<close>

definition registries_answered :: "image_registry list option option \<Rightarrow> registries_state \<Rightarrow> registries_state" where
  "registries_answered res st =
     render_registries ((case res of None \<Rightarrow> st | Some rs \<Rightarrow> render_registries (st\<lparr>rg_registries := rs\<rparr>))\<lparr>rg_loading := False\<rparr>)"

definition convertImageRegistryOptions :: "image_registry list \<Rightarrow> choice list" where
  "convertImageRegistryOptions data =
     map (\<lambda>r. \<lparr>ch_label = (if truthy (ir_domain r) then ir_secretName r @ ''('' @ the (ir_domain r) @ '')'' else ir_secretName r), ch_value = ir_secretName r\<rparr>) data"

section \<open>Images\<close>

record image_info =
  ii_name :: string
  ii_secretNames :: "string list option"

record image_state =
  im_info :: "image_info option"
  im_name :: string
  im_loading :: bool
  im_value :: "string option"
  im_secrets :: "string list option"
  im_sent :: "string list"

text \<open>\<open>im_value\<close> and \<open>im_secrets\<close> are the values of the form, which \<open>onChange\<close> and \<open>onSecretChange\<close> set.\<close>

definition loadImageInfo :: "string option \<Rightarrow> image_state \<Rightarrow> image_state" where
  "loadImageInfo project st =
     (if truthy project \<and> im_name st \<noteq> []
      then st\<lparr>im_value := Some (im_name st), im_loading := True, im_sent := im_sent st @ [im_name st]\<rparr> else st)"

definition render_image :: "string option \<Rightarrow> image_state \<Rightarrow> image_state" where
  "render_image project st =
     (if im_name st = [] \<and> truthy (im_value st) then loadImageInfo project (st\<lparr>im_name := the (im_value st)\<rparr>) else st)"

definition image_typed :: "string option \<Rightarrow> string \<Rightarrow> image_state \<Rightarrow> image_state" where
  "image_typed project name st = render_image project (st\<lparr>im_name := name\<rparr>)"

definition image_blur :: "string option \<Rightarrow> image_state \<Rightarrow> image_state" where
  "image_blur project st = render_image project (loadImageInfo project st)"

definition image_answered :: "nat \<Rightarrow> image_info option \<Rightarrow> image_state \<Rightarrow> image_state" where
  "image_answered i res st =
     (let st = st\<lparr>im_sent := take i (im_sent st) @ drop (Suc i) (im_sent st), im_loading := False\<rparr>
      in case res of None \<Rightarrow> st | Some info \<Rightarrow> st\<lparr>im_info := Some info, im_secrets := ii_secretNames info\<rparr>)"

definition shown_secrets :: "bool \<Rightarrow> image_state \<Rightarrow> string list option \<times> bool" where
  "shown_secrets disabled st =
     (case im_info st of
        Some info \<Rightarrow> (case ii_secretNames info of Some s \<Rightarrow> (Some s, True) | None \<Rightarrow> (im_secrets st, disabled))
      | None \<Rightarrow> (im_secrets st, disabled))"

section \<open>Patches of components\<close>

record component_patch =
  pt_id :: "string option"
  pt_name :: "string option"
  pt_type :: "string option"
  pt_properties :: "json option"
  pt_traits :: "json list option"

record patches_state =
  pa_componentOptions :: "choice list"
  pa_componentTypeOptions :: "choice list"
  pa_patches :: "component_patch list"
  pa_components :: "app_component list"
  pa_field :: "(string, component_patch) js_map"
  pa_heard :: "component_patch list list"

definition without_id :: "component_patch \<Rightarrow> component_patch" where
  "without_id p = p\<lparr>pt_id := None\<rparr>"

text \<open>A patch drawn registers its value under its id, unless it has one.\<close>

definition render_patch :: "(string, component_patch) js_map \<Rightarrow> component_patch \<Rightarrow> (string, component_patch) js_map" where
  "render_patch f p = (if truthy (pt_id p) \<and> map_of f (the (pt_id p)) = None then f @ [(the (pt_id p), p)] else f)"

definition render_patches :: "patches_state \<Rightarrow> patches_state" where
  "render_patches st = st\<lparr>pa_field := foldl render_patch (pa_field st) (pa_patches st)\<rparr>"

text \<open>The ids are taken from the values of the form themselves.\<close>

definition patches_onChange :: "string \<Rightarrow> component_patch \<Rightarrow> patches_state \<Rightarrow> patches_state" where
  "patches_onChange key p st =
     (let f = map (\<lambda>(k, p). (k, without_id p)) (AList.update key p (pa_field st))
      in st\<lparr>pa_field := f, pa_heard := pa_heard st @ [map snd f]\<rparr>)"

definition patches_loadValue :: "(nat \<Rightarrow> string) \<Rightarrow> component_patch list option \<Rightarrow> patches_state \<Rightarrow> patches_state" where
  "patches_loadValue uuid value st =
     (case value of
        None \<Rightarrow> st
      | Some ps \<Rightarrow> render_patches (st\<lparr>pa_patches := map (\<lambda>i. (ps ! i)\<lparr>pt_id := Some (uuid i)\<rparr>) [0..<length ps]\<rparr>))"

definition patches_answered :: "(nat \<Rightarrow> string) \<Rightarrow> component_patch list option \<Rightarrow> app_component list option \<Rightarrow> patches_state \<Rightarrow> patches_state" where
  "patches_answered uuid value res st =
     (case res of
        None \<Rightarrow> st\<lparr>pa_componentOptions := [], pa_componentTypeOptions := [], pa_components := []\<rparr>
      | Some cs \<Rightarrow> patches_loadValue uuid value
          (st\<lparr>pa_componentOptions := componentOptions res,
              pa_componentTypeOptions := map (\<lambda>c. \<lparr>ch_label = ac_type c, ch_value = ac_type c\<rparr>) cs, pa_components := cs\<rparr>))"

definition no_patch :: component_patch where
  "no_patch = \<lparr>pt_id = None, pt_name = None, pt_type = None, pt_properties = None, pt_traits = None\<rparr>"

definition addPatch :: "string \<Rightarrow> patches_state \<Rightarrow> patches_state" where
  "addPatch uuid st = render_patches (st\<lparr>pa_patches := pa_patches st @ [no_patch\<lparr>pt_id := Some uuid\<rparr>]\<rparr>)"

definition removePatch :: "string \<Rightarrow> patches_state \<Rightarrow> patches_state" where
  "removePatch key st = st\<lparr>pa_patches := filter (\<lambda>p. pt_id p \<noteq> Some key) (pa_patches st), pa_field := AList.delete key (pa_field st)\<rparr>"

definition getComponents :: "app_component list \<Rightarrow> string option \<Rightarrow> string option \<Rightarrow> app_component list" where
  "getComponents components name type = filter (\<lambda>c. Some (ac_name c) = name \<or> Some (ac_type c) = type) components"

definition add_trait :: "string list \<Rightarrow> string \<Rightarrow> string list" where
  "add_trait traits t = (if t \<noteq> [] \<and> t \<in> set traits then traits else traits @ [t])"

text \<open>The traits of the components matched, by type; an empty type is added each time.\<close>

definition patch_traits :: "app_component list option \<Rightarrow> string list" where
  "patch_traits components = foldl add_trait [] (concat (map (\<lambda>c. or_nil (ac_traits c)) (or_nil components)))"

definition validatorName :: "string option \<Rightarrow> string option \<Rightarrow> string option" where
  "validatorName v other = (if \<not> truthy v \<and> \<not> truthy other then Some ''Please select a component or component type.'' else None)"

section \<open>Steps offered\<close>

text \<open>A step is never offered to itself, and one inside a group is offered exactly the other steps of
  its group.\<close>

lemma stepOptions_not_self:
  assumes "groupStep stepName (or_nil steps) = None"
  shows "stepName \<notin> ch_value ` set (stepOptions stepName steps mode)"
proof -
  have "filter (\<lambda>s. list_ex (\<lambda>b. st_name b = stepName) (or_nil (st_subSteps s))) (or_nil steps) = []"
    using assms by (simp add: groupStep_def split: list.splits)
  then have "\<forall>s \<in> set (or_nil steps). \<forall>b \<in> set (or_nil (st_subSteps s)). st_name b \<noteq> stepName"
    by (simp add: filter_empty_conv list_ex_iff)
  then show ?thesis by (auto simp: stepOptions_def assms) blast
qed

lemma stepOptions_group:
  assumes "groupStep stepName (or_nil steps) = Some g"
  shows "ch_value ` set (stepOptions stepName steps mode) = st_name ` set (or_nil (st_subSteps g)) - {stepName}"
    and "g \<in> set (or_nil steps)" and "stepName \<in> st_name ` set (or_nil (st_subSteps g))"
proof -
  show "ch_value ` set (stepOptions stepName steps mode) = st_name ` set (or_nil (st_subSteps g)) - {stepName}"
    by (auto simp: stepOptions_def assms image_image)
  let ?gs = "filter (\<lambda>s. list_ex (\<lambda>b. st_name b = stepName) (or_nil (st_subSteps s))) (or_nil steps)"
  have "?gs \<noteq> []" "g = last ?gs" using assms by (auto simp: groupStep_def split: list.splits)
  then have "g \<in> set ?gs" by (metis last_in_set)
  then show "g \<in> set (or_nil steps)" "stepName \<in> st_name ` set (or_nil (st_subSteps g))" by (auto simp: list_ex_iff)
qed

lemma isOptionsSource_asks: "isOptionsSource source \<Longrightarrow> options_request (the source) \<noteq> None"
  by (auto simp: isOptionsSource_def optionsSources_def options_request_def ends_in_def split: if_splits)

section \<open>Charts and versions shown are those of the reference\<close>

text \<open>\<open>server h\<close> are the answers the backend may give to a request, \<open>None\<close> among them where it may fail.\<close>

inductive charts_step :: "(chart_ref \<Rightarrow> string list option set) \<Rightarrow> charts_state \<Rightarrow> charts_state \<Rightarrow> bool" for server where
  "i < length (hl_sent st) \<Longrightarrow> re \<in> server (hl_sent st ! i) \<Longrightarrow> charts_step server st (charts_answered i re st)"
| "charts_step server st (charts_props h st)"
| "charts_step server st (charts_search s st)"

definition charts_told :: "(chart_ref \<Rightarrow> string list option set) \<Rightarrow> charts_state \<Rightarrow> bool" where
  "charts_told server st \<longleftrightarrow>
     (\<not> hl_loading st \<longrightarrow> hl_helm st = None \<or> (\<exists>h re. hl_helm st = Some h \<and> re \<in> server h \<and> hl_charts st = Some (or_nil re))) \<and>
     (hl_loading st \<longrightarrow> hl_sent st \<noteq> [])"

definition charts_inv :: "(chart_ref \<Rightarrow> string list option set) \<Rightarrow> charts_state \<Rightarrow> bool" where
  "charts_inv server st \<longleftrightarrow> charts_told server st \<and> (truthy (helm_url (hl_props st)) \<longrightarrow> helm_url (hl_helm st) = helm_url (hl_props st))"

lemma render_charts_inv:
  assumes "charts_told server st" shows "charts_inv server (render_charts st)"
  using assms by (auto simp: render_charts_def loadCharts_def charts_inv_def charts_told_def helm_url_def truthy_iff split: option.splits)

lemma charts_step_inv: "charts_step server st st' \<Longrightarrow> charts_inv server st \<Longrightarrow> charts_inv server st'"
proof (induction rule: charts_step.induct)
  case (1 i st re)
  then show ?case unfolding charts_answered_def by (intro render_charts_inv) (auto simp: charts_told_def)
next
  case (2 st h)
  then show ?case unfolding charts_props_def by (intro render_charts_inv) (simp add: charts_inv_def charts_told_def)
next
  case (3 st s)
  then show ?case unfolding charts_search_def by (intro render_charts_inv) (simp add: charts_inv_def charts_told_def)
qed

lemma charts_mount_inv: "charts_inv server (charts_mount (new_charts props))"
proof -
  have "charts_inv server (render_charts (new_charts props))" by (rule render_charts_inv) (simp add: new_charts_def charts_told_def)
  then show ?thesis by (simp add: charts_mount_def Let_def charts_inv_def charts_told_def)
qed

interpretation charts: machine "charts_step server" "charts_inv server" "\<lambda>st. \<exists>props. st = charts_mount (new_charts props)" for server
  by unfold_locales (auto intro: charts_step_inv charts_mount_inv)

text \<open>The versions likewise, except that a reference is not asked for while another is loading.\<close>

inductive versions_step :: "(chart_ref \<Rightarrow> string list) \<Rightarrow> versions_state \<Rightarrow> versions_state \<Rightarrow> bool" for server where
  "i < length (hv_sent st) \<Longrightarrow> versions_step server st (versions_answered i (Some (Some (server (hv_sent st ! i)))) st)"
| "i < length (hv_sent st) \<Longrightarrow> versions_step server st (versions_failed i st)"
| "versions_step server st (versions_props h st)"
| "versions_step server st (versions_search s st)"

definition complete_ref :: "chart_ref option \<Rightarrow> bool" where
  "complete_ref h = (case h of None \<Rightarrow> False | Some h \<Rightarrow> cr_url h \<noteq> [] \<and> cr_chart h \<noteq> [])"

definition versions_inv :: "(chart_ref \<Rightarrow> string list) \<Rightarrow> versions_state \<Rightarrow> bool" where
  "versions_inv server st \<longleftrightarrow> (\<not> hv_loading st \<longrightarrow>
     (hv_helm st = None \<or> hv_versions st = map_option server (hv_helm st)) \<and>
     (complete_ref (hv_props st) \<longrightarrow> helm_chart_of (hv_helm st) = helm_chart_of (hv_props st)))"

lemma render_versions_inv:
  assumes "\<not> hv_loading st \<longrightarrow> hv_helm st = None \<or> hv_versions st = map_option server (hv_helm st)"
  shows "versions_inv server (render_versions st)"
  using assms by (auto simp: render_versions_def loadChartVersions_def versions_inv_def complete_ref_def split: option.splits)

lemma versions_step_inv: "versions_step server st st' \<Longrightarrow> versions_inv server st \<Longrightarrow> versions_inv server st'"
proof (induction rule: versions_step.induct)
  case (1 i st)
  then show ?case unfolding versions_answered_def Let_def option.case by (intro render_versions_inv) simp
next
  case (2 i st)
  then show ?case by (simp add: versions_failed_def versions_inv_def)
next
  case (3 st h)
  then show ?case unfolding versions_props_def by (intro render_versions_inv) (simp add: versions_inv_def)
next
  case (4 st s)
  then show ?case unfolding versions_search_def by (intro render_versions_inv) (simp add: versions_inv_def)
qed

lemma versions_mount_inv: "versions_inv server (versions_mount (new_versions props))"
proof -
  have "versions_inv server (render_versions (new_versions props))" by (rule render_versions_inv) (simp add: new_versions_def)
  then show ?thesis by (simp add: versions_mount_def Let_def versions_inv_def)
qed

interpretation versions: machine "versions_step server" "versions_inv server" "\<lambda>st. \<exists>props. st = versions_mount (new_versions props)" for server
  by unfold_locales (auto intro: versions_step_inv versions_mount_inv)

text \<open>C28: whenever the list of versions is not loading and the form names a repository and a chart,
  the versions offered are the backend's answer for that repository and chart, whatever was
  picked, answered and failed before and in whatever order.\<close>

theorem versions_current:
  assumes "(versions_step server)\<^sup>*\<^sup>* (versions_mount (new_versions props)) st" and "\<not> hv_loading st"
    and "hv_props st = Some h" and "cr_url h \<noteq> []" and "cr_chart h \<noteq> []"
  shows "\<exists>asked. cr_url asked = cr_url h \<and> cr_chart asked = cr_chart h \<and> hv_versions st = Some (server asked)"
proof -
  have i: "versions_inv server st" using versions.reachable_inv[OF _ assms(1)] by blast
  then have "helm_chart_of (hv_helm st) = helm_chart_of (hv_props st)" using assms(2-5) by (simp add: versions_inv_def complete_ref_def)
  then obtain asked where "hv_helm st = Some asked" "cr_url asked = cr_url h" "cr_chart asked = cr_chart h"
    using assms(3) by (auto simp: helm_chart_of_def)
  then show ?thesis using i assms(2) by (auto simp: versions_inv_def)
qed

text \<open>The charts of a repository likewise.\<close>

lemma charts_current:
  assumes "(charts_step server)\<^sup>*\<^sup>* (charts_mount (new_charts props)) st" and "\<not> hl_loading st"
    and "hl_props st = Some h" and "cr_url h \<noteq> []"
  shows "\<exists>asked re. cr_url asked = cr_url h \<and> re \<in> server asked \<and> hl_charts st = Some (or_nil re)"
proof -
  have i: "charts_inv server st" using charts.reachable_inv[OF _ assms(1)] by blast
  then have "helm_url (hl_helm st) = Some (cr_url h)" using assms(3,4) by (simp add: charts_inv_def helm_url_def truthy_iff)
  then obtain asked where "hl_helm st = Some asked" "cr_url asked = cr_url h" by (auto simp: helm_url_def)
  then show ?thesis using i assms(2) by (auto simp: charts_inv_def charts_told_def)
qed

definition nginx :: chart_ref where "nginx = \<lparr>cr_url = ''https://c'', cr_repoType = ''helm'', cr_chart = ''nginx''\<rparr>"

definition redis :: chart_ref where "redis = \<lparr>cr_url = ''https://c'', cr_repoType = ''helm'', cr_chart = ''redis''\<rparr>"

definition one_version :: "chart_ref \<Rightarrow> string list" where "one_version h = [cr_chart h @ ''-1.0'']"

definition picked_redis :: versions_state where
  "picked_redis = versions_props (Some redis) (versions_mount (new_versions (Some nginx)))"

text \<open>The answer for the earlier chart arrives, the later one is asked for and answered.\<close>

definition answered_redis :: versions_state where
  "answered_redis = versions_answered 1 (Some (Some (one_version redis))) (versions_answered 0 (Some (Some (one_version nginx))) picked_redis)"

theorem versions_current_witness:
  "hv_versions answered_redis = Some [''redis-1.0''] \<and> hv_heard answered_redis = [[]] \<and>
   (\<exists>asked. cr_url asked = ''https://c'' \<and> cr_chart asked = ''redis'' \<and> hv_versions answered_redis = Some (one_version asked))"
proof -
  let ?s = "versions_mount (new_versions (Some nginx))" and ?a = "versions_answered 0 (Some (Some (one_version nginx))) picked_redis"
  have h: "hv_sent picked_redis ! 0 = nginx" "0 < length (hv_sent picked_redis)" "hv_sent ?a ! 1 = redis" "1 < length (hv_sent ?a)" by code_simp+
  have "versions_step one_version ?s picked_redis" unfolding picked_redis_def by (rule versions_step.intros)
  moreover have "versions_step one_version picked_redis ?a" using versions_step.intros(1)[OF h(2), of one_version] h(1) by simp
  moreover have "versions_step one_version ?a answered_redis"
    unfolding answered_redis_def using versions_step.intros(1)[OF h(4), of one_version] h(3) by simp
  ultimately have "(versions_step one_version)\<^sup>*\<^sup>* ?s answered_redis" by (meson converse_rtranclp_into_rtranclp r_into_rtranclp)
  moreover have "\<not> hv_loading answered_redis" "hv_props answered_redis = Some redis" "cr_url redis \<noteq> []" "cr_chart redis \<noteq> []"
    "hv_versions answered_redis = Some [''redis-1.0'']" "hv_heard answered_redis = [[]]" by code_simp+
  ultimately show ?thesis using versions_current[of one_version "Some nginx" answered_redis redis] by (simp add: redis_def)
qed

definition versions_stuck :: "string list option \<Rightarrow> versions_state \<Rightarrow> bool" where
  "versions_stuck versions st \<longleftrightarrow> hv_loading st \<and> hv_sent st = [] \<and> hv_versions st = versions"

lemma stuck_step: "versions_step server st st' \<Longrightarrow> versions_stuck vs st \<Longrightarrow> versions_stuck vs st'"
  by (induction rule: versions_step.induct)
     (auto simp: versions_stuck_def versions_props_def versions_search_def render_versions_def loadChartVersions_def split: option.splits)

interpretation stuck: preserving "versions_step server" "versions_stuck vs" for server vs
  by unfold_locales (rule stuck_step)

text \<open>A list of versions that is loading with no request under way, as a failed request leaves it,
  never loads again: whatever chart is picked afterwards, it asks for nothing and offers what it
  offered before.\<close>

theorem versions_never_load:
  assumes "hv_loading st" and "hv_sent st = []" and "(versions_step server)\<^sup>*\<^sup>* st st'"
  shows "hv_loading st' \<and> hv_sent st' = [] \<and> hv_versions st' = hv_versions st"
  using stuck.steps_keep[OF assms(3), of "hv_versions st"] assms(1,2) by (simp add: versions_stuck_def)

definition failed_versions :: versions_state where
  "failed_versions = versions_failed 0 (versions_failed 0 (versions_mount (new_versions (Some nginx))))"

theorem versions_never_load_witness:
  "hv_loading (versions_props (Some redis) failed_versions) \<and> hv_sent (versions_props (Some redis) failed_versions) = [] \<and>
   hv_versions (versions_props (Some redis) failed_versions) = None"
proof -
  have "hv_loading failed_versions" "hv_sent failed_versions = []" "hv_versions failed_versions = None" by code_simp+
  moreover have "(versions_step one_version)\<^sup>*\<^sup>* failed_versions (versions_props (Some redis) failed_versions)"
    by (rule r_into_rtranclp) (rule versions_step.intros)
  ultimately show ?thesis using versions_never_load[of failed_versions one_version "versions_props (Some redis) failed_versions"] by simp
qed

text \<open>An answer for the repository picked before, arriving after that for the one picked now, has the
  charts asked for again and takes the chart picked meanwhile out of the form.\<close>

definition other_repo :: chart_ref where "other_repo = nginx\<lparr>cr_url := ''https://d''\<rparr>"

lemma late_charts_reset:
  "let both = charts_props (Some other_repo) (charts_mount (new_charts (Some nginx)));
       now = charts_answered 2 (Some [''a'']) both;
       late = charts_answered 0 (Some [''b'']) now
   in \<not> hl_loading now \<and> hl_charts now = Some [''a''] \<and> hl_heard now = [[]] \<and>
      hl_loading late \<and> hl_heard late = [[], []] \<and> hl_sent late = [nginx, other_repo]"
  by code_simp

section \<open>Loading ends\<close>

text \<open>Answers only: one request of those under way is answered.\<close>

inductive charts_answer :: "(chart_ref \<Rightarrow> string list option set) \<Rightarrow> charts_state \<Rightarrow> charts_state \<Rightarrow> bool" for server where
  answer: "i < length (hl_sent st) \<Longrightarrow> re \<in> server (hl_sent st ! i) \<Longrightarrow> charts_answer server st (charts_answered i re st)"

text \<open>A request for another repository than the one the form names may cost one more.\<close>

definition request_cost :: "charts_state \<Rightarrow> chart_ref \<Rightarrow> nat" where
  "request_cost st h = (if Some (cr_url h) = helm_url (hl_props st) then 1 else 2)"

definition charts_cost :: "charts_state \<Rightarrow> nat" where
  "charts_cost st = sum_list (map (request_cost st) (hl_sent st))"

lemma sum_list_without:
  fixes f :: "'a \<Rightarrow> nat"
  assumes "i < length xs"
  shows "sum_list (map f (take i xs @ drop (Suc i) xs)) + f (xs ! i) = sum_list (map f xs)"
proof -
  have "xs = take i xs @ xs ! i # drop (Suc i) xs" using assms by (rule id_take_nth_drop)
  then have "sum_list (map f xs) = sum_list (map f (take i xs @ xs ! i # drop (Suc i) xs))" by simp
  then show ?thesis by simp
qed

lemma charts_answer_cost:
  assumes "charts_answer server st st'"
  shows "charts_cost st' < charts_cost st \<and> hl_props st' = hl_props st \<and> (hl_loading st' \<longrightarrow> hl_sent st' \<noteq> []) \<and> charts_step server st st'"
  using assms
proof cases
  case (answer i re)
  let ?rest = "take i (hl_sent st) @ drop (Suc i) (hl_sent st)" and ?h = "hl_sent st ! i"
  have sum: "sum_list (map (request_cost st) ?rest) + request_cost st ?h = charts_cost st"
    using sum_list_without[OF answer(2)] by (simp add: charts_cost_def)
  have "charts_step server st st'" unfolding answer(1) using answer(2,3) by (rule charts_step.intros)
  moreover have p: "hl_props st' = hl_props st"
    by (simp add: answer(1) charts_answered_def render_charts_def loadCharts_def split: option.split)
  moreover have "hl_loading st' \<longrightarrow> hl_sent st' \<noteq> []"
    by (auto simp: answer(1) charts_answered_def render_charts_def loadCharts_def split: option.split)
  moreover have "charts_cost st' < charts_cost st"
  proof (cases "hl_sent st' = ?rest")
    case True
    have "request_cost st' = request_cost st" by (simp add: request_cost_def p fun_eq_iff)
    then show ?thesis using True sum by (simp add: charts_cost_def request_cost_def split: if_splits)
  next
    case False
    then obtain q where q: "hl_props st = Some q" "hl_sent st' = ?rest @ [q]" "Some (cr_url ?h) \<noteq> helm_url (hl_props st)"
      by (auto simp: answer(1) charts_answered_def render_charts_def loadCharts_def helm_url_def split: option.splits if_splits)
    have "request_cost st' = request_cost st" by (simp add: request_cost_def p fun_eq_iff)
    then have "charts_cost st' = sum_list (map (request_cost st) ?rest) + request_cost st q" by (simp add: charts_cost_def q)
    moreover have "request_cost st q = 1" "request_cost st ?h = 2" using q by (simp_all add: request_cost_def helm_url_def)
    ultimately show ?thesis using sum by simp
  qed
  ultimately show ?thesis by blast
qed

lemma charts_answers:
  assumes "(charts_answer server ^^ n) st st'" and "hl_loading st \<longrightarrow> hl_sent st \<noteq> []"
  shows "n + charts_cost st' \<le> charts_cost st \<and> hl_props st' = hl_props st \<and> (hl_loading st' \<longrightarrow> hl_sent st' \<noteq> []) \<and> (charts_step server)\<^sup>*\<^sup>* st st'"
  using assms(1)
proof (induction n arbitrary: st')
  case (Suc n)
  then obtain s where s: "(charts_answer server ^^ n) st s" "charts_answer server s st'" by auto
  then show ?case using Suc.IH[OF s(1)] charts_answer_cost[OF s(2)] by (auto intro: rtranclp.rtrancl_into_rtrancl)
qed (use assms(2) in simp)

lemma charts_cost_bound: "charts_cost st \<le> 2 * length (hl_sent st)"
proof -
  have "sum_list (map (request_cost st) hs) \<le> 2 * length hs" for hs by (induction hs) (auto simp: request_cost_def)
  then show ?thesis by (simp add: charts_cost_def)
qed

text \<open>C27: answered in any order, with charts or by a failure, the requests for charts end: whatever has
  happened to the widget, there are at most twice as many answers as requests under way, counting
  those an answer gives rise to, and once none is under way the widget is not loading and offers what
  was answered to a request for the repository the form names, none where that request failed.\<close>

theorem charts_settle:
  assumes "(charts_step server)\<^sup>*\<^sup>* (charts_mount (new_charts props)) st" and "(charts_answer server ^^ n) st st'"
  shows "n \<le> 2 * length (hl_sent st) \<and>
    (hl_sent st' = [] \<longrightarrow> \<not> hl_loading st' \<and>
      (hl_props st = Some h \<and> cr_url h \<noteq> [] \<longrightarrow>
        (\<exists>asked re. cr_url asked = cr_url h \<and> re \<in> server asked \<and> hl_charts st' = Some (or_nil re))))"
proof -
  have "charts_inv server st" using charts.reachable_inv[OF _ assms(1)] by blast
  then have "hl_loading st \<longrightarrow> hl_sent st \<noteq> []" by (simp add: charts_inv_def charts_told_def)
  note a = charts_answers[OF assms(2) this]
  have r: "(charts_step server)\<^sup>*\<^sup>* (charts_mount (new_charts props)) st'" using assms(1) a by (meson rtranclp_trans)
  have "n \<le> 2 * length (hl_sent st)" using a charts_cost_bound[of st] by linarith
  then show ?thesis using a charts_current[OF r] by auto
qed

text \<open>A backend that may also fail.\<close>

definition may_fail :: "chart_ref \<Rightarrow> string list option set" where
  "may_fail h = {Some (one_version h), None}"

theorem charts_settle_witness:
  "let end_state = charts_answered 0 None (charts_answered 0 (Some (one_version nginx)) (charts_mount (new_charts (Some nginx))))
   in \<not> hl_loading end_state \<and> hl_charts end_state = Some [] \<and> hl_sent end_state = []"
proof -
  define s where "s = charts_mount (new_charts (Some nginx))"
  define a where "a = charts_answered 0 (Some (one_version nginx)) s"
  define b where "b = charts_answered 0 None a"
  have h: "hl_sent s ! 0 = nginx" "0 < length (hl_sent s)" "0 < length (hl_sent a)" unfolding s_def a_def by code_simp+
  have "charts_answer may_fail s a" unfolding a_def by (rule charts_answer.answer[OF h(2)]) (simp add: h(1) may_fail_def)
  moreover have "charts_answer may_fail a b" unfolding b_def by (rule charts_answer.answer[OF h(3)]) (simp add: may_fail_def)
  ultimately have n: "(charts_answer may_fail ^^ 2) s b" by (auto simp: numeral_2_eq_2)
  have e: "hl_charts b = Some []" "hl_sent b = []" unfolding b_def a_def s_def by code_simp+
  have r: "(charts_step may_fail)\<^sup>*\<^sup>* (charts_mount (new_charts (Some nginx))) s" by (simp add: s_def)
  show ?thesis using charts_settle[OF r n] e unfolding a_def b_def s_def Let_def by blast
qed

section \<open>Repositories typed and images emptied\<close>

text \<open>Every drawing while an address is typed adds an entry to the repositories; and the entry typed
  hides the secret of the repository it names.\<close>

lemma repos_grow:
  assumes "rs_inputRepo st \<noteq> []"
  shows "rs_repos ((render_repos ^^ n) st) = replicate n (typed_repo (rs_inputRepo st)) @ rs_repos st"
proof -
  have "rs_repos ((render_repos ^^ n) st) = replicate n (typed_repo (rs_inputRepo st)) @ rs_repos st \<and>
      rs_inputRepo ((render_repos ^^ n) st) = rs_inputRepo st"
    using assms by (induction n) (auto simp: render_repos_def)
  then show ?thesis by blast
qed

lemma typed_repo_loses_secret:
  "findSecretName (rs_repos (repos_search url st)) url = []" if "url \<noteq> []"
  using that by (simp add: repos_search_def render_repos_def findSecretName_def typed_repo_def or_str_def)

text \<open>The input of an image that has a value cannot be emptied: the value comes back.\<close>

lemma image_not_emptied:
  assumes "im_value st = Some v" and "v \<noteq> []" and "truthy project"
  shows "im_name (image_typed project [] st) = v \<and> im_value (image_typed project [] st) = Some v"
  using assms by (simp add: image_typed_def render_image_def loadImageInfo_def truthy_iff)

text \<open>A patch taken out is not handed over: the form goes on with it until another is edited.\<close>

lemma removed_patch_kept: "pa_heard (removePatch key st) = pa_heard st"
  by (simp add: removePatch_def)

lemma patch_traits_each_once:
  assumes "[] \<notin> set (concat (map (\<lambda>c. or_nil (ac_traits c)) (or_nil components)))"
  shows "patch_traits components = js_set (concat (map (\<lambda>c. or_nil (ac_traits c)) (or_nil components)))"
proof -
  have "foldl add_trait acc ts = set_add_all acc ts" if "[] \<notin> set ts" for acc ts
    using that by (induction ts arbitrary: acc) (auto simp: add_trait_def set_add_def)
  then show ?thesis using assms by (simp add: patch_traits_def js_set_def)
qed

end
