(* ===== verification/Step_Layout.thy ===== *)
theory Step_Layout
  imports Edge_Routing
begin

text \<open>
  Where the cards of a step graph sit and how its edges run (\<open>components/PipelineGraph/layout.tsx\<close>).
  The layout library is an argument: given the separation of columns, the nodes with their sizes
  and the edges with their weights, it places every node and gives every edge its points. Edges
  are among the cards, so it is given no node without a size.
\<close>

section \<open>Cards and edges placed\<close>

record laid_step =
  ld_width :: rat
  ld_height :: rat
  ld_x :: rat
  ld_y :: rat

record laid =
  lg_nodes :: "(string, laid_step) js_map"
  lg_edges :: "(string \<times> string, point list) js_map"

type_synonym card_size = "rat \<times> rat"
type_synonym dagre = "rat \<Rightarrow> (string, card_size) js_map \<Rightarrow> (string \<times> string, nat) js_map \<Rightarrow> laid"

definition stepWidth :: rat where "stepWidth = 270"
definition margin :: rat where "margin = 20"
definition cardHeight :: rat where "cardHeight = 90"

definition root_key :: string where "root_key = CHR 0x00 # ''root''"

text \<open>A width or height not measured, or measured as nothing, is that of a card.\<close>

definition size_of :: "(string, card_size) js_map \<Rightarrow> string \<Rightarrow> card_size" where
  "size_of sizes k =
     (case map_of sizes k of
        None \<Rightarrow> (stepWidth, cardHeight)
      | Some (w, h) \<Rightarrow> (if w = 0 then stepWidth else w, if h = 0 then cardHeight else h))"

definition dagre_graph ::
  "string list \<Rightarrow> (string \<times> string) list \<Rightarrow> (string, card_size) js_map \<Rightarrow> (string, card_size) js_map \<times> (string \<times> string, nat) js_map" where
  "dagre_graph keys edges sizes =
     (js_map_of ((root_key, (0, 0)) # map (\<lambda>k. (k, size_of sizes k)) keys),
      js_map_of (map (\<lambda>k. ((root_key, k), 100)) keys @ map (\<lambda>e. (e, 1)) edges))"

definition without_root :: "laid \<Rightarrow> laid" where
  "without_root g =
     \<lparr>lg_nodes = AList.delete root_key (lg_nodes g),
      lg_edges = filter (\<lambda>(e, _). fst e \<noteq> root_key \<and> snd e \<noteq> root_key) (lg_edges g)\<rparr>"

definition card_left :: "laid_step \<Rightarrow> rat" where "card_left n = ld_x n - ld_width n / 2"
definition card_top :: "laid_step \<Rightarrow> rat" where "card_top n = ld_y n - ld_height n / 2"

definition least :: "rat list \<Rightarrow> rat" where
  "least xs = (case xs of [] \<Rightarrow> 0 | y # ys \<Rightarrow> foldl min y ys)"

definition all_points :: "laid \<Rightarrow> point list" where
  "all_points g = concat (map snd (lg_edges g))"

definition shift :: "rat \<Rightarrow> rat \<Rightarrow> laid \<Rightarrow> laid" where
  "shift dx dy g =
     \<lparr>lg_nodes = map (\<lambda>(k, n). (k, n\<lparr>ld_x := ld_x n + dx, ld_y := ld_y n + dy\<rparr>)) (lg_nodes g),
      lg_edges = map (\<lambda>(e, ps). (e, map (\<lambda>p. at_point (px p + dx) (py p + dy)) ps)) (lg_edges g)\<rparr>"

text \<open>Everything moves so that the first card sits at the margin; with no card there is nothing to
  move.\<close>

definition to_margin :: "laid \<Rightarrow> laid" where
  "to_margin g =
     (if lg_nodes g = [] then g
      else shift (margin - least (map (card_left \<circ> snd) (lg_nodes g)))
             (margin - least (map (card_top \<circ> snd) (lg_nodes g) @ map py (all_points g))) g)"

definition place_cards :: "dagre \<Rightarrow> string list \<Rightarrow> (string \<times> string) list \<Rightarrow> (string, card_size) js_map \<Rightarrow> rat \<Rightarrow> laid" where
  "place_cards dagre keys edges sizes ranksep =
     to_margin (without_root (dagre ranksep (fst (dagre_graph keys edges sizes)) (snd (dagre_graph keys edges sizes))))"

section \<open>Columns and routes\<close>

definition centres :: "laid \<Rightarrow> int list" where
  "centres g = sort (js_set (map (js_round \<circ> ld_x \<circ> snd) (lg_nodes g)))"

fun index_in :: "'a \<Rightarrow> 'a list \<Rightarrow> int" where
  "index_in x [] = -1"
| "index_in x (y # ys) = (if x = y then 0 else let i = index_in x ys in if i < 0 then -1 else i + 1)"

definition columnOf :: "laid \<Rightarrow> string \<Rightarrow> int" where
  "columnOf g k = index_in (js_round (ld_x (the (map_of (lg_nodes g) k)))) (centres g)"

definition card_box :: "laid_step \<Rightarrow> box" where
  "card_box n = \<lparr>bx_left = card_left n, bx_top = card_top n, bx_width = ld_width n, bx_height = ld_height n\<rparr>"

definition route_nodes :: "laid \<Rightarrow> route_node list" where
  "route_nodes g = map (\<lambda>(k, n). \<lparr>rn_key = k, rn_box = card_box n, rn_column = columnOf g k\<rparr>) (lg_nodes g)"

text \<open>Of the points of an edge the first nearest to a column; an edge without points throws.\<close>

definition nearest :: "rat \<Rightarrow> point list \<Rightarrow> point option" where
  "nearest c points =
     (case points of [] \<Rightarrow> None | p # ps \<Rightarrow> Some (foldl (\<lambda>best q. if \<bar>px q - c\<bar> < \<bar>px best - c\<bar> then q else best) p ps))"

fun all_some :: "'a option list \<Rightarrow> 'a list option" where
  "all_some [] = Some []"
| "all_some (None # xs) = None"
| "all_some (Some x # xs) = map_option (Cons x) (all_some xs)"

definition edge_key :: "string \<times> string \<Rightarrow> string" where
  "edge_key e = fst e @ ''->'' @ snd e"

definition edge_passes :: "laid \<Rightarrow> (string \<times> string) \<times> point list \<Rightarrow> rat list option" where
  "edge_passes g ep =
     all_some (map (\<lambda>c. map_option py (nearest (of_int (centres g ! nat c)) (snd ep)))
       [columnOf g (fst (fst ep)) + 1 .. columnOf g (snd (fst ep)) - 1])"

definition routed_edge :: "laid \<Rightarrow> (string \<times> string) \<times> point list \<Rightarrow> route_edge option" where
  "routed_edge g ep =
     map_option (\<lambda>passes. \<lparr>rg_key = edge_key (fst ep), rg_from = fst (fst ep), rg_to = snd (fst ep), rg_passes = Some passes\<rparr>) (edge_passes g ep)"

definition routing :: "laid \<Rightarrow> (route_node list \<times> route_edge list) option" where
  "routing g = map_option (Pair (route_nodes g)) (all_some (map (routed_edge g) (lg_edges g)))"

definition leastGap :: rat where "leastGap = 48"

definition lanes_gap :: "route_node list \<Rightarrow> route_edge list \<Rightarrow> rat" where
  "lanes_gap nodes edges =
     ro_leadOut routeDefaults + ro_leadIn routeDefaults + ro_spacing routeDefaults * (of_nat (lanesNeeded nodes edges) + 1)"

definition layOut ::
  "dagre \<Rightarrow> string list \<Rightarrow> (string \<times> string) list \<Rightarrow> (string, card_size) js_map \<Rightarrow> (laid \<times> (string, point list) js_map) option" where
  "layOut dagre keys edges sizes =
     (let graph = place_cards dagre keys edges sizes leastGap
      in Option.bind (routing graph) (\<lambda>(nodes, es).
           let gap = lanes_gap nodes es
           in if gap > leastGap
              then (let graph = place_cards dagre keys edges sizes gap
                    in map_option (\<lambda>(nodes, es). (graph, routeEdges nodes es routeDefaults)) (routing graph))
              else Some (graph, routeEdges nodes es routeDefaults)))"

section \<open>What the graph is drawn with\<close>

definition graph_size :: "laid \<Rightarrow> (string, point list) js_map \<Rightarrow> rat \<times> rat" where
  "graph_size g routes =
     (let cards = foldl (\<lambda>(w, h) (k, n). (max w (ld_x n + ld_width n / 2 + margin), max h (ld_y n + ld_height n / 2 + margin))) (0, 0) (lg_nodes g)
      in foldl (\<lambda>(w, h) p. (max w (px p + margin), max h (py p + margin))) cards (concat (map snd routes)))"

definition place_of :: "laid \<Rightarrow> string \<Rightarrow> rat \<times> rat" where
  "place_of g k = (case map_of (lg_nodes g) k of None \<Rightarrow> (margin, margin) | Some n \<Rightarrow> (card_left n, card_top n))"

definition box_of :: "laid \<Rightarrow> string \<Rightarrow> box" where
  "box_of g k =
     (case map_of (lg_nodes g) k of
        None \<Rightarrow> \<lparr>bx_left = margin, bx_top = margin, bx_width = stepWidth, bx_height = cardHeight\<rparr>
      | Some n \<Rightarrow> card_box n)"

definition run_length :: "point \<Rightarrow> point \<Rightarrow> rat" where
  "run_length a b = \<bar>px b - px a\<bar> + \<bar>py b - py a\<bar>"

fun runs_of :: "point list \<Rightarrow> (point \<times> point) list" where
  "runs_of (a # b # ps) = (a, b) # runs_of (b # ps)"
| "runs_of ps = []"

definition part_way :: "point \<Rightarrow> point \<Rightarrow> rat \<Rightarrow> point" where
  "part_way a b t = at_point (px a + (px b - px a) * t) (py a + (py b - py a) * t)"

fun middle_from :: "(point \<times> point) list \<Rightarrow> rat \<Rightarrow> point option" where
  "middle_from [] left = None"
| "middle_from ((a, b) # rest) left =
     (let d = run_length a b
      in if left \<le> d then Some (part_way a b (if d \<noteq> 0 then left / d else 0)) else middle_from rest (left - d))"

definition route_length :: "point list \<Rightarrow> rat" where
  "route_length points = sum_list (map (\<lambda>(a, b). run_length a b) (runs_of points))"

definition middle :: "point list \<Rightarrow> point option" where
  "middle points =
     (case middle_from (runs_of points) (route_length points / 2) of
        Some p \<Rightarrow> Some p
      | None \<Rightarrow> (case points of [] \<Rightarrow> None | p # _ \<Rightarrow> Some p))"

text \<open>The edges below the cards and those above them.\<close>

definition edge_layers :: "('e \<Rightarrow> bool) \<Rightarrow> 'e list \<Rightarrow> 'e list \<times> 'e list" where
  "edge_layers front edges = (filter (\<lambda>e. \<not> front e) edges, filter front edges)"

section \<open>Cards start at the margin\<close>

lemma foldl_min_least: "foldl min (y::rat) ys \<le> y \<and> (\<forall>x \<in> set ys. foldl min y ys \<le> x) \<and> (foldl min y ys = y \<or> foldl min y ys \<in> set ys)"
proof (induction ys arbitrary: y)
  case (Cons z zs)
  from Cons[of "min y z"] show ?case by (auto simp: min_def split: if_splits)
qed simp

lemma least_le: "x \<in> set xs \<Longrightarrow> least xs \<le> x"
  using foldl_min_least[of "hd xs" "tl xs"] by (cases xs) (auto simp: least_def)

lemma least_in: "xs \<noteq> [] \<Longrightarrow> least xs \<in> set xs"
  using foldl_min_least[of "hd xs" "tl xs"] by (cases xs) (auto simp: least_def)

text \<open>Whatever the layout library answers, every card placed is at the margin or beyond it, one
  card at it on the left, and every point of an edge is not above it.\<close>

theorem cards_in_view:
  assumes "g = place_cards dagre keys edges sizes ranksep" and "lg_nodes g \<noteq> []"
  shows "list_all (\<lambda>(k, n). margin \<le> card_left n \<and> margin \<le> card_top n) (lg_nodes g) \<and>
    list_ex (\<lambda>(k, n). card_left n = margin) (lg_nodes g) \<and> list_all (\<lambda>p. margin \<le> py p) (all_points g)"
proof -
  define g0 where "g0 = without_root (dagre ranksep (fst (dagre_graph keys edges sizes)) (snd (dagre_graph keys edges sizes)))"
  define dx where "dx = margin - least (map (card_left \<circ> snd) (lg_nodes g0))"
  define dy where "dy = margin - least (map (card_top \<circ> snd) (lg_nodes g0) @ map py (all_points g0))"
  have g: "g = to_margin g0" using assms(1) by (simp add: place_cards_def g0_def)
  then have n: "lg_nodes g0 \<noteq> []" using assms(2) by (auto simp: to_margin_def)
  then have s: "g = shift dx dy g0" unfolding g dx_def dy_def by (simp add: to_margin_def)
  have left: "card_left (m\<lparr>ld_x := ld_x m + dx, ld_y := ld_y m + dy\<rparr>) = card_left m + dx" for m by (simp add: card_left_def)
  have top: "card_top (m\<lparr>ld_x := ld_x m + dx, ld_y := ld_y m + dy\<rparr>) = card_top m + dy" for m by (simp add: card_top_def)
  have "margin \<le> card_left m + dx" "margin \<le> card_top m + dy" if "(k, m) \<in> set (lg_nodes g0)" for k m
    using that least_le[of "card_left m" "map (card_left \<circ> snd) (lg_nodes g0)"]
      least_le[of "card_top m" "map (card_top \<circ> snd) (lg_nodes g0) @ map py (all_points g0)"] by (force simp: dx_def dy_def)+
  then have 1: "list_all (\<lambda>(k, n). margin \<le> card_left n \<and> margin \<le> card_top n) (lg_nodes g)"
    by (auto simp: s shift_def list_all_iff left top)
  obtain k m where "(k, m) \<in> set (lg_nodes g0)" "card_left m = least (map (card_left \<circ> snd) (lg_nodes g0))"
    using least_in[of "map (card_left \<circ> snd) (lg_nodes g0)"] n by auto
  then have "(k, m\<lparr>ld_x := ld_x m + dx, ld_y := ld_y m + dy\<rparr>) \<in> set (lg_nodes g)" "card_left (m\<lparr>ld_x := ld_x m + dx, ld_y := ld_y m + dy\<rparr>) = margin"
    unfolding left by (force simp: s shift_def, simp add: dx_def)
  then have 2: "list_ex (\<lambda>(k, n). card_left n = margin) (lg_nodes g)" by (auto simp: list_ex_iff)
  have "margin \<le> py p + dy" if "p \<in> set (all_points g0)" for p
    using that least_le[of "py p" "map (card_top \<circ> snd) (lg_nodes g0) @ map py (all_points g0)"] by (force simp: dy_def)
  then have 3: "list_all (\<lambda>p. margin \<le> py p) (all_points g)"
    by (fastforce simp: s shift_def all_points_def list_all_iff at_point_def)
  show ?thesis using 1 2 3 by blast
qed

text \<open>A library that puts every node at the origin with no points.\<close>

definition stacked :: dagre where
  "stacked ranksep nodes edges =
     \<lparr>lg_nodes = map (\<lambda>(k, (w, h)). (k, \<lparr>ld_width = w, ld_height = h, ld_x = 0, ld_y = 0\<rparr>)) nodes,
      lg_edges = map (\<lambda>(e, _). (e, [at_point 0 (-9)])) edges\<rparr>"

theorem cards_in_view_witness:
  "lg_nodes (place_cards stacked [''a'', ''b''] [(''a'', ''b'')] [] 48) \<noteq> [] \<and>
   list_ex (\<lambda>(k, n). card_left n = margin) (lg_nodes (place_cards stacked [''a'', ''b''] [(''a'', ''b'')] [] 48))"
proof -
  have "lg_nodes (place_cards stacked [''a'', ''b''] [(''a'', ''b'')] [] 48) \<noteq> []" by code_simp
  with cards_in_view[OF refl this] show ?thesis by blast
qed

section \<open>Columns follow the cards\<close>

lemma index_in_nth: "x \<in> set xs \<Longrightarrow> 0 \<le> index_in x xs \<and> nat (index_in x xs) < length xs \<and> xs ! nat (index_in x xs) = x"
proof (induction xs)
  case (Cons y ys)
  then show ?case by (cases "x = y") (auto simp: Let_def nat_add_distrib)
qed simp

lemma column_order:
  assumes "map_of (lg_nodes g) k = Some n" and "map_of (lg_nodes g) j = Some m"
  shows "columnOf g k < columnOf g j \<longleftrightarrow> js_round (ld_x n) < js_round (ld_x m)"
proof -
  let ?a = "js_round (ld_x n)" and ?b = "js_round (ld_x m)" and ?cs = "centres g"
  have m: "?a \<in> set ?cs" "?b \<in> set ?cs" using assms map_of_SomeD by (force simp: centres_def image_iff)+
  have "sorted_wrt (<) ?cs" by (simp add: centres_def strict_sorted_iff)
  then have "nat (index_in ?a ?cs) < nat (index_in ?b ?cs) \<longleftrightarrow> ?a < ?b"
    using index_in_nth[OF m(1)] index_in_nth[OF m(2)] by (metis linorder_neqE_nat not_less_iff_gr_or_eq sorted_wrt_nth_less)
  then show ?thesis using assms index_in_nth[OF m(1)] index_in_nth[OF m(2)] by (auto simp: columnOf_def)
qed

lemma foldl_nearest:
  "\<bar>px (foldl (\<lambda>best q. if \<bar>px q - c\<bar> < \<bar>px best - c\<bar> then q else best) p ps) - c\<bar> \<le> \<bar>px q - c\<bar> \<and>
   foldl (\<lambda>best q. if \<bar>px q - c\<bar> < \<bar>px best - c\<bar> then q else best) p ps \<in> set (p # ps)" if "q \<in> set (p # ps)"
  using that
proof (induction ps arbitrary: p q)
  case (Cons r ps)
  let ?p = "if \<bar>px r - c\<bar> < \<bar>px p - c\<bar> then r else p"
  from Cons(1)[of ?p ?p] Cons(1)[of q ?p] Cons.prems show ?case by (auto split: if_splits)
qed simp

lemma nearest_point:
  assumes "nearest c points = Some p"
  shows "p \<in> set points \<and> list_all (\<lambda>q. \<bar>px p - c\<bar> \<le> \<bar>px q - c\<bar>) points"
  using assms foldl_nearest[of _ "hd points" "tl points" c] by (cases points) (auto simp: nearest_def list_all_iff)

section \<open>The middle of a route\<close>

lemma run_length_nonneg [simp]: "0 \<le> run_length a b"
  by (simp add: run_length_def)

lemma part_way_length: "0 \<le> t \<Longrightarrow> run_length a (part_way a b t) = run_length a b * t"
  by (simp add: run_length_def part_way_def at_point_def abs_mult distrib_right)

lemma route_length_simps [simp]:
  "route_length [] = 0" "route_length [a] = 0" "route_length (a # b # ps) = run_length a b + route_length (b # ps)"
  by (simp_all add: route_length_def)

lemma middle_from_splits:
  assumes "0 \<le> left" and "left \<le> route_length (a # ps)" and "ps \<noteq> []"
  shows "\<exists>us b c vs t. a # ps = us @ b # c # vs \<and> 0 \<le> t \<and> t \<le> 1 \<and>
    middle_from (runs_of (a # ps)) left = Some (part_way b c t) \<and> route_length (us @ [b, part_way b c t]) = left"
  using assms
proof (induction ps arbitrary: a left)
  case (Cons b ps)
  let ?d = "run_length a b"
  show ?case
  proof (cases "left \<le> ?d")
    case True
    let ?t = "if ?d \<noteq> 0 then left / ?d else 0"
    have "0 \<le> ?t" "?t \<le> 1" using True Cons.prems(1) run_length_nonneg[of a b] by (auto simp: divide_le_eq not_le order_less_le)
    moreover have "run_length a (part_way a b ?t) = left"
      using True Cons.prems(1) part_way_length[OF \<open>0 \<le> ?t\<close>] by auto
    ultimately show ?thesis using True by (intro exI[of _ "[]"] exI[of _ a] exI[of _ b] exI[of _ ps] exI[of _ ?t]) (simp add: Let_def)
  next
    case False
    then have "ps \<noteq> []" using Cons.prems by auto
    moreover have "left - ?d \<le> route_length (b # ps)" "0 \<le> left - ?d" using False Cons.prems(2) by simp_all
    ultimately obtain us e c vs t where h: "b # ps = us @ e # c # vs" "0 \<le> t" "t \<le> 1"
      "middle_from (runs_of (b # ps)) (left - ?d) = Some (part_way e c t)" "route_length (us @ [e, part_way e c t]) = left - ?d"
      using Cons.IH[of "left - ?d" b] by blast
    have "route_length (a # us @ [e, part_way e c t]) = left"
      using h(1,5) by (cases us) auto
    moreover have "middle_from (runs_of (a # b # ps)) left = Some (part_way e c t)" using h(4) False by (simp add: Let_def)
    ultimately have "a # b # ps = (a # us) @ e # c # vs \<and> 0 \<le> t \<and> t \<le> 1 \<and> middle_from (runs_of (a # b # ps)) left = Some (part_way e c t) \<and>
        route_length ((a # us) @ [e, part_way e c t]) = left"
      using h(1,2,3) by auto
    then show ?thesis by blast
  qed
qed simp

text \<open>The middle of a route is on it: the point shown is on one of its runs, and the route up to it
  is half as long as the whole.\<close>

theorem middle_halfway:
  assumes "length points \<ge> 2"
  shows "\<exists>us a b vs t. points = us @ a # b # vs \<and> 0 \<le> t \<and> t \<le> 1 \<and> middle points = Some (part_way a b t) \<and>
    route_length (us @ [a, part_way a b t]) = route_length points / 2"
proof -
  obtain a ps where p: "points = a # ps" "ps \<noteq> []" using assms by (cases points) (auto simp: Suc_le_eq)
  have "0 \<le> route_length points" unfolding route_length_def by (rule sum_list_nonneg) auto
  then have "0 \<le> route_length points / 2" "route_length points / 2 \<le> route_length (a # ps)" unfolding p(1) by simp_all
  from middle_from_splits[OF this p(2)] show ?thesis unfolding p(1) middle_def by fastforce
qed

theorem middle_halfway_witness:
  "middle [at_point 0 0, at_point 10 0, at_point 10 30] = Some (at_point 10 10) \<and>
   (\<exists>us a b vs t. [at_point 0 0, at_point 10 0, at_point 10 30] = us @ a # b # vs \<and> 0 \<le> t \<and> t \<le> 1 \<and>
      middle [at_point 0 0, at_point 10 0, at_point 10 30] = Some (part_way a b t) \<and>
      route_length (us @ [a, part_way a b t]) = route_length [at_point 0 0, at_point 10 0, at_point 10 30] / 2)"
proof -
  have "length [at_point 0 0, at_point 10 0, at_point 10 30] \<ge> 2" by simp
  moreover have "middle [at_point 0 0, at_point 10 0, at_point 10 30] = Some (at_point 10 10)" by code_simp
  ultimately show ?thesis using middle_halfway by blast
qed

section \<open>Every edge is drawn within the graph\<close>

lemma all_some_iff: "all_some xs = Some ys \<longleftrightarrow> xs = map Some ys"
  by (induction xs arbitrary: ys rule: all_some.induct) (auto simp: Cons_eq_map_conv)

lemma routing_edges:
  assumes "routing g = Some (nodes, es)"
  shows "nodes = route_nodes g" and "map rg_key es = map (edge_key \<circ> fst) (lg_edges g)"
    and "map (\<lambda>e. (rg_from e, rg_to e)) es = map fst (lg_edges g)"
proof -
  have m: "map (routed_edge g) (lg_edges g) = map Some es" and "nodes = route_nodes g"
    using assms by (auto simp: routing_def all_some_iff)
  then show "nodes = route_nodes g" by simp
  have e: "routed_edge g ep = Some e \<Longrightarrow> rg_key e = edge_key (fst ep) \<and> (rg_from e, rg_to e) = fst ep" for ep e
    by (auto simp: routed_edge_def)
  have len: "length es = length (lg_edges g)" using arg_cong[OF m, of length] by simp
  have i: "routed_edge g (lg_edges g ! i) = Some (es ! i)" if "i < length es" for i
    using arg_cong[OF m, of "\<lambda>l. l ! i"] that len by simp
  show "map rg_key es = map (edge_key \<circ> fst) (lg_edges g)" using e[OF i] len by (intro nth_equalityI) auto
  show "map (\<lambda>e. (rg_from e, rg_to e)) es = map fst (lg_edges g)" using e[OF i] len by (intro nth_equalityI) auto
qed

lemma layOut_routing:
  assumes "layOut dagre keys edges sizes = Some (g, routes)"
  shows "\<exists>es ranksep. routing g = Some (route_nodes g, es) \<and> routes = routeEdges (route_nodes g) es routeDefaults \<and>
    g = place_cards dagre keys edges sizes ranksep \<and> leastGap \<le> ranksep"
proof -
  let ?g = "place_cards dagre keys edges sizes leastGap"
  obtain nodes es where r: "routing ?g = Some (nodes, es)" using assms by (auto simp: layOut_def Let_def bind_eq_Some_conv)
  show ?thesis
  proof (cases "lanes_gap nodes es > leastGap")
    case True
    then obtain ns es' where "routing g = Some (ns, es')" "routes = routeEdges ns es' routeDefaults"
      "g = place_cards dagre keys edges sizes (lanes_gap nodes es)"
      using assms r by (auto simp: layOut_def Let_def)
    then show ?thesis using routing_edges(1)[of g ns es'] True by fastforce
  next
    case False
    then have "g = ?g" "routes = routeEdges nodes es routeDefaults" using assms r by (auto simp: layOut_def Let_def)
    then show ?thesis using r routing_edges(1)[of g nodes es] by fastforce
  qed
qed

text \<open>Every edge between two cards of a graph laid out has a route, no other has, and every route
  runs level or upright only.\<close>

theorem layOut_routes:
  assumes "layOut dagre keys edges sizes = Some (g, routes)" and "distinct (map (edge_key \<circ> fst) (lg_edges g))"
  shows "fst ` set routes = edge_key ` {e \<in> fst ` set (lg_edges g). fst e \<in> fst ` set (lg_nodes g) \<and> snd e \<in> fst ` set (lg_nodes g)} \<and>
    list_all (\<lambda>(k, pts). orthogonal pts) routes"
proof -
  obtain es where es: "routing g = Some (route_nodes g, es)" and routes: "routes = routeEdges (route_nodes g) es routeDefaults"
    using layOut_routing[OF assms(1)] by blast
  have known: "both_known (route_nodes g) e \<longleftrightarrow> rg_from e \<in> fst ` set (lg_nodes g) \<and> rg_to e \<in> fst ` set (lg_nodes g)" for e
    by (force simp: both_known_def node_map_def map_of_js_map_of map_of_eq_None_iff route_nodes_def image_iff)
  have r: "fst ` set routes = rg_key ` {e. e \<in> set es \<and> both_known (route_nodes g) e} \<and> list_all (\<lambda>(k, pts). orthogonal pts) routes"
    unfolding routes using assms(2) routing_edges(2)[OF es] by (intro routes_orthogonal) simp
  have "map rg_key es = map (\<lambda>e. edge_key (rg_from e, rg_to e)) es"
    using routing_edges(2)[OF es] arg_cong[OF routing_edges(3)[OF es], of "map edge_key"] by (simp add: comp_def)
  then have ek: "\<forall>e \<in> set es. rg_key e = edge_key (rg_from e, rg_to e)" by simp
  let ?ends = "\<lambda>e. (rg_from e, rg_to e)" and ?R = "\<lambda>p. fst p \<in> fst ` set (lg_nodes g) \<and> snd p \<in> fst ` set (lg_nodes g)"
  have ends: "?ends ` set es = fst ` set (lg_edges g)" using arg_cong[OF routing_edges(3)[OF es], of set] by simp
  have "rg_key ` {e. e \<in> set es \<and> both_known (route_nodes g) e} = (edge_key \<circ> ?ends) ` {e \<in> set es. ?R (?ends e)}"
    unfolding known using ek by (intro image_cong) auto
  also have "\<dots> = edge_key ` {p \<in> ?ends ` set es. ?R p}" unfolding image_comp[symmetric] by (rule arg_cong[of _ _ "image edge_key"]) blast
  finally have "rg_key ` {e. e \<in> set es \<and> both_known (route_nodes g) e} = edge_key ` {p \<in> fst ` set (lg_edges g). ?R p}" unfolding ends .
  then show ?thesis using r by simp
qed

definition two_cards :: "laid \<times> (string, point list) js_map" where
  "two_cards = the (layOut stacked [''a'', ''b''] [(''a'', ''b'')] [])"

theorem layOut_routes_witness:
  "layOut stacked [''a'', ''b''] [(''a'', ''b'')] [] = Some two_cards \<and> fst ` set (snd two_cards) = {''a->b''}"
proof -
  have a: "layOut stacked [''a'', ''b''] [(''a'', ''b'')] [] = Some (fst two_cards, snd two_cards)" by code_simp
  have d: "distinct (map (edge_key \<circ> fst) (lg_edges (fst two_cards)))" by code_simp
  have e: "map fst (lg_edges (fst two_cards)) = [(''a'', ''b'')]" and n: "map fst (lg_nodes (fst two_cards)) = [''a'', ''b'']" by code_simp+
  have "fst ` set (lg_edges (fst two_cards)) = {(''a'', ''b'')}" "fst ` set (lg_nodes (fst two_cards)) = {''a'', ''b''}"
    by (simp_all only: set_map[symmetric] e n list.set)
  then show ?thesis using layOut_routes[OF a d] a by (auto simp: edge_key_def)
qed

lemma foldl_size:
  "foldl (\<lambda>(w, h) x. (max w (f x), max h (f' x))) (w, h) xs = (foldl max w (map f xs), foldl max (h::rat) (map f' xs))" for w :: rat
  by (induction xs arbitrary: w h) auto

text \<open>The graph is as large as its cards and routes, with a margin beyond each.\<close>

lemma graph_size_covers:
  "(k, n) \<in> set (lg_nodes g) \<Longrightarrow> card_left n + ld_width n + margin \<le> fst (graph_size g routes) \<and> card_top n + ld_height n + margin \<le> snd (graph_size g routes)"
  "p \<in> set (concat (map snd routes)) \<Longrightarrow> px p + margin \<le> fst (graph_size g routes) \<and> py p + margin \<le> snd (graph_size g routes)"
proof -
  let ?w = "map (\<lambda>(k, n). ld_x n + ld_width n / 2 + margin) (lg_nodes g)" and ?h = "map (\<lambda>(k, n). ld_y n + ld_height n / 2 + margin) (lg_nodes g)"
  let ?ps = "concat (map snd routes)"
  have c: "foldl (\<lambda>(w, h) (k, n). (max w (ld_x n + ld_width n / 2 + margin), max h (ld_y n + ld_height n / 2 + margin))) (0, 0) (lg_nodes g) =
      (foldl max 0 ?w, foldl max 0 ?h)"
    using foldl_size[of "\<lambda>(k, n). ld_x n + ld_width n / 2 + margin" "\<lambda>(k, n). ld_y n + ld_height n / 2 + margin" 0 0 "lg_nodes g"]
    by (simp add: case_prod_beta')
  have s: "graph_size g routes = (foldl max (foldl max 0 ?w) (map (\<lambda>p. px p + margin) ?ps), foldl max (foldl max 0 ?h) (map (\<lambda>p. py p + margin) ?ps))"
    unfolding graph_size_def Let_def c by (rule foldl_size)
  show "(k, n) \<in> set (lg_nodes g) \<Longrightarrow> card_left n + ld_width n + margin \<le> fst (graph_size g routes) \<and> card_top n + ld_height n + margin \<le> snd (graph_size g routes)"
  proof -
    assume "(k, n) \<in> set (lg_nodes g)"
    then have "ld_x n + ld_width n / 2 + margin \<in> set ?w" "ld_y n + ld_height n / 2 + margin \<in> set ?h" by force+
    then have "ld_x n + ld_width n / 2 + margin \<le> foldl max 0 ?w" "ld_y n + ld_height n / 2 + margin \<le> foldl max 0 ?h" using foldl_max_ge by blast+
    then show ?thesis using foldl_max_ge[of "foldl max 0 ?w" "map (\<lambda>p. px p + margin) ?ps"] foldl_max_ge[of "foldl max 0 ?h" "map (\<lambda>p. py p + margin) ?ps"]
      unfolding s card_left_def card_top_def fst_conv snd_conv by linarith
  qed
  show "p \<in> set ?ps \<Longrightarrow> px p + margin \<le> fst (graph_size g routes) \<and> py p + margin \<le> snd (graph_size g routes)"
    using foldl_max_ge unfolding s fst_conv snd_conv by (metis (no_types, lifting) image_eqI list.set_map)
qed

end
