(* ===== verification/Studio_Dialogs.thy ===== *)
theory Studio_Dialogs
  imports Studio_State Field_Widgets
begin

text \<open>
  The dialogs of the workflow studio: adding a step in stages
  (\<open>components/WorkflowStudio/add-step.tsx\<close>), what a loop repeats over (\<open>loop-items.tsx\<close>), and what
  the graph offers and does with a line that is dragged (\<open>graph.tsx\<close>). The definitions offered stay
  as they are while a dialog is open.
\<close>

section \<open>The types of steps, by category\<close>

record step_definition = definition_base +
  sd_alias :: "string option"
  sd_category :: "string option"

record category =
  ca_title :: string
  ca_sort :: nat
  ca_definitions :: "step_definition list"

definition defaultCategory :: "(string, category) js_map" where
  "defaultCategory = map (\<lambda>(title, n). (title, \<lparr>ca_title = title, ca_sort = n, ca_definitions = []\<rparr>))
     [(''Application Delivery'', 2), (''Resource Management'', 3), (''Terraform'', 4), (''Config Management'', 5), (''CI Integration'', 6),
      (''External Integration'', 7), (''Process Control'', 1), (''Scripts & Commands'', 8), (''Custom'', 1000)]"

definition initDefinitionCategory :: "step_definition list \<Rightarrow> step_definition list" where
  "initDefinitionCategory defs = map (\<lambda>d. if truthy (sd_category d) then d else d\<lparr>sd_category := Some ''Custom''\<rparr>) defs"

definition add_to_category :: "(string, category) js_map \<Rightarrow> step_definition \<Rightarrow> (string, category) js_map" where
  "add_to_category cs d =
     (let c = or_str (sd_category d) []
      in if c = [] then cs
         else case map_of cs c of
                Some x \<Rightarrow> AList.update c (x\<lparr>ca_definitions := ca_definitions x @ [d]\<rparr>) cs
              | None \<Rightarrow> AList.update c \<lparr>ca_title = c, ca_sort = 100, ca_definitions = [d]\<rparr> cs)"

definition buildDefinitionCategory :: "step_definition list \<Rightarrow> category list" where
  "buildDefinitionCategory defs =
     sort_key ca_sort (map snd (foldl add_to_category defaultCategory (initDefinitionCategory defs)))"

section \<open>Adding a step in stages\<close>

datatype stage = StageType | StageDetails | StageItems | StageProperties

record step_details =
  sdt_name :: "string option"
  sdt_alias :: "string option"
  sdt_description :: "string option"

record add_props =
  ap_definitions :: "step_definition list option"
  ap_used :: "string \<Rightarrow> bool"
  ap_addSub :: bool
  ap_loop :: bool
  ap_subMode :: "string option"

record add_state =
  as_selectType :: "step_definition option"
  as_stage :: nat
  as_details :: "step_details option"
  as_groupMode :: "string option"
  as_forEach :: for_each
  as_field :: step_details

definition no_details :: step_details where
  "no_details = \<lparr>sdt_name = None, sdt_alias = None, sdt_description = None\<rparr>"

definition add_new :: add_state where
  "add_new = \<lparr>as_selectType = None, as_stage = 0, as_details = None, as_groupMode = None,
     as_forEach = \<lparr>fe_items = Some (JArr []), fe_from = None, fe_key = None, fe_mode = None\<rparr>, as_field = no_details\<rparr>"

definition usable_types :: "add_props \<Rightarrow> step_definition list" where
  "usable_types props =
     filter (\<lambda>d. (\<not> ap_addSub props \<or> db_name d \<noteq> ''step-group'') \<and> isUsable (db_unusableIn d)) (or_nil (ap_definitions props))"

definition chosen :: "add_props \<Rightarrow> add_state \<Rightarrow> step_definition option" where
  "chosen props st =
     (case as_selectType st of
        Some d \<Rightarrow> Some d
      | None \<Rightarrow> if length (usable_types props) = 1 then Some (hd (usable_types props)) else None)"

definition stages :: "add_props \<Rightarrow> stage list" where
  "stages props =
     (let ss = (if length (usable_types props) = 1 then [StageDetails, StageProperties] else [StageType, StageDetails, StageProperties])
      in if ap_loop props then butlast ss @ [StageItems, StageProperties] else ss)"

definition stage_of :: "add_props \<Rightarrow> add_state \<Rightarrow> stage option" where
  "stage_of props st = nth_opt (stages props) (as_stage st)"

definition draftStep :: "add_props \<Rightarrow> add_state \<Rightarrow> wf_step" where
  "draftStep props st =
     (let type = (case chosen props st of None \<Rightarrow> [] | Some d \<Rightarrow> db_name d);
          details = coalesce (as_details st) no_details
      in \<lparr>st_name = or_str (sdt_name details) [], st_dependsOn = None, st_inputs = None, st_outputs = None, st_type = type,
          st_rest = (case sdt_alias details of None \<Rightarrow> [] | Some a \<Rightarrow> [(''alias'', JStr a)]) @
                    (case sdt_description details of None \<Rightarrow> [] | Some d \<Rightarrow> [(''description'', JStr d)]),
          st_mode = (if type = ''step-group'' then Some (or_str (as_groupMode st) (or_str (ap_subMode props) ''DAG'')) else None),
          st_forEach = (if ap_loop props then Some (as_forEach st) else None), st_subSteps = None\<rparr>)"

text \<open>The rules of the details: a name that is required, of the right form and not used, an alias of 2
  to 64 characters and a description of at most 256, where they are given.\<close>

definition details_valid :: "add_props \<Rightarrow> step_details \<Rightarrow> bool" where
  "details_valid props d \<longleftrightarrow>
     truthy (sdt_name d) \<and> checkName (the (sdt_name d)) \<and> \<not> ap_used props (the (sdt_name d)) \<and>
     (truthy (sdt_alias d) \<longrightarrow> 2 \<le> length (the (sdt_alias d)) \<and> length (the (sdt_alias d)) \<le> 64) \<and>
     (truthy (sdt_description d) \<longrightarrow> length (the (sdt_description d)) \<le> 256)"

definition add_next :: "add_props \<Rightarrow> add_state \<Rightarrow> add_state" where
  "add_next props st =
     (case stage_of props st of
        Some StageType \<Rightarrow> if chosen props st \<noteq> None then st\<lparr>as_stage := as_stage st + 1\<rparr> else st
      | Some StageItems \<Rightarrow> if truthy (forEachProblem (as_forEach st)) then st else st\<lparr>as_stage := as_stage st + 1\<rparr>
      | Some StageDetails \<Rightarrow>
          if details_valid props (as_field st) then st\<lparr>as_details := Some (as_field st), as_stage := as_stage st + 1\<rparr> else st
      | _ \<Rightarrow> st)"

definition add_back :: "add_props \<Rightarrow> add_state \<Rightarrow> add_state" where
  "add_back props st =
     (let st = (if stage_of props st = Some StageDetails then st\<lparr>as_details := Some (as_field st)\<rparr> else st)
      in st\<lparr>as_stage := as_stage st - 1\<rparr>)"

definition pick_type :: "step_definition \<Rightarrow> add_state \<Rightarrow> add_state" where
  "pick_type d st = st\<lparr>as_selectType := Some d, as_stage := as_stage st + 1\<rparr>"

text \<open>What is handed over: the step the form of its properties collects, if that is valid, with the
  mode and the loop of the draft.\<close>

definition add_step :: "add_props \<Rightarrow> wf_step option \<Rightarrow> add_state \<Rightarrow> wf_step option" where
  "add_step props collected st =
     map_option (\<lambda>s. let draft = draftStep props st
        in s\<lparr>st_mode := (if truthy (st_mode draft) then st_mode draft else st_mode s),
             st_forEach := (if st_forEach draft \<noteq> None then st_forEach draft else st_forEach s)\<rparr>) collected"

inductive add_trans :: "add_props \<Rightarrow> add_state \<Rightarrow> add_state \<Rightarrow> bool" for props where
  pick: "stage_of props st = Some StageType \<Longrightarrow> d \<in> set (usable_types props) \<Longrightarrow> add_trans props st (pick_type d st)"
| next_stage: "add_trans props st (add_next props st)"
| prev_stage: "add_trans props st (add_back props st)"
| type_details: "stage_of props st = Some StageDetails \<Longrightarrow> add_trans props st (st\<lparr>as_field := d\<rparr>)"
| set_items: "stage_of props st = Some StageItems \<Longrightarrow> add_trans props st (st\<lparr>as_forEach := f\<rparr>)"
| set_mode: "stage_of props st = Some StageProperties \<Longrightarrow> add_trans props st (st\<lparr>as_groupMode := m\<rparr>)"

section \<open>What a loop repeats over\<close>

datatype loop_source = FromList | FromStep | FromExpression

definition sourceOf :: "for_each \<Rightarrow> loop_source" where
  "sourceOf f =
     (if fe_from f \<noteq> None then FromStep
      else case fe_items f of None \<Rightarrow> FromList | Some (JArr _) \<Rightarrow> FromList | _ \<Rightarrow> FromExpression)"

record loop_items =
  li_value :: for_each
  li_kept :: "(loop_source, for_each) js_map"

definition bare_loop :: for_each where
  "bare_loop = \<lparr>fe_items = None, fe_from = None, fe_key = None, fe_mode = None\<rparr>"

definition withSettings :: "for_each \<Rightarrow> for_each \<Rightarrow> for_each" where
  "withSettings value f =
     f\<lparr>fe_mode := (if truthy (fe_mode value) then fe_mode value else fe_mode f),
       fe_key := (if fe_key value \<noteq> None then fe_key value else fe_key f)\<rparr>"

definition fresh_loop :: "loop_source \<Rightarrow> for_each" where
  "fresh_loop s =
     (case s of FromList \<Rightarrow> bare_loop\<lparr>fe_items := Some (JArr [])\<rparr> | FromStep \<Rightarrow> bare_loop\<lparr>fe_from := Some []\<rparr>
      | FromExpression \<Rightarrow> bare_loop\<lparr>fe_items := Some (JStr [])\<rparr>)"

definition switchTo :: "loop_source \<Rightarrow> loop_items \<Rightarrow> loop_items" where
  "switchTo next st =
     (let source = sourceOf (li_value st)
      in if next = source then st
         else st\<lparr>li_kept := AList.update source (li_value st) (li_kept st),
                 li_value := withSettings (li_value st) (coalesce (map_of (li_kept st) next) (fresh_loop next))\<rparr>)"

definition set_loop_list :: "json list \<Rightarrow> loop_items \<Rightarrow> loop_items" where
  "set_loop_list items st = st\<lparr>li_value := withSettings (li_value st) (bare_loop\<lparr>fe_items := Some (JArr items)\<rparr>)\<rparr>"

definition set_loop_from :: "string \<Rightarrow> loop_items \<Rightarrow> loop_items" where
  "set_loop_from v st = st\<lparr>li_value := withSettings (li_value st) (bare_loop\<lparr>fe_from := Some v\<rparr>)\<rparr>"

definition set_loop_expression :: "string \<Rightarrow> loop_items \<Rightarrow> loop_items" where
  "set_loop_expression v st = st\<lparr>li_value := withSettings (li_value st) (bare_loop\<lparr>fe_items := Some (JStr v)\<rparr>)\<rparr>"

definition set_loop_key :: "string list \<Rightarrow> loop_items \<Rightarrow> loop_items" where
  "set_loop_key key st = st\<lparr>li_value := (li_value st)\<lparr>fe_key := (if key \<noteq> [] then Some key else None)\<rparr>\<rparr>"

definition set_loop_mode :: "string \<Rightarrow> loop_items \<Rightarrow> loop_items" where
  "set_loop_mode mode st = st\<lparr>li_value := (li_value st)\<lparr>fe_mode := Some mode\<rparr>\<rparr>"

text \<open>The outputs a loop may read, of the steps other than itself, with their owners.\<close>

definition owned_outputs :: "string \<Rightarrow> 'a step_base_scheme \<Rightarrow> (string \<times> string) list" where
  "owned_outputs stepName s = (if st_name s = stepName then [] else map (\<lambda>o_name. (o_name, st_name s)) (or_nil (st_outputs s)))"

definition loop_outputs :: "string \<Rightarrow> wf_step list option \<Rightarrow> (string \<times> string) list" where
  "loop_outputs stepName steps =
     concat (map (\<lambda>s. owned_outputs stepName s @ concat (map (owned_outputs stepName) (or_nil (st_subSteps s)))) (or_nil steps))"

text \<open>The list as a table: a new key for every item, a new item, an item less.\<close>

definition add_loop_key :: "string \<Rightarrow> json list \<Rightarrow> json list" where
  "add_loop_key newKey items =
     (let key = trim newKey
      in if key = [] \<or> key \<in> set (itemColumns items) then items
         else if items = [] then [JObj [(key, JStr [])]]
         else map (\<lambda>item. if is_object item then JObj (AList.update key (JStr []) (spread item)) else JObj [(key, item)]) items)"

definition add_loop_item :: "json list \<Rightarrow> json list" where
  "add_loop_item items =
     (let columns = itemColumns items
      in items @ [if columns = [] \<and> items \<noteq> [] then JStr [] else JObj (map (\<lambda>c. (c, JStr [])) columns)])"

definition remove_loop_item :: "nat \<Rightarrow> json list \<Rightarrow> json list" where
  "remove_loop_item row items = take row items @ drop (Suc row) items"

text \<open>The list as YAML: the text, its error and the list it takes effect as.\<close>

definition items_yaml :: "(string \<Rightarrow> string + json option) \<Rightarrow> string \<Rightarrow> string \<times> json list option" where
  "items_yaml load v =
     (case load v of
        Inl e \<Rightarrow> (e, None)
      | Inr (Some (JArr items)) \<Rightarrow> ([], Some items)
      | Inr _ \<Rightarrow> (''The items must be a list'', None))"

definition loopModeLabel :: "string option \<Rightarrow> string" where
  "loopModeLabel mode = (if mode = Some ''DAG'' then ''All at once'' else ''One at a time'')"

section \<open>Lines that are dragged\<close>

record drag =
  dr_from :: string
  dr_x0 :: rat
  dr_y0 :: rat
  dr_x :: rat
  dr_y :: rat

record link_state =
  lk_drag :: "drag option"
  lk_picked :: "(string \<times> string) option"

definition startDrag :: "string \<Rightarrow> rat \<Rightarrow> rat \<Rightarrow> rat \<Rightarrow> rat \<Rightarrow> link_state \<Rightarrow> link_state" where
  "startDrag from x0 y0 x y st = st\<lparr>lk_picked := None, lk_drag := Some \<lparr>dr_from = from, dr_x0 = x0, dr_y0 = y0, dr_x = x, dr_y = y\<rparr>\<rparr>"

definition moveDrag :: "rat \<Rightarrow> rat \<Rightarrow> link_state \<Rightarrow> link_state" where
  "moveDrag x y st = st\<lparr>lk_drag := map_option (\<lambda>d. d\<lparr>dr_x := x, dr_y := y\<rparr>) (lk_drag st)\<rparr>"

text \<open>Where the line is dropped, a card of the graph or none, and the dependency it makes.\<close>

definition dropDrag :: "wf_step list \<Rightarrow> string option \<Rightarrow> link_state \<Rightarrow> (string \<times> string) option \<times> link_state" where
  "dropDrag steps target st =
     ((case (lk_drag st, target) of
         (Some d, Some t) \<Rightarrow> if t \<noteq> [] \<and> canDependOn steps (dr_from d) t then Some (dr_from d, t) else None
       | _ \<Rightarrow> None), st\<lparr>lk_drag := None\<rparr>)"

definition removable :: "wf_step list \<Rightarrow> string \<times> string \<Rightarrow> bool" where
  "removable steps e \<longleftrightarrow>
     (case find (\<lambda>s. st_name s = snd e) steps of None \<Rightarrow> False | Some s \<Rightarrow> fst e \<in> set (or_nil (st_dependsOn s)))"

definition addItems :: "string option \<Rightarrow> (string \<times> bool) list" where
  "addItems grp = [(''step'', False), (''group'', truthy grp), (''loop'', truthy grp)]"

definition kindOf :: "string \<Rightarrow> string" where
  "kindOf key = (if key = ''group'' then ''group'' else if key = ''loop'' then ''loop'' else ''step'')"

section \<open>Every type is in its category\<close>

definition categorised :: "(string, category) js_map \<Rightarrow> bool" where
  "categorised cs \<longleftrightarrow> distinct (map fst cs) \<and>
     list_all (\<lambda>(k, c). ca_title c = k \<and> list_all (\<lambda>d. sd_category d = Some k) (ca_definitions c)) cs"

abbreviation category_defs :: "(string, category) js_map \<Rightarrow> step_definition multiset" where
  "category_defs cs \<equiv> mset (concat (map (\<lambda>c. ca_definitions (snd c)) cs))"

lemma update_category_defs:
  "map_of cs c = Some x \<Longrightarrow> category_defs (AList.update c (x\<lparr>ca_definitions := ca_definitions x @ [d]\<rparr>) cs) = add_mset d (category_defs cs)"
  by (induction cs) auto

lemma update_mem: "(k, c) \<in> set (AList.update a b m) \<Longrightarrow> distinct (map fst m) \<Longrightarrow> (k = a \<and> c = b) \<or> (k \<noteq> a \<and> (k, c) \<in> set m)"
proof (induction m)
  case (Cons p m)
  then show ?case by (cases p) (force split: if_splits)
qed simp

lemma add_to_category_ok:
  assumes "categorised cs" and "sd_category d = Some k" and "k \<noteq> []"
  shows "categorised (add_to_category cs d) \<and> category_defs (add_to_category cs d) = add_mset d (category_defs cs)"
proof (cases "map_of cs k")
  case None
  then have f: "add_to_category cs d = cs @ [(k, \<lparr>ca_title = k, ca_sort = 100, ca_definitions = [d]\<rparr>)]"
    using assms(2,3) alist_update_fresh[of k cs] by (simp add: add_to_category_def or_str_def truthy_iff Let_def) (simp add: map_of_eq_None_iff)
  show ?thesis using assms None unfolding f by (auto simp: categorised_def map_of_eq_None_iff)
next
  case (Some x)
  then have f: "add_to_category cs d = AList.update k (x\<lparr>ca_definitions := ca_definitions x @ [d]\<rparr>) cs"
    using assms(2,3) by (simp add: add_to_category_def or_str_def truthy_iff Let_def)
  have x: "ca_title x = k \<and> list_all (\<lambda>d. sd_category d = Some k) (ca_definitions x)"
    using map_of_SomeD[OF Some] assms(1) by (auto simp: categorised_def list_all_iff)
  have "ca_title c = j \<and> list_all (\<lambda>d. sd_category d = Some j) (ca_definitions c)"
    if "(j, c) \<in> set (AList.update k (x\<lparr>ca_definitions := ca_definitions x @ [d]\<rparr>) cs)" for j c
    using update_mem[OF that] assms(1,2) x by (auto simp: categorised_def list_all_iff)
  then have "categorised (add_to_category cs d)" using assms(1) unfolding f categorised_def by (auto simp: distinct_update list_all_iff)
  then show ?thesis using update_category_defs[OF Some] unfolding f by simp
qed

lemma mset_concat_map: "mset (concat (map f xs)) = \<Sum>\<^sub># (image_mset (\<lambda>x. mset (f x)) (mset xs))"
  by (induction xs) simp_all

lemma foldl_categories:
  assumes "categorised cs" and "list_all (\<lambda>d. truthy (sd_category d)) defs"
  shows "categorised (foldl add_to_category cs defs) \<and> category_defs (foldl add_to_category cs defs) = category_defs cs + mset defs"
  using assms
proof (induction defs arbitrary: cs)
  case (Cons d defs)
  then obtain k where "sd_category d = Some k" "k \<noteq> []" by (auto simp: truthy_iff)
  then have d: "categorised (add_to_category cs d)" "category_defs (add_to_category cs d) = add_mset d (category_defs cs)"
    using Cons(2) add_to_category_ok[of cs d k] by blast+
  have "list_all (\<lambda>d. truthy (sd_category d)) defs" using Cons(3) by simp
  from Cons.IH[OF d(1) this] show ?case using d(2) by simp
qed simp

text \<open>The types of steps on offer are in their categories, each once: every type is in the one of
  its category, or in Custom when it names none, no category holds another, and the categories
  are in the order of their ranks.\<close>

theorem buildDefinitionCategory_partition:
  "mset (concat (map ca_definitions (buildDefinitionCategory defs))) = mset (initDefinitionCategory defs) \<and>
   list_all (\<lambda>c. list_all (\<lambda>d. sd_category d = Some (ca_title c)) (ca_definitions c)) (buildDefinitionCategory defs) \<and>
   distinct (map ca_title (buildDefinitionCategory defs)) \<and> sorted (map ca_sort (buildDefinitionCategory defs))"
proof -
  let ?cs = "foldl add_to_category defaultCategory (initDefinitionCategory defs)"
  have "categorised defaultCategory" "category_defs defaultCategory = {#}" by (simp_all add: defaultCategory_def categorised_def)
  moreover have "list_all (\<lambda>d. truthy (sd_category d)) (initDefinitionCategory defs)" by (auto simp: initDefinitionCategory_def list_all_iff)
  ultimately have c: "categorised ?cs" "category_defs ?cs = mset (initDefinitionCategory defs)" using foldl_categories by fastforce+
  have "mset (concat (map ca_definitions (buildDefinitionCategory defs))) = category_defs ?cs"
    unfolding buildDefinitionCategory_def by (subst mset_concat_map) (simp add: mset_concat_map comp_def flip: mset_map)
  moreover have "map ca_title (map snd ?cs) = map fst ?cs" using c(1) by (auto simp: categorised_def list_all_iff)
  then have "distinct (map ca_title (map snd ?cs))" using c(1) by (simp only: categorised_def)
  then have "distinct (map ca_title (buildDefinitionCategory defs))"
    unfolding buildDefinitionCategory_def by (metis distinct_map distinct_sort set_sort)
  moreover have "list_all (\<lambda>c. list_all (\<lambda>d. sd_category d = Some (ca_title c)) (ca_definitions c)) (buildDefinitionCategory defs)"
    using c(1) by (auto simp: buildDefinitionCategory_def categorised_def list_all_iff)
  ultimately show ?thesis using c(2) by (simp add: buildDefinitionCategory_def)
qed

section \<open>Nothing is added until every stage is valid\<close>

definition passed :: "add_props \<Rightarrow> add_state \<Rightarrow> stage \<Rightarrow> bool" where
  "passed props st s \<longleftrightarrow>
     (case s of
        StageType \<Rightarrow> as_selectType st \<noteq> None
      | StageDetails \<Rightarrow> (\<exists>d. as_details st = Some d \<and> details_valid props d)
      | StageItems \<Rightarrow> \<not> truthy (forEachProblem (as_forEach st))
      | StageProperties \<Rightarrow> False)"

definition add_inv :: "add_props \<Rightarrow> add_state \<Rightarrow> bool" where
  "add_inv props st \<longleftrightarrow> as_stage st < length (stages props) \<and> list_all (passed props st) (take (as_stage st) (stages props)) \<and>
     (\<forall>d. as_selectType st = Some d \<longrightarrow> d \<in> set (usable_types props))"

lemma stages_shape: "distinct (stages props)" "last (stages props) = StageProperties" "stages props \<noteq> []"
  "StageType \<in> set (stages props) \<longleftrightarrow> length (usable_types props) \<noteq> 1"
  "StageDetails \<in> set (butlast (stages props))" "StageItems \<in> set (butlast (stages props)) \<longleftrightarrow> ap_loop props"
  "StageType \<in> set (stages props) \<Longrightarrow> StageType \<in> set (butlast (stages props))"
  by (simp_all add: stages_def Let_def split: if_splits)

lemma stage_of_here: "stage_of props st = Some s \<Longrightarrow> as_stage st < length (stages props) \<and> stages props ! as_stage st = s"
  by (simp add: stage_of_def nth_opt_def split: if_splits)

lemma stage_not_before: "stage_of props st = Some s \<Longrightarrow> s \<notin> set (take (as_stage st) (stages props))"
  using stage_of_here[of props st s] stages_shape(1)[of props]
  by (metis distinct_take in_set_takeD in_set_conv_nth length_take min.strict_boundedE nth_eq_iff_index_eq nth_take less_irrefl)

lemma stage_advances:
  assumes "stage_of props st = Some s" and "s \<noteq> StageProperties" and "list_all P (take (as_stage st) (stages props))" and "P s"
  shows "as_stage st + 1 < length (stages props) \<and> list_all P (take (as_stage st + 1) (stages props))"
proof -
  have h: "as_stage st < length (stages props)" "stages props ! as_stage st = s" using stage_of_here[OF assms(1)] by auto
  have "as_stage st \<noteq> length (stages props) - 1" using h assms(2) stages_shape(2,3)[of props] by (metis last_conv_nth)
  then show ?thesis using h assms(3,4) by (auto simp: take_Suc_conv_app_nth)
qed

lemma passed_mono: "list_all (passed props st) xs \<Longrightarrow> (\<And>s. s \<in> set xs \<Longrightarrow> passed props st s \<Longrightarrow> passed props st' s) \<Longrightarrow> list_all (passed props st') xs"
  by (simp add: list_all_iff)

lemma take_pred: "list_all P (take n xs) \<Longrightarrow> list_all P (take (n - 1) xs)"
  using set_take_subset_set_take[of "n - 1" n xs] by (auto simp: list_all_iff)

lemma add_trans_inv: "add_trans props st st' \<Longrightarrow> add_inv props st \<Longrightarrow> add_inv props st'"
proof (induction rule: add_trans.induct)
  case (pick st d)
  have "list_all (passed props (pick_type d st)) (take (as_stage st) (stages props))"
    using pick(3) by (auto simp: add_inv_def pick_type_def intro: passed_mono simp: passed_def split: stage.splits)
  then have "as_stage st + 1 < length (stages props) \<and> list_all (passed props (pick_type d st)) (take (as_stage st + 1) (stages props))"
    by (intro stage_advances[OF pick(1)]) (simp_all add: passed_def pick_type_def)
  then show ?case using pick(2) by (simp add: add_inv_def pick_type_def)
next
  case (next_stage st)
  show ?case
  proof (cases "stage_of props st")
    case (Some s)
    have keep: "list_all (passed props (st\<lparr>as_stage := n\<rparr>)) (take (as_stage st) (stages props))" for n
      using next_stage by (auto simp: add_inv_def intro: passed_mono simp: passed_def split: stage.splits)
    have det: "list_all (passed props (st\<lparr>as_details := Some (as_field st), as_stage := n\<rparr>)) (take (as_stage st) (stages props))"
      if "s = StageDetails" for n
      using next_stage stage_not_before[OF Some] that unfolding add_inv_def
      by (elim conjE) (erule passed_mono, auto simp: passed_def split: stage.splits)
    show ?thesis
    proof (cases s)
      case StageType
      show ?thesis
      proof (cases "as_selectType st")
        case None
        have "StageType \<in> set (stages props)" using stage_of_here[OF Some] StageType nth_mem by metis
        then have "chosen props st = None" using None stages_shape(4)[of props] by (simp add: chosen_def)
        then show ?thesis using next_stage Some StageType by (simp add: add_next_def)
      next
        case (Some d)
        then show ?thesis using next_stage stage_advances[OF \<open>stage_of props st = Some s\<close> _ keep[of "as_stage st + 1"]] StageType \<open>stage_of props st = Some s\<close>
          by (simp add: add_next_def add_inv_def passed_def chosen_def)
      qed
    next
      case StageDetails
      then show ?thesis using next_stage stage_advances[OF Some _ det[OF StageDetails, of "as_stage st + 1"]] Some
        by (simp add: add_next_def add_inv_def passed_def)
    next
      case StageItems
      then show ?thesis using next_stage stage_advances[OF Some _ keep[of "as_stage st + 1"]] Some
        by (simp add: add_next_def add_inv_def passed_def)
    next
      case StageProperties
      then show ?thesis using next_stage Some by (simp add: add_next_def)
    qed
  qed (use next_stage in \<open>simp add: add_next_def\<close>)
next
  case (prev_stage st)
  let ?st = "if stage_of props st = Some StageDetails then st\<lparr>as_details := Some (as_field st)\<rparr> else st"
  have "list_all (passed props (?st\<lparr>as_stage := as_stage st - 1\<rparr>)) (take (as_stage st) (stages props))"
    using prev_stage stage_not_before[of props st StageDetails] unfolding add_inv_def
    by (elim conjE) (erule passed_mono, auto simp: passed_def split: stage.splits)
  then show ?case using prev_stage take_pred by (auto simp: add_back_def Let_def add_inv_def)
next
  case (type_details st d)
  then show ?case by (auto simp: add_inv_def intro: passed_mono simp: passed_def split: stage.splits)
next
  case (set_items st f)
  have "list_all (passed props (st\<lparr>as_forEach := f\<rparr>)) (take (as_stage st) (stages props))"
    using set_items stage_not_before[of props st StageItems] unfolding add_inv_def
    by (elim conjE) (erule passed_mono, auto simp: passed_def split: stage.splits)
  then show ?case using set_items by (simp add: add_inv_def)
next
  case (set_mode st m)
  then show ?case by (auto simp: add_inv_def intro: passed_mono simp: passed_def split: stage.splits)
qed


interpretation adding: machine "add_trans props" "add_inv props" "\<lambda>st. st = add_new" for props
proof unfold_locales
  show "add_inv props st" if "st = add_new" for st using that stages_shape(3)[of props] by (simp add: add_inv_def add_new_def)
qed (rule add_trans_inv)

lemma at_properties:
  assumes "add_inv props st" and "stage_of props st = Some StageProperties"
  shows "list_all (passed props st) (butlast (stages props))"
proof -
  have h: "as_stage st < length (stages props)" "stages props ! as_stage st = stages props ! (length (stages props) - 1)"
    using stage_of_here[OF assms(2)] stages_shape(2,3)[of props] by (simp_all add: last_conv_nth)
  then have "as_stage st = length (stages props) - 1" using stages_shape(1)[of props] by (simp add: nth_eq_iff_index_eq)
  then show ?thesis using assms(1) by (simp add: add_inv_def butlast_conv_take)
qed

lemma only_usable: "length xs = 1 \<Longrightarrow> hd xs \<in> set xs"
  by (cases xs) auto

text \<open>C29: whatever is picked, typed, gone back to or set in the dialog, its last stage, the only one that
  adds a step, is reached with a type that is on offer, with details that are valid, the name
  not used by another step, and, for a loop, with items it can repeat over; the step the dialog
  drafts has that type and that name.\<close>

theorem add_step_valid:
  assumes "(add_trans props)\<^sup>*\<^sup>* add_new st" and "stage_of props st = Some StageProperties"
  shows "(\<exists>d \<in> set (usable_types props). chosen props st = Some d \<and> st_type (draftStep props st) = db_name d) \<and>
    (\<exists>d. as_details st = Some d \<and> details_valid props d \<and> st_name (draftStep props st) = the (sdt_name d)) \<and>
    \<not> ap_used props (st_name (draftStep props st)) \<and>
    (ap_loop props \<longrightarrow> st_forEach (draftStep props st) = Some (as_forEach st) \<and> \<not> truthy (forEachProblem (as_forEach st)))"
proof -
  have i: "add_inv props st" using adding.reachable_inv[OF _ assms(1)] by simp
  note p = at_properties[OF i assms(2)]
  have "passed props st StageDetails" using p stages_shape(5)[of props] by (simp add: list_all_iff)
  then obtain d where d: "as_details st = Some d" "details_valid props d" by (auto simp: passed_def)
  then have n: "st_name (draftStep props st) = the (sdt_name d)" by (simp add: draftStep_def Let_def or_str_def details_valid_def)
  have "\<exists>d \<in> set (usable_types props). chosen props st = Some d"
  proof (cases "as_selectType st")
    case None
    then have "\<not> passed props st StageType" by (simp add: passed_def)
    then have "StageType \<notin> set (stages props)" using p stages_shape(7)[of props] by (auto simp: list_all_iff)
    then have "length (usable_types props) = 1" using stages_shape(4)[of props] by blast
    then show ?thesis using None only_usable[of "usable_types props"] by (simp add: chosen_def)
  qed (use i in \<open>simp add: chosen_def add_inv_def\<close>)
  then obtain c where c: "c \<in> set (usable_types props)" "chosen props st = Some c" by blast
  then have t: "st_type (draftStep props st) = db_name c" by (simp add: draftStep_def Let_def)
  have l: "st_forEach (draftStep props st) = Some (as_forEach st) \<and> \<not> truthy (forEachProblem (as_forEach st))" if "ap_loop props"
  proof -
    have "passed props st StageItems" using p that stages_shape(6)[of props] by (simp add: list_all_iff)
    then show ?thesis using that by (simp add: passed_def draftStep_def Let_def)
  qed
  show ?thesis using c t d n l by (auto simp: details_valid_def)
qed

definition loop_dialog :: add_props where
  "loop_dialog = \<lparr>ap_definitions = Some [\<lparr>db_name = ''deploy'', db_workloadType = None, db_unusableIn = None, sd_alias = None, sd_category = None\<rparr>],
     ap_used = (\<lambda>n. n = ''first''), ap_addSub = False, ap_loop = True, ap_subMode = None\<rparr>"

definition loop_typed :: add_state where
  "loop_typed = add_new\<lparr>as_field := no_details\<lparr>sdt_name := Some ''second''\<rparr>\<rparr>"

definition loop_ready :: add_state where
  "loop_ready = loop_typed\<lparr>as_details := Some (as_field loop_typed), as_stage := 2,
     as_forEach := bare_loop\<lparr>fe_items := Some (JArr [JStr ''a''])\<rparr>\<rparr>"

lemma loop_dialog_stages: "stages loop_dialog = [StageDetails, StageItems, StageProperties]"
  by (simp add: stages_def loop_dialog_def usable_types_def isUsable_def Let_def)

lemma loop_ready_reached: "(add_trans loop_dialog)\<^sup>*\<^sup>* add_new loop_ready"
proof -
  let ?named = "loop_typed\<lparr>as_details := Some (as_field loop_typed), as_stage := 1\<rparr>"
  let ?filled = "?named\<lparr>as_forEach := bare_loop\<lparr>fe_items := Some (JArr [JStr ''a''])\<rparr>\<rparr>"
  have so: "stage_of loop_dialog st = nth_opt [StageDetails, StageItems, StageProperties] (as_stage st)" for st
    by (simp add: stage_of_def loop_dialog_stages)
  have "add_trans loop_dialog add_new loop_typed"
    unfolding loop_typed_def by (rule type_details) (simp add: so add_new_def nth_opt_def)
  moreover have "details_valid loop_dialog (no_details\<lparr>sdt_name := Some ''second''\<rparr>)"
    unfolding details_valid_def no_details_def loop_dialog_def by code_simp
  then have "add_next loop_dialog loop_typed = ?named"
    by (simp add: add_next_def so nth_opt_def loop_typed_def add_new_def)
  then have "add_trans loop_dialog loop_typed ?named" by (metis next_stage)
  moreover have "add_trans loop_dialog ?named ?filled"
    by (rule set_items) (simp add: so nth_opt_def)
  moreover have "add_next loop_dialog ?filled = loop_ready"
    by (simp add: add_next_def so nth_opt_def loop_ready_def forEachProblem_def bare_loop_def loop_typed_def add_new_def)
  then have "add_trans loop_dialog ?filled loop_ready" by (metis next_stage)
  ultimately show ?thesis by (meson rtranclp.rtrancl_into_rtrancl rtranclp.rtrancl_refl)
qed

theorem add_step_valid_witness:
  "stage_of loop_dialog loop_ready = Some StageProperties \<and> \<not> ap_used loop_dialog (st_name (draftStep loop_dialog loop_ready))"
proof -
  have "stage_of loop_dialog loop_ready = Some StageProperties"
    by (simp add: stage_of_def loop_dialog_stages nth_opt_def loop_ready_def)
  then show ?thesis using add_step_valid[OF loop_ready_reached] by blast
qed

section \<open>Switching what a loop repeats over\<close>

definition kept_ok :: "loop_items \<Rightarrow> bool" where
  "kept_ok st \<longleftrightarrow> (\<forall>s f. map_of (li_kept st) s = Some f \<longrightarrow> sourceOf f = s)"

inductive loop_trans :: "loop_items \<Rightarrow> loop_items \<Rightarrow> bool" where
  switched: "loop_trans st (switchTo s st)"
| listed: "sourceOf (li_value st) = FromList \<Longrightarrow> loop_trans st (set_loop_list items st)"
| read_from: "sourceOf (li_value st) = FromStep \<Longrightarrow> loop_trans st (set_loop_from v st)"
| expressed: "sourceOf (li_value st) = FromExpression \<Longrightarrow> loop_trans st (set_loop_expression v st)"
| keyed: "loop_trans st (set_loop_key key st)"
| moded: "loop_trans st (set_loop_mode m st)"

lemma sourceOf_withSettings [simp]: "sourceOf (withSettings v f) = sourceOf f"
  by (simp add: sourceOf_def withSettings_def)

lemma sourceOf_key [simp]: "sourceOf (f\<lparr>fe_key := k\<rparr>) = sourceOf f"
  by (simp add: sourceOf_def)

lemma sourceOf_fresh [simp]: "sourceOf (fresh_loop s) = s"
  by (cases s) (simp_all add: sourceOf_def fresh_loop_def bare_loop_def)

lemma switchTo_kept: "kept_ok st \<Longrightarrow> kept_ok (switchTo s st)"
  by (auto simp: kept_ok_def switchTo_def Let_def update_conv')

lemma switchTo_source: "kept_ok st \<Longrightarrow> sourceOf (li_value (switchTo s st)) = s"
  by (cases "map_of (li_kept st) s") (auto simp: kept_ok_def switchTo_def Let_def)

interpretation looping: machine loop_trans kept_ok "\<lambda>st. li_kept st = []"
proof unfold_locales
  show "kept_ok st'" if "loop_trans st st'" "kept_ok st" for st st'
    using that by cases (simp_all add: switchTo_kept, simp_all add: kept_ok_def set_loop_list_def set_loop_from_def set_loop_expression_def set_loop_key_def set_loop_mode_def)
qed (simp add: kept_ok_def)

text \<open>Switching what a loop repeats over takes effect, and switching there and back loses nothing:
  the items and the output it reads are those from before, and so are its mode and its key
  where it has them.\<close>

theorem loop_switch_back:
  assumes "li_kept st0 = []" and "loop_trans\<^sup>*\<^sup>* st0 st"
  shows "sourceOf (li_value (switchTo s st)) = s \<and>
    (let back_again = li_value (switchTo (sourceOf (li_value st)) (switchTo s st))
     in fe_items back_again = fe_items (li_value st) \<and> fe_from back_again = fe_from (li_value st) \<and>
        (truthy (fe_mode (li_value st)) \<longrightarrow> fe_mode back_again = fe_mode (li_value st)) \<and>
        (fe_key (li_value st) \<noteq> None \<longrightarrow> fe_key back_again = fe_key (li_value st)))"
proof -
  have k: "kept_ok st" using looping.reachable_inv[OF assms] .
  note s = switchTo_source[OF k, of s]
  show ?thesis
  proof (cases "s = sourceOf (li_value st)")
    case False
    have "li_value (switchTo (sourceOf (li_value st)) (switchTo s st)) = withSettings (li_value (switchTo s st)) (li_value st)"
      using False s by (simp add: switchTo_def[of "sourceOf (li_value st)"]) (simp add: switchTo_def Let_def update_conv')
    then show ?thesis using s False by (simp add: Let_def withSettings_def) (simp add: switchTo_def Let_def withSettings_def)
  qed (simp add: switchTo_def Let_def)
qed

theorem loop_switch_back_witness:
  "fe_items (li_value (switchTo FromList (switchTo FromStep \<lparr>li_value = fresh_loop FromList, li_kept = []\<rparr>))) = Some (JArr [])"
  using loop_switch_back[of "\<lparr>li_value = fresh_loop FromList, li_kept = []\<rparr>" "\<lparr>li_value = fresh_loop FromList, li_kept = []\<rparr>" FromStep]
  by (simp add: Let_def fresh_loop_def bare_loop_def sourceOf_def)

text \<open>A key is not lost by mistake, but neither can it always be removed: one that is removed after
  the switch comes back with what was kept.\<close>

lemma loop_key_resurrected:
  assumes "kept_ok st" and "s \<noteq> sourceOf (li_value st)" and "fe_key (li_value st) = Some k"
  shows "fe_key (li_value (set_loop_key [] (switchTo s st))) = None \<and>
    fe_key (li_value (switchTo (sourceOf (li_value st)) (set_loop_key [] (switchTo s st)))) = Some k"
proof -
  let ?st = "set_loop_key [] (switchTo s st)"
  have "sourceOf (li_value ?st) = s" using switchTo_source[OF assms(1), of s] by (simp add: set_loop_key_def)
  moreover have "map_of (li_kept ?st) (sourceOf (li_value st)) = Some (li_value st)"
    using assms(2) by (simp add: set_loop_key_def switchTo_def Let_def update_conv')
  moreover have "fe_key (li_value ?st) = None" by (simp add: set_loop_key_def)
  ultimately show ?thesis using assms(2,3) by (simp add: switchTo_def[of "sourceOf (li_value st)"] withSettings_def)
qed

section \<open>Lines that are dropped\<close>

text \<open>A line makes a dependency only where one may be added, and nothing is dragged afterwards.\<close>

lemma dropDrag_allowed:
  "lk_drag (snd (dropDrag steps target st)) = None \<and>
   (fst (dropDrag steps target st) = Some (a, b) \<longleftrightarrow>
      (\<exists>d. lk_drag st = Some d \<and> dr_from d = a) \<and> target = Some b \<and> b \<noteq> [] \<and> canDependOn steps a b)"
  by (auto simp: dropDrag_def split: option.splits)

lemma add_loop_item_columns: "length (add_loop_item items) = length items + 1 \<and> take (length items) (add_loop_item items) = items"
  by (simp add: add_loop_item_def Let_def)

lemma remove_added_item: "remove_loop_item (length items) (add_loop_item items) = items"
  by (simp add: remove_loop_item_def add_loop_item_def Let_def)

end
