(* ===== verification/Studio_Pages.thy ===== *)
theory Studio_Pages
  imports Studio_Dialogs Search_Forms Permission
begin

text \<open>
  The pages around the workflow studio: a workflow of an application
  (\<open>pages/ApplicationWorkflowStudio\<close>), a pipeline (\<open>pages/PipelineStudio\<close>) and a shared workflow
  (\<open>pages/SharedWorkflowStudio\<close>), with the panel of settings (\<open>WorkflowStudio/settings.tsx\<close>),
  the question before saving (\<open>confirm.tsx\<close>) and the canary setting. Answers of the backend come
  at any time and in any order.
\<close>

section \<open>Workflows and their settings\<close>

record workflow_doc =
  wd_name :: string
  wd_alias :: "string option"
  wd_description :: "string option"
  wd_default :: bool
  wd_mode :: string
  wd_subMode :: string
  wd_steps :: "wf_step list option"
  wd_ref :: "string option"
  wd_sharedScope :: "string option"
  wd_sharedMode :: "string option"
  wd_sharedSubMode :: "string option"

record shared_doc = shared_workflow +
  sx_namespace :: string
  sx_mode :: "string option"
  sx_subMode :: "string option"
  sx_steps :: "wf_step list"

record wf_settings =
  se_name :: string
  se_alias :: "string option"
  se_description :: "string option"
  se_mode :: string
  se_subMode :: string
  se_default :: bool
  se_ref :: "string option"

text \<open>A mode that may be unset is the empty text, as in the program.\<close>

definition mode_or :: "string \<Rightarrow> string option \<Rightarrow> string \<Rightarrow> string" where
  "mode_or own other dflt = or_str (Some own) (or_str other dflt)"

definition modeLabel :: "string option \<Rightarrow> string" where
  "modeLabel mode = (if mode = Some ''DAG'' then ''In parallel'' else ''In order'')"

definition scopeLabel :: "string option \<Rightarrow> string" where
  "scopeLabel scope =
     (if scope = Some ''global'' then ''Global'' else if scope = Some ''project'' then ''Project'' else ''This environment'')"

record shared_option =
  so_value :: string
  so_label :: string
  so_disabled :: bool

definition shared_option_of :: "bool \<Rightarrow> shared_doc \<Rightarrow> shared_option" where
  "shared_option_of projectUnavailable s =
     (let usable = usableShared (shared_workflow.truncate s) projectUnavailable;
          why = (if sw_hidden s then ''hidden by the project's'' else if \<not> usable then ''not reachable from this environment'' else [])
      in \<lparr>so_value = (if usable then sw_name s else ''unusable:'' @ sw_scope s @ '':'' @ sw_name s),
          so_label = or_str (sw_alias s) (sw_name s) @ (if why \<noteq> [] then '' ('' @ why @ '')'' else []),
          so_disabled = \<not> usable\<rparr>)"

definition sharedOptions :: "shared_doc list \<Rightarrow> bool \<Rightarrow> (string \<times> shared_option list) list" where
  "sharedOptions shared projectUnavailable =
     filter (\<lambda>(label, children). children \<noteq> [])
       (map (\<lambda>scope. (scopeLabel (Some scope), map (shared_option_of projectUnavailable) (filter (\<lambda>s. sw_scope s = scope) shared)))
          [''project'', ''global''])"

datatype steps_from = OwnSteps | SharedSteps

record shared_answer =
  sa_workflows :: "shared_doc list"
  sa_globalUnavailable :: bool
  sa_projectUnavailable :: bool

record settings_panel =
  sp_settings :: wf_settings
  sp_values :: wf_settings
  sp_stepsFrom :: steps_from
  sp_shared :: "shared_doc list option"
  sp_globalUnavailable :: bool
  sp_projectUnavailable :: bool

definition panel_open :: "wf_settings \<Rightarrow> settings_panel" where
  "panel_open settings =
     \<lparr>sp_settings = settings, sp_values = settings, sp_stepsFrom = (if truthy (se_ref settings) then SharedSteps else OwnSteps),
      sp_shared = None, sp_globalUnavailable = False, sp_projectUnavailable = False\<rparr>"

definition panel_loaded :: "shared_answer \<Rightarrow> settings_panel \<Rightarrow> settings_panel" where
  "panel_loaded res p =
     p\<lparr>sp_shared := Some (sa_workflows res), sp_globalUnavailable := sa_globalUnavailable res,
       sp_projectUnavailable := sa_projectUnavailable res\<rparr>"

definition chosen_shared :: "settings_panel \<Rightarrow> shared_doc option" where
  "chosen_shared p =
     find (\<lambda>s. Some (sw_name s) = se_ref (sp_values p) \<and> usableShared (shared_workflow.truncate s) (sp_projectUnavailable p))
       (or_nil (sp_shared p))"

definition set_stepsFrom :: "steps_from \<Rightarrow> settings_panel \<Rightarrow> settings_panel" where
  "set_stepsFrom from p =
     (let p = p\<lparr>sp_stepsFrom := from\<rparr>
      in if from = SharedSteps \<and> \<not> truthy (se_ref (sp_settings p))
         then p\<lparr>sp_values := (sp_values p)\<lparr>se_mode := [], se_subMode := []\<rparr>\<rparr> else p)"

definition settings_valid :: "settings_panel \<Rightarrow> bool" where
  "settings_valid p \<longleftrightarrow>
     (let v = sp_values p
      in (truthy (se_alias v) \<longrightarrow> 2 \<le> length (the (se_alias v)) \<and> length (the (se_alias v)) \<le> 64) \<and>
         (truthy (se_description v) \<longrightarrow> length (the (se_description v)) \<le> 256) \<and>
         (sp_stepsFrom p = SharedSteps \<longrightarrow> truthy (se_ref v)))"

definition panel_apply :: "settings_panel \<Rightarrow> (wf_settings \<times> shared_doc option) option" where
  "panel_apply p =
     (if \<not> settings_valid p then None
      else let v = (sp_values p)\<lparr>se_name := se_name (sp_settings p)\<rparr>
           in if sp_stepsFrom p = OwnSteps
              then Some (v\<lparr>se_ref := None, se_mode := or_str (Some (se_mode v)) ''StepByStep'', se_subMode := or_str (Some (se_subMode v)) ''DAG''\<rparr>, None)
              else Some (v, chosen_shared p))"

definition modeOptions :: "settings_panel \<Rightarrow> string option \<Rightarrow> (string \<times> string) list" where
  "modeOptions p shared =
     (if sp_stepsFrom p = SharedSteps then [([], ''Use the shared workflow's ('' @ modeLabel shared @ '')'')] else []) @
     [(''StepByStep'', ''In order''), (''DAG'', ''In parallel'')]"

text \<open>Saving, or the question first, with the waits it names.\<close>

definition confirmOrderedSave :: "wf_step list \<Rightarrow> string \<Rightarrow> string \<Rightarrow> 'r \<Rightarrow> (string \<times> string) list + 'r" where
  "confirmOrderedSave steps mode subMode save =
     (let forward = forwardWaitsIn steps mode subMode in if forward = [] then Inr save else Inl forward)"

section \<open>The studio of an application's workflow\<close>

datatype edit_mode = Visual | Yaml

record app_studio =
  ws_app :: "string option"
  ws_env :: "deploy_target list"
  ws_envName :: string
  ws_workflow :: "workflow_doc option"
  ws_definitions :: "step_definition list option"
  ws_steps :: "wf_step list option"
  ws_changed :: bool
  ws_saving :: bool
  ws_mode :: string
  ws_subMode :: string
  ws_ref :: "string option"
  ws_sharedScope :: "string option"
  ws_sharedMode :: "string option"
  ws_sharedSubMode :: "string option"
  ws_editMode :: edit_mode
  ws_setCanary :: bool
  ws_alias :: "string option"
  ws_description :: "string option"
  ws_isDefault :: bool
  ws_showSettings :: bool
  ws_request :: nat
  ws_asked :: "(nat \<times> string list) list"

record workflow_body =
  wb_alias :: "string option"
  wb_description :: "string option"
  wb_default :: bool
  wb_mode :: string
  wb_subMode :: string
  wb_ref :: "string option"
  wb_steps :: "wf_step list"

definition new_app_studio :: "string option \<Rightarrow> deploy_target list \<Rightarrow> string \<Rightarrow> app_studio" where
  "new_app_studio app env envName =
     \<lparr>ws_app = app, ws_env = env, ws_envName = envName, ws_workflow = None, ws_definitions = None, ws_steps = None, ws_changed = False,
      ws_saving = False, ws_mode = ''StepByStep'', ws_subMode = ''DAG'', ws_ref = None, ws_sharedScope = None, ws_sharedMode = None,
      ws_sharedSubMode = None, ws_editMode = Visual, ws_setCanary = False, ws_alias = None, ws_description = None, ws_isDefault = False,
      ws_showSettings = False, ws_request = 0, ws_asked = []\<rparr>"

definition loaded_workflow :: "workflow_doc \<Rightarrow> app_studio \<Rightarrow> app_studio" where
  "loaded_workflow res st =
     st\<lparr>ws_workflow := Some res, ws_mode := wd_mode res, ws_subMode := wd_subMode res, ws_steps := wd_steps res, ws_alias := wd_alias res,
        ws_description := wd_description res, ws_isDefault := wd_default res, ws_ref := wd_ref res, ws_sharedScope := wd_sharedScope res,
        ws_sharedMode := wd_sharedMode res, ws_sharedSubMode := wd_sharedSubMode res\<rparr>"

definition getEnvbindingByName :: "app_studio \<Rightarrow> deploy_target option" where
  "getEnvbindingByName st = find (\<lambda>e. dt_name e = ws_envName st) (ws_env st)"

definition deployTargets :: "app_studio \<Rightarrow> deploy_target list" where
  "deployTargets st = (case getEnvbindingByName st of None \<Rightarrow> [] | Some e \<Rightarrow> [e])"

definition present_namespaces :: "app_studio \<Rightarrow> string list" where
  "present_namespaces st = deployNamespaces (Some (deployTargets st))"

definition loadWorkflowDefinitions :: "app_studio \<Rightarrow> app_studio" where
  "loadWorkflowDefinitions st =
     (let namespaces = present_namespaces st; request = ws_request st + 1; st = st\<lparr>ws_request := request\<rparr>
      in if namespaces = [] then st\<lparr>ws_definitions := Some []\<rparr> else st\<lparr>ws_asked := ws_asked st @ [(request, namespaces)]\<rparr>)"

text \<open>The answer to a request, \<open>None\<close> where it fails.\<close>

definition loaded_definitions :: "nat \<Rightarrow> step_definition list option option \<Rightarrow> app_studio \<Rightarrow> app_studio" where
  "loaded_definitions request res st =
     (let st = st\<lparr>ws_asked := filter (\<lambda>(n, _). n \<noteq> request) (ws_asked st)\<rparr>
      in case res of None \<Rightarrow> st | Some defs \<Rightarrow> if request = ws_request st then st\<lparr>ws_definitions := defs\<rparr> else st)"

definition mount_app_studio :: "app_studio \<Rightarrow> app_studio" where
  "mount_app_studio st = loadWorkflowDefinitions st"

definition update_app_studio :: "deploy_target list \<Rightarrow> string \<Rightarrow> app_studio \<Rightarrow> app_studio" where
  "update_app_studio env envName st = loadWorkflowDefinitions (st\<lparr>ws_env := env, ws_envName := envName\<rparr>)"

definition studio_onChange :: "wf_step list option \<Rightarrow> app_studio \<Rightarrow> app_studio" where
  "studio_onChange steps st = st\<lparr>ws_steps := steps, ws_changed := (steps \<noteq> Option.bind (ws_workflow st) wd_steps)\<rparr>"

definition studio_body :: "app_studio \<Rightarrow> workflow_body" where
  "studio_body st =
     \<lparr>wb_alias = ws_alias st, wb_description = ws_description st, wb_default = ws_isDefault st, wb_mode = ws_mode st, wb_subMode = ws_subMode st,
      wb_ref = ws_ref st, wb_steps = (if truthy (ws_ref st) then [] else or_nil (ws_steps st))\<rparr>"

definition studio_onSave :: "app_studio \<Rightarrow> workflow_body option \<times> app_studio" where
  "studio_onSave st =
     (if ws_workflow st \<noteq> None \<and> ws_app st \<noteq> None then (Some (studio_body st), st\<lparr>ws_saving := True\<rparr>) else (None, st))"

definition studio_saved :: "bool \<Rightarrow> app_studio \<Rightarrow> app_studio" where
  "studio_saved ok st = (if ok then st\<lparr>ws_changed := False, ws_saving := False\<rparr> else st\<lparr>ws_saving := False\<rparr>)"

definition effectiveModes :: "app_studio \<Rightarrow> string \<times> string" where
  "effectiveModes st = (mode_or (ws_mode st) (ws_sharedMode st) ''StepByStep'', mode_or (ws_subMode st) (ws_sharedSubMode st) ''DAG'')"

definition useCopy :: "app_studio \<Rightarrow> app_studio" where
  "useCopy st =
     st\<lparr>ws_ref := None, ws_sharedScope := None, ws_sharedMode := None, ws_sharedSubMode := None, ws_mode := fst (effectiveModes st),
        ws_subMode := snd (effectiveModes st), ws_changed := True\<rparr>"

definition studio_settings :: "app_studio \<Rightarrow> wf_settings option" where
  "studio_settings st =
     map_option (\<lambda>w. \<lparr>se_name = wd_name w, se_alias = ws_alias st, se_description = ws_description st, se_mode = ws_mode st,
        se_subMode = ws_subMode st, se_default = ws_isDefault st, se_ref = ws_ref st\<rparr>) (ws_workflow st)"

definition app_load_shared :: "shared_answer \<Rightarrow> shared_answer" where
  "app_load_shared res = res\<lparr>sa_projectUnavailable := False\<rparr>"

definition studio_onApply :: "wf_settings \<Rightarrow> shared_doc option \<Rightarrow> app_studio \<Rightarrow> app_studio" where
  "studio_onApply settings shared st =
     st\<lparr>ws_alias := se_alias settings, ws_description := se_description settings, ws_isDefault := se_default settings,
        ws_mode := se_mode settings, ws_subMode := se_subMode settings, ws_ref := se_ref settings,
        ws_steps := (if truthy (se_ref settings) then Some (case shared of None \<Rightarrow> [] | Some s \<Rightarrow> sx_steps s) else ws_steps st),
        ws_sharedScope := (if truthy (se_ref settings) then map_option sw_scope shared else None),
        ws_sharedMode := (if truthy (se_ref settings) then Option.bind shared sx_mode else None),
        ws_sharedSubMode := (if truthy (se_ref settings) then Option.bind shared sx_subMode else None),
        ws_editMode := (if truthy (se_ref settings) then Visual else ws_editMode st), ws_showSettings := False, ws_changed := True\<rparr>"

definition pick_visual :: "app_studio \<Rightarrow> app_studio" where
  "pick_visual st = st\<lparr>ws_editMode := Visual\<rparr>"

definition pick_yaml :: "app_studio \<Rightarrow> app_studio" where
  "pick_yaml st = (if truthy (ws_ref st) then st else st\<lparr>ws_editMode := Yaml\<rparr>)"

text \<open>The banner of a referenced workflow and where its steps are changed.\<close>

definition shared_banner :: "string option \<Rightarrow> string" where
  "shared_banner scope =
     (if scope = Some ''global'' then ''Steps come from the global shared workflow''
      else if scope = Some ''project'' then ''Steps come from the project's shared workflow'' else ''Steps come from the shared workflow'')"

inductive page_trans :: "app_studio \<Rightarrow> app_studio \<Rightarrow> bool" where
  page_props: "page_trans st (update_app_studio env envName st)"
| page_loaded: "page_trans st (loaded_workflow res st)"
| page_definitions: "n \<in> fst ` set (ws_asked st) \<Longrightarrow> page_trans st (loaded_definitions n answer st)"
| page_visual_edit: "ws_workflow st \<noteq> None \<Longrightarrow> ws_editMode st = Visual \<Longrightarrow> \<not> truthy (ws_ref st) \<Longrightarrow> page_trans st (studio_onChange steps st)"
| page_yaml_edit: "ws_workflow st \<noteq> None \<Longrightarrow> ws_editMode st = Yaml \<Longrightarrow> page_trans st (studio_onChange steps st)"
| page_save: "ws_changed st \<Longrightarrow> page_trans st (snd (studio_onSave st))"
| page_saved: "ws_saving st \<Longrightarrow> page_trans st (studio_saved ok st)"
| page_copy: "truthy (ws_ref st) \<Longrightarrow> page_trans st (useCopy st)"
| page_open_settings: "page_trans st (st\<lparr>ws_showSettings := b\<rparr>)"
| page_apply: "ws_showSettings st \<Longrightarrow> page_trans st (studio_onApply settings shared st)"
| page_visual: "page_trans st (pick_visual st)"
| page_yaml: "page_trans st (pick_yaml st)"
| page_canary: "page_trans st (st\<lparr>ws_setCanary := b\<rparr>)"
| page_clear: "page_trans st (st\<lparr>ws_changed := False\<rparr>)"

section \<open>The canary setting\<close>

text \<open>Of a step the setting reads its name and, of its properties, its policies; a policy list that is
  not there is not written either.\<close>

definition step_policies :: "'a step_base_scheme \<Rightarrow> json option" where
  "step_policies s =
     (let properties = map_of (st_rest s) ''properties''
      in if falsy properties then Some JNull else map_of (spread (the properties)) ''policies'')"

definition canary_interval :: "nat \<Rightarrow> nat" where
  "canary_interval batch = (200 + batch) div (2 * batch)"

definition canary_weight :: "nat \<Rightarrow> nat \<Rightarrow> nat" where
  "canary_weight batch i = (if i = batch then 100 else canary_interval batch * i)"

definition canary_step :: "string \<Rightarrow> string \<Rightarrow> string \<Rightarrow> (string, json) js_map \<Rightarrow> step_base" where
  "canary_step name alias type rest =
     \<lparr>st_name = name, st_dependsOn = None, st_inputs = None, st_outputs = None, st_type = type, st_rest = (''alias'', JStr alias) # rest\<rparr>"

definition canary_properties :: "nat \<Rightarrow> json option \<Rightarrow> (string, json) js_map" where
  "canary_properties weight policies =
     [(''properties'', JObj ((''weight'', JInt (int weight)) # (case policies of None \<Rightarrow> [] | Some p \<Rightarrow> [(''policies'', p)])))]"

definition canary_batch :: "'a step_base_scheme \<Rightarrow> nat \<Rightarrow> nat \<Rightarrow> step_base list" where
  "canary_batch step batch i =
     [canary_step (st_name step @ ''-approve-'' @ nat_str i) (''Approve '' @ nat_str i) ''suspend'' [],
      canary_step (st_name step @ ''-batch-'' @ nat_str i) (''Batch '' @ nat_str i) ''canary-deploy''
        (canary_properties (canary_weight batch i)
           (if falsy (step_policies step) then Some (JArr []) else step_policies step))]"

definition generateCanaryDeployGroup :: "'a step_base_scheme \<Rightarrow> nat \<Rightarrow> wf_step" where
  "generateCanaryDeployGroup step batch =
     \<lparr>st_name = st_name step @ ''-canary'', st_dependsOn = None, st_inputs = None, st_outputs = None, st_type = ''step-group'', st_rest = [],
      st_mode = Some ''StepByStep'', st_forEach = None,
      st_subSteps = Some (canary_step ''prepare-canary'' ''Prepare Canary'' ''canary-deploy'' (canary_properties 0 (step_policies step)) #
        concat (map (canary_batch step batch) [1..<Suc batch]))\<rparr>"

definition getStepBatch :: "(string, nat) js_map \<Rightarrow> string \<Rightarrow> nat" where
  "getStepBatch config stepName = (case map_of config stepName of Some b \<Rightarrow> if b = 0 then 2 else b | None \<Rightarrow> 2)"

definition canary_steps :: "(string, nat) js_map \<Rightarrow> wf_step list \<Rightarrow> wf_step list" where
  "canary_steps config steps =
     map (\<lambda>s. if st_type s = ''deploy'' then generateCanaryDeployGroup s (getStepBatch config (st_name s)) else s) steps"

text \<open>What confirming does: the link to the addon where the step type is missing, or the page with
  the steps changed.\<close>

definition canary_submit :: "(string, nat) js_map \<Rightarrow> app_studio \<Rightarrow> string option \<times> app_studio" where
  "canary_submit config st =
     (if \<not> list_ex (\<lambda>d. db_name d = ''canary-deploy'') (or_nil (ws_definitions st)) then (Some ''/addons/kruise-rollout'', st)
      else (None, (case Option.bind (ws_workflow st) wd_steps of
                     None \<Rightarrow> st
                   | Some steps \<Rightarrow> studio_onChange (Some (canary_steps config steps)) st)\<lparr>ws_setCanary := False\<rparr>))"

definition can_set_canary :: "app_studio \<Rightarrow> bool" where
  "can_set_canary st \<longleftrightarrow> list_ex (\<lambda>s. st_type s = ''deploy'') (or_nil (Option.bind (ws_workflow st) wd_steps))"

section \<open>The studio of a pipeline\<close>

record pipeline_doc =
  pd_name :: string
  pd_project :: string
  pd_alias :: "string option"
  pd_description :: "string option"
  pd_mode :: "(string option \<times> string option) option"
  pd_steps :: "wf_step list"

record pipe_studio =
  pp_pipeline :: "pipeline_doc option"
  pp_steps :: "wf_step list option"
  pp_changed :: bool
  pp_saving :: bool
  pp_mode :: string
  pp_subMode :: string
  pp_showRun :: bool
  pp_alias :: "string option"
  pp_description :: "string option"

definition new_pipe_studio :: pipe_studio where
  "new_pipe_studio = \<lparr>pp_pipeline = None, pp_steps = None, pp_changed = False, pp_saving = False, pp_mode = ''StepByStep'', pp_subMode = ''DAG'',
     pp_showRun = False, pp_alias = None, pp_description = None\<rparr>"

definition loaded_pipeline :: "pipeline_doc \<Rightarrow> pipe_studio \<Rightarrow> pipe_studio" where
  "loaded_pipeline res st =
     st\<lparr>pp_pipeline := Some res, pp_mode := or_str (Option.bind (pd_mode res) fst) ''StepByStep'',
        pp_subMode := or_str (Option.bind (pd_mode res) snd) ''DAG'', pp_steps := Some (pd_steps res), pp_alias := pd_alias res,
        pp_description := pd_description res\<rparr>"

definition pipe_onChange :: "wf_step list option \<Rightarrow> pipe_studio \<Rightarrow> pipe_studio" where
  "pipe_onChange steps st = st\<lparr>pp_steps := steps, pp_changed := (steps \<noteq> map_option pd_steps (pp_pipeline st))\<rparr>"

definition pipe_body :: "pipeline_doc \<Rightarrow> pipe_studio \<Rightarrow> pipeline_doc" where
  "pipe_body p st =
     \<lparr>pd_name = pd_name p, pd_project = pd_project p, pd_alias = pp_alias st, pd_description = pp_description st,
      pd_mode = Some (Some (pp_mode st), Some (pp_subMode st)), pd_steps = or_nil (pp_steps st)\<rparr>"

definition pipe_onSave :: "pipe_studio \<Rightarrow> pipeline_doc option \<times> pipe_studio" where
  "pipe_onSave st = (case pp_pipeline st of None \<Rightarrow> (None, st) | Some p \<Rightarrow> (Some (pipe_body p st), st\<lparr>pp_saving := True\<rparr>))"

definition pipe_saved :: "bool \<Rightarrow> pipe_studio \<Rightarrow> pipe_studio" where
  "pipe_saved ok st = (if ok then st\<lparr>pp_changed := False, pp_saving := False\<rparr> else st\<lparr>pp_saving := False\<rparr>)"

definition runPipeline :: "pipe_studio \<Rightarrow> pipe_studio" where
  "runPipeline st = (if pp_changed st then st else st\<lparr>pp_showRun := True\<rparr>)"

definition pipe_onApply :: "wf_settings \<Rightarrow> pipe_studio \<Rightarrow> pipe_studio" where
  "pipe_onApply settings st =
     st\<lparr>pp_alias := se_alias settings, pp_description := se_description settings, pp_mode := or_str (Some (se_mode settings)) ''StepByStep'',
        pp_subMode := or_str (Some (se_subMode settings)) ''DAG'', pp_changed := True\<rparr>"

section \<open>The studio of a shared workflow\<close>

record shared_draft =
  sf_project :: string
  sf_scope :: string
  sf_namespace :: "string option"
  sf_name :: string
  sf_alias :: "string option"
  sf_description :: "string option"
  sf_mode :: "string option"
  sf_subMode :: "string option"
  sf_steps :: "wf_step list"

text \<open>The project of the query is an argument of the page, as the browser reads it.\<close>

record shared_props =
  sr_scope :: "string option"
  sr_name :: "string option"
  sr_queryProject :: "string option"
  sr_state :: "shared_draft option"
  sr_currentProject :: "string option"
  sr_userInfo :: "user_info option"

record shared_studio =
  ss_shared :: "shared_doc option"
  ss_loading :: bool
  ss_definitions :: "step_definition list option"
  ss_steps :: "wf_step list"
  ss_mode :: string
  ss_subMode :: string
  ss_alias :: "string option"
  ss_description :: "string option"
  ss_changed :: bool
  ss_saving :: bool
  ss_editMode :: edit_mode
  ss_showSettings :: bool

definition draft_of :: "shared_props \<Rightarrow> shared_draft option" where
  "draft_of props = (if truthy (sr_scope props) then None else sr_state props)"

definition project_of :: "shared_props \<Rightarrow> string" where
  "project_of props =
     or_str (sr_queryProject props) (or_str (map_option sf_project (draft_of props)) (or_str (sr_currentProject props) []))"

definition scope_of :: "shared_props \<Rightarrow> string" where
  "scope_of props = or_str (map_option sf_scope (draft_of props)) (or_str (sr_scope props) ''project'')"

definition name_of :: "shared_props \<Rightarrow> string" where
  "name_of props = or_str (map_option sf_name (draft_of props)) (or_str (sr_name props) [])"

definition new_shared_studio :: "shared_props \<Rightarrow> shared_studio" where
  "new_shared_studio props =
     (let draft = draft_of props
      in \<lparr>ss_shared = None, ss_loading = (draft = None), ss_definitions = None, ss_steps = (case draft of None \<Rightarrow> [] | Some d \<Rightarrow> sf_steps d),
          ss_mode = or_str (Option.bind draft sf_mode) ''StepByStep'', ss_subMode = or_str (Option.bind draft sf_subMode) ''DAG'',
          ss_alias = Option.bind draft sf_alias, ss_description = Option.bind draft sf_description, ss_changed = (draft \<noteq> None),
          ss_saving = False, ss_editMode = Visual, ss_showSettings = False\<rparr>)"

definition loaded_shared :: "shared_doc option \<Rightarrow> shared_studio \<Rightarrow> shared_studio" where
  "loaded_shared res st =
     (case res of
        None \<Rightarrow> st
      | Some r \<Rightarrow> st\<lparr>ss_shared := Some r, ss_steps := sx_steps r, ss_mode := or_str (sx_mode r) ''StepByStep'',
                    ss_subMode := or_str (sx_subMode r) ''DAG'', ss_alias := sw_alias r, ss_description := sw_description r,
                    ss_changed := False\<rparr>)\<lparr>ss_loading := False\<rparr>"

text \<open>What is asked of the backend for the step types: a project and a namespace.\<close>

definition shared_definitions_query :: "shared_props \<Rightarrow> string option \<Rightarrow> string \<times> string list option" where
  "shared_definitions_query props namespace =
     (if scope_of props = ''project'' then project_of props else [], if truthy namespace then Some [the namespace] else None)"

definition shared_readOnly :: "shared_props \<Rightarrow> bool" where
  "shared_readOnly props \<longleftrightarrow> \<not> canChange (project_of props) (scope_of props) (sr_userInfo props)"

definition shared_onChange :: "shared_props \<Rightarrow> wf_step list \<Rightarrow> shared_studio \<Rightarrow> shared_studio" where
  "shared_onChange props steps st =
     st\<lparr>ss_steps := steps, ss_changed := (draft_of props \<noteq> None \<or> Some steps \<noteq> map_option sx_steps (ss_shared st))\<rparr>"

record shared_body =
  sb_name :: string
  sb_alias :: "string option"
  sb_description :: "string option"
  sb_mode :: string
  sb_subMode :: string
  sb_steps :: "wf_step list"

datatype shared_request = CreateShared string string shared_body | UpdateShared string string string shared_body

definition shared_save :: "shared_props \<Rightarrow> shared_studio \<Rightarrow> shared_request \<times> shared_studio" where
  "shared_save props st =
     (let body = \<lparr>sb_name = name_of props, sb_alias = ss_alias st, sb_description = ss_description st, sb_mode = ss_mode st,
                  sb_subMode = ss_subMode st, sb_steps = ss_steps st\<rparr>
      in (if draft_of props \<noteq> None then CreateShared (project_of props) (scope_of props) body
          else UpdateShared (project_of props) (scope_of props) (name_of props) body, st\<lparr>ss_saving := True\<rparr>))"

definition shared_saved :: "bool \<Rightarrow> shared_studio \<Rightarrow> shared_studio" where
  "shared_saved ok st = (if ok then st\<lparr>ss_changed := False, ss_saving := False\<rparr> else st\<lparr>ss_saving := False\<rparr>)"

text \<open>Saving, or the question first, with the counts it names.\<close>

definition confirmUsed :: "shared_props \<Rightarrow> shared_studio \<Rightarrow> (nat \<times> nat) + shared_request \<times> shared_studio" where
  "confirmUsed props st =
     (let used = (case ss_shared st of None \<Rightarrow> 0 | Some s \<Rightarrow> length (or_nil (sw_usedBy s)));
          elsewhere = (case ss_shared st of None \<Rightarrow> 0 | Some s \<Rightarrow> coalesce (sw_usedElsewhere s) 0)
      in if used + elsewhere = 0 then Inr (shared_save props st) else Inl (used, elsewhere))"

definition shared_onApply :: "shared_props \<Rightarrow> wf_settings \<Rightarrow> shared_studio \<Rightarrow> shared_studio" where
  "shared_onApply props settings st =
     (if shared_readOnly props then st\<lparr>ss_showSettings := False\<rparr>
      else st\<lparr>ss_alias := se_alias settings, ss_description := se_description settings, ss_mode := or_str (Some (se_mode settings)) ''StepByStep'',
              ss_subMode := or_str (Some (se_subMode settings)) ''DAG'', ss_showSettings := False, ss_changed := True\<rparr>)"

definition shared_pick :: "shared_props \<Rightarrow> edit_mode \<Rightarrow> shared_studio \<Rightarrow> shared_studio" where
  "shared_pick props m st = (if m = Yaml \<and> shared_readOnly props then st else st\<lparr>ss_editMode := m\<rparr>)"

definition editable :: "shared_props \<Rightarrow> shared_studio \<Rightarrow> bool" where
  "editable props st \<longleftrightarrow> (ss_shared st \<noteq> None \<or> draft_of props \<noteq> None) \<and> (ss_editMode st = Visual \<longrightarrow> \<not> shared_readOnly props)"

inductive shared_trans :: "shared_props \<Rightarrow> shared_studio \<Rightarrow> shared_studio \<Rightarrow> bool" for props where
  sh_loaded: "draft_of props = None \<Longrightarrow> shared_trans props st (loaded_shared res st)"
| sh_definitions: "shared_trans props st (st\<lparr>ss_definitions := defs\<rparr>)"
| sh_edit: "editable props st \<Longrightarrow> shared_trans props st (shared_onChange props steps st)"
| sh_save: "\<not> shared_readOnly props \<Longrightarrow> ss_changed st \<Longrightarrow> shared_trans props st (snd (shared_save props st))"
| sh_saved: "ss_saving st \<Longrightarrow> shared_trans props st (shared_saved ok st)"
| sh_settings: "shared_trans props st (st\<lparr>ss_showSettings := b\<rparr>)"
| sh_apply: "shared_trans props st (shared_onApply props settings st)"
| sh_pick: "shared_trans props st (shared_pick props m st)"
| sh_clear: "\<not> shared_readOnly props \<Longrightarrow> shared_trans props st (st\<lparr>ss_changed := False\<rparr>)"


section \<open>The step types on offer are those of the environment\<close>

definition page_ok :: "app_studio \<Rightarrow> bool" where
  "page_ok st \<longleftrightarrow>
     (\<forall>(n, ns) \<in> set (ws_asked st). n \<le> ws_request st \<and> ns \<noteq> [] \<and> (n = ws_request st \<longrightarrow> ns = present_namespaces st)) \<and>
     (present_namespaces st = [] \<longrightarrow> ws_definitions st = Some [])"

lemma present_namespaces_cong:
  "ws_env st' = ws_env st \<Longrightarrow> ws_envName st' = ws_envName st \<Longrightarrow> present_namespaces st' = present_namespaces st"
  by (simp add: present_namespaces_def deployTargets_def getEnvbindingByName_def)

lemma page_ok_cong:
  assumes "page_ok st" and "ws_env st' = ws_env st" "ws_envName st' = ws_envName st" "ws_asked st' = ws_asked st"
    "ws_request st' = ws_request st" "ws_definitions st' = ws_definitions st"
  shows "page_ok st'"
  using assms present_namespaces_cong[of st' st] by (simp add: page_ok_def)

lemma load_definitions_ok:
  assumes "\<forall>(n, ns) \<in> set (ws_asked st). n \<le> ws_request st \<and> ns \<noteq> []"
  shows "page_ok (loadWorkflowDefinitions st)"
proof -
  have "present_namespaces (loadWorkflowDefinitions st) = present_namespaces st"
    by (rule present_namespaces_cong) (simp_all add: loadWorkflowDefinitions_def Let_def)
  then show ?thesis using assms by (auto simp: page_ok_def loadWorkflowDefinitions_def Let_def split: prod.splits)
qed

lemma loaded_definitions_ok:
  assumes "page_ok st" and "n \<in> fst ` set (ws_asked st)"
  shows "page_ok (loaded_definitions n answer st)"
proof -
  have p: "present_namespaces (loaded_definitions n answer st) = present_namespaces st"
    by (rule present_namespaces_cong) (simp_all add: loaded_definitions_def Let_def split: option.splits)
  have "ws_definitions (loaded_definitions n answer st) = ws_definitions st" if "present_namespaces st = []"
    using assms that by (auto simp: page_ok_def loaded_definitions_def Let_def split: option.splits)
  then show ?thesis using assms(1) by (auto simp: page_ok_def p) (auto simp: loaded_definitions_def Let_def split: option.splits if_splits)
qed

lemma page_trans_ok: "page_trans st st' \<Longrightarrow> page_ok st \<Longrightarrow> page_ok st'"
proof (induction rule: page_trans.induct)
  case (page_props st env envName)
  then show ?case unfolding update_app_studio_def by (intro load_definitions_ok) (auto simp: page_ok_def)
next
  case (page_definitions n st answer)
  then show ?case by (intro loaded_definitions_ok)
qed (erule page_ok_cong; simp add: loaded_workflow_def studio_onChange_def studio_onSave_def studio_saved_def useCopy_def studio_onApply_def
       pick_visual_def pick_yaml_def)+

interpretation studio_page: machine page_trans page_ok "\<lambda>st. \<exists>app env envName. st = mount_app_studio (new_app_studio app env envName)"
proof unfold_locales
  show "page_ok st" if "\<exists>app env envName. st = mount_app_studio (new_app_studio app env envName)" for st
    using that by (auto simp: mount_app_studio_def new_app_studio_def intro!: load_definitions_ok)
qed (rule page_trans_ok)

text \<open>C30: whatever the page is told and in whatever order its requests are answered, step types are taken
  from an answer only if it was asked for the namespaces the workflow deploys to now, and while
  there is no such namespace none is offered.\<close>

theorem definitions_for_namespaces:
  assumes "page_trans\<^sup>*\<^sup>* (mount_app_studio (new_app_studio app env envName)) st"
  shows "(present_namespaces st = [] \<longrightarrow> ws_definitions st = Some []) \<and>
    ((n, ns) \<in> set (ws_asked st) \<and> ws_definitions (loaded_definitions n answer st) \<noteq> ws_definitions st \<longrightarrow> ns = present_namespaces st)"
proof -
  have "page_ok st" using studio_page.reachable_inv[OF _ assms] by blast
  then show ?thesis by (auto simp: page_ok_def loaded_definitions_def Let_def split: option.splits if_splits)
qed

theorem definitions_for_namespaces_witness:
  "(let st = mount_app_studio (new_app_studio None [\<lparr>dt_name = ''dev'', dt_alias = None, dt_namespace = ''ns''\<rparr>] ''dev'')
    in ws_asked st = [(1, [''ns''])] \<and> ws_definitions (loaded_definitions 1 (Some (Some [])) st) \<noteq> ws_definitions st \<and> [''ns''] = present_namespaces st)"
proof -
  let ?st = "mount_app_studio (new_app_studio None [\<lparr>dt_name = ''dev'', dt_alias = None, dt_namespace = ''ns''\<rparr>] ''dev'')"
  have a: "ws_asked ?st = [(1, [''ns''])]" and d: "ws_definitions (loaded_definitions 1 (Some (Some [])) ?st) \<noteq> ws_definitions ?st"
    by code_simp+
  have "(1, [''ns'']) \<in> set (ws_asked ?st)" unfolding a by simp
  then have "[''ns''] = present_namespaces ?st"
    using definitions_for_namespaces[OF rtranclp.rtrancl_refl, where n = 1 and answer = "Some (Some [])"] d by blast
  then show ?thesis using a d by (simp add: Let_def)
qed

section \<open>A copy of a shared workflow\<close>

text \<open>The backend answers with what was saved.\<close>

definition answers :: "workflow_body \<Rightarrow> workflow_doc \<Rightarrow> bool" where
  "answers body res \<longleftrightarrow> wd_alias res = wb_alias body \<and> wd_description res = wb_description body \<and> wd_default res = wb_default body \<and>
     wd_mode res = wb_mode body \<and> wd_subMode res = wb_subMode body \<and> wd_ref res = wb_ref body \<and>
     (\<not> truthy (wb_ref body) \<longrightarrow> wd_steps res = Some (wb_steps body) \<and> wd_sharedScope res = None \<and> wd_sharedMode res = None \<and>
        wd_sharedSubMode res = None)"

lemma mode_or_nonempty: "d \<noteq> [] \<Longrightarrow> mode_or a b d \<noteq> []"
  by (auto simp: mode_or_def or_str_def truthy_iff)

lemma mode_or_own: "a \<noteq> [] \<Longrightarrow> mode_or a b d = a"
  by (simp add: mode_or_def or_str_def truthy_iff)

lemma effectiveModes_useCopy: "effectiveModes (useCopy st) = effectiveModes st"
  by (simp add: effectiveModes_def useCopy_def mode_or_own mode_or_nonempty)

lemma applied_shared:
  assumes "panel_apply p = Some (settings, Some w)"
  shows "w \<in> set (or_nil (sp_shared p)) \<and> se_ref settings = Some (sw_name w) \<and> truthy (se_ref settings)"
proof -
  have c: "chosen_shared p = Some w" "settings = (sp_values p)\<lparr>se_name := se_name (sp_settings p)\<rparr>" "truthy (se_ref (sp_values p))"
    using assms by (auto simp: panel_apply_def settings_valid_def Let_def split: if_splits) (metis steps_from.exhaust)+
  from c(1) have "w \<in> set (or_nil (sp_shared p)) \<and> Some (sw_name w) = se_ref (sp_values p)"
    unfolding chosen_shared_def by (auto dest!: find_Some_mem)
  with c show ?thesis by simp
qed

text \<open>C31: where the panel of settings has loaded the shared workflows and is applied with one of them
  chosen, a copy that is then used, saved and loaded again has the steps of that shared workflow as its
  own and runs them in the modes set in the panel, where one is unset in the shared workflow's, as it did
  while it referred to it; it refers to none any more and has nothing left to save.\<close>

theorem copy_runs_the_same:
  assumes "panel_apply p = Some (settings, Some w)" and "shown = studio_onApply settings (Some w) st"
    and "studio_onSave (useCopy shown) = (Some body, st')" and "answers body res"
  shows "let fin = loaded_workflow res (studio_saved True st') in
    w \<in> set (or_nil (sp_shared p)) \<and> ws_ref shown = Some (sw_name w) \<and> ws_ref fin = None \<and> ws_steps fin = Some (sx_steps w) \<and>
    effectiveModes fin = (mode_or (se_mode settings) (sx_mode w) ''StepByStep'', mode_or (se_subMode settings) (sx_subMode w) ''DAG'') \<and>
    effectiveModes shown = effectiveModes fin \<and> \<not> ws_changed fin \<and> \<not> ws_saving fin \<and>
    ws_alias fin = se_alias settings \<and> ws_description fin = se_description settings \<and> ws_isDefault fin = se_default settings"
proof -
  note w = applied_shared[OF assms(1)]
  have b: "body = studio_body (useCopy shown)" "st' = (useCopy shown)\<lparr>ws_saving := True\<rparr>"
    using assms(3) by (auto simp: studio_onSave_def split: if_splits)
  have "\<not> truthy (wb_ref body)" by (simp add: b studio_body_def useCopy_def)
  then have r: "wd_steps res = Some (wb_steps body)" "wd_sharedMode res = None" "wd_sharedSubMode res = None" "wd_ref res = None"
    "wd_mode res = wb_mode body" "wd_subMode res = wb_subMode body" "wd_alias res = wb_alias body" "wd_description res = wb_description body"
    "wd_default res = wb_default body"
    using assms(4) by (simp_all add: answers_def b studio_body_def useCopy_def)
  have "effectiveModes (loaded_workflow res (studio_saved True st')) = effectiveModes (useCopy shown)"
    by (simp add: effectiveModes_def loaded_workflow_def r b studio_body_def) (simp add: useCopy_def)
  moreover have "effectiveModes shown = (mode_or (se_mode settings) (sx_mode w) ''StepByStep'', mode_or (se_subMode settings) (sx_subMode w) ''DAG'')"
    using w by (auto simp: assms(2) effectiveModes_def studio_onApply_def)
  moreover have "ws_steps (loaded_workflow res (studio_saved True st')) = Some (sx_steps w)" "ws_ref shown = Some (sw_name w)"
    using w by (auto simp: loaded_workflow_def r b studio_body_def useCopy_def assms(2) studio_onApply_def)
  moreover have "ws_alias (loaded_workflow res (studio_saved True st')) = se_alias settings"
    "ws_description (loaded_workflow res (studio_saved True st')) = se_description settings"
    "ws_isDefault (loaded_workflow res (studio_saved True st')) = se_default settings" "ws_ref (loaded_workflow res (studio_saved True st')) = None"
    "\<not> ws_changed (loaded_workflow res (studio_saved True st'))" "\<not> ws_saving (loaded_workflow res (studio_saved True st'))"
    by (simp_all add: loaded_workflow_def r b studio_body_def studio_saved_def useCopy_def assms(2) studio_onApply_def)
  ultimately show ?thesis using w unfolding Let_def effectiveModes_useCopy by metis
qed

definition staged_flow :: shared_doc where
  "staged_flow = \<lparr>sw_name = ''shared'', sw_alias = None, sw_description = None, sw_scope = ''global'', sw_hidden = False, sw_usedBy = None,
     sw_usedElsewhere = None, sx_namespace = ''vela'', sx_mode = Some ''DAG'', sx_subMode = None,
     sx_steps = [generateCanaryDeployGroup (canary_step ''web'' ''Web'' ''deploy'' []) 1]\<rparr>"

definition picks_shared :: settings_panel where
  "picks_shared = panel_loaded \<lparr>sa_workflows = [staged_flow], sa_globalUnavailable = False, sa_projectUnavailable = False\<rparr>
     (panel_open \<lparr>se_name = ''w'', se_alias = None, se_description = None, se_mode = [], se_subMode = [], se_default = False,
        se_ref = Some ''shared''\<rparr>)"

definition referring :: app_studio where
  "referring = (new_app_studio (Some ''app'') [] ''dev'')\<lparr>ws_workflow := Some \<lparr>wd_name = ''w'', wd_alias = None, wd_description = None,
     wd_default = True, wd_mode = [], wd_subMode = [], wd_steps = Some [], wd_ref = None, wd_sharedScope = None,
     wd_sharedMode = None, wd_sharedSubMode = None\<rparr>\<rparr>"

definition copied :: workflow_doc where
  "copied = \<lparr>wd_name = ''w'', wd_alias = None, wd_description = None, wd_default = False, wd_mode = ''DAG'', wd_subMode = ''DAG'',
     wd_steps = Some (sx_steps staged_flow), wd_ref = None, wd_sharedScope = None, wd_sharedMode = None, wd_sharedSubMode = None\<rparr>"

theorem copy_runs_the_same_witness:
  "\<exists>settings body st'. panel_apply picks_shared = Some (settings, Some staged_flow) \<and>
     studio_onSave (useCopy (studio_onApply settings (Some staged_flow) referring)) = (Some body, st') \<and> answers body copied \<and>
     ws_steps (loaded_workflow copied (studio_saved True st')) = Some (sx_steps staged_flow)"
proof -
  define settings where "settings = sp_values picks_shared"
  define shown where "shown = studio_onApply settings (Some staged_flow) referring"
  have p: "panel_apply picks_shared = Some (settings, Some staged_flow)" unfolding settings_def by code_simp
  have s: "studio_onSave (useCopy shown) = (Some (studio_body (useCopy shown)), (useCopy shown)\<lparr>ws_saving := True\<rparr>)"
    by (simp add: studio_onSave_def useCopy_def shown_def studio_onApply_def referring_def new_app_studio_def)
  have a: "answers (studio_body (useCopy shown)) copied" unfolding shown_def settings_def by code_simp
  show ?thesis using copy_runs_the_same[OF p shown_def s a] p s a unfolding Let_def shown_def by blast
qed

section \<open>The batches of a canary rollout\<close>

definition step_weight :: "step_base \<Rightarrow> int option" where
  "step_weight s =
     Option.bind (map_of (st_rest s) ''properties'') (\<lambda>p. Option.bind (map_of (spread p) ''weight'') (\<lambda>w. case w of JInt n \<Rightarrow> Some n | _ \<Rightarrow> None))"

lemma step_weight_canary [simp]:
  "step_weight (canary_step n a ''suspend'' []) = None"
  "step_weight (canary_step n a ty (canary_properties w ps)) = Some (int w)"
  by (simp_all add: step_weight_def canary_step_def canary_properties_def spread_def)

lemma step_name_canary [simp]: "st_name (canary_step n a ty r) = n" "st_type (canary_step n a ty r) = ty"
  by (simp_all add: canary_step_def)

lemma prepare_not_numbered: "''prepare-canary'' \<noteq> name @ x @ nat_str n"
proof
  assume "''prepare-canary'' = name @ x @ nat_str n"
  then have "last (nat_str n) = CHR ''y''" by (auto dest: arg_cong[of _ _ last])
  then have "CHR ''y'' \<in> set (nat_str n)" by (metis last_in_set nat_str_nonempty)
  from nat_str_digits[OF this] show False by simp
qed

lemma canary_batch_names:
  "''prepare-canary'' \<notin> set (map st_name (canary_batch step batch i)) \<and> distinct (map st_name (canary_batch step batch i))"
  using prepare_not_numbered[of "st_name step" "''-approve-''" i] prepare_not_numbered[of "st_name step" "''-batch-''" i]
  by (simp add: canary_batch_def)

lemma canary_batch_apart:
  assumes "i \<noteq> j" shows "set (map st_name (canary_batch step batch i)) \<inter> set (map st_name (canary_batch step b j)) = {}"
  using assms by (simp add: canary_batch_def nat_str_inj)

lemma canary_names_distinct:
  "distinct is \<Longrightarrow> distinct (''prepare-canary'' # concat (map (\<lambda>i. map st_name (canary_batch step batch i)) is))"
proof (induction "is")
  case (Cons i js)
  have "set (map st_name (canary_batch step batch i)) \<inter> set (concat (map (\<lambda>i. map st_name (canary_batch step batch i)) js)) = {}"
    using canary_batch_apart[of i] Cons.prems by (simp only: set_concat set_map) (fastforce simp only: set_map distinct.simps)
  then show ?case using Cons canary_batch_names[of step batch i] by simp
qed simp

lemma canary_types: "map st_type (concat (map (canary_batch step batch) is)) = concat (replicate (length is) [''suspend'', ''canary-deploy''])"
  by (induction "is") (simp_all add: canary_batch_def)

lemma canary_weights_of: "List.map_filter step_weight (concat (map (canary_batch step batch) is)) = map int (map (canary_weight batch) is)"
  by (induction "is") (simp_all add: canary_batch_def map_filter_simps)

lemma canary_weights:
  assumes "1 \<le> batch" and "batch \<le> 4"
  shows "sorted_wrt (<) (0 # map (canary_weight batch) [1..<Suc batch]) \<and> last (map (canary_weight batch) [1..<Suc batch]) = 100"
proof -
  consider "batch = 1" | "batch = 2" | "batch = 3" | "batch = 4" using assms by linarith
  then show ?thesis
  proof cases
    case 1
    show ?thesis unfolding 1 by code_simp
  next
    case 2
    show ?thesis unfolding 2 by code_simp
  next
    case 3
    show ?thesis unfolding 3 by code_simp
  next
    case 4
    show ?thesis unfolding 4 by code_simp
  qed
qed

text \<open>C32: for every number of batches the dialog takes, a deploy step becomes a group whose steps run one
  after another (a \<open>step-group\<close> in the mode \<open>StepByStep\<close>): it prepares, then for each batch asks
  for approval and then shifts traffic, each time to more of it, up to all of it; no two of its steps have one name.\<close>

theorem canary_group:
  assumes "1 \<le> batch" and "batch \<le> 4"
  shows "st_type (generateCanaryDeployGroup step batch) = ''step-group'' \<and> st_mode (generateCanaryDeployGroup step batch) = Some ''StepByStep'' \<and>
    (\<exists>subs. st_subSteps (generateCanaryDeployGroup step batch) = Some subs \<and>
    map st_type subs = ''canary-deploy'' # concat (replicate batch [''suspend'', ''canary-deploy'']) \<and>
    sorted_wrt (<) (List.map_filter step_weight subs) \<and> length (List.map_filter step_weight subs) = Suc batch \<and>
    hd (List.map_filter step_weight subs) = 0 \<and> last (List.map_filter step_weight subs) = 100 \<and> distinct (map st_name subs))"
proof -
  let ?subs = "canary_step ''prepare-canary'' ''Prepare Canary'' ''canary-deploy'' (canary_properties 0 (step_policies step)) #
    concat (map (canary_batch step batch) [1..<Suc batch])"
  have "distinct (map st_name ?subs)"
    using canary_names_distinct[of "[1..<Suc batch]" step batch] by (simp add: map_concat comp_def del: upt_Suc)
  moreover have "st_subSteps (generateCanaryDeployGroup step batch) = Some ?subs" by (simp add: generateCanaryDeployGroup_def)
  moreover have "map st_type ?subs = ''canary-deploy'' # concat (replicate batch [''suspend'', ''canary-deploy''])"
    using canary_types[of step batch "[1..<Suc batch]"] by simp
  moreover have w: "List.map_filter step_weight ?subs = map int (0 # map (canary_weight batch) [1..<Suc batch])"
    using canary_weights_of[of step batch "[1..<Suc batch]"] by (simp add: map_filter_simps del: upt_Suc)
  moreover have "sorted_wrt (<) (map int (0 # map (canary_weight batch) [1..<Suc batch]))"
    using canary_weights[OF assms] unfolding sorted_wrt_map by (simp del: upt_Suc)
  moreover have "last (map int (0 # map (canary_weight batch) [1..<Suc batch])) = 100"
    using canary_weights[OF assms] assms(1) by (subst last_map) (simp_all del: upt_Suc)
  ultimately have "\<exists>subs. st_subSteps (generateCanaryDeployGroup step batch) = Some subs \<and>
      map st_type subs = ''canary-deploy'' # concat (replicate batch [''suspend'', ''canary-deploy'']) \<and>
      sorted_wrt (<) (List.map_filter step_weight subs) \<and> length (List.map_filter step_weight subs) = Suc batch \<and>
      hd (List.map_filter step_weight subs) = 0 \<and> last (List.map_filter step_weight subs) = 100 \<and> distinct (map st_name subs)"
    unfolding w by (intro exI[of _ ?subs]) (simp only: w, simp del: upt_Suc)
  then show ?thesis by (simp add: generateCanaryDeployGroup_def)
qed

theorem canary_group_witness:
  "\<exists>subs. st_subSteps (generateCanaryDeployGroup (canary_step ''web'' ''Web'' ''deploy'' []) 3) = Some subs \<and> last (List.map_filter step_weight subs) = 100"
  using canary_group[of 3 "canary_step ''web'' ''Web'' ''deploy'' []"] by auto

text \<open>The first step of every group has one name, so two deploy steps leave a workflow with two steps
  of one name; and the groups are made of the saved steps, whatever has been edited since.\<close>

lemma canary_prepare_clash:
  assumes "st_type a = ''deploy''" and "st_type b = ''deploy''"
  shows "\<not> names_ok (canary_steps config (us @ a # vs @ b # ws))"
proof -
  let ?g = "\<lambda>s. generateCanaryDeployGroup s (getStepBatch config (st_name s))"
  have p: "''prepare-canary'' \<in> set (step_names (?g s))" for s :: wf_step
    by (simp add: step_names_def generateCanaryDeployGroup_def)
  have "canary_steps config (us @ a # vs @ b # ws) = canary_steps config us @ ?g a # canary_steps config vs @ ?g b # canary_steps config ws"
    using assms by (simp add: canary_steps_def)
  then show ?thesis using p[of a] p[of b] by (auto simp: names_ok_def)
qed

lemma canary_discards_edits:
  "ws_workflow st = Some w \<Longrightarrow> wd_steps w = Some steps \<Longrightarrow> list_ex (\<lambda>d. db_name d = ''canary-deploy'') (or_nil (ws_definitions st)) \<Longrightarrow>
   ws_steps (snd (canary_submit config (st\<lparr>ws_steps := edited\<rparr>))) = Some (canary_steps config steps)"
  by (simp add: canary_submit_def studio_onChange_def)

section \<open>The panel of settings\<close>

text \<open>Applying own steps leaves no reference and both modes set; a workflow the picker enables is the
  one that is chosen, unless another of its name is usable and comes first.\<close>

lemma apply_own:
  "sp_stepsFrom p = OwnSteps \<Longrightarrow> panel_apply p = Some (v, shared) \<Longrightarrow> se_ref v = None \<and> se_mode v \<noteq> [] \<and> se_subMode v \<noteq> [] \<and> shared = None"
  by (auto simp: panel_apply_def Let_def or_str_def truthy_iff split: if_splits)

lemma enabled_option_chosen:
  assumes "sp_shared p = Some shared" and "s \<in> set shared" and "\<not> so_disabled (shared_option_of (sp_projectUnavailable p) s)"
  shows "\<exists>s'. chosen_shared (p\<lparr>sp_values := (sp_values p)\<lparr>se_ref := Some (so_value (shared_option_of (sp_projectUnavailable p) s))\<rparr>\<rparr>) = Some s' \<and>
    sw_name s' = sw_name s \<and> usableShared (shared_workflow.truncate s') (sp_projectUnavailable p)"
proof -
  let ?P = "\<lambda>x. sw_name x = sw_name s \<and> usableShared (shared_workflow.truncate x) (sp_projectUnavailable p)"
  have u: "usableShared (shared_workflow.truncate s) (sp_projectUnavailable p)" using assms(3) by (simp add: shared_option_of_def Let_def)
  then obtain s' where "find ?P shared = Some s'" using assms(2) find_None_all[of ?P shared] by (cases "find ?P shared") auto
  moreover from find_Some_mem[OF this] have "?P s'" by simp
  ultimately show ?thesis using assms(1) u by (auto simp: chosen_shared_def shared_option_of_def Let_def)
qed

text \<open>The page of an application does not hand on that the project's workflows are out of reach.\<close>

definition project_flow :: shared_doc where
  "project_flow = \<lparr>sw_name = ''release'', sw_alias = None, sw_description = None, sw_scope = ''project'', sw_hidden = False, sw_usedBy = None,
     sw_usedElsewhere = None, sx_namespace = ''p'', sx_mode = None, sx_subMode = None, sx_steps = []\<rparr>"

definition unreachable_project :: shared_answer where
  "unreachable_project = \<lparr>sa_workflows = [project_flow], sa_globalUnavailable = False, sa_projectUnavailable = True\<rparr>"

definition picks_release :: settings_panel where
  "picks_release = panel_open \<lparr>se_name = ''w'', se_alias = None, se_description = None, se_mode = [], se_subMode = [], se_default = False,
     se_ref = Some ''release''\<rparr>"

lemma project_unavailable_ignored:
  "chosen_shared (panel_loaded unreachable_project picks_release) = None \<and>
   chosen_shared (panel_loaded (app_load_shared unreachable_project) picks_release) = Some project_flow"
  by code_simp

text \<open>Settings applied before the shared workflows are loaded show none of the steps the workflow
  refers to, and a copy made then has none.\<close>

lemma apply_before_loaded:
  assumes "truthy (se_ref settings)" and "panel_apply (panel_open settings) = Some (v, shared)"
  shows "ws_steps (useCopy (studio_onApply v shared st)) = Some []"
  using assms by (auto simp: panel_apply_def panel_open_def chosen_shared_def Let_def useCopy_def studio_onApply_def split: if_splits)

section \<open>What the page takes for saved\<close>

text \<open>Settings are forgotten as unsaved when the steps come to equal the saved ones, steps edited
  while a save is under way count as saved when it ends, and a workflow loaded while its YAML is
  open is edited there though it refers to a shared one, whose steps are not saved.\<close>

lemma settings_change_forgotten:
  assumes "ws_workflow st = Some w"
  shows "let fin = studio_onChange (wd_steps w) (studio_onApply settings shared st)
    in \<not> ws_changed fin \<and> ws_alias fin = se_alias settings \<and> ws_mode fin = se_mode settings"
  using assms by (simp add: Let_def studio_onChange_def studio_onApply_def)

lemma edits_during_save_forgotten:
  "let fin = studio_saved True (studio_onChange steps (snd (studio_onSave st))) in ws_steps fin = steps \<and> \<not> ws_changed fin"
  by (simp add: Let_def studio_saved_def studio_onChange_def)

lemma yaml_edits_reference:
  fixes res :: workflow_doc
  assumes "truthy (wd_ref res)"
  shows "\<exists>st. page_trans\<^sup>*\<^sup>* (mount_app_studio (new_app_studio app env envName)) st \<and> truthy (ws_ref st) \<and>
    page_trans st (studio_onChange steps st) \<and> wb_steps (studio_body (studio_onChange steps st)) = []"
proof -
  let ?m = "mount_app_studio (new_app_studio app env envName)"
  let ?st = "loaded_workflow res (pick_yaml ?m)"
  have "\<not> truthy (ws_ref ?m)" by (simp add: mount_app_studio_def loadWorkflowDefinitions_def new_app_studio_def Let_def)
  then have y: "ws_editMode ?st = Yaml" by (simp add: loaded_workflow_def pick_yaml_def)
  have "page_trans\<^sup>*\<^sup>* ?m ?st" by (meson page_yaml page_loaded rtranclp.rtrancl_into_rtrancl rtranclp.rtrancl_refl)
  moreover have "page_trans ?st (studio_onChange steps ?st)" by (rule page_yaml_edit) (simp_all add: y, simp add: loaded_workflow_def)
  ultimately show ?thesis using assms by (intro exI[of _ ?st]) (simp add: loaded_workflow_def studio_body_def studio_onChange_def)
qed

text \<open>A pipeline is run from the page only when it has nothing unsaved, and what is saved and loaded
  again is as it was edited.\<close>

lemma runPipeline_saved: "pp_showRun (runPipeline st) \<longleftrightarrow> pp_showRun st \<or> \<not> pp_changed st"
  by (simp add: runPipeline_def)

lemma pipe_save_load:
  assumes "pipe_onSave st = (Some body, st')" and "pp_mode st \<noteq> []" and "pp_subMode st \<noteq> []"
  shows "loaded_pipeline body (pipe_saved True st') =
    st\<lparr>pp_pipeline := Some body, pp_steps := Some (or_nil (pp_steps st)), pp_changed := False, pp_saving := False\<rparr>"
  using assms by (auto simp: pipe_onSave_def pipe_body_def loaded_pipeline_def pipe_saved_def or_str_def truthy_iff split: option.splits)

section \<open>Who may not change a shared workflow\<close>

definition untouched :: "shared_studio \<Rightarrow> bool" where
  "untouched st \<longleftrightarrow> ss_editMode st = Visual \<and> \<not> ss_changed st \<and> \<not> ss_saving st \<and>
     (\<forall>s. ss_shared st = Some s \<longrightarrow> ss_steps st = sx_steps s \<and> ss_alias st = sw_alias s \<and> ss_description st = sw_description s \<and>
        ss_mode st = or_str (sx_mode s) ''StepByStep'' \<and> ss_subMode st = or_str (sx_subMode s) ''DAG'')"

lemma shared_trans_untouched:
  assumes "shared_trans props st st'" and "untouched st" and "shared_readOnly props"
  shows "untouched st'"
  using assms
proof cases
  case (sh_loaded res)
  then show ?thesis using assms(2) by (cases res) (simp_all add: loaded_shared_def untouched_def)
qed (use assms(2,3) in \<open>auto simp: untouched_def editable_def shared_onApply_def shared_pick_def shared_saved_def split: if_splits intro: edit_mode.exhaust\<close>)

interpretation read_only: machine "shared_trans props" "\<lambda>st. shared_readOnly props \<longrightarrow> untouched st" "\<lambda>st. st = new_shared_studio props \<and> draft_of props = None" for props
proof unfold_locales
  show "shared_readOnly props \<longrightarrow> untouched st" if "st = new_shared_studio props \<and> draft_of props = None" for st
    using that by (simp add: untouched_def new_shared_studio_def Let_def)
qed (auto intro: shared_trans_untouched)

text \<open>C33: who may not change a shared workflow never does: whatever is done on its page, its steps, names
  and modes are shown as the backend has them, nothing is unsaved and nothing is being saved.\<close>

theorem shared_read_only:
  assumes "shared_readOnly props" and "draft_of props = None" and "(shared_trans props)\<^sup>*\<^sup>* (new_shared_studio props) st"
  shows "\<not> ss_changed st \<and> \<not> ss_saving st \<and> (ss_shared st = Some s \<longrightarrow> ss_steps st = sx_steps s \<and> ss_alias st = sw_alias s \<and>
    ss_mode st = or_str (sx_mode s) ''StepByStep'' \<and> ss_subMode st = or_str (sx_subMode s) ''DAG'')"
  using read_only.reachable_inv[OF _ assms(3)] assms(1,2) by (simp add: untouched_def)

definition visitor :: shared_props where
  "visitor = \<lparr>sr_scope = Some ''global'', sr_name = Some ''release'', sr_queryProject = None, sr_state = None, sr_currentProject = None,
     sr_userInfo = None\<rparr>"

theorem shared_read_only_witness:
  "shared_readOnly visitor \<and> \<not> ss_changed (loaded_shared (Some project_flow) (new_shared_studio visitor))"
proof -
  have r: "shared_readOnly visitor" by code_simp
  have d: "draft_of visitor = None" by (simp add: draft_of_def visitor_def)
  have "(shared_trans visitor)\<^sup>*\<^sup>* (new_shared_studio visitor) (loaded_shared (Some project_flow) (new_shared_studio visitor))"
    using sh_loaded[OF d] by blast
  from shared_read_only[OF r d this] show ?thesis using r by blast
qed

text \<open>A draft is unsaved, whatever is edited, until it is created.\<close>

lemma draft_unsaved: "draft_of props \<noteq> None \<Longrightarrow> ss_changed (new_shared_studio props) \<and> ss_changed (shared_onChange props steps st)"
  by (simp add: new_shared_studio_def shared_onChange_def Let_def)

end
