(* ===== verification/Run_Pages.thy ===== *)
theory Run_Pages
  imports Studio_Pages Run_Loops
begin

text \<open>
  The pages of a run: a run of an application's workflow
  (\<open>pages/ApplicationWorkflowStatus\<close> and its \<open>WorkflowRecord\<close>) and a run of a pipeline
  (\<open>pages/PipelineRunPage\<close>). Both ask for the state of the run again and again until it has
  finished, and for the details of the step that is picked. Requests under way, timers that are
  set and whether a request has failed are part of the state; a request may be answered, or
  fail, at any time.
\<close>

section \<open>Asking again until a run has finished\<close>

record run_state =
  rn_name :: string
  rn_status :: "string option"
  rn_message :: "string option"

record poll =
  po_run :: string
  po_shown :: "run_state option"
  po_loading :: bool
  po_loop :: bool
  po_disableLoop :: bool
  po_requests :: "string list"
  po_timers :: nat
  po_failed :: bool
  po_actions :: nat

definition finishedStatuses :: "string list" where
  "finishedStatuses = [''terminated'', ''failed'', ''succeeded'']"

definition unfinished :: "run_state \<Rightarrow> bool" where
  "unfinished r \<longleftrightarrow> truthy (rn_status r) \<and> the (rn_status r) \<notin> set finishedStatuses"

definition ask :: "string \<Rightarrow> 'a poll_scheme \<Rightarrow> 'a poll_scheme" where
  "ask run st = st\<lparr>po_loading := True, po_requests := po_requests st @ [run]\<rparr>"

definition loadWorkflowRecord :: "'a poll_scheme \<Rightarrow> 'a poll_scheme" where
  "loadWorkflowRecord st = ask (po_run st) st"

text \<open>The answer to a request, \<open>None\<close> where it fails or is empty.\<close>

definition record_answer :: "string \<Rightarrow> run_state option \<Rightarrow> 'a poll_scheme \<Rightarrow> 'a poll_scheme" where
  "record_answer run res st =
     (let st = st\<lparr>po_requests := remove1 run (po_requests st), po_loading := False\<rparr>
      in case res of
           None \<Rightarrow> st\<lparr>po_failed := True\<rparr>
         | Some r \<Rightarrow>
             (let st = st\<lparr>po_shown := Some r\<rparr>
              in if unfinished r \<and> \<not> po_loop st \<and> \<not> po_disableLoop st then st\<lparr>po_loop := True, po_timers := po_timers st + 1\<rparr> else st))"

definition record_timer :: "'a poll_scheme \<Rightarrow> 'a poll_scheme" where
  "record_timer st = loadWorkflowRecord (st\<lparr>po_timers := po_timers st - 1, po_loop := False\<rparr>)"

definition record_unmount :: "'a poll_scheme \<Rightarrow> 'a poll_scheme" where
  "record_unmount st = st\<lparr>po_disableLoop := True\<rparr>"

definition record_update :: "string \<Rightarrow> 'a poll_scheme \<Rightarrow> 'a poll_scheme" where
  "record_update run st = (let st' = st\<lparr>po_run := run\<rparr> in if run \<noteq> po_run st then loadWorkflowRecord st' else st')"

text \<open>What is done to a run, an approval or an end, is a request of its own; once it succeeds the run is asked
  for, whether or not the page is still open.\<close>

definition act_on_run :: "'a poll_scheme \<Rightarrow> 'a poll_scheme" where
  "act_on_run st = st\<lparr>po_actions := po_actions st + 1\<rparr>"

definition action_answer :: "bool \<Rightarrow> 'a poll_scheme \<Rightarrow> 'a poll_scheme" where
  "action_answer ok st = (let st = st\<lparr>po_actions := po_actions st - 1\<rparr> in if ok then loadWorkflowRecord st else st)"

section \<open>The details of a step\<close>

datatype detail = Outputs | Inputs | Logs

text \<open>What is loaded for a step: the first list of outputs, the first of inputs, the lines of the
  log with their source. A request under way is the kind and the step asked for.\<close>

record run_page = poll +
  rg_showDetail :: bool
  rg_step :: "string option"
  rg_activeKey :: string
  rg_outputs :: "json option"
  rg_inputs :: "json option"
  rg_logs :: "string list"
  rg_logSource :: "string option"
  rg_loadingOf :: "detail list"
  rg_asked :: "(detail \<times> string) list"
  rg_approving :: "string option"
  rg_terminating :: bool
  rg_rollingBack :: bool

definition new_run_page :: "string \<Rightarrow> run_page" where
  "new_run_page run =
     \<lparr>po_run = run, po_shown = None, po_loading = True, po_loop = False, po_disableLoop = False, po_requests = [], po_timers = 0, po_failed = False, po_actions = 0,
      rg_showDetail = False, rg_step = None, rg_activeKey = ''detail'', rg_outputs = None, rg_inputs = None, rg_logs = [], rg_logSource = None,
      rg_loadingOf = [], rg_asked = [], rg_approving = None, rg_terminating = False, rg_rollingBack = False\<rparr>"

definition record_mount :: "string \<Rightarrow> run_page" where
  "record_mount run = loadWorkflowRecord (new_run_page run)"

definition get_detail :: "detail \<Rightarrow> run_page \<Rightarrow> run_page" where
  "get_detail k st =
     (case rg_step st of
        None \<Rightarrow> st
      | Some s \<Rightarrow> st\<lparr>rg_loadingOf := set_add (rg_loadingOf st) k, rg_asked := rg_asked st @ [(k, s)]\<rparr>)"

definition onTabChange :: "string \<Rightarrow> run_page \<Rightarrow> run_page" where
  "onTabChange key st =
     (let st = st\<lparr>rg_activeKey := key\<rparr>
      in if key = ''outputs'' then get_detail Outputs st
         else if key = ''detail'' then get_detail Logs st else if key = ''inputs'' then get_detail Inputs st else st)"

definition onStepClick :: "string \<Rightarrow> run_page \<Rightarrow> run_page" where
  "onStepClick step st = (let st = st\<lparr>rg_showDetail := True, rg_step := Some step\<rparr> in onTabChange (rg_activeKey st) st)"

definition detail_done :: "detail \<Rightarrow> string \<Rightarrow> run_page \<Rightarrow> run_page" where
  "detail_done k step st = st\<lparr>rg_asked := remove1 (k, step) (rg_asked st), rg_loadingOf := filter (\<lambda>x. x \<noteq> k) (rg_loadingOf st)\<rparr>"

definition first_of :: "json option \<Rightarrow> json option" where
  "first_of v = (case v of Some (JArr (x # _)) \<Rightarrow> Some x | _ \<Rightarrow> None)"

definition outputs_answer :: "string \<Rightarrow> json option \<Rightarrow> run_page \<Rightarrow> run_page" where
  "outputs_answer step outputs st = detail_done Outputs step (st\<lparr>rg_outputs := first_of outputs\<rparr>)"

definition inputs_answer :: "string \<Rightarrow> json option \<Rightarrow> run_page \<Rightarrow> run_page" where
  "inputs_answer step inputs st = detail_done Inputs step (st\<lparr>rg_inputs := first_of inputs\<rparr>)"

text \<open>The log and its source; reading the source of no answer throws, which changes nothing.\<close>

definition logs_answer :: "string \<Rightarrow> (string option \<times> string option) option \<Rightarrow> run_page \<Rightarrow> run_page" where
  "logs_answer step res st =
     (case res of
        None \<Rightarrow> detail_done Logs step st
      | Some (text, source) \<Rightarrow>
          detail_done Logs step (st\<lparr>rg_logs := (if truthy text then split_on (CHR 0x0A) (the text) else []), rg_logSource := source\<rparr>))"

section \<open>What is done to a run\<close>

definition onApproveStep :: "string \<Rightarrow> run_page \<Rightarrow> run_page" where
  "onApproveStep step st = (act_on_run st)\<lparr>rg_approving := Some step\<rparr>"

definition approve_answer :: "bool \<Rightarrow> run_page \<Rightarrow> run_page" where
  "approve_answer ok st = (action_answer ok st)\<lparr>rg_approving := None\<rparr>"

definition onTerminate :: "run_page \<Rightarrow> run_page" where
  "onTerminate st = (act_on_run st)\<lparr>rg_terminating := True\<rparr>"

definition terminate_answer :: "bool \<Rightarrow> run_page \<Rightarrow> run_page" where
  "terminate_answer ok st = (action_answer ok st)\<lparr>rg_terminating := False\<rparr>"

lemma actions_poll:
  "poll.truncate (onApproveStep step st) = act_on_run (poll.truncate st)" "poll.truncate (approve_answer ok st) = action_answer ok (poll.truncate st)"
  "poll.truncate (onTerminate st) = act_on_run (poll.truncate st)" "poll.truncate (terminate_answer ok st) = action_answer ok (poll.truncate st)"
  by (simp_all add: onApproveStep_def approve_answer_def onTerminate_def terminate_answer_def act_on_run_def action_answer_def
      loadWorkflowRecord_def ask_def poll.truncate_def Let_def)

text \<open>Rolling back ends on the page of the run it starts.\<close>

definition rollback_answer :: "string \<Rightarrow> string \<Rightarrow> string option \<Rightarrow> run_page \<Rightarrow> string option \<times> run_page" where
  "rollback_answer app env res st =
     (if truthy res then Some (''/applications/'' @ app @ ''/envbinding/'' @ env @ ''/workflow/records/'' @ the res) else None,
      st\<lparr>rg_rollingBack := False\<rparr>)"

definition can_terminate :: "'a poll_scheme \<Rightarrow> bool" where
  "can_terminate st \<longleftrightarrow> (case po_shown st of None \<Rightarrow> False | Some r \<Rightarrow> unfinished r)"

text \<open>The step of the workflow a status is of: the last of its name.\<close>

definition step_spec :: "wf_step list \<Rightarrow> string option \<Rightarrow> (string, json) js_map option" where
  "step_spec steps name =
     (case name of
        None \<Rightarrow> None
      | Some n \<Rightarrow>
          foldl (\<lambda>found s. foldl (\<lambda>f sub. if st_name sub = n then Some (st_rest sub) else f)
                    (if st_name s = n then Some (st_rest s) else found) (or_nil (st_subSteps s))) None steps)"

section \<open>A run of a pipeline\<close>

text \<open>The page of a pipeline's run asks in the same way; what it is told to ask for may be a run that
  is not yet its own.\<close>

definition onGetRunStatus :: "string option \<Rightarrow> 'a poll_scheme \<Rightarrow> 'a poll_scheme" where
  "onGetRunStatus match st = ask (coalesce match (po_run st)) st"

definition run_answer :: "string \<Rightarrow> run_state option \<Rightarrow> 'a poll_scheme \<Rightarrow> 'a poll_scheme" where
  "run_answer run res st = record_answer run res st"

definition run_timer :: "'a poll_scheme \<Rightarrow> 'a poll_scheme" where
  "run_timer st = onGetRunStatus None (st\<lparr>po_timers := po_timers st - 1, po_loop := False\<rparr>)"

definition run_receive_props :: "string \<Rightarrow> 'a poll_scheme \<Rightarrow> 'a poll_scheme" where
  "run_receive_props run st = (if run \<noteq> po_run st then onGetRunStatus (Some run) st else st)\<lparr>po_run := run\<rparr>"

lemma run_as_record:
  "run_timer st = record_timer st" "run_receive_props run st = record_update run st"
  by (simp_all add: run_timer_def record_timer_def onGetRunStatus_def loadWorkflowRecord_def ask_def run_receive_props_def record_update_def Let_def)

section \<open>The runs of an environment\<close>

record run_record =
  rr_name :: string
  rr_workflowName :: string
  rr_status :: "string option"
  rr_when :: string

record status_page =
  sg_record :: "string option"
  sg_records :: "run_record list option"
  sg_showRecordName :: string
  sg_currentRecord :: "run_record option"
  sg_workflow :: "workflow_doc option"

definition new_status_page :: "string option \<Rightarrow> status_page" where
  "new_status_page record = \<lparr>sg_record = record, sg_records = None, sg_showRecordName = [], sg_currentRecord = None, sg_workflow = None\<rparr>"

text \<open>The answer with the runs: where the page goes next, whether the workflow of a run is asked for,
  and the page. Runs that are not a list throw once they are shown as none.\<close>

definition records_answer :: "string \<Rightarrow> run_record list option \<Rightarrow> status_page \<Rightarrow> string + (string option \<times> string option) \<times> status_page" where
  "records_answer path res st =
     (let st = st\<lparr>sg_records := Some (or_nil res), sg_showRecordName := []\<rparr>
      in case res of
           None \<Rightarrow> Inl ''TypeError''
         | Some records \<Rightarrow>
             (case find (\<lambda>r. Some (rr_name r) = sg_record st) records of
                Some r \<Rightarrow> Inr ((None, Some (rr_workflowName r)), st\<lparr>sg_showRecordName := rr_name r, sg_currentRecord := Some r\<rparr>)
              | None \<Rightarrow>
                  (case records of
                     [] \<Rightarrow> Inr ((None, None), st)
                   | r # _ \<Rightarrow> Inr ((Some (path @ ''/workflow/records/'' @ rr_name r), None), st\<lparr>sg_showRecordName := rr_name r\<rparr>))))"

definition status_update :: "string option \<Rightarrow> status_page \<Rightarrow> status_page" where
  "status_update record st = st\<lparr>sg_record := record, sg_records := Some [], sg_showRecordName := []\<rparr>"

definition status_workflow :: "workflow_doc \<Rightarrow> status_page \<Rightarrow> status_page" where
  "status_workflow w st = (if sg_currentRecord st \<noteq> None then st\<lparr>sg_workflow := Some w\<rparr> else st)"

definition record_option :: "run_record \<Rightarrow> string \<times> string" where
  "record_option r =
     (let dot = [CHR '' '', CHR 0xB7, CHR '' '']
      in ((if rr_when r \<noteq> [] then rr_when r @ dot else []) @ bd_label (recordStatus (rr_status r)) @ dot @ rr_name r, rr_name r))"

datatype status_view = ViewLoading | ViewRun string | ViewNeverRan | ViewNothing

definition status_view_of :: "bool \<Rightarrow> status_page \<Rightarrow> status_view" where
  "status_view_of app st =
     (if \<not> app \<or> sg_workflow st = None then ViewLoading
      else if truthy (sg_record st) \<and> list_ex (\<lambda>r. Some (rr_name r) = sg_record st) (or_nil (sg_records st)) then ViewRun (the (sg_record st))
      else if sg_records st = Some [] then ViewNeverRan else ViewNothing)"

section \<open>Asking never stops early and never doubles\<close>

text \<open>The steps of a page that is open, and those after it is closed, when nothing is clicked any
  more but what was set going goes on: requests for the run, timers, and what was done to the run.\<close>

inductive left_step :: "'a poll_scheme \<Rightarrow> 'a poll_scheme \<Rightarrow> bool" where
  answered: "run \<in> set (po_requests st) \<Longrightarrow> left_step st (record_answer run res st)"
| timed: "po_timers st > 0 \<Longrightarrow> left_step st (record_timer st)"
| acted: "po_actions st > 0 \<Longrightarrow> left_step st (action_answer ok st)"

inductive poll_step :: "'a poll_scheme \<Rightarrow> 'a poll_scheme \<Rightarrow> bool" where
  going_on: "left_step st st' \<Longrightarrow> poll_step st st'"
| refreshed: "\<not> po_disableLoop st \<Longrightarrow> poll_step st (loadWorkflowRecord st)"
| acting: "\<not> po_disableLoop st \<Longrightarrow> poll_step st (act_on_run st)"
| moved_on: "\<not> po_disableLoop st \<Longrightarrow> poll_step st (record_update run st)"
| closed: "poll_step st (record_unmount st)"

definition poll_inv :: "'a poll_scheme \<Rightarrow> bool" where
  "poll_inv st \<longleftrightarrow> po_timers st = (if po_loop st then 1 else 0) \<and>
     (\<not> po_disableLoop st \<and> \<not> po_failed st \<and> (case po_shown st of None \<Rightarrow> True | Some r \<Rightarrow> unfinished r) \<longrightarrow>
        po_requests st \<noteq> [] \<or> po_loop st)"

lemma load_inv: "po_timers st = (if po_loop st then 1 else 0) \<Longrightarrow> poll_inv (loadWorkflowRecord st)"
  by (simp add: poll_inv_def loadWorkflowRecord_def ask_def)

lemma left_step_inv: "left_step st st' \<Longrightarrow> poll_inv st \<Longrightarrow> poll_inv st'"
proof (induction rule: left_step.induct)
  case (answered run st res)
  then show ?case by (cases res) (auto simp: poll_inv_def record_answer_def Let_def)
next
  case (timed st)
  then show ?case unfolding record_timer_def by (intro load_inv) (auto simp: poll_inv_def split: if_splits)
next
  case (acted st ok)
  then show ?case by (cases ok) (simp_all add: action_answer_def poll_inv_def loadWorkflowRecord_def ask_def Let_def)
qed

lemma poll_step_inv: "poll_step st st' \<Longrightarrow> poll_inv st \<Longrightarrow> poll_inv st'"
proof (induction rule: poll_step.induct)
  case (going_on st st')
  then show ?case by (rule left_step_inv)
next
  case (refreshed st)
  then show ?case by (intro load_inv) (simp add: poll_inv_def)
next
  case (acting st)
  then show ?case by (simp add: act_on_run_def poll_inv_def)
next
  case (moved_on st run)
  then show ?case
    by (cases "run = po_run st") (simp_all add: record_update_def Let_def load_inv poll_inv_def, simp_all add: loadWorkflowRecord_def ask_def)
next
  case (closed st)
  then show ?case by (simp add: record_unmount_def poll_inv_def)
qed

interpretation polling: machine "poll_step :: run_page \<Rightarrow> run_page \<Rightarrow> bool" poll_inv "\<lambda>st. \<exists>run. st = record_mount run"
  by unfold_locales (auto intro: poll_step_inv load_inv simp: record_mount_def new_run_page_def)

text \<open>C34: while the page is open and no request has failed, a run that has not finished is being asked
  for or a timer is set that will ask for it; and there is never more than one timer.\<close>

theorem polling_alive:
  assumes "poll_step\<^sup>*\<^sup>* (record_mount run) st"
  shows "po_timers st \<le> 1 \<and>
    (\<not> po_disableLoop st \<and> \<not> po_failed st \<and> (po_shown st = None \<or> can_terminate st) \<longrightarrow> po_requests st \<noteq> [] \<or> po_timers st = 1)"
proof -
  have "poll_inv st" using polling.reachable_inv[OF _ assms] by blast
  then show ?thesis by (auto simp: poll_inv_def can_terminate_def split: option.splits if_splits)
qed

definition running_run :: run_state where
  "running_run = \<lparr>rn_name = ''r'', rn_status = Some ''running'', rn_message = None\<rparr>"

theorem polling_alive_witness:
  "can_terminate (record_answer ''r'' (Some running_run) (record_mount ''r'')) \<and> po_timers (record_answer ''r'' (Some running_run) (record_mount ''r'')) = 1"
proof -
  let ?st = "record_answer ''r'' (Some running_run) (record_mount ''r'')"
  have "''r'' \<in> set (po_requests (record_mount ''r''))" by code_simp
  then have "poll_step\<^sup>*\<^sup>* (record_mount ''r'') ?st" by (blast intro: going_on answered)
  moreover have "can_terminate ?st" "\<not> po_disableLoop ?st" "\<not> po_failed ?st" "po_requests ?st = []" by code_simp+
  ultimately show ?thesis using polling_alive[of "''r''" ?st] by blast
qed

definition left_cost :: "'a poll_scheme \<Rightarrow> nat" where
  "left_cost st = 2 * po_timers st + 2 * po_actions st + length (po_requests st)"

lemma left_step_cost:
  "left_step st st' \<Longrightarrow> po_disableLoop st \<Longrightarrow> po_disableLoop st' \<and> left_cost st' < left_cost st \<and> po_timers st' \<le> po_timers st"
proof (induction rule: left_step.induct)
  case (answered run st res)
  then have "length (remove1 run (po_requests st)) < length (po_requests st)" by (metis length_pos_if_in_set length_remove1 diff_less zero_less_one)
  then show ?case using answered by (cases res) (simp_all add: record_answer_def left_cost_def Let_def)
next
  case (timed st)
  then show ?case by (simp add: record_timer_def loadWorkflowRecord_def ask_def left_cost_def)
next
  case (acted st ok)
  then show ?case by (cases ok) (simp_all add: action_answer_def loadWorkflowRecord_def ask_def left_cost_def Let_def)
qed

lemma left_cost_steps:
  assumes "left_cost st > 0" shows "\<exists>st'. left_step st st'"
proof -
  consider "po_timers st > 0" | "po_actions st > 0" | "po_requests st \<noteq> []" using assms by (auto simp: left_cost_def)
  then show ?thesis
  proof cases
    case 3
    then obtain r rs where "po_requests st = r # rs" by (cases "po_requests st") auto
    then show ?thesis using answered[of r st] by auto
  qed (blast intro: timed acted)+
qed

lemma no_left_step: "left_cost st = 0 \<Longrightarrow> \<not> left_step st st'"
  by (auto simp: left_cost_def elim: left_step.cases)

text \<open>C35: a page that is closed stops asking: of the requests for the run, the timer and the approvals and
  ends still under way when it closed, and of the requests they give rise to, a bounded number is
  answered in any order and with any answer, two steps for a timer or something done to the run and one for a
  request; no timer is set any more; and where no step is left nothing is under way.\<close>

theorem closed_page_settles:
  assumes "po_disableLoop st" and "(left_step ^^ n) st st'"
  shows "n \<le> 2 * po_timers st + 2 * po_actions st + length (po_requests st) \<and> po_timers st' \<le> po_timers st \<and>
    ((\<nexists>st''. left_step st' st'') \<longleftrightarrow> po_timers st' = 0 \<and> po_actions st' = 0 \<and> po_requests st' = [])"
proof -
  have "left_cost st' + n \<le> left_cost st \<and> po_disableLoop st' \<and> po_timers st' \<le> po_timers st" using assms(2)
  proof (induction n arbitrary: st')
    case (Suc n)
    then obtain s where s: "(left_step ^^ n) st s" "left_step s st'" by auto
    show ?case using Suc.IH[OF s(1)] left_step_cost[OF s(2)] by simp
  qed (simp add: assms(1))
  moreover have "(\<nexists>st''. left_step st' st'') \<longleftrightarrow> left_cost st' = 0"
    using left_cost_steps[of st'] no_left_step[of st'] by blast
  ultimately show ?thesis by (simp add: left_cost_def)
qed

theorem closed_page_settles_witness:
  "let st = record_unmount (onTerminate (record_mount ''r'')); st' = record_answer ''r'' (Some running_run) (action_answer True st)
   in (left_step ^^ 2) st st' \<and> 2 \<le> 2 * po_timers st + 2 * po_actions st + length (po_requests st) \<and> po_requests st' = [''r''] \<and> po_timers st' = 0"
proof -
  define st where "st = record_unmount (onTerminate (record_mount ''r''))"
  define a where "a = action_answer True st"
  define b where "b = record_answer ''r'' (Some running_run) a"
  have h: "po_actions st > 0" "''r'' \<in> set (po_requests a)" "po_disableLoop st" "po_requests b = [''r'']" "po_timers b = 0"
    unfolding b_def a_def st_def by code_simp+
  have "left_step st a" unfolding a_def by (rule acted[OF h(1)])
  moreover have "left_step a b" unfolding b_def by (rule answered[OF h(2)])
  ultimately have l: "(left_step ^^ 2) st b" by (auto simp: numeral_2_eq_2)
  then show ?thesis using closed_page_settles[OF h(3) l] h unfolding Let_def a_def b_def st_def by blast
qed

section \<open>Where it goes wrong\<close>

text \<open>One request that fails ends the asking for good: the run that is shown as running is not asked for
  again until the page is told to.\<close>

lemma failed_poll_stops:
  assumes "po_requests st = [run]" and "po_timers st = 0" and "po_actions st = 0"
  shows "po_requests (record_answer run None st) = [] \<and> po_timers (record_answer run None st) = 0 \<and>
    po_shown (record_answer run None st) = po_shown st \<and> \<not> left_step (record_answer run None st) st'"
  using assms by (auto simp: record_answer_def Let_def left_step.simps)

text \<open>A run asked for before, answered last, is shown in place of the run of the page, and stays if it
  has finished.\<close>

lemma late_run_shown:
  assumes "a \<noteq> b" and "\<not> unfinished ra" and "\<not> unfinished rb"
  shows "\<exists>st. poll_step\<^sup>*\<^sup>* (record_mount a) st \<and> po_run st = b \<and> po_shown st = Some ra \<and> po_requests st = [] \<and> po_timers st = 0"
proof -
  let ?m = "record_mount a" let ?u = "record_update b ?m"
  let ?b = "record_answer b (Some rb) ?u" let ?a = "record_answer a (Some ra) ?b"
  have m: "po_requests ?m = [a]" "po_run ?m = a" "\<not> po_disableLoop ?m" "po_timers ?m = 0" "\<not> po_loop ?m"
    by (simp_all add: record_mount_def loadWorkflowRecord_def ask_def new_run_page_def)
  have u: "po_requests ?u = [a, b]" "po_run ?u = b" "po_timers ?u = 0" "\<not> po_loop ?u"
    using assms(1) m by (simp_all add: record_update_def loadWorkflowRecord_def ask_def)
  have b: "po_requests ?b = [a]" "po_run ?b = b" "po_timers ?b = 0" using assms u by (simp_all add: record_answer_def)
  have "poll_step ?m ?u" using m by (simp add: moved_on)
  moreover have "poll_step ?u ?b" using u by (intro going_on answered) simp
  moreover have "poll_step ?b ?a" using b by (intro going_on answered) simp
  ultimately have "poll_step\<^sup>*\<^sup>* ?m ?a" by (meson rtranclp.rtrancl_into_rtrancl rtranclp.rtrancl_refl)
  then show ?thesis using b assms(2) by (intro exI[of _ ?a]) (simp add: record_answer_def)
qed

text \<open>The details asked for one step are shown for the step that is picked meanwhile.\<close>

lemma late_outputs_shown:
  "rg_activeKey st = ''outputs'' \<Longrightarrow>
   let st' = outputs_answer a (Some (JArr [v])) (onStepClick b (onStepClick a st)) in rg_step st' = Some b \<and> rg_outputs st' = Some v \<and> Outputs \<notin> set (rg_loadingOf st')"
  by (simp add: onStepClick_def onTabChange_def get_detail_def outputs_answer_def detail_done_def first_of_def Let_def)

text \<open>The runs of an environment: the run of the address is the one shown, or else the first; but the
  workflow is asked for only with a run, so where none has run the page waits for ever and never
  says so.\<close>

lemma records_answer_exact:
  assumes "records_answer path (Some records) st = Inr ((link, ask_for), st')"
  shows "(ask_for \<noteq> None \<longleftrightarrow> sg_record st \<in> (Some \<circ> rr_name) ` set records) \<and>
    (link \<noteq> None \<longleftrightarrow> sg_record st \<notin> (Some \<circ> rr_name) ` set records \<and> records \<noteq> [])"
proof (cases "find (\<lambda>r. Some (rr_name r) = sg_record st) records")
  case None
  then have "sg_record st \<notin> (Some \<circ> rr_name) ` set records" by (auto simp: find_None_all)
  then show ?thesis using None assms by (auto simp: records_answer_def Let_def split: list.splits)
next
  case (Some r)
  then have "sg_record st \<in> (Some \<circ> rr_name) ` set records" by (force dest: find_Some_mem)
  then show ?thesis using Some assms by (auto simp: records_answer_def Let_def)
qed

lemma never_ran_waits:
  assumes "records_answer path (Some []) (new_status_page record) = Inr (go, st)"
  shows "status_view_of app st = ViewLoading \<and> status_view_of app (status_workflow w st) = ViewLoading"
  using assms by (auto simp: records_answer_def new_status_page_def status_view_of_def status_workflow_def Let_def)

lemma no_records_throw: "records_answer path None st = Inl ''TypeError''"
  by (simp add: records_answer_def Let_def)

end
