(* ===== verification/Config_Dialogs.thy ===== *)
theory Config_Dialogs
  imports Definition_Utils Component_Dependencies Field_Widgets
begin

text \<open>
  The dialogs that configure an application (\<open>pages/ApplicationConfig/components\<close>): its sources
  (\<open>SourceDialog\<close>), policies (\<open>PolicyDialog\<close>), traits (\<open>TraitDialog\<close>) and components
  (\<open>ComponentDialog\<close>). A dialog is opened on an item or on nothing, loads the form of the type
  that is picked, and submits the values of its form. Properties are JSON values; where the
  program prints them, the request here has the value printed. Whether the form is valid is an
  argument, as is what the backend answers.
\<close>

section \<open>What opening and submitting promise\<close>

text \<open>A dialog opened on an item: whatever the backend answers about the form, submitting without a
  change asks to save the item as it was.\<close>

locale faithful_edit =
  fixes open_on :: "'i \<Rightarrow> 's" and answer :: "'a \<Rightarrow> 's \<Rightarrow> 's" and submit :: "'s \<Rightarrow> 'r option"
    and request :: "'i \<Rightarrow> 'r" and plain :: "'i \<Rightarrow> bool"
  assumes opens: "plain i \<Longrightarrow> submit (open_on i) = Some (request i)"
    and answer_keeps: "submit (answer a s) = submit s"
begin

lemma submits_item: "plain i \<Longrightarrow> submit (foldr answer as (open_on i)) = Some (request i)"
  by (induction as) (simp_all add: opens answer_keeps)

end

section \<open>A source\<close>

record app_source =
  so_name :: string
  so_type :: string
  so_properties :: "json option"
  so_autoUpdate :: "bool option"

record source_values =
  sv_name :: "string option"
  sv_type :: "string option"
  sv_version :: "string option"
  sv_properties :: "json option"
  sv_autoUpdate :: "string option"

text \<open>A form loaded is known by the type and version it was asked for.\<close>

record source_dialog =
  sd_source :: "app_source option"
  sd_env :: "deploy_target list option"
  sd_values :: source_values
  sd_suggestedName :: string
  sd_definitions :: "string list"
  sd_definition :: "(string \<times> string option) option"
  sd_loading :: bool
  sd_asked :: "(string \<times> string option) list"
  sd_saving :: bool

definition autoUpdateOption :: "bool option \<Rightarrow> string" where
  "autoUpdateOption autoUpdate = (case autoUpdate of None \<Rightarrow> ''default'' | Some b \<Rightarrow> if b then ''on'' else ''off'')"

definition autoUpdateValue :: "string option \<Rightarrow> bool option" where
  "autoUpdateValue opt = (if opt = Some ''on'' then Some True else if opt = Some ''off'' then Some False else None)"

definition loadDefinition :: "string \<Rightarrow> string option \<Rightarrow> source_dialog \<Rightarrow> source_dialog" where
  "loadDefinition type version st = (if type = [] then st else st\<lparr>sd_loading := True, sd_asked := sd_asked st @ [(type, version)]\<rparr>)"

definition new_source_dialog :: "app_source option \<Rightarrow> deploy_target list option \<Rightarrow> source_dialog" where
  "new_source_dialog source env =
     \<lparr>sd_source = source, sd_env = env,
      sd_values = \<lparr>sv_name = None, sv_type = None, sv_version = None, sv_properties = None, sv_autoUpdate = None\<rparr>,
      sd_suggestedName = [], sd_definitions = [], sd_definition = None, sd_loading = False, sd_asked = [], sd_saving = False\<rparr>"

definition source_mount :: "app_source option \<Rightarrow> deploy_target list option \<Rightarrow> source_dialog" where
  "source_mount source env =
     (let st = new_source_dialog source env
      in case source of
           None \<Rightarrow> st
         | Some s \<Rightarrow>
             (let (name, version) = splitType (Some (so_type s))
              in loadDefinition name version
                   (st\<lparr>sd_values := \<lparr>sv_name = Some (so_name s), sv_type = Some name, sv_version = version, sv_properties = so_properties s,
                        sv_autoUpdate = Some (autoUpdateOption (so_autoUpdate s))\<rparr>\<rparr>)))"

text \<open>The types on offer: the namespaces asked for, none where there is no namespace.\<close>

definition source_types_query :: "source_dialog \<Rightarrow> string list option" where
  "source_types_query st = (let namespaces = deployNamespaces (sd_env st) in if namespaces = [] then None else Some namespaces)"

definition source_types_answer :: "(string \<times> string list option) list option \<Rightarrow> source_dialog \<Rightarrow> source_dialog" where
  "source_types_answer defs st = st\<lparr>sd_definitions := map fst (filter (\<lambda>(_, unusableIn). isUsable unusableIn) (or_nil defs))\<rparr>"

definition source_type_change :: "string option \<Rightarrow> source_dialog \<Rightarrow> source_dialog" where
  "source_type_change value st =
     (let current = sv_name (sd_values st);
          st = st\<lparr>sd_values := (sd_values st)\<lparr>sv_type := value\<rparr>\<rparr>;
          st = (if sd_source st = None \<and> (\<not> truthy current \<or> current = Some (sd_suggestedName st))
                then let name = (if truthy value then sourceBindingName (the value) else [])
                     in st\<lparr>sd_suggestedName := name, sd_values := (sd_values st)\<lparr>sv_name := Some name\<rparr>\<rparr>
                else st)
      in loadDefinition (or_str value [])
           (None) (st\<lparr>sd_values := (sd_values st)\<lparr>sv_properties := None, sv_version := None\<rparr>, sd_definition := None\<rparr>))"

definition source_name_typed :: "string \<Rightarrow> source_dialog \<Rightarrow> source_dialog" where
  "source_name_typed name st = st\<lparr>sd_values := (sd_values st)\<lparr>sv_name := Some name\<rparr>\<rparr>"

definition source_version_change :: "string option \<Rightarrow> source_dialog \<Rightarrow> source_dialog" where
  "source_version_change version st =
     loadDefinition (or_str (sv_type (sd_values st)) []) version (st\<lparr>sd_values := (sd_values st)\<lparr>sv_version := version\<rparr>\<rparr>)"

text \<open>The form asked for is answered, or not.\<close>

definition source_definition_answer :: "(string \<times> string option) \<times> bool \<Rightarrow> source_dialog \<Rightarrow> source_dialog" where
  "source_definition_answer a st =
     (let st = st\<lparr>sd_asked := remove1 (fst a) (sd_asked st), sd_loading := False\<rparr> in if snd a then st\<lparr>sd_definition := Some (fst a)\<rparr> else st)"

datatype source_request = UpdateSource string string json "bool option" | CreateSource string string json "bool option"

definition source_request_for :: "source_dialog \<Rightarrow> source_request option" where
  "source_request_for st =
     (let v = sd_values st; type = joinType (or_str (sv_type v) []) (sv_version v);
          properties = (if falsy (sv_properties v) then JObj [] else the (sv_properties v)); autoUpdate = autoUpdateValue (sv_autoUpdate v)
      in case sd_source st of
           Some s \<Rightarrow> Some (UpdateSource (so_name s) type properties autoUpdate)
         | None \<Rightarrow> map_option (\<lambda>name. CreateSource name type properties autoUpdate) (sv_name v))"

definition source_submit :: "source_dialog \<Rightarrow> source_request option \<times> source_dialog" where
  "source_submit st = (source_request_for st, st\<lparr>sd_saving := True\<rparr>)"

definition source_saved :: "source_dialog \<Rightarrow> source_dialog" where
  "source_saved st = st\<lparr>sd_saving := False\<rparr>"

section \<open>A policy\<close>

record app_policy =
  pl_name :: string
  pl_type :: string
  pl_alias :: string
  pl_description :: string
  pl_envName :: string
  pl_properties :: "json option"
  pl_bind :: "(string \<times> string list) list option"

record policy_item =
  pi_label :: string
  pi_name :: string
  pi_title :: "string option"
  pi_type :: string
  pi_properties :: "json option"

record policy_values =
  pv_name :: "string option"
  pv_type :: "string option"
  pv_version :: "string option"
  pv_alias :: "string option"
  pv_description :: "string option"
  pv_envName :: "string option"
  pv_properties :: "json option"
  pv_workflow :: "string option"
  pv_steps :: "string list option"

text \<open>A workflow as the dialog reads it: its name, alias, environment and steps.\<close>

record policy_workflow =
  pw_name :: string
  pw_alias :: "string option"
  pw_envName :: string
  pw_steps :: "(string \<times> string option \<times> string) list option"

record policy_dialog =
  pg_policy :: "app_policy option"
  pg_workflows :: "policy_workflow list"
  pg_values :: policy_values
  pg_selected :: "policy_item option"
  pg_definition :: "(string \<times> string option) option"
  pg_definitions :: "(string \<times> string list option) list option"
  pg_loading :: bool
  pg_asked :: "(string \<times> string option) list"
  pg_creating :: bool

definition retain_pvc :: json where
  "retain_pvc = JObj [(''rules'', JArr [JObj [(''selector'', JObj [(''resourceTypes'', JArr [JStr ''PersistentVolumeClaim''])]), (''strategy'', JStr ''never'')]])]"

definition ignore_replicas :: json where
  "ignore_replicas = JObj [(''rules'', JArr [JObj [(''enable'', JBool True), (''rules'', JArr [JObj
     [(''selector'', JObj [(''resourceTypes'', JArr [JStr ''Deployment'', JStr ''StatefulSet'', JStr ''Job''])]),
      (''strategy'', JObj [(''path'', JArr [JStr ''spec.replicas''])])]])]])]"

definition custom_item :: policy_item where
  "custom_item = \<lparr>pi_label = ''Custom'', pi_name = ''custom'', pi_title = None, pi_type = [], pi_properties = None\<rparr>"

definition policy_items :: "policy_item list" where
  "policy_items =
     [\<lparr>pi_label = ''Override'', pi_name = ''override-custom'',
       pi_title = Some ''Set differentiated configurations of the application in different environments.'', pi_type = ''override'', pi_properties = None\<rparr>,
      \<lparr>pi_label = ''Topology'', pi_name = ''topology'', pi_title = Some ''This policy allows custom the topology by the target'', pi_type = ''topology'',
       pi_properties = None\<rparr>,
      \<lparr>pi_label = ''Deliver Once'', pi_name = ''apply-once-no-rule'',
       pi_title = Some ''This policy allows direct changes to the resources distributed to the target cluster, the controller won't keep reconciling.'',
       pi_type = ''apply-once'', pi_properties = Some (JObj [(''enable'', JBool True)])\<rparr>,
      \<lparr>pi_label = ''PVC Retain'', pi_name = ''garbage-collect-retain-pvc'',
       pi_title = Some ''This policy allows retaining the PVC resource after recycling the application.'', pi_type = ''garbage-collect'',
       pi_properties = Some retain_pvc\<rparr>,
      \<lparr>pi_label = ''Replicas Scalable'', pi_name = ''apply-once-ignore-replicas'',
       pi_title = Some ''This policy allows replicas of workloads to be changed, such as working with HPA.'', pi_type = ''apply-once'',
       pi_properties = Some ignore_replicas\<rparr>,
      custom_item]"

definition no_values :: policy_values where
  "no_values = \<lparr>pv_name = None, pv_type = None, pv_version = None, pv_alias = None, pv_description = None, pv_envName = None, pv_properties = None,
     pv_workflow = None, pv_steps = None\<rparr>"

definition new_policy_dialog :: "app_policy option \<Rightarrow> policy_workflow list \<Rightarrow> policy_dialog" where
  "new_policy_dialog policy workflows =
     \<lparr>pg_policy = policy, pg_workflows = workflows, pg_values = no_values, pg_selected = None, pg_definition = None, pg_definitions = None,
      pg_loading = False, pg_asked = [], pg_creating = False\<rparr>"

definition loadPolicyDefinitionDetail :: "string \<Rightarrow> string option \<Rightarrow> policy_dialog \<Rightarrow> policy_dialog" where
  "loadPolicyDefinitionDetail type version st = st\<lparr>pg_loading := True, pg_asked := pg_asked st @ [(type, version)]\<rparr>"

definition onSelectPolicy :: "policy_item \<Rightarrow> policy_dialog \<Rightarrow> policy_dialog" where
  "onSelectPolicy item st =
     (let st = st\<lparr>pg_values := no_values\<lparr>pv_name := Some (pi_name item), pv_description := pi_title item, pv_properties := pi_properties item,
                    pv_type := Some (pi_type item), pv_alias := Some (pi_label item)\<rparr>\<rparr>;
          st = (if pi_properties item = None then loadPolicyDefinitionDetail (pi_type item) None st else st)
      in st\<lparr>pg_selected := Some item\<rparr>)"

definition policy_mount :: "app_policy option \<Rightarrow> policy_workflow list \<Rightarrow> policy_dialog" where
  "policy_mount policy workflows =
     (let st = new_policy_dialog policy workflows
      in case policy of
           None \<Rightarrow> st
         | Some p \<Rightarrow>
             (let (name, version) = splitType (Some (pl_type p));
                  fitting = filter (\<lambda>i. pi_type i = name \<and> pi_properties i = None) policy_items;
                  st = (if fitting = [] then onSelectPolicy custom_item st else foldl (\<lambda>st i. onSelectPolicy i st) st fitting);
                  st = st\<lparr>pg_values := (pg_values st)\<lparr>pv_name := Some (pl_name p), pv_alias := Some (pl_alias p), pv_description := Some (pl_description p),
                             pv_envName := Some (pl_envName p), pv_properties := pl_properties p, pv_type := Some name, pv_version := version\<rparr>\<rparr>;
                  st = (case or_nil (pl_bind p) of
                          [] \<Rightarrow> st
                        | (w, steps) # _ \<Rightarrow> st\<lparr>pg_values := (pg_values st)\<lparr>pv_workflow := Some w, pv_steps := Some steps\<rparr>\<rparr>)
              in loadPolicyDefinitionDetail name version st))"

definition policy_type_change :: "string \<Rightarrow> policy_dialog \<Rightarrow> policy_dialog" where
  "policy_type_change value st =
     (let st = st\<lparr>pg_values := (pg_values st)\<lparr>pv_type := Some value, pv_properties := None, pv_version := None\<rparr>, pg_definition := None\<rparr>;
          st = loadPolicyDefinitionDetail value None st
      in st\<lparr>pg_values := (pg_values st)\<lparr>pv_name := Some value, pv_alias := Some value\<rparr>\<rparr>)"


definition getEnvNameFromWorkflow :: "policy_workflow list \<Rightarrow> string \<Rightarrow> string" where
  "getEnvNameFromWorkflow workflows name = foldl (\<lambda>env wf. if pw_name wf = name then pw_envName wf else env) [] workflows"

definition policy_env :: "policy_dialog \<Rightarrow> string option" where
  "policy_env st =
     (let v = pg_values st
      in if \<not> truthy (pv_envName v) \<and> truthy (pv_workflow v) then Some (getEnvNameFromWorkflow (pg_workflows st) (the (pv_workflow v)))
         else pv_envName v)"

definition policy_binding :: "policy_dialog \<Rightarrow> (string \<times> string list) list option" where
  "policy_binding st =
     (let v = pg_values st in if truthy (pv_workflow v) \<and> or_nil (pv_steps v) \<noteq> [] then Some [(the (pv_workflow v), or_nil (pv_steps v))] else None)"

record policy_request =
  pq_name :: string
  pq_type :: string
  pq_envName :: "string option"
  pq_description :: "string option"
  pq_alias :: "string option"
  pq_properties :: "json option"
  pq_bind :: "(string \<times> string list) list option"

definition policy_request_of :: "string \<Rightarrow> policy_dialog \<Rightarrow> policy_request" where
  "policy_request_of type st =
     (let v = pg_values st
      in \<lparr>pq_name = coalesce (pv_name v) [], pq_type = joinType type (pv_version v), pq_envName = policy_env st, pq_description = pv_description v,
          pq_alias = pv_alias v, pq_properties = pv_properties v, pq_bind = policy_binding st\<rparr>)"

definition policy_update_request :: "policy_dialog \<Rightarrow> policy_request option" where
  "policy_update_request st = Some (policy_request_of (coalesce (pv_type (pg_values st)) []) st)"


definition onSubmitCreate :: "policy_dialog \<Rightarrow> policy_request option \<times> policy_dialog" where
  "onSubmitCreate st =
     (case pg_selected st of
        None \<Rightarrow> (None, st)
      | Some item \<Rightarrow>
          (let st = st\<lparr>pg_creating := True\<rparr>; type = or_str (pv_type (pg_values st)) (pi_type item)
           in if type = [] then (None, st) else (Some (policy_request_of type st), st)))"

definition policy_created :: "policy_dialog \<Rightarrow> policy_dialog" where
  "policy_created st = st\<lparr>pg_creating := False\<rparr>"

definition buildWorkflowStepsOptions :: "policy_dialog \<Rightarrow> (string \<times> string) list" where
  "buildWorkflowStepsOptions st =
     concat (map (\<lambda>wf. if Some (pw_name wf) = pv_workflow (pg_values st)
        then List.map_filter (\<lambda>(name, alias, type). if type = ''deploy'' then Some (name @ ''('' @ or_str alias ''-'' @ '')'', name) else None) (or_nil (pw_steps wf))
        else []) (pg_workflows st))"

definition buildWorkflowOptions :: "policy_dialog \<Rightarrow> (string \<times> string) list" where
  "buildWorkflowOptions st = map (\<lambda>wf. (pw_name wf @ ''('' @ or_str (pw_alias wf) ''-'' @ '')'', pw_name wf)) (pg_workflows st)"

definition buildPolicyTypeOptions :: "policy_dialog \<Rightarrow> string list" where
  "buildPolicyTypeOptions st =
     filter (\<lambda>n. n \<noteq> ''override'' \<and> n \<noteq> ''topology'') (map fst (filter (\<lambda>(_, unusableIn). isUsable unusableIn) (or_nil (pg_definitions st))))"

definition policy_ready :: "policy_dialog \<Rightarrow> bool" where
  "policy_ready st \<longleftrightarrow> pg_policy st \<noteq> None \<or>
     (case pg_selected st of None \<Rightarrow> False | Some item \<Rightarrow> pi_name item \<noteq> ''custom'' \<or> truthy (pv_type (pg_values st)))"

section \<open>A trait\<close>

record app_trait =
  tt_type :: string
  tt_alias :: string
  tt_description :: string
  tt_properties :: "json option"

record trait_values =
  tv_type :: "string option"
  tv_version :: "string option"
  tv_alias :: "string option"
  tv_description :: "string option"
  tv_properties :: "json option"

text \<open>The form of a type: the defaults of its parameters, where it has a schema.\<close>

record trait_form =
  tf_type :: string
  tf_schema :: "(string \<times> json option) list option"

record trait_dialog =
  td_isEditComponent :: bool
  td_isEditTrait :: bool
  td_item :: "app_trait option"
  td_temporary :: "app_trait list"
  td_values :: trait_values
  td_form :: "trait_form option"
  td_formLoading :: bool
  td_isLoading :: bool

definition new_trait_dialog :: "bool \<Rightarrow> bool \<Rightarrow> app_trait option \<Rightarrow> app_trait list \<Rightarrow> trait_dialog" where
  "new_trait_dialog isEditComponent isEditTrait item temporary =
     \<lparr>td_isEditComponent = isEditComponent, td_isEditTrait = isEditTrait, td_item = item, td_temporary = temporary,
      td_values = \<lparr>tv_type = None, tv_version = None, tv_alias = None, tv_description = None, tv_properties = None\<rparr>,
      td_form = None, td_formLoading = False, td_isLoading = False\<rparr>"

definition onDetailsTraitDefinition :: "trait_dialog \<Rightarrow> trait_dialog" where
  "onDetailsTraitDefinition st = st\<lparr>td_formLoading := True\<rparr>"

text \<open>The dialog once the component has been loaded.\<close>

definition trait_mounted :: "trait_dialog \<Rightarrow> trait_dialog" where
  "trait_mounted st =
     (case td_item st of
        Some i \<Rightarrow>
          if td_isEditTrait st
          then let (name, version) = splitType (Some (tt_type i));
                   st = st\<lparr>td_values := \<lparr>tv_type = Some name, tv_version = version, tv_alias = Some (tt_alias i),
                              tv_description = Some (tt_description i), tv_properties = tt_properties i\<rparr>\<rparr>
               in if name \<noteq> [] then onDetailsTraitDefinition st else st
          else st
      | None \<Rightarrow> st)"

definition setDefaultProperties :: "trait_form \<Rightarrow> trait_dialog \<Rightarrow> trait_dialog" where
  "setDefaultProperties form st =
     (case tf_schema form of
        None \<Rightarrow> st
      | Some ps \<Rightarrow>
          st\<lparr>td_values := (td_values st)\<lparr>tv_properties := Some (JObj (List.map_filter (\<lambda>(k, d). map_option (\<lambda>v. (k, v)) d) ps))\<rparr>\<rparr>)"

text \<open>The answer with the form: none at all leaves the dialog loading, a failure does not.\<close>

datatype 'a answer = Answered 'a | Empty | Rejected

definition trait_form_answer :: "trait_form answer \<Rightarrow> trait_dialog \<Rightarrow> trait_dialog" where
  "trait_form_answer a st =
     (case a of
        Answered form \<Rightarrow> setDefaultProperties form (st\<lparr>td_form := Some form, td_formLoading := False\<rparr>)
      | Empty \<Rightarrow> st
      | Rejected \<Rightarrow> st\<lparr>td_formLoading := False\<rparr>)"

definition trait_alias :: "string \<Rightarrow> string" where
  "trait_alias type =
     (if type = ''scaler'' then ''Manual Scaler'' else if type = ''http-route'' then ''HTTP Route''
      else if type = ''https-route'' then ''HTTPs Route'' else if type = ''gateway'' then ''HTTP Route'' else type)"

definition trait_type_change :: "string \<Rightarrow> trait_dialog \<Rightarrow> trait_dialog" where
  "trait_type_change value st =
     onDetailsTraitDefinition (st\<lparr>td_form := None, td_values := (td_values st)\<lparr>tv_type := Some value, tv_version := None, tv_properties := None,
        tv_alias := Some (trait_alias value)\<rparr>\<rparr>)"

datatype trait_act = UpdateTrait string app_trait | CreateTrait app_trait | AddTemporary app_trait | UpdateTemporary app_trait | SameType

definition trait_params :: "trait_dialog \<Rightarrow> app_trait" where
  "trait_params st =
     (let v = td_values st
      in \<lparr>tt_type = joinType (or_str (tv_type v) []) (tv_version v), tt_alias = coalesce (tv_alias v) [],
          tt_description = coalesce (tv_description v) [], tt_properties = tv_properties v\<rparr>)"

definition trait_submit :: "trait_dialog \<Rightarrow> trait_act \<times> trait_dialog" where
  "trait_submit st =
     (let params = trait_params st; type = tt_type params;
          same = list_ex (\<lambda>i. fst (splitType (Some (tt_type i))) = fst (splitType (Some type))) (td_temporary st)
      in (if td_isEditComponent st
          then if td_isEditTrait st then UpdateTrait (or_str (map_option tt_type (td_item st)) type) params else CreateTrait params
          else if td_isEditTrait st then UpdateTemporary params
          else if same then SameType else AddTemporary params, st\<lparr>td_isLoading := True\<rparr>))"

definition trait_saved :: "bool answer \<Rightarrow> trait_dialog \<Rightarrow> trait_dialog" where
  "trait_saved a st = (case a of Rejected \<Rightarrow> st | _ \<Rightarrow> st\<lparr>td_isLoading := False\<rparr>)"

definition podDisruptive :: "(string \<times> bool) list \<Rightarrow> (string, bool) js_map" where
  "podDisruptive defs = foldl (\<lambda>m (n, b). if b then AList.update n True m else m) [] defs"

section \<open>A component\<close>

record app_component =
  cp_name :: string
  cp_type :: string
  cp_alias :: string
  cp_description :: string
  cp_properties :: "json option"
  cp_dependsOn :: "string list option"
  cp_traits :: "app_trait list option"

record component_values =
  cv_name :: "string option"
  cv_type :: "string option"
  cv_version :: "string option"
  cv_alias :: "string option"
  cv_description :: "string option"
  cv_properties :: "json option"
  cv_dependsOn :: "string list option"

record component_dialog =
  cd_appName :: "string option"
  cd_temporary :: "app_trait list"
  cd_edited :: "app_component option"
  cd_values :: component_values
  cd_form :: "string option"
  cd_loading :: bool
  cd_saving :: bool

definition new_component_dialog :: "string option \<Rightarrow> app_trait list \<Rightarrow> component_dialog" where
  "new_component_dialog appName temporary =
     \<lparr>cd_appName = appName, cd_temporary = temporary, cd_edited = None,
      cd_values = \<lparr>cv_name = None, cv_type = None, cv_version = None, cv_alias = None, cv_description = None, cv_properties = None, cv_dependsOn = None\<rparr>,
      cd_form = None, cd_loading = True, cd_saving = False\<rparr>"

definition component_loaded :: "app_component \<Rightarrow> component_dialog \<Rightarrow> component_dialog" where
  "component_loaded c st =
     (let (name, version) = splitType (Some (cp_type c))
      in st\<lparr>cd_edited := Some c, cd_loading := False,
            cd_values := \<lparr>cv_name = Some (cp_name c), cv_type = Some name, cv_version = version, cv_alias = Some (cp_alias c),
              cv_description = Some (cp_description c), cv_properties = cp_properties c, cv_dependsOn = cp_dependsOn c\<rparr>\<rparr>)"

definition component_form_answer :: "string answer \<Rightarrow> component_dialog \<Rightarrow> component_dialog" where
  "component_form_answer a st = (case a of Answered form \<Rightarrow> st\<lparr>cd_form := Some form, cd_loading := False\<rparr> | _ \<Rightarrow> st)"

record component_request =
  cq_name :: string
  cq_type :: string
  cq_alias :: string
  cq_description :: string
  cq_properties :: "json option"
  cq_dependsOn :: "string list"
  cq_traits :: "app_trait list option"

definition component_params :: "component_dialog \<Rightarrow> component_request" where
  "component_params st =
     (let v = cd_values st
      in \<lparr>cq_name = coalesce (cv_name v) [], cq_type = joinType (or_str (cv_type v) []) (cv_version v), cq_alias = coalesce (cv_alias v) [],
          cq_description = coalesce (cv_description v) [], cq_properties = cv_properties v, cq_dependsOn = or_nil (cv_dependsOn v), cq_traits = None\<rparr>)"

definition component_create :: "component_dialog \<Rightarrow> component_request \<times> component_dialog" where
  "component_create st =
     (let p = component_params st
      in (p\<lparr>cq_name := coalesce (cd_appName st) [] @ ''-'' @ cq_name p, cq_traits := Some (cd_temporary st)\<rparr>, st\<lparr>cd_saving := True\<rparr>))"

definition component_update_request :: "component_dialog \<Rightarrow> component_request option" where
  "component_update_request st = Some (component_params st)"

definition onSubmitEditComponent :: "component_dialog \<Rightarrow> component_request option \<times> component_dialog" where
  "onSubmitEditComponent st = (component_update_request st, st\<lparr>cd_saving := True\<rparr>)"

definition component_saved :: "bool answer \<Rightarrow> component_dialog \<Rightarrow> component_dialog" where
  "component_saved a st = (case a of Rejected \<Rightarrow> st | _ \<Rightarrow> st\<lparr>cd_saving := False\<rparr>)"

definition getInitName :: "bool \<Rightarrow> string option \<Rightarrow> string" where
  "getInitName isEdit appName = (if isEdit \<and> truthy appName then [] else coalesce appName ''undefined'' @ ''-'')"

definition getTraitList :: "bool \<Rightarrow> component_dialog \<Rightarrow> app_trait list" where
  "getTraitList isEdit st = (case cd_edited st of Some c \<Rightarrow> if isEdit then or_nil (cp_traits c) else cd_temporary st | None \<Rightarrow> cd_temporary st)"

definition showComponentTitle :: "bool \<Rightarrow> component_dialog \<Rightarrow> string" where
  "showComponentTitle isEdit st =
     (case cd_edited st of
        Some c \<Rightarrow> if isEdit then (if cp_alias c \<noteq> [] then cp_alias c @ ''('' @ cp_name c @ '')'' else cp_name c) else ''New Component''
      | None \<Rightarrow> ''New Component'')"

section \<open>An item that is not changed is saved as it was\<close>

text \<open>A type keeps when it is split and joined again unless it ends in its only at sign.\<close>

definition plain_type :: "string \<Rightarrow> bool" where
  "plain_type type \<longleftrightarrow> type = [] \<or> last type \<noteq> CHR ''@'' \<or> CHR ''@'' \<in> set (butlast type)"

lemma split_type_lone:
  "CHR ''@'' \<notin> set n \<Longrightarrow> splitType (Some (n @ ''@'')) = (n, None)"
  using index_of_append[of "CHR ''@''" n "[]"] by (simp add: splitType_def truthy_iff or_undefined_iff)

lemma pinned_type_iff:
  assumes "splitType (Some type) = (n, v)" shows "joinType n v = type \<longleftrightarrow> plain_type type"
proof (cases "type = [] \<or> last type \<noteq> CHR ''@'' \<or> CHR ''@'' \<in> set (butlast type)")
  case False
  then have "type = butlast type @ ''@''" "CHR ''@'' \<notin> set (butlast type)" using append_butlast_last_id[of type] by auto
  then have "n = butlast type" "v = None" using split_type_lone[of "butlast type"] assms by auto
  moreover have "butlast type \<noteq> type" using \<open>type = butlast type @ ''@''\<close> by (metis append_self_conv list.distinct(1))
  ultimately show ?thesis using False by (simp add: joinType_def plain_type_def truthy_iff)
next
  case True
  have "joinType n v = type \<or> v = None \<and> type = n @ ''@''" using splitType_joinType[of "''a''" None type] assms by simp
  moreover have "\<not> (v = None \<and> type = n @ ''@'')"
  proof
    assume a: "v = None \<and> type = n @ ''@''"
    then have "CHR ''@'' \<in> set n" using True by auto
    then obtain w b where n: "n = w @ CHR ''@'' # b" "CHR ''@'' \<notin> set w" by (meson split_list_first)
    then have "n = w" using assms a index_of_append[of "CHR ''@''" w "b @ ''@''"] by (simp add: splitType_def truthy_iff Let_def)
    with n show False by simp
  qed
  ultimately show ?thesis using True by (simp add: plain_type_def)
qed

lemma pinned_type: "plain_type type \<Longrightarrow> splitType (Some type) = (n, v) \<Longrightarrow> joinType n v = type"
  using pinned_type_iff by blast

lemma or_str_same [simp]: "or_str (Some n) [] = n"
  by (simp add: or_str_def truthy_iff)

lemma autoUpdate_roundtrip: "autoUpdateValue (Some (autoUpdateOption b)) = b"
  by (auto simp: autoUpdateValue_def autoUpdateOption_def split: option.splits)

definition printed_source :: "app_source \<Rightarrow> source_request" where
  "printed_source s = UpdateSource (so_name s) (so_type s) (if falsy (so_properties s) then JObj [] else the (so_properties s)) (so_autoUpdate s)"

lemma source_request_cong: "sd_values a = sd_values b \<Longrightarrow> sd_source a = sd_source b \<Longrightarrow> source_request_for a = source_request_for b"
  by (simp add: source_request_for_def)

lemma source_opens:
  assumes "plain_type (so_type s)" shows "source_request_for (source_mount (Some s) env) = Some (printed_source s)"
proof -
  obtain n v where nv: "splitType (Some (so_type s)) = (n, v)" by fastforce
  then show ?thesis using pinned_type[OF assms nv]
    by (auto simp: source_mount_def new_source_dialog_def loadDefinition_def source_request_for_def printed_source_def autoUpdate_roundtrip Let_def)
qed

interpretation source_edit: faithful_edit "\<lambda>s. source_mount (Some s) env" source_definition_answer source_request_for printed_source "\<lambda>s. plain_type (so_type s)" for env
  by unfold_locales (auto intro: source_opens source_request_cong simp: source_definition_answer_def Let_def)













definition printed_component :: "app_component \<Rightarrow> component_request" where
  "printed_component c = \<lparr>cq_name = cp_name c, cq_type = cp_type c, cq_alias = cp_alias c, cq_description = cp_description c,
     cq_properties = cp_properties c, cq_dependsOn = or_nil (cp_dependsOn c), cq_traits = None\<rparr>"

lemma component_opens:
  assumes "plain_type (cp_type c)"
  shows "component_update_request (component_loaded c (new_component_dialog appName temporary)) = Some (printed_component c)"
proof -
  obtain n v where nv: "splitType (Some (cp_type c)) = (n, v)" by fastforce
  then show ?thesis using pinned_type[OF assms nv]
    by (simp add: component_update_request_def component_params_def component_loaded_def printed_component_def Let_def)
qed

interpretation component_edit: faithful_edit "\<lambda>c. component_loaded c (new_component_dialog appName temporary)" component_form_answer
  component_update_request printed_component "\<lambda>c. plain_type (cp_type c)" for appName temporary
proof unfold_locales
  show "component_update_request (component_form_answer a s) = component_update_request s" for a s
    by (simp add: component_form_answer_def component_update_request_def component_params_def split: answer.splits)
qed (rule component_opens)




lemma source_edit_keeps:
  "plain_type (so_type s) \<Longrightarrow> fst (source_submit (foldr source_definition_answer answers (source_mount (Some s) env))) = Some (printed_source s)"
  by (simp add: source_submit_def source_edit.submits_item)

lemma component_edit_keeps:
  "plain_type (cp_type c) \<Longrightarrow>
   fst (onSubmitEditComponent (foldr component_form_answer answers (component_loaded c (new_component_dialog appName temporary)))) = Some (printed_component c)"
  by (simp add: onSubmitEditComponent_def component_edit.submits_item)

text \<open>A trait does not keep it: the form of its type, once loaded, puts the defaults in the place of the
  properties of the trait that is edited.\<close>

lemma trait_edit_resets:
  assumes "td_isEditComponent st" and "td_isEditTrait st" and "td_item st = Some i" and "tf_schema form = Some ps"
  shows "\<exists>t p. fst (trait_submit (trait_form_answer (Answered form) (trait_mounted st))) = UpdateTrait t p \<and>
    tt_properties p = Some (JObj (List.map_filter (\<lambda>(k, d). map_option (\<lambda>v. (k, v)) d) ps))"
  using assms by (simp add: trait_mounted_def trait_form_answer_def setDefaultProperties_def trait_submit_def trait_params_def onDetailsTraitDefinition_def
      Let_def split: prod.splits)

text \<open>A second workflow a policy is bound to is dropped by an update.\<close>

lemma second_binding_dropped:
  assumes "pl_bind p = Some ((w, steps) # b # bs)"
  shows "\<exists>q. policy_update_request (policy_mount (Some p) ws) = Some q \<and> length (or_nil (pq_bind q)) \<le> 1"
  by (simp add: policy_update_request_def policy_request_of_def policy_binding_def Let_def)

text \<open>Where creating a policy is refused for its type, and adding a trait for its type or by a failed
  request, the dialog goes on loading.\<close>

lemma refused_policy_loads:
  "pg_selected st = Some item \<Longrightarrow> pi_type item = [] \<Longrightarrow> \<not> truthy (pv_type (pg_values st)) \<Longrightarrow>
   fst (onSubmitCreate st) = None \<and> pg_creating (snd (onSubmitCreate st))"
  by (simp add: onSubmitCreate_def or_str_def Let_def)

lemma refused_trait_loads: "fst (trait_submit st) = SameType \<Longrightarrow> td_isLoading (snd (trait_submit st))"
  by (simp add: trait_submit_def Let_def)

lemma failed_trait_loads: "td_isLoading (trait_saved Rejected (snd (trait_submit st)))"
  by (simp add: trait_saved_def trait_submit_def Let_def)

section \<open>The name of a source\<close>

inductive picked :: "source_dialog \<Rightarrow> source_dialog \<Rightarrow> bool" where
  "picked st (source_type_change t st)"
| "picked st (source_version_change v st)"
| "picked st (source_definition_answer a st)"
| "picked st (source_types_answer defs st)"

definition named_by_hand :: "string \<Rightarrow> source_dialog \<Rightarrow> bool" where
  "named_by_hand n st \<longleftrightarrow> sv_name (sd_values st) = Some n \<and> n \<noteq> [] \<and> n \<noteq> sd_suggestedName st"

definition named_by_type :: "source_dialog \<Rightarrow> bool" where
  "named_by_type st \<longleftrightarrow> sd_source st = None \<and> (\<not> truthy (sv_name (sd_values st)) \<or> sv_name (sd_values st) = Some (sd_suggestedName st)) \<and>
     (truthy (sv_type (sd_values st)) \<longrightarrow> sv_name (sd_values st) = Some (sourceBindingName (the (sv_type (sd_values st)))))"

lemmas source_defs = source_type_change_def source_version_change_def source_definition_answer_def source_types_answer_def loadDefinition_def Let_def

lemma picked_hand: "picked st st' \<Longrightarrow> named_by_hand n st \<Longrightarrow> named_by_hand n st'"
  by (induction rule: picked.induct) (auto simp: named_by_hand_def source_defs truthy_iff)

lemma picked_type: "picked st st' \<Longrightarrow> named_by_type st \<Longrightarrow> named_by_type st'"
  by (induction rule: picked.induct) (auto simp: named_by_type_def source_defs truthy_iff)

interpretation hand_named: preserving picked "named_by_hand n" for n
  by unfold_locales (rule picked_hand)

interpretation type_named: machine picked named_by_type "\<lambda>st. \<exists>env. st = source_mount None env"
proof unfold_locales
  show "named_by_type st" if "\<exists>env. st = source_mount None env" for st
    using that by (auto simp: named_by_type_def source_mount_def new_source_dialog_def)
qed (rule picked_type)

text \<open>A source is named after its type as long as its name is not typed by hand, and a name that is
  typed stays, whatever types and versions are picked afterwards.\<close>

theorem source_name_kept:
  assumes "picked\<^sup>*\<^sup>* (source_mount None env) st" and "name \<noteq> []" and "name \<noteq> sd_suggestedName st" and "picked\<^sup>*\<^sup>* (source_name_typed name st) st'"
  shows "(truthy (sv_type (sd_values st)) \<longrightarrow> sv_name (sd_values st) = Some (sourceBindingName (the (sv_type (sd_values st))))) \<and>
    sv_name (sd_values st') = Some name"
proof -
  have "named_by_type st" using type_named.reachable_inv[OF _ assms(1)] by blast
  moreover have "named_by_hand name (source_name_typed name st)" using assms(2,3) by (simp add: named_by_hand_def source_name_typed_def)
  then have "named_by_hand name st'" by (rule hand_named.steps_keep[OF assms(4)])
  ultimately show ?thesis by (simp add: named_by_type_def named_by_hand_def)
qed

theorem source_name_kept_witness:
  "let st = source_type_change (Some ''http'') (source_mount None None)
   in sv_name (sd_values st) = Some (sourceBindingName ''http'') \<and> ''mine'' \<noteq> sd_suggestedName st \<and>
      sv_name (sd_values (source_type_change (Some ''config'') (source_name_typed ''mine'' st))) = Some ''mine''"
proof -
  let ?st = "source_type_change (Some ''http'') (source_mount None None)"
  have r: "picked\<^sup>*\<^sup>* (source_mount None None) ?st" by (blast intro: picked.intros)
  have n: "''mine'' \<noteq> sd_suggestedName ?st" by code_simp
  have t: "sv_type (sd_values ?st) = Some ''http''" by (simp add: source_defs source_mount_def new_source_dialog_def)
  have "picked\<^sup>*\<^sup>* (source_name_typed ''mine'' ?st) (source_type_change (Some ''config'') (source_name_typed ''mine'' ?st))" by (blast intro: picked.intros)
  from source_name_kept[OF r _ n this] show ?thesis using n t by (simp add: Let_def)
qed

text \<open>A form asked for one type and answered late is shown for the type that is picked.\<close>

lemma late_form_shown:
  assumes "a \<noteq> []" and "b \<noteq> []" and "a \<noteq> b"
  shows "let st = source_definition_answer ((a, None), True) (source_definition_answer ((b, None), True)
      (source_type_change (Some b) (source_type_change (Some a) (source_mount None env))))
    in sv_type (sd_values st) = Some b \<and> sd_definition st = Some (a, None) \<and> sd_asked st = []"
  using assms by (simp add: source_defs source_mount_def new_source_dialog_def or_str_def truthy_iff)

end
