(* ===== verification/Settings_Dialogs.thy ===== *)
theory Settings_Dialogs
  imports Config_Dialogs Permission
begin

text \<open>
  The dialogs for triggers (\<open>ApplicationConfig/components/TriggerDialog\<close>), environments
  (\<open>EnvPage/components/EnvDialog\<close>) and configs (\<open>Configs/components/CreateConfigDialog\<close>), on the
  contract of \<open>Config_Dialogs\<close>.
\<close>

section \<open>A trigger\<close>

record app_trigger =
  tg_name :: string
  tg_alias :: "string option"
  tg_description :: "string option"
  tg_workflowName :: string
  tg_type :: string
  tg_payloadType :: "string option"
  tg_registry :: "string option"
  tg_token :: string
  tg_componentName :: "string option"

record trigger_values =
  gv_name :: "string option"
  gv_alias :: "string option"
  gv_description :: "string option"
  gv_type :: "string option"
  gv_payloadType :: "string option"
  gv_workflowName :: "string option"
  gv_componentName :: "string option"
  gv_registry :: "string option"

text \<open>The components of the application: name, type, alias.\<close>

type_synonym component_base = "string \<times> string \<times> string option"

record trigger_dialog =
  gd_trigger :: "app_trigger option"
  gd_components :: "component_base list"
  gd_values :: trigger_values
  gd_payloadTypes :: "string list"
  gd_hasImage :: bool
  gd_component :: "component_base option"
  gd_loading :: bool
  gd_saving :: bool

definition new_trigger_dialog :: "app_trigger option \<Rightarrow> component_base list \<Rightarrow> trigger_dialog" where
  "new_trigger_dialog trigger components =
     \<lparr>gd_trigger = trigger, gd_components = components,
      gd_values = \<lparr>gv_name = None, gv_alias = None, gv_description = None, gv_type = None, gv_payloadType = None, gv_workflowName = None,
        gv_componentName = None, gv_registry = None\<rparr>,
      gd_payloadTypes = [''custom'', ''dockerHub'', ''ACR'', ''harbor'', ''artifactory''], gd_hasImage = False, gd_component = None,
      gd_loading = False, gd_saving = False\<rparr>"

definition changeComponentName :: "string \<Rightarrow> trigger_dialog \<Rightarrow> trigger_dialog" where
  "changeComponentName value st =
     (let st = st\<lparr>gd_values := (gd_values st)\<lparr>gv_componentName := Some value\<rparr>\<rparr>;
          found = filter (\<lambda>c. fst c = value) (gd_components st);
          st = (if found = [] then st else st\<lparr>gd_component := Some (last found)\<rparr>)
      in st\<lparr>gd_loading := True\<rparr>)"

definition trigger_mount :: "app_trigger option \<Rightarrow> component_base list \<Rightarrow> trigger_dialog" where
  "trigger_mount trigger components =
     (let st = new_trigger_dialog trigger components;
          st = (case trigger of
                  None \<Rightarrow> st
                | Some t \<Rightarrow> st\<lparr>gd_values := \<lparr>gv_name = Some (tg_name t), gv_alias = tg_alias t, gv_description = tg_description t,
                     gv_type = Some (tg_type t), gv_payloadType = tg_payloadType t, gv_workflowName = Some (tg_workflowName t),
                     gv_componentName = tg_componentName t, gv_registry = tg_registry t\<rparr>\<rparr>)
      in case components of [] \<Rightarrow> st | c # _ \<Rightarrow> changeComponentName (fst c) st)"

text \<open>The answer about a component type: whether its form has an image.\<close>

definition image_answer :: "bool answer \<Rightarrow> trigger_dialog \<Rightarrow> trigger_dialog" where
  "image_answer a st =
     (case a of Answered b \<Rightarrow> st\<lparr>gd_hasImage := b, gd_loading := False\<rparr> | Empty \<Rightarrow> st | Rejected \<Rightarrow> st\<lparr>gd_loading := False\<rparr>)"

definition payloads_answer :: "string list option \<Rightarrow> trigger_dialog \<Rightarrow> trigger_dialog" where
  "payloads_answer res st = (case res of None \<Rightarrow> st | Some ts \<Rightarrow> st\<lparr>gd_payloadTypes := ts\<rparr>)"

record trigger_params =
  tp_alias :: string
  tp_description :: string
  tp_payloadType :: string
  tp_workflowName :: string
  tp_componentName :: string
  tp_registry :: string

datatype trigger_request = UpdateTrigger string trigger_params | CreateTrigger string string trigger_params

definition trigger_params_of :: "trigger_values \<Rightarrow> trigger_params" where
  "trigger_params_of v =
     \<lparr>tp_alias = coalesce (gv_alias v) [], tp_description = coalesce (gv_description v) [], tp_payloadType = coalesce (gv_payloadType v) [],
      tp_workflowName = coalesce (gv_workflowName v) [], tp_componentName = coalesce (gv_componentName v) [], tp_registry = coalesce (gv_registry v) []\<rparr>"

definition trigger_submit :: "trigger_dialog \<Rightarrow> trigger_request \<times> trigger_dialog" where
  "trigger_submit st =
     (let v = gd_values st
      in (case gd_trigger st of
            Some t \<Rightarrow> UpdateTrigger (tg_token t) (trigger_params_of v)
          | None \<Rightarrow> CreateTrigger (coalesce (gv_name v) []) (coalesce (gv_type v) []) (trigger_params_of v), st\<lparr>gd_saving := True\<rparr>))"

definition isShowMessage :: "trigger_dialog \<Rightarrow> bool" where
  "isShowMessage st \<longleftrightarrow>
     (case gd_component st of
        None \<Rightarrow> False
      | Some (_, type, _) \<Rightarrow> type \<noteq> [] \<and> type \<notin> {''webservice'', ''worker'', ''task''} \<and> gv_payloadType (gd_values st) \<noteq> Some ''custom'' \<and>
          \<not> gd_hasImage st \<and> gv_type (gd_values st) = Some ''webhook'')"

section \<open>An environment\<close>

record env_item =
  ei_name :: string
  ei_alias :: "string option"
  ei_namespace :: string
  ei_description :: "string option"
  ei_targets :: "string list option"
  ei_project :: string

record env_target =
  et_name :: string
  et_alias :: "string option"
  et_cluster :: string
  et_namespace :: string

record env_dialog =
  ed_values :: env_item
  ed_targets :: "env_target list option"
  ed_targetLoading :: bool
  ed_submitLoading :: bool

text \<open>What was never filled in is read as empty; the project and the targets have their initial values.\<close>

definition blank_env :: "string option \<Rightarrow> env_item" where
  "blank_env project =
     \<lparr>ei_name = [], ei_alias = None, ei_namespace = [], ei_description = None, ei_targets = Some [], ei_project = coalesce project []\<rparr>"

definition env_mount :: "env_item option \<Rightarrow> bool \<Rightarrow> string option \<Rightarrow> env_dialog" where
  "env_mount item isEdit project =
     (let edited = (if isEdit then item else None)
      in \<lparr>ed_values = coalesce edited (blank_env project), ed_targets = None,
          ed_targetLoading = (case edited of Some i \<Rightarrow> ei_project i \<noteq> [] | None \<Rightarrow> truthy project), ed_submitLoading = False\<rparr>)"

definition env_resetField :: "env_dialog \<Rightarrow> env_dialog" where
  "env_resetField st =
     st\<lparr>ed_values := \<lparr>ei_name = [], ei_alias = Some [], ei_namespace = [], ei_description = Some [], ei_targets = Some [], ei_project = []\<rparr>\<rparr>"

definition env_targets_answer :: "env_target list option option \<Rightarrow> env_dialog \<Rightarrow> env_dialog" where
  "env_targets_answer res st = (case res of None \<Rightarrow> st | Some ts \<Rightarrow> st\<lparr>ed_targets := ts, ed_targetLoading := False\<rparr>)"

definition env_project_change :: "string \<Rightarrow> env_dialog \<Rightarrow> env_dialog" where
  "env_project_change project st = st\<lparr>ed_values := (ed_values st)\<lparr>ei_project := project\<rparr>, ed_targetLoading := True\<rparr>"

definition makeTargetDataSource :: "env_dialog \<Rightarrow> env_target list" where
  "makeTargetDataSource st =
     (case (ed_targets st, ei_targets (ed_values st)) of
        (Some ts, Some names) \<Rightarrow> (let m = js_map_of (map (\<lambda>t. (et_name t, t)) ts) in List.map_filter (map_of m) names)
      | _ \<Rightarrow> [])"

definition env_request :: "env_dialog \<Rightarrow> env_item" where
  "env_request st = (ed_values st)\<lparr>ei_project := or_str (Some (ei_project (ed_values st))) ''default''\<rparr>"

definition env_submit :: "env_dialog \<Rightarrow> env_item \<times> env_dialog" where
  "env_submit st = (env_request st, st\<lparr>ed_submitLoading := True\<rparr>)"

definition env_saved :: "bool answer \<Rightarrow> env_dialog \<Rightarrow> env_dialog" where
  "env_saved a st = (case a of Rejected \<Rightarrow> st | Empty \<Rightarrow> st\<lparr>ed_submitLoading := False\<rparr> | Answered _ \<Rightarrow> env_resetField (st\<lparr>ed_submitLoading := False\<rparr>))"

definition convertTarget :: "env_dialog \<Rightarrow> (string \<times> string) list" where
  "convertTarget st = map (\<lambda>t. (or_str (et_alias t) (et_name t) @ ''('' @ et_cluster t @ ''/'' @ et_namespace t @ '')'', et_name t)) (or_nil (ed_targets st))"

definition env_project_options :: "user_info option \<Rightarrow> (string \<times> string option) list \<Rightarrow> (string \<times> string) list" where
  "env_project_options user projects =
     map (\<lambda>(name, alias). (if truthy alias then the alias @ ''('' @ name @ '')'' else name, name))
       (filter (\<lambda>(name, _). checkPermission (Some \<lparr>ra_resource = ''project:'' @ name @ ''/environment:*'', ra_action = ''create''\<rparr>) (Some name) user) projects)"

section \<open>A config\<close>

record config_values =
  kv_name :: string
  kv_alias :: "string option"
  kv_description :: "string option"
  kv_properties :: "json option"

record config_dialog =
  kd_template :: "(string \<times> string) option"
  kd_picked :: "string option"
  kd_values :: config_values
  kd_detail :: "(string \<times> string) option"
  kd_templateLoading :: bool
  kd_createLoading :: bool

text \<open>A template is picked by its namespace and name; what is picked without a slash has no namespace.\<close>

definition template_value :: "string \<Rightarrow> string \<Rightarrow> string" where
  "template_value namespace name = namespace @ ''/'' @ name"

definition template_label :: "string \<Rightarrow> string \<Rightarrow> string option \<Rightarrow> string" where
  "template_label namespace name alias =
     (if namespace = ''vela-system'' then or_str alias name else namespace @ ''/'' @ or_str alias name)"

definition picked_template :: "string \<Rightarrow> string \<times> string" where
  "picked_template value = (if CHR ''/'' \<in> set value then (split_on CHR ''/'' value ! 0, split_on CHR ''/'' value ! 1) else ([], value))"

definition created_template :: "config_dialog \<Rightarrow> (string \<times> string) option" where
  "created_template st = (if truthy (kd_picked st) then Some (picked_template (the (kd_picked st))) else kd_template st)"

definition pick_template :: "string \<Rightarrow> config_dialog \<Rightarrow> config_dialog" where
  "pick_template value st =
     st\<lparr>kd_values := (kd_values st)\<lparr>kv_properties := None\<rparr>, kd_detail := None, kd_templateLoading := True, kd_picked := Some value\<rparr>"

definition config_loaded :: "config_values \<Rightarrow> config_dialog \<Rightarrow> config_dialog" where
  "config_loaded res st = st\<lparr>kd_values := res, kd_templateLoading := (kd_template st \<noteq> None \<or> kd_templateLoading st)\<rparr>"

definition template_answer :: "(string \<times> string) option \<Rightarrow> config_dialog \<Rightarrow> config_dialog" where
  "template_answer res st = (case res of None \<Rightarrow> st | Some d \<Rightarrow> st\<lparr>kd_detail := Some d\<rparr>)\<lparr>kd_templateLoading := False\<rparr>"

definition config_create :: "config_dialog \<Rightarrow> ((string \<times> string) \<times> config_values) option \<times> config_dialog" where
  "config_create st =
     (case created_template st of
        Some t \<Rightarrow> if snd t = [] then (None, st) else (Some (t, kd_values st), st\<lparr>kd_createLoading := True\<rparr>)
      | None \<Rightarrow> (None, st))"

definition config_update :: "config_dialog \<Rightarrow> config_values \<times> config_dialog" where
  "config_update st = (kd_values st, st\<lparr>kd_createLoading := True\<rparr>)"

definition config_saved :: "config_dialog \<Rightarrow> config_dialog" where
  "config_saved st = st\<lparr>kd_createLoading := False\<rparr>"

definition asks_distribution :: "string \<Rightarrow> bool" where
  "asks_distribution templateName \<longleftrightarrow> templateName \<in> {''image-registry'', ''helm-repository'', ''tls-certificate''}"

definition new_config_dialog :: "(string \<times> string) option \<Rightarrow> config_dialog" where
  "new_config_dialog template =
     \<lparr>kd_template = template, kd_picked = None,
      kd_values = \<lparr>kv_name = [], kv_alias = None, kv_description = None, kv_properties = None\<rparr>, kd_detail = None, kd_templateLoading = False, kd_createLoading = False\<rparr>"

text \<open>A config that is edited is fetched first, its template then; for a new one the template is, where it is known.\<close>

definition config_mount :: "string \<Rightarrow> (string \<times> string) option \<Rightarrow> config_dialog" where
  "config_mount configName template =
     (let st = new_config_dialog template in if configName \<noteq> [] then st else st\<lparr>kd_templateLoading := (template \<noteq> None)\<rparr>)"

section \<open>What is kept and what is not\<close>

interpretation env_edit: faithful_edit "\<lambda>i. env_mount (Some i) True project" env_targets_answer "\<lambda>s. Some (env_request s)" "\<lambda>i. i" "\<lambda>i. ei_project i \<noteq> []" for project
proof unfold_locales
  show "Some (env_request (env_targets_answer a s)) = Some (env_request s)" for a s by (simp add: env_targets_answer_def env_request_def split: option.splits)
qed (simp add: env_mount_def env_request_def or_str_def truthy_iff coalesce_def Let_def)

interpretation config_edit: faithful_edit "\<lambda>v. config_loaded v (config_mount (kv_name v) template)" template_answer "\<lambda>s. Some (fst (config_update s))" "\<lambda>v. v"
  "\<lambda>_. True" for template
proof unfold_locales
  show "Some (fst (config_update (template_answer a s))) = Some (fst (config_update s))" for a s
    by (simp add: template_answer_def config_update_def split: option.splits)
qed (simp add: config_loaded_def config_update_def)

lemma env_edit_keeps: "ei_project i \<noteq> [] \<Longrightarrow> fst (env_submit (foldr env_targets_answer answers (env_mount (Some i) True project))) = i"
  using env_edit.submits_item[where i = i] by (simp add: env_submit_def)

lemma config_edit_keeps: "fst (config_update (foldr template_answer answers (config_loaded v (config_mount (kv_name v) template)))) = v"
  using config_edit.submits_item[where i = v] by simp

text \<open>The template picked from the list is the one that is asked for: its namespace and its name are
  read back from the entry, as neither has a slash.\<close>

theorem template_roundtrip:
  assumes "CHR ''/'' \<notin> set namespace" and "CHR ''/'' \<notin> set name"
  shows "picked_template (template_value namespace name) = (namespace, name)"
  using assms split_on_append_sep[OF assms(1), of name] split_on_no_sep[OF assms(2)]
  by (simp add: picked_template_def template_value_def)

theorem template_roundtrip_witness: "picked_template (template_value ''vela-system'' ''helm-repository'') = (''vela-system'', ''helm-repository'')"
  by (rule template_roundtrip) simp_all

text \<open>A trigger is not kept: opening it picks the first component of the application, whichever it has.\<close>

lemma trigger_edit_moves:
  "\<exists>p. fst (trigger_submit (image_answer a (trigger_mount (Some t) (c # cs)))) = UpdateTrigger (tg_token t) p \<and> tp_componentName p = fst c"
  by (cases a) (simp_all add: trigger_submit_def image_answer_def trigger_mount_def changeComponentName_def new_trigger_dialog_def trigger_params_of_def Let_def)

text \<open>The targets picked for one project are submitted for the project picked afterwards, though they
  are not listed; and a request that fails leaves the dialog loading.\<close>

lemma map_filter_none: "(\<And>x. x \<in> set xs \<Longrightarrow> f x = None) \<Longrightarrow> List.map_filter f xs = []"
  by (induction xs) (simp_all add: map_filter_simps)

lemma env_targets_of_other_project:
  assumes "ei_targets (ed_values st) = Some names" and "\<And>t. t \<in> set ts \<Longrightarrow> et_name t \<notin> set names" and "p \<noteq> []"
  shows "let st' = env_targets_answer (Some (Some ts)) (env_project_change p st)
    in makeTargetDataSource st' = [] \<and> fst (env_submit st') = (ed_values st)\<lparr>ei_project := p\<rparr>"
proof -
  have "map_of (js_map_of (map (\<lambda>t. (et_name t, t)) ts)) n = None" if "n \<in> set names" for n
    using assms(2) that by (auto simp: map_of_js_map_of map_of_eq_None_iff)
  then have "List.map_filter (map_of (js_map_of (map (\<lambda>t. (et_name t, t)) ts))) names = []" by (rule map_filter_none)
  then show ?thesis using assms
    by (simp add: env_targets_answer_def env_project_change_def makeTargetDataSource_def env_submit_def env_request_def or_str_def truthy_iff Let_def)
qed

lemma failed_env_loads: "ed_submitLoading (env_saved Rejected (snd (env_submit st)))"
  by (simp add: env_saved_def env_submit_def)

end
