(* ===== verification/App_Config_Page.thy ===== *)
theory App_Config_Page
  imports Settings_Dialogs Backend_Session
begin

text \<open>
  The configuration of an application (\<open>pages/ApplicationConfig/index.tsx\<close>): the page that holds the
  lists and opens the dialogs of \<open>Config_Dialogs\<close> and \<open>Settings_Dialogs\<close>. Its state and every handler
  of it; the requests for component types under way are part of the state, and the loads it asks
  the store for are counted. Whether the address asks for a dialog is an argument.
\<close>

record app_labels =
  al_alias :: "string option"
  al_description :: "string option"
  al_icon :: "string option"
  al_labels :: "(string, string) js_map option"
  al_annotations :: "(string, string) js_map option"

record app_page =
  ap_componentName :: string
  ap_visibleTrait :: bool
  ap_isEditTrait :: bool
  ap_traitItem :: "app_trait option"
  ap_triggers :: "app_trigger list"
  ap_trigger :: "app_trigger option"
  ap_visibleTrigger :: bool
  ap_createTriggerInfo :: "app_trigger option"
  ap_showEdit :: bool
  ap_editItem :: "app_labels option"
  ap_visibleComponent :: bool
  ap_temporary :: "app_trait list"
  ap_isEditComponent :: bool
  ap_definitions :: "string list option"
  ap_visiblePolicy :: bool
  ap_policy :: "app_policy option"
  ap_scopes :: "(string, string) js_map option"
  ap_revisions :: "nat option option"
  ap_sources :: "app_source list"
  ap_visibleSource :: bool
  ap_editSource :: "app_source option"
  ap_request :: nat
  ap_asked :: "(nat \<times> string list) list"
  ap_policyAsked :: "string list"

text \<open>What the page is given: the environments, the section of the address, whether the application
  is known and, where it is, whether it can only be read.\<close>

record app_page_props =
  aq_env :: "deploy_target list option"
  aq_section :: "string option"
  aq_readOnly :: "bool option"
  aq_wantsAdd :: bool

definition new_app_page :: app_page where
  "new_app_page =
     \<lparr>ap_componentName = [], ap_visibleTrait = False, ap_isEditTrait = False, ap_traitItem = None, ap_triggers = [],
      ap_trigger = None, ap_visibleTrigger = False, ap_createTriggerInfo = None, ap_showEdit = False, ap_editItem = None,
      ap_visibleComponent = False, ap_temporary = [], ap_isEditComponent = False, ap_definitions = Some [], ap_visiblePolicy = False,
      ap_policy = None, ap_scopes = None, ap_revisions = None, ap_sources = [], ap_visibleSource = False, ap_editSource = None,
      ap_request = 0, ap_asked = [], ap_policyAsked = []\<rparr>"

section \<open>The dialogs\<close>

definition onAddTrait :: "string option \<Rightarrow> bool \<Rightarrow> app_page \<Rightarrow> app_page" where
  "onAddTrait name isEdit st =
     st\<lparr>ap_visibleTrait := True, ap_traitItem := None, ap_isEditTrait := False, ap_componentName := or_str name [], ap_isEditComponent := isEdit\<rparr>"

definition changeTraitStats :: "bool \<Rightarrow> app_trait \<Rightarrow> string \<Rightarrow> app_page \<Rightarrow> app_page" where
  "changeTraitStats isEdit trait name st =
     st\<lparr>ap_visibleTrait := True, ap_isEditTrait := isEdit, ap_isEditComponent := True, ap_traitItem := Some trait, ap_componentName := name\<rparr>"

definition trait_onClose :: "app_page \<Rightarrow> app_page" where
  "trait_onClose st = st\<lparr>ap_visibleTrait := False, ap_isEditTrait := False\<rparr>"

definition onAddTrigger :: "app_page \<Rightarrow> app_page" where
  "onAddTrigger st = st\<lparr>ap_visibleTrigger := True\<rparr>"

definition onEditTrigger :: "app_trigger \<Rightarrow> app_page \<Rightarrow> app_page" where
  "onEditTrigger t st = st\<lparr>ap_visibleTrigger := True, ap_trigger := Some t\<rparr>"

definition onTriggerClose :: "app_page \<Rightarrow> app_page" where
  "onTriggerClose st = st\<lparr>ap_visibleTrigger := False, ap_trigger := None\<rparr>"

definition onTriggerOk :: "app_trigger \<Rightarrow> app_page \<Rightarrow> app_page" where
  "onTriggerOk res st = st\<lparr>ap_visibleTrigger := False, ap_trigger := None, ap_createTriggerInfo := Some res\<rparr>"

text \<open>What is edited of the application, with its empty values.\<close>

definition editAppPlan :: "app_labels option \<Rightarrow> app_page \<Rightarrow> app_page" where
  "editAppPlan detail st =
     st\<lparr>ap_editItem := Some \<lparr>al_alias = Some (coalesce (Option.bind detail al_alias) []),
          al_description = Some (coalesce (Option.bind detail al_description) []), al_icon = Some (coalesce (Option.bind detail al_icon) []),
          al_labels = Option.bind detail al_labels, al_annotations = Option.bind detail al_annotations\<rparr>, ap_showEdit := True\<rparr>"

definition onCloseEditAppDialog :: "app_page \<Rightarrow> app_page" where
  "onCloseEditAppDialog st = st\<lparr>ap_showEdit := False\<rparr>"

definition editComponent :: "string \<Rightarrow> app_page \<Rightarrow> app_page" where
  "editComponent name st = st\<lparr>ap_isEditComponent := True, ap_visibleComponent := True, ap_componentName := name\<rparr>"

definition onAddComponent :: "app_page \<Rightarrow> app_page" where
  "onAddComponent st = st\<lparr>ap_visibleComponent := True, ap_isEditComponent := False, ap_componentName := []\<rparr>"

definition onComponentClose :: "app_page \<Rightarrow> app_page" where
  "onComponentClose st = st\<lparr>ap_visibleComponent := False, ap_temporary := []\<rparr>"

definition createTemporaryTrait :: "app_trait \<Rightarrow> app_page \<Rightarrow> app_page" where
  "createTemporaryTrait trait st = st\<lparr>ap_temporary := ap_temporary st @ [trait], ap_visibleTrait := False\<rparr>"

definition upDateTemporaryTrait :: "app_trait \<Rightarrow> app_page \<Rightarrow> app_page" where
  "upDateTemporaryTrait trait st =
     st\<lparr>ap_temporary := map (\<lambda>item. if tt_type item = tt_type trait then trait else item) (ap_temporary st), ap_visibleTrait := False\<rparr>"

definition onAddPolicy :: "app_page \<Rightarrow> app_page" where
  "onAddPolicy st = st\<lparr>ap_visiblePolicy := True\<rparr>"

definition onEditPolicy :: "string \<Rightarrow> app_page \<Rightarrow> app_page" where
  "onEditPolicy name st = st\<lparr>ap_policyAsked := ap_policyAsked st @ [name]\<rparr>"

definition policy_detail_answer :: "string \<Rightarrow> app_policy option \<Rightarrow> app_page \<Rightarrow> app_page" where
  "policy_detail_answer name res st =
     (let st = st\<lparr>ap_policyAsked := remove1 name (ap_policyAsked st)\<rparr>
      in case res of None \<Rightarrow> st | Some p \<Rightarrow> st\<lparr>ap_policy := Some p, ap_visiblePolicy := True\<rparr>)"

definition policy_onClose :: "app_page \<Rightarrow> app_page" where
  "policy_onClose st = st\<lparr>ap_visiblePolicy := False, ap_policy := None\<rparr>"

definition onAddSource :: "app_page \<Rightarrow> app_page" where
  "onAddSource st = st\<lparr>ap_visibleSource := True, ap_editSource := None\<rparr>"

definition onShowSource :: "app_source \<Rightarrow> app_page \<Rightarrow> app_page" where
  "onShowSource s st = st\<lparr>ap_visibleSource := True, ap_editSource := Some s\<rparr>"

definition source_onClose :: "app_page \<Rightarrow> app_page" where
  "source_onClose st = st\<lparr>ap_visibleSource := False, ap_editSource := None\<rparr>"

text \<open>The dialog the address asks for, and whether the address is replaced by one that does not.\<close>

definition open_section :: "string option \<Rightarrow> app_page \<Rightarrow> app_page" where
  "open_section section st =
     (if section = Some ''sources'' then onAddSource st else if section = Some ''components'' then onAddComponent st
      else if section = Some ''policies'' then onAddPolicy st else if section = Some ''triggers'' then onAddTrigger st else st)"

definition openAddIfAsked :: "app_page_props \<Rightarrow> app_page \<Rightarrow> bool \<times> app_page" where
  "openAddIfAsked props st =
     (case aq_readOnly props of
        Some readOnly \<Rightarrow> if aq_wantsAdd props then (True, if readOnly then st else open_section (aq_section props) st) else (False, st)
      | None \<Rightarrow> (False, st))"

section \<open>What is loaded\<close>

definition triggers_answer :: "app_trigger list option option \<Rightarrow> app_page \<Rightarrow> app_page" where
  "triggers_answer res st = (case res of None \<Rightarrow> st | Some ts \<Rightarrow> st\<lparr>ap_triggers := or_nil ts\<rparr>)"

definition sources_answer :: "app_source list option option \<Rightarrow> app_page \<Rightarrow> app_page" where
  "sources_answer res st = (case res of None \<Rightarrow> st | Some ss \<Rightarrow> st\<lparr>ap_sources := or_nil ss\<rparr>)"

definition statistics_answer :: "nat option option \<Rightarrow> app_page \<Rightarrow> app_page" where
  "statistics_answer res st = (case res of None \<Rightarrow> st | Some n \<Rightarrow> st\<lparr>ap_revisions := Some n\<rparr>)"

definition app_deployed :: "app_page \<Rightarrow> bool option" where
  "app_deployed st = map_option (\<lambda>n. coalesce n 0 > 0) (ap_revisions st)"

definition policy_scopes :: "(string \<times> string option) list \<Rightarrow> (string, string) js_map" where
  "policy_scopes defs = foldl (\<lambda>m (name, scope). if truthy scope then AList.update name (the scope) m else m) [] defs"

definition scopes_answer :: "(string \<times> string option) list option option \<Rightarrow> app_page \<Rightarrow> app_page" where
  "scopes_answer res st = st\<lparr>ap_scopes := Some (policy_scopes (or_nil (Option.bind res (\<lambda>d. d))))\<rparr>"

definition onGetComponentDefinitions :: "app_page_props \<Rightarrow> app_page \<Rightarrow> app_page" where
  "onGetComponentDefinitions props st =
     (let namespaces = deployNamespaces (aq_env props); st = st\<lparr>ap_request := ap_request st + 1\<rparr>
      in if namespaces = [] then st\<lparr>ap_definitions := Some []\<rparr> else st\<lparr>ap_asked := ap_asked st @ [(ap_request st, namespaces)]\<rparr>)"

definition component_types_answer :: "nat \<Rightarrow> string list option option \<Rightarrow> app_page \<Rightarrow> app_page" where
  "component_types_answer n res st =
     (let st = st\<lparr>ap_asked := filter (\<lambda>(m, _). m \<noteq> n) (ap_asked st)\<rparr>
      in case res of None \<Rightarrow> st | Some defs \<Rightarrow> if n = ap_request st then st\<lparr>ap_definitions := defs\<rparr> else st)"

definition app_page_mount :: "app_page_props \<Rightarrow> bool \<times> app_page" where
  "app_page_mount props = (let (replaced, st) = openAddIfAsked props new_app_page in (replaced, onGetComponentDefinitions props st))"

definition namespaces_key :: "app_page_props \<Rightarrow> string" where
  "namespaces_key props = join_with '','' (deployNamespaces (aq_env props))"

text \<open>The page is given other properties: a dialog may be asked for where the address, the section or the
  application changed; the component types are asked for again where the namespaces did.\<close>

definition app_page_update :: "app_page_props \<Rightarrow> bool \<Rightarrow> app_page_props \<Rightarrow> app_page \<Rightarrow> bool \<times> app_page" where
  "app_page_update prev detail_changed props st =
     (let (replaced, st) = (if aq_wantsAdd prev \<noteq> aq_wantsAdd props \<or> aq_section prev \<noteq> aq_section props \<or> detail_changed then openAddIfAsked props st
                            else (False, st))
      in (replaced, if namespaces_key prev \<noteq> namespaces_key props then onGetComponentDefinitions props st else st))"

text \<open>Removing a policy: one that a workflow uses is refused with its own code, and may be forced.\<close>

datatype policy_removal = Reload | AskForce | Report error_outcome | Nothing

definition delete_policy_answer :: "bool \<Rightarrow> (int \<times> string + bool) \<Rightarrow> policy_removal" where
  "delete_policy_answer forced a =
     (case a of
        Inr ok \<Rightarrow> if ok then Reload else Nothing
      | Inl (code, message) \<Rightarrow> if forced then Nothing else if code = 10026 then AskForce else Report (handleError code message))"

definition overview_stats :: "nat option \<Rightarrow> nat option \<Rightarrow> nat option \<Rightarrow> nat option \<Rightarrow> nat option \<Rightarrow> (nat option \<times> string \<times> string) list" where
  "overview_stats envs targets components workflows revisions =
     [(envs, ''Environments'', ''environments''), (targets, ''Targets'', ''environments''), (components, ''Components'', ''config/components''),
      (workflows, ''Workflows'', ''workflows''), (revisions, ''Revisions'', ''revisions'')]"

text \<open>Whether the application may be edited or removed is asked of this resource.\<close>

definition app_edit_request :: "string \<Rightarrow> string \<Rightarrow> string \<Rightarrow> resource_action" where
  "app_edit_request project app action = \<lparr>ra_resource = ''project:'' @ project @ ''/application/:'' @ app, ra_action = action\<rparr>"

text \<open>The steps of the page, with what it is given. The trait dialog keeps a trait for later only while the
  component is new.\<close>

inductive app_page_step :: "app_page_props \<times> app_page \<Rightarrow> app_page_props \<times> app_page \<Rightarrow> bool" where
  app_given: "app_page_step (props, st) (props', snd (app_page_update props changed props' st))"
| app_adds_trait: "app_page_step (props, st) (props, onAddTrait name isEdit st)"
| app_edits_trait: "app_page_step (props, st) (props, changeTraitStats isEdit trait name st)"
| app_leaves_trait: "app_page_step (props, st) (props, trait_onClose st)"
| app_keeps_trait: "ap_visibleTrait st \<Longrightarrow> \<not> ap_isEditComponent st \<Longrightarrow> app_page_step (props, st) (props, createTemporaryTrait trait st)"
| app_rekeeps_trait: "ap_visibleTrait st \<Longrightarrow> \<not> ap_isEditComponent st \<Longrightarrow> app_page_step (props, st) (props, upDateTemporaryTrait trait st)"
| app_adds_trigger: "app_page_step (props, st) (props, onAddTrigger st)"
| app_edits_trigger: "app_page_step (props, st) (props, onEditTrigger t st)"
| app_leaves_trigger: "app_page_step (props, st) (props, onTriggerClose st)"
| app_saves_trigger: "app_page_step (props, st) (props, onTriggerOk t st)"
| app_edits: "app_page_step (props, st) (props, editAppPlan detail st)"
| app_leaves_edit: "app_page_step (props, st) (props, onCloseEditAppDialog st)"
| app_adds_component: "app_page_step (props, st) (props, onAddComponent st)"
| app_edits_component: "app_page_step (props, st) (props, editComponent name st)"
| app_leaves_component: "app_page_step (props, st) (props, onComponentClose st)"
| app_adds_policy: "app_page_step (props, st) (props, onAddPolicy st)"
| app_edits_policy: "app_page_step (props, st) (props, onEditPolicy name st)"
| app_gets_policy: "name \<in> set (ap_policyAsked st) \<Longrightarrow> app_page_step (props, st) (props, policy_detail_answer name p st)"
| app_leaves_policy: "app_page_step (props, st) (props, policy_onClose st)"
| app_adds_source: "app_page_step (props, st) (props, onAddSource st)"
| app_edits_source: "app_page_step (props, st) (props, onShowSource s st)"
| app_leaves_source: "app_page_step (props, st) (props, source_onClose st)"
| app_gets_types: "n \<in> fst ` set (ap_asked st) \<Longrightarrow> app_page_step (props, st) (props, component_types_answer n defs st)"
| app_gets_triggers: "app_page_step (props, st) (props, triggers_answer ts st)"
| app_gets_sources: "app_page_step (props, st) (props, sources_answer ss st)"
| app_gets_scopes: "app_page_step (props, st) (props, scopes_answer sc st)"
| app_gets_statistics: "app_page_step (props, st) (props, statistics_answer n st)"

section \<open>A dialog that is closed has nothing in it\<close>

definition closed_blank :: "app_page \<Rightarrow> bool" where
  "closed_blank st \<longleftrightarrow> (\<not> ap_visibleTrigger st \<longrightarrow> ap_trigger st = None) \<and> (\<not> ap_visiblePolicy st \<longrightarrow> ap_policy st = None) \<and>
     (\<not> ap_visibleSource st \<longrightarrow> ap_editSource st = None)"

lemmas app_dialog_defs = onAddTrait_def changeTraitStats_def trait_onClose_def createTemporaryTrait_def upDateTemporaryTrait_def onAddTrigger_def
  onEditTrigger_def onTriggerClose_def onTriggerOk_def editAppPlan_def onCloseEditAppDialog_def onAddComponent_def editComponent_def
  onComponentClose_def onAddPolicy_def onEditPolicy_def policy_onClose_def onAddSource_def onShowSource_def source_onClose_def

lemmas app_answer_defs = policy_detail_answer_def triggers_answer_def sources_answer_def scopes_answer_def statistics_answer_def

lemma open_section_blank: "closed_blank st \<Longrightarrow> closed_blank (open_section section st)"
  by (simp add: open_section_def closed_blank_def app_dialog_defs)

lemma openAddIfAsked_cases: "snd (openAddIfAsked props st) = st \<or> snd (openAddIfAsked props st) = open_section (aq_section props) st"
  by (simp add: openAddIfAsked_def split: option.splits)

lemma get_types_blank [simp]: "closed_blank (onGetComponentDefinitions props st) = closed_blank st"
  by (simp add: closed_blank_def onGetComponentDefinitions_def Let_def)

lemma page_update_eq:
  "snd (app_page_update prev changed props st) =
     (let st' = (if aq_wantsAdd prev \<noteq> aq_wantsAdd props \<or> aq_section prev \<noteq> aq_section props \<or> changed then snd (openAddIfAsked props st) else st)
      in if namespaces_key prev \<noteq> namespaces_key props then onGetComponentDefinitions props st' else st')"
  by (simp add: app_page_update_def split: prod.splits)

lemma add_if_asked_blank: "closed_blank st \<Longrightarrow> closed_blank (snd (openAddIfAsked props st))"
  using openAddIfAsked_cases[of props st] open_section_blank by auto

lemma page_update_blank: "closed_blank st \<Longrightarrow> closed_blank (snd (app_page_update prev changed props st))"
  unfolding page_update_eq by (simp add: add_if_asked_blank Let_def)

lemma app_page_step_blank: "app_page_step x x' \<Longrightarrow> closed_blank (snd x) \<Longrightarrow> closed_blank (snd x')"
proof (induction rule: app_page_step.induct)
  case (app_given props st props' changed)
  then show ?case by (simp add: page_update_blank)
qed (simp_all add: closed_blank_def app_dialog_defs app_answer_defs component_types_answer_def Let_def split: option.splits)

lemma page_mount_eq: "snd (app_page_mount props) = onGetComponentDefinitions props (snd (openAddIfAsked props new_app_page))"
  by (simp add: app_page_mount_def split: prod.splits)

interpretation app_dialogs: machine app_page_step "\<lambda>x. closed_blank (snd x)" "\<lambda>x. \<exists>props. x = (props, snd (app_page_mount props))"
proof unfold_locales
  have n: "closed_blank new_app_page" by (simp add: closed_blank_def new_app_page_def)
  show "closed_blank (snd x)" if "\<exists>props. x = (props, snd (app_page_mount props))" for x
    using that add_if_asked_blank[OF n] by (auto simp: page_mount_eq)
qed (rule app_page_step_blank)

text \<open>Whatever was opened, edited, closed and answered before, a dialog for a new trigger, policy or source
  that is opened while it is closed opens with nothing in it, and a read-only application opens none
  by its address.\<close>

theorem add_opens_blank:
  assumes "app_page_step\<^sup>*\<^sup>* (props0, snd (app_page_mount props0)) (props, st)"
  shows "(\<not> ap_visibleTrigger st \<longrightarrow> ap_visibleTrigger (onAddTrigger st) \<and> ap_trigger (onAddTrigger st) = None) \<and>
    (\<not> ap_visiblePolicy st \<longrightarrow> ap_visiblePolicy (onAddPolicy st) \<and> ap_policy (onAddPolicy st) = None) \<and>
    (\<not> ap_visibleSource st \<longrightarrow> ap_visibleSource (onAddSource st) \<and> ap_editSource (onAddSource st) = None) \<and>
    (aq_readOnly props = Some True \<longrightarrow> snd (openAddIfAsked props st) = st)"
proof -
  have "closed_blank st" using app_dialogs.reachable_inv[OF _ assms] by auto
  then show ?thesis by (simp add: closed_blank_def app_dialog_defs openAddIfAsked_def)
qed

definition sample_trigger :: app_trigger where
  "sample_trigger = \<lparr>tg_name = ''t'', tg_alias = None, tg_description = None, tg_workflowName = ''w'', tg_type = ''webhook'', tg_payloadType = None,
     tg_registry = None, tg_token = ''k'', tg_componentName = None\<rparr>"

definition sample_props :: app_page_props where
  "sample_props = \<lparr>aq_env = Some [\<lparr>dt_name = ''dev'', dt_alias = None, dt_namespace = ''ns''\<rparr>], aq_section = Some ''triggers'', aq_readOnly = Some False, aq_wantsAdd = False\<rparr>"

theorem add_opens_blank_witness:
  "let st = onTriggerClose (onEditTrigger sample_trigger (snd (app_page_mount sample_props)))
   in \<not> ap_visibleTrigger st \<and> ap_visibleTrigger (onAddTrigger st) \<and> ap_trigger (onAddTrigger st) = None"
proof -
  let ?m = "snd (app_page_mount sample_props)" let ?e = "onEditTrigger sample_trigger ?m" let ?st = "onTriggerClose ?e"
  have "app_page_step\<^sup>*\<^sup>* (sample_props, ?m) (sample_props, ?st)"
    using app_edits_trigger[of sample_props ?m sample_trigger] app_leaves_trigger[of sample_props ?e] by (meson r_into_rtranclp rtranclp_trans)
  moreover have "\<not> ap_visibleTrigger ?st" by (simp add: onTriggerClose_def)
  ultimately show ?thesis using add_opens_blank[of sample_props sample_props ?st] unfolding Let_def by blast
qed

section \<open>Component types are those of the namespaces\<close>

lemma join_nonempty: "[] \<notin> set ws \<Longrightarrow> join_with '','' ws = [] \<longleftrightarrow> ws = []"
  by (induction "'',''" ws rule: join_with.induct) auto

lemma key_empty: "namespaces_key props = [] \<longleftrightarrow> deployNamespaces (aq_env props) = []"
  using deployNamespaces_sorted[of "aq_env props"] by (simp add: namespaces_key_def join_nonempty)

definition types_ok :: "app_page_props \<times> app_page \<Rightarrow> bool" where
  "types_ok x \<longleftrightarrow> (case x of (props, st) \<Rightarrow>
     (\<forall>(n, ns) \<in> set (ap_asked st). n \<le> ap_request st \<and> (n = ap_request st \<longrightarrow> join_with '','' ns = namespaces_key props \<and> ns \<noteq> [])) \<and>
     (namespaces_key props = [] \<longrightarrow> ap_definitions st = Some [] \<and> ap_request st \<notin> fst ` set (ap_asked st)))"

lemma types_ok_cong:
  assumes "types_ok (props, st)" and "ap_asked st' = ap_asked st" "ap_request st' = ap_request st" "ap_definitions st' = ap_definitions st"
    and "namespaces_key props' = namespaces_key props"
  shows "types_ok (props', st')"
  using assms by (simp add: types_ok_def)

lemma get_types_ok:
  assumes "\<And>n ns. (n, ns) \<in> set (ap_asked st) \<Longrightarrow> n \<le> ap_request st"
  shows "types_ok (props, onGetComponentDefinitions props st)"
proof -
  have "n < Suc (ap_request st)" if "(n, ns) \<in> set (ap_asked st)" for n ns using assms[OF that] by simp
  then show ?thesis using key_empty[of props]
    by (force simp: types_ok_def onGetComponentDefinitions_def Let_def namespaces_key_def[symmetric])
qed

lemma asked_fields [simp]:
  "ap_asked (snd (openAddIfAsked props st)) = ap_asked st" "ap_request (snd (openAddIfAsked props st)) = ap_request st"
  "ap_definitions (snd (openAddIfAsked props st)) = ap_definitions st"
  by (simp_all add: openAddIfAsked_def open_section_def app_dialog_defs split: option.splits)

lemma types_answer_ok:
  assumes ok: "types_ok (props, st)" and n: "n \<in> fst ` set (ap_asked st)"
  shows "types_ok (props, component_types_answer n defs st)"
proof -
  let ?st = "component_types_answer n defs st"
  have sub: "set (ap_asked ?st) \<subseteq> set (ap_asked st)" and r: "ap_request ?st = ap_request st"
    by (auto simp: component_types_answer_def Let_def split: option.splits)
  have d: "ap_definitions ?st = ap_definitions st" if "namespaces_key props = []"
  proof -
    have "ap_request st \<notin> fst ` set (ap_asked st)" using ok that by (simp add: types_ok_def)
    then have "n \<noteq> ap_request st" using n by blast
    then show ?thesis by (simp add: component_types_answer_def Let_def split: option.splits)
  qed
  show ?thesis using ok sub d by (simp add: types_ok_def r) blast
qed

lemma page_update_types:
  assumes "types_ok (prev, st)" shows "types_ok (props, snd (app_page_update prev changed props st))"
proof -
  define st' where "st' = (if aq_wantsAdd prev \<noteq> aq_wantsAdd props \<or> aq_section prev \<noteq> aq_section props \<or> changed then snd (openAddIfAsked props st) else st)"
  have f: "ap_asked st' = ap_asked st" "ap_request st' = ap_request st" "ap_definitions st' = ap_definitions st" by (simp_all add: st'_def)
  have "types_ok (props, st')" if "namespaces_key prev = namespaces_key props" using types_ok_cong[OF assms f] that by simp
  moreover have "types_ok (props, onGetComponentDefinitions props st')" using assms by (intro get_types_ok) (auto simp: f types_ok_def)
  ultimately show ?thesis unfolding page_update_eq st'_def[symmetric] Let_def by simp
qed

lemma app_page_step_types: "app_page_step x x' \<Longrightarrow> types_ok x \<Longrightarrow> types_ok x'"
proof (induction rule: app_page_step.induct)
  case (app_given props st props' changed)
  then show ?case by (rule page_update_types)
next
  case (app_gets_types n st props defs)
  then show ?case by (intro types_answer_ok)
qed (erule types_ok_cong; simp add: app_dialog_defs app_answer_defs Let_def split: option.splits)+

interpretation app_types: machine app_page_step types_ok "\<lambda>x. \<exists>props. x = (props, snd (app_page_mount props))"
proof unfold_locales
  show "types_ok x" if "\<exists>props. x = (props, snd (app_page_mount props))" for x
    using that by (auto simp: page_mount_eq new_app_page_def intro!: get_types_ok)
qed (rule app_page_step_types)

text \<open>Whatever the page is given and in whatever order its requests are answered, the types of components
  are taken from an answer only if it was asked for the namespaces the application deploys to now,
  and while there is no such namespace none is offered.\<close>

theorem component_types_for_namespaces:
  assumes "app_page_step\<^sup>*\<^sup>* (props0, snd (app_page_mount props0)) (props, st)"
  shows "(deployNamespaces (aq_env props) = [] \<longrightarrow> ap_definitions st = Some []) \<and>
    ((n, ns) \<in> set (ap_asked st) \<and> ap_definitions (component_types_answer n defs st) \<noteq> ap_definitions st \<longrightarrow> join_with '','' ns = namespaces_key props)"
proof -
  have "types_ok (props, st)" using app_types.reachable_inv[OF _ assms] by blast
  then show ?thesis using key_empty[of props] by (auto simp: types_ok_def component_types_answer_def Let_def split: option.splits if_splits)
qed

theorem component_types_for_namespaces_witness:
  "(1, [''ns'']) \<in> set (ap_asked (snd (app_page_mount sample_props))) \<and> join_with '','' [''ns''] = namespaces_key sample_props"
proof -
  let ?st = "snd (app_page_mount sample_props)"
  have a: "ap_asked ?st = [(1, [''ns''])]" and d: "ap_definitions (component_types_answer 1 (Some (Some [''webservice''])) ?st) \<noteq> ap_definitions ?st" by code_simp+
  have m: "(1, [''ns'']) \<in> set (ap_asked ?st)" unfolding a by simp
  show ?thesis
    using component_types_for_namespaces[OF rtranclp.rtrancl_refl, where n = 1 and ns = "[''ns'']" and defs = "Some (Some [''webservice''])"] m d by blast
qed

text \<open>The keys compared tell the namespaces apart, as none has a comma.\<close>

lemma namespaces_key_inj:
  assumes "namespaces_key a = namespaces_key b" and "\<forall>ns \<in> set (deployNamespaces (aq_env a)) \<union> set (deployNamespaces (aq_env b)). CHR '','' \<notin> set ns"
  shows "deployNamespaces (aq_env a) = deployNamespaces (aq_env b)"
proof (cases "deployNamespaces (aq_env a) = []")
  case True
  then show ?thesis using assms(1) key_empty[of a] key_empty[of b] by simp
next
  case False
  then have "deployNamespaces (aq_env b) \<noteq> []" using assms(1) key_empty[of a] key_empty[of b] by simp
  then have "split_on (CHR '','') (namespaces_key a) = deployNamespaces (aq_env a)" "split_on (CHR '','') (namespaces_key b) = deployNamespaces (aq_env b)"
    using False assms(2) unfolding namespaces_key_def by (simp_all add: split_join)
  then show ?thesis using assms(1) by simp
qed

section \<open>Where the page goes wrong\<close>

text \<open>The details of a policy asked for before come up in the dialog for a new one.\<close>

lemma late_policy_opens: "ap_visiblePolicy (policy_detail_answer name (Some p) (onAddPolicy st)) \<and> ap_policy (policy_detail_answer name (Some p) (onAddPolicy st)) = Some p"
  by (simp add: policy_detail_answer_def onAddPolicy_def Let_def)

text \<open>Who may edit one application, by its name, may not by the resource the page asks about, whose
  application is every one.\<close>

lemma app_edit_refused:
  "\<not> resourceMatch (resourceName (ra_resource (app_edit_request ''p'' ''shop'' ''update''))) (resourceName ''project:p/application:shop'') \<and>
   resourceMatch (resourceName ''project:p/application:shop'') (resourceName ''project:p/application:shop'')"
  by code_simp

end
