(* ===== verification/Addon_Pages.thy ===== *)
theory Addon_Pages
  imports Config_Dialogs Field_Rows Resource_Utils Branding_Views Run_Loops
begin

text \<open>
  The pages of addons (\<open>pages/Addons\<close>): the list with its tags and its order, the registries
  (\<open>components/registry-manage\<close>) and the details of an addon (\<open>components/detail\<close>), which asks for
  the addon's status again while it is being enabled or disabled. Requests under way and timers
  are part of the state, as in \<open>Run_Pages\<close>.
\<close>

section \<open>The list\<close>

record addon =
  ao_name :: string
  ao_version :: "string option"
  ao_icon :: "string option"
  ao_tags :: "string list option"
  ao_registryName :: "string option"

text \<open>The tags with their numbers, as a map in the order of first use and then sorted.\<close>

definition count_tag :: "(string, nat) js_map \<Rightarrow> string \<Rightarrow> (string, nat) js_map" where
  "count_tag m tag = AList.update tag (case map_of m tag of Some n \<Rightarrow> if n \<noteq> 0 then n + 1 else 1 | None \<Rightarrow> 1) m"

definition generateTagList :: "addon list \<Rightarrow> (string \<times> nat) list" where
  "generateTagList addons = sort_key (\<lambda>(tag, num). - int num) (foldl count_tag [] (concat (map (\<lambda>a. or_nil (ao_tags a)) addons)))"

definition tag_choices :: "(string \<times> nat) list option \<Rightarrow> string list" where
  "tag_choices tags = map fst (filter (\<lambda>(tag, num). num > 2) (or_nil tags))"

text \<open>What is known of the addons that are enabled: name and phase.\<close>

definition is_enabled :: "(string \<times> string) list option \<Rightarrow> addon \<Rightarrow> bool" where
  "is_enabled enabled a \<longleftrightarrow> (case filter (\<lambda>(name, _). name = ao_name a) (or_nil enabled) of [] \<Rightarrow> False | (_, phase) # _ \<Rightarrow> phase = ''enabled'')"

definition has_tags :: "string list \<Rightarrow> addon \<Rightarrow> bool" where
  "has_tags selectTags a \<longleftrightarrow> selectTags = [] \<or> or_nil (intersectionArray (ao_tags a) (Some selectTags)) \<noteq> []"

definition orderAddonList :: "string list \<Rightarrow> (string \<times> string) list option \<Rightarrow> addon list \<Rightarrow> addon list" where
  "orderAddonList selectTags enabled addons =
     foldl (\<lambda>acc a. if \<not> has_tags selectTags a then acc else if is_enabled enabled a then a # acc else acc @ [a]) [] addons"

definition addon_phase :: "(string \<times> string) list option \<Rightarrow> addon \<Rightarrow> string option" where
  "addon_phase enabled a = map_option snd (find (\<lambda>(name, _). name = ao_name a) (or_nil enabled))"

definition addonTone :: "string option \<Rightarrow> tone" where
  "addonTone phase =
     (if phase = Some ''enabled'' then Healthy else if phase \<in> {Some ''enabling'', Some ''disabling''} then Progressing
      else if phase = Some ''suspend'' then Suspended else Neutral)"

definition addonLabel :: "string option \<Rightarrow> string" where
  "addonLabel phase =
     (if phase = Some ''enabled'' then ''Enabled'' else if phase = Some ''enabling'' then ''Enabling''
      else if phase = Some ''disabling'' then ''Disabling'' else if phase = Some ''suspend'' then ''Suspended'' else ''Not enabled'')"

text \<open>The initials of a name; only the first of the commas of the printed list is taken out.\<close>

definition nameUpper :: "string \<Rightarrow> string" where
  "nameUpper name = remove1 (CHR '','') (join_with '','' (map (\<lambda>sep. take 1 (to_upper sep)) (split_on (CHR ''-'') name)))"

definition version_label :: "string option \<Rightarrow> string" where
  "version_label version = (case or_str version ''0.0.0'' of c # s \<Rightarrow> if c = CHR ''v'' then c # s else CHR ''v'' # c # s | [] \<Rightarrow> ''v'')"

text \<open>The page: which addon's details are shown.\<close>

record addons_page =
  an_showDetail :: bool
  an_name :: string
  an_showRegistries :: bool
  an_tags :: "(string \<times> nat) list option"
  an_selectTags :: "string list"

definition openAddonDetail :: "string \<Rightarrow> addons_page \<Rightarrow> addons_page" where
  "openAddonDetail name st = st\<lparr>an_showDetail := True, an_name := name\<rparr>"

definition closeAddonDetail :: "addons_page \<Rightarrow> addons_page" where
  "closeAddonDetail st = st\<lparr>an_showDetail := False, an_name := []\<rparr>"

definition addons_listed :: "string option \<Rightarrow> addon list \<Rightarrow> addons_page \<Rightarrow> addons_page" where
  "addons_listed match addons st = (if truthy match then openAddonDetail (the match) st else st)\<lparr>an_tags := Some (generateTagList addons)\<rparr>"

definition onShowAddon :: "string \<Rightarrow> addon list \<Rightarrow> addons_page \<Rightarrow> addons_page" where
  "onShowAddon name addons st = foldl (\<lambda>st a. if ao_name a = name then openAddonDetail name (closeAddonDetail st) else st) st addons"

section \<open>The registries\<close>

record registry_item =
  ri_name :: string
  ri_git :: "(string \<times> string) option"
  ri_gitee :: "(string \<times> string) option"
  ri_gitlab :: "(string \<times> string \<times> string) option"
  ri_oss :: "(string \<times> string \<times> string option) option"
  ri_helm :: "string option"

record registry_form =
  rf_name :: string
  rf_type :: string
  rf_url :: string
  rf_path :: string
  rf_repo :: string

definition no_registry :: "string \<Rightarrow> registry_item" where
  "no_registry name = \<lparr>ri_name = name, ri_git = None, ri_gitee = None, ri_gitlab = None, ri_oss = None, ri_helm = None\<rparr>"

text \<open>The request, less the tokens, which are never shown again.\<close>

definition registry_params :: "registry_form \<Rightarrow> registry_item" where
  "registry_params f =
     (let r = no_registry (rf_name f)
      in if rf_type f = ''OSS'' then r\<lparr>ri_oss := Some (rf_url f, rf_path f, None)\<rparr>
         else if rf_type f = ''Github'' then r\<lparr>ri_git := Some (rf_url f, rf_path f)\<rparr>
         else if rf_type f = ''Gitee'' then r\<lparr>ri_gitee := Some (rf_url f, rf_path f)\<rparr>
         else if rf_type f = ''Gitlab'' then r\<lparr>ri_gitlab := Some (rf_url f, rf_path f, rf_repo f)\<rparr>
         else if rf_type f = ''Helm'' then r\<lparr>ri_helm := Some (rf_url f)\<rparr> else r)"

definition addExperimental :: registry_item where
  "addExperimental = (no_registry ''experimental'')\<lparr>ri_helm := Some ''https://addons.kubevela.net/experimental''\<rparr>"

record registry_row =
  rw_name :: string
  rw_url :: string
  rw_path :: "string option"
  rw_type :: string
  rw_repo :: string

text \<open>The row of a registry. The row of one at Gitee reads the address from the other source, which
  throws where there is none.\<close>

definition oss_path :: "string \<Rightarrow> string option \<Rightarrow> string option" where
  "oss_path bucket path = (if bucket \<noteq> [] then Some (bucket @ ''/'' @ coalesce path ''undefined'') else path)"

definition registry_row_of :: "registry_item \<Rightarrow> string + registry_row" where
  "registry_row_of r =
     (let row = \<lparr>rw_name = ri_name r, rw_url = [], rw_path = Some [], rw_type = [], rw_repo = []\<rparr>;
          row = (case ri_git r of None \<Rightarrow> row | Some (url, path) \<Rightarrow> row\<lparr>rw_url := url, rw_path := Some path, rw_type := ''Github''\<rparr>)
      in if ri_gitee r \<noteq> None \<and> ri_git r = None then Inl ''TypeError''
         else let row = (case (ri_gitee r, ri_git r) of
                           (Some _, Some (url, path)) \<Rightarrow> row\<lparr>rw_url := url, rw_path := Some path, rw_type := ''Gitee''\<rparr> | _ \<Rightarrow> row);
                  row = (case ri_gitlab r of
                           None \<Rightarrow> row
                         | Some (url, path, repo) \<Rightarrow> row\<lparr>rw_url := url, rw_path := Some path, rw_type := ''Gitlab'', rw_repo := repo\<rparr>);
                  row = (case ri_oss r of
                           None \<Rightarrow> row
                         | Some (end_point, bucket, path) \<Rightarrow> row\<lparr>rw_url := end_point, rw_path := oss_path bucket path, rw_type := ''OSS''\<rparr>)
              in Inr (case ri_helm r of None \<Rightarrow> row | Some url \<Rightarrow> row\<lparr>rw_url := url, rw_type := ''Helm''\<rparr>))"

fun all_rows :: "(string + 'b) list \<Rightarrow> string + 'b list" where
  "all_rows [] = Inr []"
| "all_rows (Inl e # rs) = Inl e"
| "all_rows (Inr r # rs) = map_sum id ((#) r) (all_rows rs)"

definition registryDataSource :: "registry_item list \<Rightarrow> string + registry_row list" where
  "registryDataSource rs = all_rows (map registry_row_of rs)"

definition existExperimental :: "registry_item list \<Rightarrow> bool" where
  "existExperimental rs \<longleftrightarrow> list_ex (\<lambda>r. ri_name r = ''experimental'') rs"

section \<open>The details of an addon\<close>

text \<open>Of an addon: its version, registry, whether it goes to the clusters, and its form, a list of
  keys with their types. Of its status: the arguments with the clusters among them, the names of
  the clusters that have it, the application that manages it.\<close>

record addon_info =
  ad_name :: string
  ad_version :: "string option"
  ad_registryName :: "string option"
  ad_runtimeCluster :: bool
  ad_uiSchema :: "(string \<times> string) list option"

record addon_status =
  as_phase :: string
  as_args :: "(json \<times> string list option) option"
  as_installedVersion :: string
  as_clusters :: "string list option"
  as_allClusters :: "(string \<times> string option) list option"
  as_managedBy :: "(string \<times> string) option"
  as_appStatus :: "string option"

record addon_dialog =
  ag_detail :: "addon_info option"
  ag_schema :: "(string \<times> string) list option"
  ag_loading :: bool
  ag_status :: string
  ag_statusLoading :: bool
  ag_enableLoading :: bool
  ag_upgradeLoading :: bool
  ag_mode :: "string option"
  ag_version :: "string option"
  ag_clusters :: "string list option"
  ag_allClusters :: "(string \<times> string option) list option"
  ag_enabledClusters :: "string list option"
  ag_managedBy :: "(string \<times> string) option"
  ag_appStatus :: "string option"
  ag_properties :: "json option"
  ag_showStatus :: bool
  ag_statusLoop :: bool
  ag_timers :: nat
  ag_statusAsked :: nat
  ag_detailAsked :: "string option list"
  ag_closed :: bool
  ag_failed :: bool

definition new_addon_dialog :: addon_dialog where
  "new_addon_dialog =
     \<lparr>ag_detail = Some \<lparr>ad_name = [], ad_version = None, ad_registryName = None, ad_runtimeCluster = False, ad_uiSchema = None\<rparr>,
      ag_schema = None, ag_loading = True, ag_status = [], ag_statusLoading = True, ag_enableLoading = False, ag_upgradeLoading = False,
      ag_mode = None, ag_version = None, ag_clusters = None, ag_allClusters = None, ag_enabledClusters = None, ag_managedBy = None,
      ag_appStatus = None, ag_properties = None, ag_showStatus = False, ag_statusLoop = False, ag_timers = 0, ag_statusAsked = 0,
      ag_detailAsked = [], ag_closed = False, ag_failed = False\<rparr>"

definition loadAddonDetail :: "addon_dialog \<Rightarrow> addon_dialog" where
  "loadAddonDetail st = st\<lparr>ag_loading := True, ag_detailAsked := ag_detailAsked st @ [ag_version st]\<rparr>"

definition loadAddonStatus :: "addon_dialog \<Rightarrow> addon_dialog" where
  "loadAddonStatus st = st\<lparr>ag_statusLoading := True, ag_statusAsked := ag_statusAsked st + 1\<rparr>"

definition addon_mount :: addon_dialog where
  "addon_mount = loadAddonStatus (loadAddonDetail new_addon_dialog)"

definition addon_unmount :: "addon_dialog \<Rightarrow> addon_dialog" where
  "addon_unmount st = st\<lparr>ag_timers := 0, ag_closed := True\<rparr>"

definition addon_detail_answer :: "string option \<Rightarrow> addon_info answer \<Rightarrow> addon_dialog \<Rightarrow> addon_dialog" where
  "addon_detail_answer asked a st =
     (let st = st\<lparr>ag_detailAsked := remove1 asked (ag_detailAsked st), ag_loading := False\<rparr>
      in case a of
           Answered res \<Rightarrow>
             (let st = st\<lparr>ag_detail := Some res, ag_schema := ad_uiSchema res\<rparr>
              in if \<not> truthy (ag_version st) \<and> truthy (ad_version res) then st\<lparr>ag_version := ad_version res\<rparr> else st)
         | _ \<Rightarrow> st)"

definition busy_phase :: "string \<Rightarrow> bool" where
  "busy_phase phase \<longleftrightarrow> phase = ''enabling'' \<or> phase = ''disabling''"

definition status_clusters :: "addon_status \<Rightarrow> string list" where
  "status_clusters res =
     (let clusters = or_nil (Option.bind (as_args res) snd)
      in case as_clusters res of Some enabled \<Rightarrow> if clusters = [] then enabled else clusters | None \<Rightarrow> clusters)"

text \<open>The status: an addon that is being enabled or disabled is asked for again in four seconds. An
  answer with nothing in it changes nothing, not even that it is loading.\<close>

definition addon_status_answer :: "addon_status answer \<Rightarrow> addon_dialog \<Rightarrow> addon_dialog" where
  "addon_status_answer a st =
     (let st = st\<lparr>ag_statusAsked := ag_statusAsked st - 1\<rparr>
      in case a of
           Empty \<Rightarrow> st\<lparr>ag_failed := True\<rparr>
         | Rejected \<Rightarrow> st\<lparr>ag_statusLoading := False, ag_failed := True\<rparr>
         | Answered res \<Rightarrow>
             (let st = (if busy_phase (as_phase res) \<and> \<not> ag_statusLoop st then st\<lparr>ag_statusLoop := True, ag_timers := ag_timers st + 1\<rparr> else st);
                  st = (case as_args res of
                          Some (args, _) \<Rightarrow> st\<lparr>ag_properties := Some args, ag_mode := Some ''edit''\<rparr> | None \<Rightarrow> st\<lparr>ag_mode := Some ''new''\<rparr>)
              in st\<lparr>ag_status := as_phase res, ag_version := (if as_installedVersion res \<noteq> [] then Some (as_installedVersion res) else ag_version st),
                    ag_allClusters := as_allClusters res, ag_statusLoading := False, ag_clusters := Some (status_clusters res),
                    ag_appStatus := as_appStatus res, ag_managedBy := as_managedBy res, ag_enabledClusters := Some (or_nil (as_clusters res))\<rparr>))"

definition addon_timer :: "addon_dialog \<Rightarrow> addon_dialog" where
  "addon_timer st = loadAddonStatus (st\<lparr>ag_timers := ag_timers st - 1, ag_statusLoop := False\<rparr>)"

record enable_request =
  en_version :: string
  en_properties :: "json option"
  en_registry :: "string option"
  en_clusters :: "string list option"

datatype addon_refusal = NoVersion | NoCluster

definition to_clusters :: "addon_dialog \<Rightarrow> bool" where
  "to_clusters st \<longleftrightarrow> (case ag_detail st of Some d \<Rightarrow> ad_runtimeCluster d | None \<Rightarrow> False)"

definition addon_request :: "addon_dialog \<Rightarrow> addon_refusal + enable_request" where
  "addon_request st =
     (if \<not> truthy (ag_version st) then Inl NoVersion
      else if to_clusters st \<and> or_nil (ag_clusters st) = [] then Inl NoCluster
      else Inr \<lparr>en_version = the (ag_version st), en_properties = ag_properties st, en_registry = Option.bind (ag_detail st) ad_registryName,
                en_clusters = (if to_clusters st then ag_clusters st else None)\<rparr>)"

definition enableAddon :: "addon_dialog \<Rightarrow> (addon_refusal + enable_request) \<times> addon_dialog" where
  "enableAddon st =
     (case addon_request st of Inl w \<Rightarrow> (Inl w, st) | Inr r \<Rightarrow> (Inr r, st\<lparr>ag_statusLoading := True, ag_enableLoading := True\<rparr>))"

definition enabled_answer :: "bool \<Rightarrow> addon_dialog \<Rightarrow> addon_dialog" where
  "enabled_answer ok st = (if ok then loadAddonStatus st else st)\<lparr>ag_enableLoading := False\<rparr>"

definition onUpgrade :: "addon_dialog \<Rightarrow> (addon_refusal + enable_request) \<times> addon_dialog" where
  "onUpgrade st = (case addon_request st of Inl w \<Rightarrow> (Inl w, st) | Inr r \<Rightarrow> (Inr r, st\<lparr>ag_upgradeLoading := True\<rparr>))"

definition upgraded_answer :: "bool \<Rightarrow> addon_dialog \<Rightarrow> addon_dialog" where
  "upgraded_answer ok st = (if ok then (loadAddonStatus st)\<lparr>ag_upgradeLoading := False\<rparr> else st)"

definition disableAddon :: "addon_dialog \<Rightarrow> addon_dialog" where
  "disableAddon st = st\<lparr>ag_statusLoading := True\<rparr>"

definition disabled_answer :: "bool \<Rightarrow> addon_dialog \<Rightarrow> addon_dialog" where
  "disabled_answer ok st = (if ok then loadAddonStatus st else st)"

definition addon_changeVersion :: "string \<Rightarrow> addon_dialog \<Rightarrow> addon_dialog" where
  "addon_changeVersion version st = loadAddonDetail (st\<lparr>ag_version := Some version, ag_schema := None\<rparr>)"

definition changeCluster :: "string list \<Rightarrow> addon_dialog \<Rightarrow> addon_dialog" where
  "changeCluster values st = st\<lparr>ag_clusters := Some (if ''local'' \<in> set values then values else values @ [''local''])\<rparr>"

text \<open>The buttons: what is done, whether it is loading and whether it is disabled.\<close>

definition addon_buttons :: "addon_dialog \<Rightarrow> (string \<times> bool \<times> bool) list" where
  "addon_buttons st =
     (let managed = (ag_managedBy st \<noteq> None); status = ag_status st; failed = (ag_appStatus st = Some ''workflowFailed'')
      in (if status \<in> {''enabled'', ''enabling'', ''disabling''} then [(''disable'', status = ''disabling'', status = ''disabling'' \<or> managed)] else []) @
         (if status \<in> {''enabled'', ''suspend''} \<or> failed then [(''upgrade'', ag_upgradeLoading st, managed)] else []) @
         (if status = ''disabled'' \<or> status = ''enabling'' \<and> \<not> failed then [(''enable'', status = ''enabling'' \<or> ag_enableLoading st, managed)] else []))"

definition getAppStatusShowType :: "string option \<Rightarrow> string" where
  "getAppStatusShowType status =
     (if \<not> truthy status then ''notice'' else if the status \<in> {''running'', ''workflowFinished''} then ''success''
      else if the status = ''unhealthy'' then ''error'' else ''warning'')"

definition addon_clusterOptions :: "addon_dialog \<Rightarrow> (string \<times> bool \<times> string) list option" where
  "addon_clusterOptions st =
     map_option (map (\<lambda>(name, alias). (or_str alias name, name \<in> set (or_nil (ag_enabledClusters st)), name))) (ag_allClusters st)"

definition secret_fields :: "(string \<times> string) list \<Rightarrow> (string \<times> string) list" where
  "secret_fields schema = map (\<lambda>(key, type). (key, if occurs_in ''SECRET_KEY'' key \<or> occurs_in ''ACCESS_KEY'' key then ''Password'' else type)) schema"

inductive addon_step :: "addon_dialog \<Rightarrow> addon_dialog \<Rightarrow> bool" where
  addon_told: "ag_statusAsked st > 0 \<Longrightarrow> addon_step st (addon_status_answer a st)"
| addon_waited: "ag_timers st > 0 \<Longrightarrow> addon_step st (addon_timer st)"
| addon_described: "asked \<in> set (ag_detailAsked st) \<Longrightarrow> addon_step st (addon_detail_answer asked d st)"
| addon_enables: "\<not> ag_closed st \<Longrightarrow> addon_step st (snd (enableAddon st))"
| addon_enabled: "addon_step st (enabled_answer ok st)"
| addon_upgrades: "\<not> ag_closed st \<Longrightarrow> addon_step st (snd (onUpgrade st))"
| addon_upgraded: "addon_step st (upgraded_answer ok st)"
| addon_disables: "\<not> ag_closed st \<Longrightarrow> addon_step st (disableAddon st)"
| addon_disabled: "addon_step st (disabled_answer ok st)"
| addon_versions: "\<not> ag_closed st \<Longrightarrow> addon_step st (addon_changeVersion v st)"
| addon_clusters: "\<not> ag_closed st \<Longrightarrow> addon_step st (changeCluster cs st)"
| addon_edits: "\<not> ag_closed st \<Longrightarrow> addon_step st (st\<lparr>ag_properties := p\<rparr>)"
| addon_closes: "addon_step st (addon_unmount st)"

section \<open>Tags and order\<close>

definition tag_counts :: "string list \<Rightarrow> (string, nat) js_map \<Rightarrow> bool" where
  "tag_counts tags m \<longleftrightarrow> distinct (map fst m) \<and> map_of m = (\<lambda>t. if t \<in> set tags then Some (count_list tags t) else None)"

lemma count_tag_counts: "tag_counts tags m \<Longrightarrow> tag_counts (tags @ [tag]) (count_tag m tag)"
  by (auto simp: tag_counts_def count_tag_def distinct_update update_conv' fun_eq_iff count_list_0_iff)

lemma tags_counted: "tag_counts tags (foldl count_tag [] tags)"
  by (induction tags rule: rev_induct) (simp_all add: count_tag_counts, simp add: tag_counts_def)

text \<open>The tags to pick from are those of the addons, each once with the number of times it is used,
  those used most first.\<close>

theorem generateTagList_counts:
  "distinct (map fst (generateTagList addons)) \<and>
   set (generateTagList addons) = (let tags = concat (map (\<lambda>a. or_nil (ao_tags a)) addons) in (\<lambda>t. (t, count_list tags t)) ` set tags) \<and>
   sorted_wrt (\<lambda>x y. snd x \<ge> snd y) (generateTagList addons)"
proof -
  define tags where "tags = concat (map (\<lambda>a. or_nil (ao_tags a)) addons)"
  let ?m = "foldl count_tag [] tags"
  have c: "distinct (map fst ?m)" "map_of ?m = (\<lambda>t. if t \<in> set tags then Some (count_list tags t) else None)"
    using tags_counted[of tags] by (simp_all add: tag_counts_def)
  have g: "generateTagList addons = sort_key (\<lambda>(tag, num). - int num) ?m" by (simp add: generateTagList_def tags_def)
  have "mset (map fst (generateTagList addons)) = mset (map fst ?m)" by (simp add: g)
  then have d: "distinct (map fst (generateTagList addons))" using c(1) by (metis mset_eq_imp_distinct_iff)
  have "(t, n) \<in> set ?m \<longleftrightarrow> t \<in> set tags \<and> n = count_list tags t" for t n
    using map_of_eq_Some_iff[OF c(1), of t n] by (auto simp: c(2) split: if_splits)
  then have s: "set (generateTagList addons) = (\<lambda>t. (t, count_list tags t)) ` set tags" by (auto simp: g)
  have "sorted (map (\<lambda>(tag, num). - int num) (generateTagList addons))" by (simp add: g)
  then have o: "sorted_wrt (\<lambda>x y. snd x \<ge> snd y) (generateTagList addons)"
    by (simp add: sorted_map sorted_wrt_iff_nth_less case_prod_beta)
  show ?thesis using d s o by (simp add: tags_def[symmetric] Let_def)
qed

text \<open>The addons listed are those with a tag that is picked: the enabled ones first, last of them first.\<close>

lemma orderAddonList_eq:
  "orderAddonList selectTags enabled addons =
     rev (filter (\<lambda>a. has_tags selectTags a \<and> is_enabled enabled a) addons) @ filter (\<lambda>a. has_tags selectTags a \<and> \<not> is_enabled enabled a) addons"
proof -
  have "foldl (\<lambda>acc a. if \<not> has_tags selectTags a then acc else if is_enabled enabled a then a # acc else acc @ [a]) (xs @ ys) addons =
      rev (filter (\<lambda>a. has_tags selectTags a \<and> is_enabled enabled a) addons) @ xs @ ys @ filter (\<lambda>a. has_tags selectTags a \<and> \<not> is_enabled enabled a) addons" for xs ys
  proof (induction addons arbitrary: xs ys)
    case (Cons a addons)
    show ?case using Cons[of "a # xs" ys] Cons[of xs "ys @ [a]"] Cons[of xs ys] by simp
  qed simp
  from this[of "[]" "[]"] show ?thesis by (simp add: orderAddonList_def)
qed

section \<open>Registries\<close>

text \<open>A registry that is added is shown as it was entered, with its type, its address and its path,
  where it is one of Github, of Gitlab or of Helm charts.\<close>

theorem registry_shown:
  assumes "rf_type f \<in> {''Github'', ''Gitlab'', ''Helm''}"
  shows "registry_row_of (registry_params f) =
    Inr \<lparr>rw_name = rf_name f, rw_url = rf_url f, rw_path = Some (if rf_type f = ''Helm'' then [] else rf_path f), rw_type = rf_type f,
         rw_repo = (if rf_type f = ''Gitlab'' then rf_repo f else [])\<rparr>"
  using assms by (auto simp: registry_row_of_def registry_params_def no_registry_def Let_def)

theorem registry_shown_witness:
  "registry_row_of (registry_params \<lparr>rf_name = ''r'', rf_type = ''Helm'', rf_url = ''u'', rf_path = [], rf_repo = []\<rparr>) =
     Inr \<lparr>rw_name = ''r'', rw_url = ''u'', rw_path = Some [], rw_type = ''Helm'', rw_repo = []\<rparr>"
  using registry_shown[of "\<lparr>rf_name = ''r'', rf_type = ''Helm'', rf_url = ''u'', rf_path = [], rf_repo = []\<rparr>"] by simp

text \<open>One at Gitee makes the whole table throw, and the path of a bucket ends in a word that is not part
  of it.\<close>

lemma all_rows_Inl: "x \<in> set rs \<Longrightarrow> isl x \<Longrightarrow> isl (all_rows rs)"
proof (induction rs rule: all_rows.induct)
  case (3 r rs)
  then have "isl (all_rows rs)" by auto
  then show ?case by (cases "all_rows rs") simp_all
qed simp_all

lemma gitee_registry_throws:
  assumes "rf_type f = ''Gitee''" and "registry_params f \<in> set registries"
  shows "isl (registryDataSource registries)"
  unfolding registryDataSource_def
proof (rule all_rows_Inl)
  show "registry_row_of (registry_params f) \<in> set (map registry_row_of registries)" using assms(2) by simp
  show "isl (registry_row_of (registry_params f))" using assms(1) by (simp add: registry_row_of_def registry_params_def no_registry_def Let_def)
qed

lemma oss_registry_path:
  "rf_type f = ''OSS'' \<Longrightarrow> rf_path f \<noteq> [] \<Longrightarrow> \<exists>row. registry_row_of (registry_params f) = Inr row \<and> rw_path row = Some (rf_path f @ ''/undefined'')"
  by (simp add: registry_row_of_def registry_params_def no_registry_def oss_path_def coalesce_def Let_def)

lemma nameUpper_comma: "nameUpper ''a-b-c'' = ''AB,C''"
  by code_simp

section \<open>Asking for the status\<close>

definition addon_inv :: "addon_dialog \<Rightarrow> bool" where
  "addon_inv st \<longleftrightarrow> ag_timers st \<le> (if ag_statusLoop st then 1 else 0) \<and>
     (\<not> ag_closed st \<longrightarrow> (ag_statusLoop st \<longrightarrow> ag_timers st = 1) \<and>
        (busy_phase (ag_status st) \<and> \<not> ag_failed st \<longrightarrow> ag_statusAsked st > 0 \<or> ag_statusLoop st))"

lemma addon_inv_cong:
  assumes "addon_inv st" and "ag_timers st' = ag_timers st" "ag_statusLoop st' = ag_statusLoop st" "ag_closed st' = ag_closed st"
    "ag_status st' = ag_status st" "ag_failed st' = ag_failed st" "ag_statusAsked st \<le> ag_statusAsked st'"
  shows "addon_inv st'"
  using assms by (auto simp: addon_inv_def)

lemma addon_answer_inv: "addon_inv st \<Longrightarrow> addon_inv (addon_status_answer a st)"
  by (cases a) (auto simp: addon_inv_def addon_status_answer_def Let_def split: option.splits)

lemma addon_step_inv: "addon_step st st' \<Longrightarrow> addon_inv st \<Longrightarrow> addon_inv st'"
proof (induction rule: addon_step.induct)
  case (addon_told st a)
  then show ?case by (intro addon_answer_inv)
next
  case (addon_waited st)
  then show ?case by (auto simp: addon_inv_def addon_timer_def loadAddonStatus_def split: if_splits)
next
  case (addon_closes st)
  then show ?case by (simp add: addon_inv_def addon_unmount_def)
qed (erule addon_inv_cong; simp add: addon_detail_answer_def enableAddon_def enabled_answer_def onUpgrade_def upgraded_answer_def disableAddon_def
       disabled_answer_def addon_changeVersion_def loadAddonDetail_def loadAddonStatus_def changeCluster_def Let_def split: answer.splits sum.splits)+

interpretation addon_polling: machine addon_step addon_inv "\<lambda>st. st = addon_mount"
proof unfold_locales
  show "addon_inv st" if "st = addon_mount" for st
    using that by (simp add: addon_inv_def addon_mount_def loadAddonStatus_def loadAddonDetail_def new_addon_dialog_def)
qed (rule addon_step_inv)

text \<open>While the details of an addon that is being enabled or disabled are open, and no request for its
  status has failed, its status is being asked for or will be in at most four seconds, by one timer
  at most.\<close>

theorem addon_polled:
  assumes "addon_step\<^sup>*\<^sup>* addon_mount st"
  shows "ag_timers st \<le> 1 \<and>
    (\<not> ag_closed st \<and> \<not> ag_failed st \<and> busy_phase (ag_status st) \<longrightarrow> ag_statusAsked st > 0 \<or> ag_timers st = 1)"
proof -
  have "addon_inv st" using addon_polling.reachable_inv[OF _ assms] by blast
  then show ?thesis by (auto simp: addon_inv_def split: if_splits)
qed

definition enabling_status :: addon_status where
  "enabling_status = \<lparr>as_phase = ''enabling'', as_args = None, as_installedVersion = ''v1'', as_clusters = None, as_allClusters = None,
     as_managedBy = None, as_appStatus = None\<rparr>"

theorem addon_polled_witness:
  "busy_phase (ag_status (addon_status_answer (Answered enabling_status) addon_mount)) \<and> ag_timers (addon_status_answer (Answered enabling_status) addon_mount) = 1"
proof -
  let ?st = "addon_status_answer (Answered enabling_status) addon_mount"
  have "ag_statusAsked addon_mount > 0" by code_simp
  then have "addon_step\<^sup>*\<^sup>* addon_mount ?st" by (blast intro: addon_told)
  moreover have "\<not> ag_closed ?st" "\<not> ag_failed ?st" "busy_phase (ag_status ?st)" "ag_statusAsked ?st = 0" by code_simp+
  ultimately show ?thesis using addon_polled[of ?st] by simp
qed

text \<open>An addon that an application manages cannot be changed here: every button is disabled.\<close>

lemma managed_buttons_disabled: "ag_managedBy st \<noteq> None \<Longrightarrow> (what, loading, disabled) \<in> set (addon_buttons st) \<Longrightarrow> disabled"
  by (auto simp: addon_buttons_def Let_def split: if_splits)

text \<open>What is sent names a version, and the clusters where the addon goes to them; those picked have the
  local one among them.\<close>

lemma request_complete:
  "addon_request st = Inr r \<Longrightarrow> en_version r \<noteq> [] \<and> (to_clusters st \<longleftrightarrow> en_clusters r \<noteq> None) \<and> en_clusters r \<noteq> Some []"
  by (cases "ag_clusters st") (auto simp: addon_request_def truthy_iff split: if_splits)

lemma picked_has_local: "''local'' \<in> set (the (ag_clusters (changeCluster cs st)))"
  by (simp add: changeCluster_def)

section \<open>Where the details go wrong\<close>

text \<open>Closing the details while the status is being asked for does not end it: the answer sets a timer
  again, and so does every answer after it.\<close>

lemma closed_addon_asks:
  assumes "busy_phase (as_phase res)" and "\<not> ag_statusLoop st"
  shows "ag_timers (addon_status_answer (Answered res) (addon_unmount st)) = 1 \<and>
    (let st' = addon_timer (addon_status_answer (Answered res) (addon_unmount st)) in ag_closed st' \<and> \<not> ag_statusLoop st' \<and> ag_statusAsked st' > 0)"
  using assms by (simp add: addon_status_answer_def addon_unmount_def addon_timer_def loadAddonStatus_def Let_def split: option.splits)

text \<open>Each answer puts the version, the clusters and the properties of the installed addon in place of
  those picked meanwhile.\<close>

lemma status_resets_choice:
  assumes "as_installedVersion res \<noteq> []" and "as_args res = Some (args, cs)"
  shows "let st' = addon_status_answer (Answered res) (changeCluster cs' (addon_changeVersion version st))
    in ag_version st' = Some (as_installedVersion res) \<and> ag_clusters st' = Some (status_clusters res) \<and> ag_properties st' = Some args"
  using assms by (simp add: addon_status_answer_def Let_def)

text \<open>The local cluster is never the default: an addon that goes to the clusters and was never enabled
  starts with none, and is refused.\<close>

lemma no_local_default:
  assumes "as_args res = None" and "as_clusters res = None" and "to_clusters st" and "truthy (ag_version st)"
  shows "addon_request (addon_status_answer (Answered res) st) = Inl NoCluster"
proof -
  let ?st = "addon_status_answer (Answered res) st"
  have "ag_clusters ?st = Some []" "to_clusters ?st" "truthy (ag_version ?st)"
    using assms by (auto simp: addon_status_answer_def status_clusters_def to_clusters_def truthy_iff Let_def)
  then show ?thesis by (simp add: addon_request_def)
qed

text \<open>An upgrade that fails leaves its button loading, and an empty answer the status.\<close>

lemma failed_upgrade_loads: "snd (onUpgrade st) \<noteq> st \<Longrightarrow> ag_upgradeLoading (upgraded_answer False (snd (onUpgrade st)))"
  by (auto simp: onUpgrade_def upgraded_answer_def split: sum.splits)

lemma empty_status_loads: "ag_statusLoading (addon_status_answer Empty (loadAddonStatus st))"
  by (simp add: addon_status_answer_def loadAddonStatus_def Let_def)

text \<open>The form of a version picked before, answered last, is shown for the version picked now.\<close>

lemma detail_answer_fields [simp]:
  "ag_schema (addon_detail_answer v (Answered f) st) = ad_uiSchema f"
  "truthy (ag_version st) \<Longrightarrow> ag_version (addon_detail_answer v (Answered f) st) = ag_version st"
  "ag_detailAsked (addon_detail_answer v (Answered f) st) = remove1 v (ag_detailAsked st)"
  by (simp_all add: addon_detail_answer_def Let_def)

lemma change_version_fields [simp]:
  "ag_version (addon_changeVersion v st) = Some v" "ag_detailAsked (addon_changeVersion v st) = ag_detailAsked st @ [Some v]"
  by (simp_all add: addon_changeVersion_def loadAddonDetail_def)

lemma late_addon_form:
  assumes "a \<noteq> b" and "b \<noteq> []" and "ag_detailAsked st = []"
  shows "let st1 = addon_changeVersion b (addon_changeVersion a st);
      st2 = addon_detail_answer (Some a) (Answered fa) (addon_detail_answer (Some b) (Answered fb) st1)
    in ag_version st2 = Some b \<and> ag_schema st2 = ad_uiSchema fa \<and> ag_detailAsked st2 = []"
  using assms by (simp add: truthy_iff)

end
