(* ===== verification/Search_Page.thy ===== *)
theory Search_Page
  imports Search_Forms Menu_Service Graph_Layout App_Health
begin

text \<open>
  The quick search of the page (\<open>components/QuickSearch/index.tsx\<close>), over the menu service and the
  matching of \<open>Search_Forms\<close>; the list of an environment's instances
  (\<open>pages/ApplicationInstanceList\<close>); and the keys and sizes of the nodes of a graph
  (\<open>components/TreeGraph/utils.tsx\<close>). What the browser keeps, and what the backend answers, are
  arguments; requests under way are part of the state.
\<close>

section \<open>The quick search\<close>


definition recentGroup :: string where "recentGroup = ''Recent''"


text \<open>A request of the index is the project it is for and what it lists.\<close>

record quick_search =
  qs_open :: bool
  qs_query :: string
  qs_items :: "search_item list"
  qs_active :: int
  qs_recent :: "search_item list"
  qs_loaded :: "string option"
  qs_asked :: "(string \<times> string) list"


definition loadRecent :: "(string \<Rightarrow> search_item list option) \<Rightarrow> string option \<Rightarrow> search_item list" where
  "loadRecent parse raw = (if truthy raw then or_nil (parse (the raw)) else [])"


definition remember :: "search_item option \<Rightarrow> quick_search \<Rightarrow> quick_search" where
  "remember item st = (case item of None \<Rightarrow> st | Some i \<Rightarrow> st\<lparr>qs_recent := addRecent (qs_recent st) i\<rparr>)"



definition add_found :: "search_item list \<Rightarrow> quick_search \<Rightarrow> quick_search" where
  "add_found found st = st\<lparr>qs_items := qs_items st @ found\<rparr>"

text \<open>The pages: the menus of every workspace that go somewhere.\<close>

definition menu_pages :: "workspace \<Rightarrow> (string option \<times> menu list) list \<Rightarrow> search_item list" where
  "menu_pages ws sections =
     map (\<lambda>m. \<lparr>it_group = ''Pages'', it_label = mn_label m, it_detail = Some (or_str (ws_label ws) (ws_name ws)), it_to = mn_to m\<rparr>)
       (filter (\<lambda>m. mn_to m \<noteq> []) (concat (map snd sections)))"

definition index_pages :: "(string \<Rightarrow> bool) \<Rightarrow> user_info option \<Rightarrow> menu_wrapper \<Rightarrow> menu_wrapper \<times> search_item list" where
  "index_pages path_matches user mw =
     (let (mw, spaces) = loadWorkspaces path_matches user mw
      in foldl (\<lambda>(mw, pages) ws. let (mw', sections) = loadMenus path_matches ws user mw in (mw', pages @ menu_pages ws sections)) (mw, []) spaces)"





definition search_close :: "quick_search \<Rightarrow> quick_search" where
  "search_close st = st\<lparr>qs_open := False\<rparr>"


definition index_answer :: "string \<times> string \<Rightarrow> search_item list \<Rightarrow> quick_search \<Rightarrow> quick_search" where
  "index_answer r found st = (add_found found st)\<lparr>qs_asked := remove1 r (qs_asked st)\<rparr>"

text \<open>What the answers become.\<close>

definition detail_of :: "string option list \<Rightarrow> string" where
  "detail_of parts = join_with [CHR '' '', CHR 0xB7, CHR '' ''] (map the (filter truthy parts))"

definition application_item :: "string \<Rightarrow> string option \<Rightarrow> (string option \<times> string option) option \<Rightarrow> search_item" where
  "application_item name alias project =
     \<lparr>it_group = ''Applications'', it_label = name,
      it_detail = Some (detail_of [alias, Option.bind project (\<lambda>(a, n). or_opt a n)]), it_to = ''/applications/'' @ name @ ''/config''\<rparr>"

definition project_item :: "string \<Rightarrow> string option \<Rightarrow> search_item" where
  "project_item name alias = \<lparr>it_group = ''Projects'', it_label = name, it_detail = alias, it_to = ''/projects/'' @ name @ ''/summary''\<rparr>"

definition environment_item :: "string \<Rightarrow> string option \<Rightarrow> string option \<Rightarrow> search_item" where
  "environment_item name alias namespace =
     \<lparr>it_group = ''Environments'', it_label = name, it_detail = Some (detail_of [alias, namespace]), it_to = ''/envs''\<rparr>"

definition target_item :: "string \<Rightarrow> string option \<Rightarrow> search_item" where
  "target_item name alias = \<lparr>it_group = ''Targets'', it_label = name, it_detail = alias, it_to = ''/targets''\<rparr>"

definition definition_item :: "(string \<Rightarrow> string option \<Rightarrow> string) \<Rightarrow> string \<Rightarrow> string \<Rightarrow> string \<Rightarrow> string option \<Rightarrow> search_item" where
  "definition_item placeQuery project type name scope =
     \<lparr>it_group = ''Definitions'', it_label = name,
      it_detail = Some (if scope = Some ''project'' then type @ [CHR '' '', CHR 0xB7, CHR '' ''] @ ''Project'' else type),
      it_to = ''/definitions/'' @ type @ ''/'' @ name @ ''/ui-schema'' @ placeQuery project scope\<rparr>"

definition template_item :: "string \<Rightarrow> string option \<Rightarrow> search_item" where
  "template_item name alias = \<lparr>it_group = ''Configs'', it_label = name, it_detail = alias, it_to = ''/configs/'' @ name @ ''/config''\<rparr>"



definition search_go :: "search_item option \<Rightarrow> quick_search \<Rightarrow> string option \<times> quick_search" where
  "search_go item st =
     (case item of
        None \<Rightarrow> (None, st)
      | Some i \<Rightarrow> (Some (it_to i), search_close (remember (if it_group i = recentGroup then find (\<lambda>r. it_to r = it_to i) (qs_recent st) else Some i) st)))"

definition result_at :: "search_item list \<Rightarrow> int \<Rightarrow> search_item option" where
  "result_at results i = (if i < 0 then None else nth_opt results (nat i))"

definition search_key :: "string \<Rightarrow> search_item list \<Rightarrow> quick_search \<Rightarrow> string option \<times> quick_search" where
  "search_key key results st =
     (if key = ''Escape'' then (None, search_close st)
      else if key = ''ArrowDown'' then (None, st\<lparr>qs_active := min (qs_active st + 1) (int (length results) - 1)\<rparr>)
      else if key = ''ArrowUp'' then (None, st\<lparr>qs_active := max (qs_active st - 1) 0\<rparr>)
      else if key = ''Enter'' then search_go (result_at results (qs_active st)) st
      else (None, st))"


section \<open>The instances of an environment\<close>

datatype instance_request = ListPods | ListCloud

record instance_page =
  ip_ready :: bool
  ip_components :: "string option list option"
  ip_loading :: bool
  ip_asked :: "instance_request list"
  ip_timers :: nat

definition cloud_type :: string where "cloud_type = ''configurations.terraform.core.oam.dev''"

definition cloudComponents :: "instance_page \<Rightarrow> nat option" where
  "cloudComponents st = map_option (\<lambda>cs. length (filter (\<lambda>t. t = Some cloud_type) cs)) (ip_components st)"

definition showCloudInstance :: "instance_page \<Rightarrow> bool" where
  "showCloudInstance st \<longleftrightarrow> coalesce (cloudComponents st) 0 > 0"

definition queryPod :: "instance_page \<Rightarrow> bool" where
  "queryPod st \<longleftrightarrow> (case (cloudComponents st, ip_components st) of (Some n, Some cs) \<Rightarrow> length cs > 0 \<and> length cs > n | _ \<Rightarrow> True)"

text \<open>Whether the application and the environment are there is \<open>ip_ready\<close>; until then it is tried
  again in a second.\<close>

definition loadAppInstances :: "instance_page \<Rightarrow> instance_page" where
  "loadAppInstances st =
     (if \<not> ip_ready st then st\<lparr>ip_timers := ip_timers st + 1\<rparr>
      else let st = st\<lparr>ip_loading := True\<rparr>;
               st = (if queryPod st then st\<lparr>ip_asked := ip_asked st @ [ListPods]\<rparr> else st)
           in if showCloudInstance st then st\<lparr>ip_loading := True, ip_asked := ip_asked st @ [ListCloud]\<rparr> else st\<lparr>ip_loading := False\<rparr>)"

definition instance_timer :: "instance_page \<Rightarrow> instance_page" where
  "instance_timer st = loadAppInstances (st\<lparr>ip_timers := ip_timers st - 1\<rparr>)"

definition instance_answer :: "instance_request \<Rightarrow> instance_page \<Rightarrow> instance_page" where
  "instance_answer r st = st\<lparr>ip_asked := remove1 r (ip_asked st), ip_loading := False\<rparr>"

text \<open>A cloud resource as an instance. The placeholders of its link are the shortest texts in braces,
  on one line and not empty; each is replaced where it first stands, and a dollar sign in what
  replaces it is read as \<open>String.replace\<close> reads it.\<close>

fun brace_end :: "string \<Rightarrow> nat option" where
  "brace_end [] = None"
| "brace_end (c # s) = (if c = CHR ''}'' then Some 1 else if c \<in> {CHR 0x0A, CHR 0x0D} then None else map_option Suc (brace_end s))"

function placeholders :: "string \<Rightarrow> string list" where
  "placeholders s =
     (case s of
        a # b # rest \<Rightarrow>
          if a = CHR ''{'' \<and> b \<notin> {CHR 0x0A, CHR 0x0D}
          then (case brace_end rest of
                  Some n \<Rightarrow> (a # b # take n rest) # placeholders (drop n rest)
                | None \<Rightarrow> placeholders (b # rest))
          else placeholders (b # rest)
      | _ \<Rightarrow> [])"
  by auto
termination by (relation "measure length") auto

fun expand :: "string \<Rightarrow> string \<Rightarrow> string \<Rightarrow> string \<Rightarrow> string" where
  "expand matched before after (a # b # s) =
     (if a = CHR ''$'' \<and> b = CHR ''$'' then CHR ''$'' # expand matched before after s
      else if a = CHR ''$'' \<and> b = CHR ''&'' then matched @ expand matched before after s
      else if a = CHR ''$'' \<and> b = CHR ''`'' then before @ expand matched before after s
      else if a = CHR ''$'' \<and> b = CHR 0x27 then after @ expand matched before after s
      else a # expand matched before after (b # s))"
| "expand matched before after s = s"

fun find_text :: "string \<Rightarrow> string \<Rightarrow> nat option" where
  "find_text p s = (if take (length p) s = p then Some 0 else case s of [] \<Rightarrow> None | c # s' \<Rightarrow> map_option Suc (find_text p s'))"

definition replace_text :: "string \<Rightarrow> string \<Rightarrow> string \<Rightarrow> string" where
  "replace_text p v s =
     (case find_text p s of
        None \<Rightarrow> s
      | Some i \<Rightarrow> take i s @ expand p (take i s) (drop (i + length p) s) v @ drop (i + length p) s)"

definition fill_placeholder :: "string \<Rightarrow> (string \<Rightarrow> string option) \<Rightarrow> string \<Rightarrow> string \<Rightarrow> string" where
  "fill_placeholder region outputs url param =
     (let key = replace_text ''}'' [] (replace_text ''{'' [] param);
          url = (if to_lower key = ''region'' \<and> region \<noteq> [] then replace_text param region url else url)
      in case outputs key of None \<Rightarrow> url | Some v \<Rightarrow> replace_text param v url)"

definition console_url :: "string \<Rightarrow> (string \<Rightarrow> string option) \<Rightarrow> string \<Rightarrow> string" where
  "console_url region outputs url = foldl (fill_placeholder region outputs) url (placeholders url)"

section \<open>The nodes of a graph\<close>

record tree_resource =
  rs_cluster :: "string option"
  rs_apiVersion :: "string option"
  rs_kind :: "string option"
  rs_namespace :: "string option"
  rs_name :: "string option"

definition nodeKey :: "tree_resource \<Rightarrow> string" where
  "nodeKey r = join_with ''/'' (map (\<lambda>v. coalesce v []) [rs_cluster r, rs_apiVersion r, rs_kind r, rs_namespace r, rs_name r])"

definition treeNodeKey :: "string option \<Rightarrow> tree_resource \<Rightarrow> string" where
  "treeNodeKey uid r = or_str uid (nodeKey r)"

text \<open>The origin of a node is whether a trait applied it, where a component did.\<close>

definition getNodeSize :: "string \<Rightarrow> bool option \<Rightarrow> string list option \<Rightarrow> int \<times> int" where
  "getNodeSize nodeType origin traits =
     (if nodeType = ''component'' then (componentNodeWidth, componentNodeHeight (int (length (fst (layoutTraits (or_nil traits) traitArea maxTraitRows)))))
      else if nodeType = ''pod'' then (240, 66) else if nodeType = ''flow'' then (44, 18) else if nodeType = ''source'' then (280, 64)
      else if nodeType = ''app'' then (180, 40) else if nodeType = ''target'' then (200, 40) else if nodeType = ''cluster'' then (140, 40)
      else (if nodeType = ''resource'' then 280 else 220,
            case origin of Some trait \<Rightarrow> if trait then 92 else 74 | None \<Rightarrow> if nodeType = ''resource'' then 48 else 40))"

definition kind_initials :: "string \<Rightarrow> string" where
  "kind_initials kind = filter (\<lambda>c. c \<notin> set ''abcdefghijklmnopqrstuvwxyz'') kind"

definition componentSummary :: "string option \<Rightarrow> string option \<Rightarrow> string option \<Rightarrow> (string \<times> string) list" where
  "componentSummary alias namespace cluster =
     summaryEntries [(''Alias'', One alias), (''Namespace'', One namespace), (''Cluster'', One (Some (or_str cluster ''local'')))]"

section \<open>What was opened recently\<close>














text \<open>With the arrows what is marked stays one of the results, where there is one.\<close>

lemma arrows_in_range:
  assumes "results \<noteq> []" and "0 \<le> qs_active st" and "qs_active st < int (length results)" and "key = ''ArrowDown'' \<or> key = ''ArrowUp''"
  shows "0 \<le> qs_active (snd (search_key key results st)) \<and> qs_active (snd (search_key key results st)) < int (length results)"
  using assms by (auto simp: search_key_def)

section \<open>The pages that are found\<close>

lemma core_to [simp]: "mn_to (menu_core m) = mn_to m" "mn_workspace (menu_core m) = mn_workspace m" "permitted user (menu_core m) = permitted user m"
  by (simp_all add: menu_core_def permitted_def)

lemma active_to [simp]: "mn_to (with_active pm m) = mn_to m"
  by (simp add: with_active_def)

lemma core_image:
  assumes p: "\<And>m. P (menu_core m) = P m" and same: "map menu_core xs = map menu_core ys"
  shows "mn_to ` {m \<in> set xs. P m} = mn_to ` {m \<in> set ys. P m}"
proof -
  have e: "mn_to ` {m \<in> set zs. P m} = set (map mn_to (filter P (map menu_core zs)))" for zs
    by (simp add: filter_map o_def p image_image)
  show ?thesis unfolding e same by (rule refl)
qed

lemma index_fold:
  assumes "map menu_core (mw_menus mw0) = map menu_core (mw_menus mw)"
  shows "it_to ` set (snd (foldl (\<lambda>(mw, pages) ws. let (mw', sections) = loadMenus pm ws user mw in (mw', pages @ menu_pages ws sections)) (mw0, pages) spaces)) =
    it_to ` set pages \<union> mn_to ` {m \<in> set (mw_menus mw). mn_to m \<noteq> [] \<and> permitted user m \<and> mn_workspace m \<in> ws_name ` set spaces}"
  using assms
proof (induction spaces arbitrary: mw0 pages)
  case (Cons ws spaces)
  obtain mw' sections where lm: "loadMenus pm ws user mw0 = (mw', sections)" by (cases "loadMenus pm ws user mw0")
  have core: "map menu_core (mw_menus mw') = map menu_core (mw_menus mw)" using loadMenus_core[of pm ws user mw0] lm Cons.prems by simp
  have "it_to ` set (menu_pages ws sections) = mn_to ` {m \<in> set (concat (map snd sections)). mn_to m \<noteq> []}" by (force simp: menu_pages_def)
  also have "set (concat (map snd sections)) = with_active pm ` {m \<in> set (mw_menus mw0). mn_workspace m = ws_name ws \<and> permitted user m}"
    using loadMenus_shown[of pm ws user mw0] lm by simp
  also have "mn_to ` {m \<in> with_active pm ` {m \<in> set (mw_menus mw0). mn_workspace m = ws_name ws \<and> permitted user m}. mn_to m \<noteq> []} =
      mn_to ` {m \<in> set (mw_menus mw0). mn_to m \<noteq> [] \<and> permitted user m \<and> mn_workspace m = ws_name ws}"
    unfolding Compr_image_eq image_image active_to by (rule arg_cong[where f = "image mn_to"]) blast
  also have "\<dots> = mn_to ` {m \<in> set (mw_menus mw). mn_to m \<noteq> [] \<and> permitted user m \<and> mn_workspace m = ws_name ws}"
    by (rule core_image[OF _ Cons.prems]) simp
  finally have "it_to ` set (menu_pages ws sections) = \<dots>" .
  then show ?case using Cons.IH[OF core, of "pages @ menu_pages ws sections"] lm by (auto simp: image_Un)
qed simp

lemma core_exists:
  assumes "map menu_core xs = map menu_core ys" and "m \<in> set ys" and "permitted user m" and "mn_workspace m = w"
  shows "\<exists>m \<in> set xs. permitted user m \<and> mn_workspace m = w"
proof -
  have "mn_to ` {m \<in> set xs. permitted user m \<and> mn_workspace m = w} = mn_to ` {m \<in> set ys. permitted user m \<and> mn_workspace m = w}"
    by (rule core_image[OF _ assms(1)]) simp
  then show ?thesis using assms(2-4) by blast
qed

lemma workspaces_fold:
  assumes "map menu_core (mw_menus mw0) = map menu_core (mw_menus mw)"
  shows "set found \<union> {ws \<in> set wss. \<exists>m \<in> set (mw_menus mw). permitted user m \<and> mn_workspace m = ws_name ws} \<subseteq>
      set (snd (foldl (\<lambda>(mw, found) ws. let (mw', sections) = loadMenus pm ws user mw
                       in (mw', if sections \<noteq> [] then found @ [ws] else found)) (mw0, found) wss)) \<and>
    set (snd (foldl (\<lambda>(mw, found) ws. let (mw', sections) = loadMenus pm ws user mw
                     in (mw', if sections \<noteq> [] then found @ [ws] else found)) (mw0, found) wss)) \<subseteq> set found \<union> set wss"
  using assms
proof (induction wss arbitrary: mw0 found)
  case (Cons ws wss)
  obtain mw' own where lm: "loadMenus pm ws user mw0 = (mw', own)" by (cases "loadMenus pm ws user mw0")
  have core: "map menu_core (mw_menus mw') = map menu_core (mw_menus mw)" using loadMenus_core[of pm ws user mw0] lm Cons.prems by simp
  have "own \<noteq> []" if "m \<in> set (mw_menus mw)" "permitted user m" "mn_workspace m = ws_name ws" for m
    using core_exists[OF Cons.prems that] loadMenus_shown[of pm ws user mw0] lm by fastforce
  then show ?case using Cons.IH[OF core, of found] Cons.IH[OF core, of "found @ [ws]"] lm by (cases "own = []") (simp_all, blast+)
qed simp

text \<open>C37: the pages the search finds are those of the menus the user may see, in every workspace there is, that
  lead somewhere; the administration is among them, which the sidebar leaves out.\<close>

theorem search_pages_exact:
  "it_to ` set (snd (index_pages pm user mw)) =
     mn_to ` {m \<in> set (mw_menus mw). mn_to m \<noteq> [] \<and> permitted user m \<and> mn_workspace m \<in> ws_name ` set (mw_workspaces mw)}"
proof -
  obtain mw1 spaces where lw: "loadWorkspaces pm user mw = (mw1, spaces)" by (cases "loadWorkspaces pm user mw")
  have core: "map menu_core (mw_menus mw1) = map menu_core (mw_menus mw)" using loadWorkspaces_core[of pm user mw] lw by simp
  have "set spaces \<subseteq> set (mw_workspaces mw)" "{ws \<in> set (mw_workspaces mw). \<exists>m \<in> set (mw_menus mw). permitted user m \<and> mn_workspace m = ws_name ws} \<subseteq> set spaces"
    using workspaces_fold[of mw mw "[]" "mw_workspaces mw" user pm] lw by (simp_all add: loadWorkspaces_def)
  then have "{m \<in> set (mw_menus mw). mn_to m \<noteq> [] \<and> permitted user m \<and> mn_workspace m \<in> ws_name ` set spaces} =
      {m \<in> set (mw_menus mw). mn_to m \<noteq> [] \<and> permitted user m \<and> mn_workspace m \<in> ws_name ` set (mw_workspaces mw)}"
    by fastforce
  then show ?thesis using index_fold[OF core, of pm user "[]" spaces] lw by (simp add: index_pages_def)
qed

section \<open>What is asked for\<close>

text \<open>An answer for a project that is no longer the current one is added to the index of the one that is.\<close>

lemma late_index_mixed: "qs_items (index_answer (project, what) found st) = qs_items st @ found"
  by (simp add: index_answer_def add_found_def)

lemma components_cong [simp]:
  "queryPod (st\<lparr>ip_loading := b\<rparr>) = queryPod st" "showCloudInstance (st\<lparr>ip_loading := b\<rparr>) = showCloudInstance st"
  "showCloudInstance (st\<lparr>ip_loading := b, ip_asked := q\<rparr>) = showCloudInstance st"
  by (simp_all add: queryPod_def showCloudInstance_def cloudComponents_def)

text \<open>Where only pods are asked for, the list stops loading before they have come.\<close>

lemma pods_loading_cleared:
  "ip_ready st \<Longrightarrow> queryPod st \<Longrightarrow> \<not> showCloudInstance st \<Longrightarrow>
   ListPods \<in> set (ip_asked (loadAppInstances st)) \<and> \<not> ip_loading (loadAppInstances st)"
  by (simp add: loadAppInstances_def Let_def)

text \<open>A page whose application never comes tries again for ever, once a second.\<close>

lemma instances_retry_forever: "\<not> ip_ready st \<Longrightarrow> ip_timers st > 0 \<Longrightarrow> instance_timer st = st"
  by (simp add: instance_timer_def loadAppInstances_def)

end
