(* ===== verification/Tree_Graph.thy ===== *)
theory Tree_Graph
  imports Search_Page Step_Layout
begin

text \<open>
  The graph of a tree of resources (\<open>components/TreeGraph/index.tsx\<close>): the nodes and edges a tree
  puts on the graph, what the router of \<open>Edge_Routing\<close> is given of a layout, the gap between the
  columns, and the edges drawn. The graph library is not modelled: what it is told is a list of
  calls, what it answers (whether a node is there, the layout for a gap) are arguments. Where the
  code reads a property of nothing it throws, which is \<open>None\<close> here.
\<close>

section \<open>What a tree puts on the graph\<close>

record tree_info =
  ti_uid :: "string option"
  ti_resource :: tree_resource
  ti_nodeType :: string
  ti_origin :: "bool option"
  ti_traits :: "string list option"
  ti_via :: "string option"

datatype res_node = TreeNode (tn_info: tree_info) (tn_leafNodes: "res_node list") (tn_links: "string list") (tn_linksFrom: "string list")
  (tn_detached: "res_node list")

datatype graph_call = SetNode string "int \<times> int" tree_info | SetEdge string string bool

definition info_key :: "tree_info \<Rightarrow> string" where
  "info_key i = treeNodeKey (ti_uid i) (ti_resource i)"

definition tree_key :: "res_node \<Rightarrow> string" where
  "tree_key t = info_key (tn_info t)"

text \<open>A leaf with the key of its parent is left out, with all below it.\<close>

fun setNode :: "res_node \<Rightarrow> graph_call list" where
  "setNode (TreeNode i leaves links linksFrom detached) =
     [SetNode (info_key i) (getNodeSize (ti_nodeType i) (ti_origin i) (ti_traits i)) i] @
     concat (map (\<lambda>sub. if info_key i = tree_key sub then [] else [SetEdge (info_key i) (tree_key sub) False] @ setNode sub) leaves) @
     concat (map setNode detached)"

fun setLinks :: "(string \<Rightarrow> bool) \<Rightarrow> res_node \<Rightarrow> graph_call list" where
  "setLinks hasNode (TreeNode i leaves links linksFrom detached) =
     map (\<lambda>to. SetEdge (info_key i) to True) (filter hasNode links) @
     map (\<lambda>from. SetEdge from (info_key i) True) (filter hasNode linksFrom) @
     concat (map (setLinks hasNode) leaves) @ concat (map (setLinks hasNode) detached)"

definition called_nodes :: "graph_call list \<Rightarrow> string set" where
  "called_nodes calls = {k. \<exists>sz i. SetNode k sz i \<in> set calls}"

definition called_edges :: "graph_call list \<Rightarrow> (string \<times> string) set" where
  "called_edges calls = {(a, b). \<exists>link. SetEdge a b link \<in> set calls}"

text \<open>No leaf has the key of its parent.\<close>

fun leaves_apart :: "res_node \<Rightarrow> bool" where
  "leaves_apart (TreeNode i leaves links linksFrom detached) \<longleftrightarrow>
     list_all (\<lambda>sub. info_key i \<noteq> tree_key sub \<and> leaves_apart sub) leaves \<and> list_all leaves_apart detached"

section \<open>What the router is given\<close>

record laid_node =
  ln_key :: string
  ln_x :: rat
  ln_y :: rat
  ln_width :: rat
  ln_height :: rat
  ln_nodeType :: string
  ln_via :: "string option"

record laid_edge =
  le_from :: string
  le_to :: string
  le_link :: bool
  le_points :: "point list"

record laid_graph =
  tg_nodes :: "laid_node list"
  tg_edges :: "laid_edge list"

definition laid_at :: "laid_graph \<Rightarrow> string \<Rightarrow> laid_node option" where
  "laid_at g key = find (\<lambda>n. ln_key n = key) (tg_nodes g)"

definition tree_centres :: "laid_graph \<Rightarrow> int list" where
  "tree_centres g = sort (js_set (map (\<lambda>n. js_round (ln_x n)) (tg_nodes g)))"

definition column_of :: "laid_graph \<Rightarrow> laid_node \<Rightarrow> int" where
  "column_of g n = index_in (js_round (ln_x n)) (tree_centres g)"

definition tree_columnOf :: "laid_graph \<Rightarrow> string \<Rightarrow> int option" where
  "tree_columnOf g key = map_option (column_of g) (laid_at g key)"

definition laid_box :: "laid_node \<Rightarrow> box" where
  "laid_box n =
     (let p = placeAt (ln_x n) (ln_y n) (ln_width n) (ln_height n) False
      in \<lparr>bx_left = pa_left p, bx_top = pa_top p, bx_width = pa_width p, bx_height = coalesce (pa_height p) (coalesce (pa_minHeight p) 0)\<rparr>)"

definition route_node_of :: "laid_graph \<Rightarrow> (string, box) js_map \<Rightarrow> laid_node \<Rightarrow> route_node" where
  "route_node_of g rects n = \<lparr>rn_key = ln_key n, rn_box = coalesce (map_of rects (ln_key n)) (laid_box n), rn_column = column_of g n\<rparr>"

text \<open>The heights of an edge where it passes a column: those of its points nearest to it.\<close>

definition tree_passes :: "laid_graph \<Rightarrow> laid_edge \<Rightarrow> rat list option" where
  "tree_passes g e =
     (case (tree_columnOf g (le_from e), tree_columnOf g (le_to e)) of
        (Some a, Some b) \<Rightarrow> all_some (map (\<lambda>c. map_option (\<lambda>p. py p + py edgeOffset) (nearest (of_int (tree_centres g ! nat c)) (le_points e))) [a + 1..b - 1])
      | _ \<Rightarrow> None)"

definition route_edge_of :: "laid_graph \<Rightarrow> laid_edge \<Rightarrow> route_edge option" where
  "route_edge_of g e = map_option (\<lambda>ps. \<lparr>rg_key = edge_key (le_from e, le_to e), rg_from = le_from e, rg_to = le_to e, rg_passes = Some ps\<rparr>) (tree_passes g e)"

definition tree_routing :: "laid_graph \<Rightarrow> (string, box) js_map \<Rightarrow> (route_node list \<times> route_edge list) option" where
  "tree_routing g rects = map_option (Pair (map (route_node_of g rects) (tg_nodes g))) (all_some (map (route_edge_of g) (tg_edges g)))"

section \<open>What is drawn\<close>

definition tree_leastGap :: rat where "tree_leastGap = 56"

text \<open>The tree is laid out with the least gap, and again where the edges that cross one need more.\<close>

definition laid_out :: "(rat \<Rightarrow> laid_graph) \<Rightarrow> (string, box) js_map \<Rightarrow> (laid_graph \<times> route_node list \<times> route_edge list) option" where
  "laid_out lay rects =
     (let g = lay tree_leastGap
      in Option.bind (tree_routing g rects) (\<lambda>(ns, es).
           let gap = lanes_gap ns es
           in if gap > tree_leastGap then map_option (Pair (lay gap)) (tree_routing (lay gap) rects) else Some (g, ns, es)))"

definition is_flow :: "laid_graph \<Rightarrow> string \<Rightarrow> bool" where
  "is_flow g key \<longleftrightarrow> (case laid_at g key of Some n \<Rightarrow> ln_nodeType n = ''flow'' | None \<Rightarrow> False)"

record drawn_edge =
  de_from :: string
  de_via :: string
  de_to :: string
  de_points :: "point list"
  de_link :: bool

definition route_at :: "(string, point list) js_map \<Rightarrow> string \<Rightarrow> string \<Rightarrow> point list" where
  "route_at routes a b = or_nil (map_of routes (edge_key (a, b)))"

text \<open>The edges: one into a flow is not drawn by itself, and one out of it is drawn from each node before
  it.\<close>

definition drawn_of :: "laid_graph \<Rightarrow> (string, point list) js_map \<Rightarrow> laid_edge \<Rightarrow> drawn_edge list" where
  "drawn_of g routes e =
     (let v = le_from e; w = le_to e
      in if is_flow g w then []
         else if is_flow g v
         then map (\<lambda>i. \<lparr>de_from = le_from i, de_via = v, de_to = w, de_points = route_at routes (le_from i) v @ route_at routes v w,
                        de_link = (le_link e \<and> Option.bind (laid_at g v) ln_via \<noteq> Some ''dependsOn'')\<rparr>)
                (filter (\<lambda>i. le_to i = v) (tg_edges g))
         else [\<lparr>de_from = v, de_via = v, de_to = w, de_points = route_at routes v w, de_link = le_link e\<rparr>])"

definition drawn_edges :: "laid_graph \<Rightarrow> (string, point list) js_map \<Rightarrow> drawn_edge list" where
  "drawn_edges g routes = concat (map (drawn_of g routes) (tg_edges g))"

definition drawn_key :: "drawn_edge \<Rightarrow> string" where
  "drawn_key d = de_from d @ ''-'' @ de_via d @ ''-'' @ de_to d"

definition tree_drawing :: "(rat \<Rightarrow> laid_graph) \<Rightarrow> (string, box) js_map \<Rightarrow> drawn_edge list option" where
  "tree_drawing lay rects = map_option (\<lambda>(g, ns, es). drawn_edges g (routeEdges ns es routeDefaults)) (laid_out lay rects)"

section \<open>Every edge is between nodes of the tree\<close>

lemma called_append [simp]:
  "called_nodes (a @ b) = called_nodes a \<union> called_nodes b" "called_edges (a @ b) = called_edges a \<union> called_edges b"
  by (auto simp: called_nodes_def called_edges_def)

lemma called_concat: "called_nodes (concat xss) = \<Union> (called_nodes ` set xss)" "called_edges (concat xss) = \<Union> (called_edges ` set xss)"
  by (auto simp: called_nodes_def called_edges_def)

lemma called_SetNode [simp]: "called_nodes (SetNode k sz i # cs) = insert k (called_nodes cs)"
proof -
  have "(\<exists>sz' i'. SetNode k' sz' i' \<in> set (SetNode k sz i # cs)) \<longleftrightarrow> k' = k \<or> (\<exists>sz' i'. SetNode k' sz' i' \<in> set cs)" for k'
    by (metis graph_call.inject(1) set_ConsD list.set_intros)
  then show ?thesis unfolding called_nodes_def by auto
qed

lemma called_simps [simp]:
  "called_edges (SetNode k sz i # cs) = called_edges cs"
  "called_nodes (SetEdge a b l # cs) = called_nodes cs" "called_edges (SetEdge a b l # cs) = insert (a, b) (called_edges cs)"
  "called_nodes [] = {}" "called_edges [] = {}" "called_nodes (map (\<lambda>x. SetEdge (f x) (h x) l) xs) = {}"
  "called_edges (map (\<lambda>x. SetEdge (f x) (h x) l) xs) = (\<lambda>x. (f x, h x)) ` set xs"
  by (auto simp: called_nodes_def called_edges_def)

lemma own_key_called: "tree_key t \<in> called_nodes (setNode t)"
  by (cases t) (simp add: tree_key_def)

lemma tree_edges_called: "called_edges (setNode t) \<subseteq> called_nodes (setNode t) \<times> called_nodes (setNode t)"
proof (induction t rule: setNode.induct)
  case (1 i leaves links linksFrom detached)
  let ?calls = "\<lambda>sub. if info_key i = tree_key sub then [] else [SetEdge (info_key i) (tree_key sub) False] @ setNode sub"
  let ?all = "called_nodes (setNode (TreeNode i leaves links linksFrom detached))"
  have k: "info_key i \<in> ?all" by simp
  have n: "called_nodes (?calls sub) \<subseteq> ?all" if "sub \<in> set leaves" for sub using that by (auto simp: called_concat)
  have d: "called_nodes (setNode sub) \<subseteq> ?all" if "sub \<in> set detached" for sub using that by (auto simp: called_concat)
  have "called_edges (?calls sub) \<subseteq> ?all \<times> ?all" if s: "sub \<in> set leaves" for sub
  proof (cases "info_key i = tree_key sub")
    case False
    then have "called_nodes (setNode sub) \<subseteq> ?all" using n[OF s] by simp
    moreover have "called_edges (setNode sub) \<subseteq> called_nodes (setNode sub) \<times> called_nodes (setNode sub)" using "1.IH"(1)[OF s False] .
    ultimately show ?thesis using False k own_key_called[of sub] by auto
  qed simp
  moreover have "called_edges (setNode sub) \<subseteq> ?all \<times> ?all" if "sub \<in> set detached" for sub using "1.IH"(2)[OF that] d[OF that] by blast
  moreover have e: "called_edges (setNode (TreeNode i leaves links linksFrom detached)) =
      (\<Union>sub \<in> set leaves. called_edges (?calls sub)) \<union> (\<Union>sub \<in> set detached. called_edges (setNode sub))"
    by (simp only: setNode.simps called_append called_concat set_map image_image called_simps Un_empty_left)
  ultimately show ?case unfolding e by (intro Un_least UN_least)
qed

text \<open>The nodes of a tree, those too that are left off the graph.\<close>

fun subtrees :: "res_node \<Rightarrow> res_node list" where
  "subtrees (TreeNode i leaves links linksFrom detached) =
     TreeNode i leaves links linksFrom detached # concat (map subtrees leaves) @ concat (map subtrees detached)"

lemma link_edges_called:
  "called_edges (setLinks hasNode t) =
   (\<Union>s\<in>set (subtrees t). {tree_key s} \<times> {k \<in> set (tn_links s). hasNode k} \<union> {k \<in> set (tn_linksFrom s). hasNode k} \<times> {tree_key s})"
proof (induction hasNode t rule: setLinks.induct)
  case (1 hasNode i leaves links linksFrom detached)
  have "called_edges (setLinks hasNode (TreeNode i leaves links linksFrom detached)) =
      ({info_key i} \<times> {k \<in> set links. hasNode k} \<union> {k \<in> set linksFrom. hasNode k} \<times> {info_key i}) \<union>
      (\<Union>s\<in>set leaves. called_edges (setLinks hasNode s)) \<union> (\<Union>s\<in>set detached. called_edges (setLinks hasNode s))"
    by (auto simp: called_concat)
  then show ?case using "1.IH" by (simp add: tree_key_def Un_assoc)
qed

lemma apart_keys_called: "leaves_apart t \<Longrightarrow> s \<in> set (subtrees t) \<Longrightarrow> tree_key s \<in> called_nodes (setNode t)"
proof (induction t rule: subtrees.induct)
  case (1 i leaves links linksFrom detached)
  let ?all = "called_nodes (setNode (TreeNode i leaves links linksFrom detached))"
  consider "s = TreeNode i leaves links linksFrom detached" | sub where "sub \<in> set leaves" "s \<in> set (subtrees sub)"
    | sub where "sub \<in> set detached" "s \<in> set (subtrees sub)"
    using "1.prems"(2) by auto
  then show ?case
  proof cases
    case 1
    then show ?thesis using own_key_called by blast
  next
    case (2 sub)
    then have "called_nodes (setNode sub) \<subseteq> ?all" "leaves_apart sub" using "1.prems"(1) by (auto simp: called_concat list_all_iff)
    then show ?thesis using "1.IH"(1)[OF 2(1) _ 2(2)] by blast
  next
    case (3 sub)
    then have "called_nodes (setNode sub) \<subseteq> ?all" "leaves_apart sub" using "1.prems"(1) by (auto simp: called_concat list_all_iff)
    then show ?thesis using "1.IH"(2)[OF 3(1) _ 3(2)] by blast
  qed
qed

text \<open>C39: every edge of the graph, of the tree and of its links, is between nodes the tree puts there, so that
  the library never makes up a node for an end of one, exactly when no node that the tree leaves off the
  graph has a link from or to one that is on it; so it is where no leaf has the key of its parent.\<close>

theorem graph_edges_known:
  assumes "N = called_nodes (setNode t)"
  shows "(called_edges (setNode t @ setLinks (\<lambda>k. k \<in> N) t) \<subseteq> N \<times> N \<longleftrightarrow>
      (\<forall>s\<in>set (subtrees t). tree_key s \<in> N \<or> set (tn_links s @ tn_linksFrom s) \<inter> N = {})) \<and>
    (leaves_apart t \<longrightarrow> called_edges (setNode t @ setLinks (\<lambda>k. k \<in> N) t) \<subseteq> N \<times> N)"
proof -
  have "called_edges (setNode t @ setLinks (\<lambda>k. k \<in> N) t) \<subseteq> N \<times> N \<longleftrightarrow>
      (\<forall>s\<in>set (subtrees t). tree_key s \<in> N \<or> set (tn_links s @ tn_linksFrom s) \<inter> N = {})"
    using tree_edges_called[of t] unfolding assms called_append link_edges_called by auto
  then show ?thesis using apart_keys_called[of t] unfolding assms by blast
qed

definition sample_info :: "string \<Rightarrow> tree_info" where
  "sample_info uid = \<lparr>ti_uid = Some uid, ti_resource = \<lparr>rs_cluster = None, rs_apiVersion = None, rs_kind = None, rs_namespace = None, rs_name = None\<rparr>,
     ti_nodeType = ''resource'', ti_origin = None, ti_traits = None, ti_via = None\<rparr>"

theorem graph_edges_known_witness:
  "let t = TreeNode (sample_info ''a'') [TreeNode (sample_info ''b'') [] [''a'', ''gone''] [] []] [] [] []; N = called_nodes (setNode t)
   in leaves_apart t \<and> called_edges (setNode t @ setLinks (\<lambda>k. k \<in> N) t) \<subseteq> N \<times> N"
proof -
  have "leaves_apart (TreeNode (sample_info ''a'') [TreeNode (sample_info ''b'') [] [''a'', ''gone''] [] []] [] [] [])" by code_simp
  then show ?thesis using graph_edges_known[OF refl] unfolding Let_def by blast
qed

text \<open>Below a leaf with the key of its parent a link makes a node that the tree does not.\<close>

lemma hidden_leaf_links:
  "let t = TreeNode (sample_info ''a'') [TreeNode (sample_info ''a'') [TreeNode (sample_info ''c'') [] [''a''] [] []] [] [] []] [] [] []
   in (''c'', ''a'') \<in> called_edges (setLinks (\<lambda>k. k \<in> called_nodes (setNode t)) t) \<and> ''c'' \<notin> called_nodes (setNode t)"
  by (simp add: tree_key_def info_key_def treeNodeKey_def sample_info_def or_str_def truthy_iff)

section \<open>Columns\<close>

lemma index_in_bounds: "index_in v xs \<ge> -1 \<and> (v \<in> set xs \<longrightarrow> index_in v xs \<ge> 0)"
  by (induction xs) (auto simp: Let_def)

lemma index_in_strict: "sorted_wrt (<) xs \<Longrightarrow> a \<in> set xs \<Longrightarrow> b \<in> set xs \<Longrightarrow> index_in a xs < index_in b xs \<longleftrightarrow> a < (b :: int)"
proof (induction xs)
  case (Cons x xs)
  then show ?case using index_in_bounds[of a xs] index_in_bounds[of b xs] by (auto simp: Let_def)
qed simp

lemma tree_centres_sorted: "sorted_wrt (<) (tree_centres g)"
  using strict_sorted_iff[of "tree_centres g"] by (simp add: tree_centres_def)

text \<open>The columns are numbered from left to right, and an edge to the right has a height for each column it
  passes, those between its ends.\<close>

lemma columns_in_order:
  assumes "a \<in> set (tg_nodes g)" and "b \<in> set (tg_nodes g)"
  shows "column_of g a < column_of g b \<longleftrightarrow> js_round (ln_x a) < js_round (ln_x b)"
proof -
  have "js_round (ln_x a) \<in> set (tree_centres g)" "js_round (ln_x b) \<in> set (tree_centres g)" using assms by (simp_all add: tree_centres_def)
  then show ?thesis using index_in_strict[OF tree_centres_sorted] by (simp add: column_of_def)
qed

lemma passes_between:
  assumes "tree_columnOf g (le_from e) = Some a" and "tree_columnOf g (le_to e) = Some b" and "tree_passes g e = Some ps"
  shows "length ps = nat (b - a - 1)"
  using assms by (auto simp: tree_passes_def all_some_iff map_eq_conv dest: arg_cong[of _ _ length])

lemma all_some_map: "(\<And>x. x \<in> set xs \<Longrightarrow> f x \<noteq> None) \<Longrightarrow> all_some (map f xs) \<noteq> None"
proof (induction xs)
  case (Cons x xs)
  then obtain y where "f x = Some y" by force
  then show ?case using Cons by simp
qed simp

text \<open>What the router needs is there for every layout: an edge has its ends and some points.\<close>

lemma tree_routing_total:
  assumes "\<And>e. e \<in> set (tg_edges g) \<Longrightarrow> laid_at g (le_from e) \<noteq> None \<and> laid_at g (le_to e) \<noteq> None \<and> le_points e \<noteq> []"
  shows "tree_routing g rects \<noteq> None"
proof -
  have "route_edge_of g e \<noteq> None" if e: "e \<in> set (tg_edges g)" for e
  proof -
    obtain a b where ab: "tree_columnOf g (le_from e) = Some a" "tree_columnOf g (le_to e) = Some b" using assms[OF e] by (auto simp: tree_columnOf_def)
    obtain p ps where "le_points e = p # ps" using assms[OF e] by (cases "le_points e") auto
    then have "nearest c (le_points e) \<noteq> None" for c by (simp add: nearest_def)
    then have "tree_passes g e \<noteq> None" unfolding tree_passes_def ab option.case prod.case by (intro all_some_map) simp
    then show ?thesis by (simp add: route_edge_of_def)
  qed
  then show ?thesis using all_some_map[of "tg_edges g" "route_edge_of g"] by (simp add: tree_routing_def)
qed

section \<open>The edges drawn\<close>

definition edge_pairs :: "laid_graph \<Rightarrow> (string \<times> string) set" where
  "edge_pairs g = (\<lambda>e. (le_from e, le_to e)) ` set (tg_edges g)"

text \<open>C40: a flow is a label and not a stop: the edges drawn are those of the graph with the flows taken out,
  each edge between two other nodes, and each way into a flow joined to each way out of it.\<close>

theorem drawn_contracts_flows:
  "(\<lambda>d. (de_from d, de_to d)) ` set (drawn_edges g routes) =
     {(a, b). (a, b) \<in> edge_pairs g \<and> \<not> is_flow g a \<and> \<not> is_flow g b} \<union>
     {(a, b). \<exists>f. (a, f) \<in> edge_pairs g \<and> (f, b) \<in> edge_pairs g \<and> is_flow g f \<and> \<not> is_flow g b}"
proof -
  have pairs: "(\<exists>e \<in> set (tg_edges g). P (le_from e) (le_to e)) \<longleftrightarrow> (\<exists>x y. (x, y) \<in> edge_pairs g \<and> P x y)" for P by (auto simp: edge_pairs_def)
  have one: "(a, b) \<in> (\<lambda>d. (de_from d, de_to d)) ` set (drawn_of g routes e) \<longleftrightarrow>
      \<not> is_flow g (le_to e) \<and> b = le_to e \<and> (if is_flow g (le_from e) then (a, le_from e) \<in> edge_pairs g else a = le_from e)" for a b e
    by (auto simp: drawn_of_def edge_pairs_def Let_def image_iff)
  have "(a, b) \<in> (\<lambda>d. (de_from d, de_to d)) ` set (drawn_edges g routes) \<longleftrightarrow>
      (\<exists>e \<in> set (tg_edges g). (a, b) \<in> (\<lambda>d. (de_from d, de_to d)) ` set (drawn_of g routes e))" for a b
    by (simp add: drawn_edges_def image_UN)
  then have drawn: "(a, b) \<in> (\<lambda>d. (de_from d, de_to d)) ` set (drawn_edges g routes) \<longleftrightarrow>
      (\<exists>x y. (x, y) \<in> edge_pairs g \<and> \<not> is_flow g y \<and> b = y \<and> (if is_flow g x then (a, x) \<in> edge_pairs g else a = x))" for a b
    unfolding one
    using pairs[of "\<lambda>x y. \<not> is_flow g y \<and> b = y \<and> (if is_flow g x then (a, x) \<in> edge_pairs g else a = x)"] by simp
  show ?thesis
  proof (rule set_eqI)
    fix p :: "string \<times> string" obtain a b where p: "p = (a, b)" by (cases p)
    show "p \<in> (\<lambda>d. (de_from d, de_to d)) ` set (drawn_edges g routes) \<longleftrightarrow>
        p \<in> {(a, b). (a, b) \<in> edge_pairs g \<and> \<not> is_flow g a \<and> \<not> is_flow g b} \<union>
          {(a, b). \<exists>f. (a, f) \<in> edge_pairs g \<and> (f, b) \<in> edge_pairs g \<and> is_flow g f \<and> \<not> is_flow g b}"
      unfolding p drawn by (auto split: if_splits)
  qed
qed

lemma tree_routing_Some:
  assumes "tree_routing g rects = Some (ns, es)"
  shows "ns = map (route_node_of g rects) (tg_nodes g) \<and> map (\<lambda>e. (rg_key e, rg_from e, rg_to e)) es =
    map (\<lambda>e. (edge_key (le_from e, le_to e), le_from e, le_to e)) (tg_edges g)"
proof -
  have a: "all_some (map (route_edge_of g) (tg_edges g)) = Some es" and n: "ns = map (route_node_of g rects) (tg_nodes g)" using assms by (auto simp: tree_routing_def)
  have "all_some (map (route_edge_of g) xs) = Some ys \<Longrightarrow> map (\<lambda>e. (rg_key e, rg_from e, rg_to e)) ys =
      map (\<lambda>e. (edge_key (le_from e, le_to e), le_from e, le_to e)) xs" for xs ys
  proof (induction xs arbitrary: ys)
    case (Cons x xs)
    then show ?case by (cases "route_edge_of g x") (auto simp: route_edge_of_def)
  qed simp
  from this[OF a] show ?thesis using n by simp
qed

text \<open>An edge of the graph that is drawn by itself turns at right angles only, from its node to its other
  node, and has a route; where the keys of the edges differ.\<close>

theorem drawn_orthogonal:
  assumes "tree_routing g rects = Some (ns, es)" and "distinct (map (\<lambda>e. edge_key (le_from e, le_to e)) (tg_edges g))"
    and "d \<in> set (drawn_edges g (routeEdges ns es routeDefaults))" and "\<not> is_flow g (de_via d)"
  shows "orthogonal (de_points d) \<and> de_via d = de_from d"
proof -
  have "map rg_key es = map fst (map (\<lambda>e. (rg_key e, rg_from e, rg_to e)) es)" by simp
  also have "\<dots> = map (\<lambda>e. edge_key (le_from e, le_to e)) (tg_edges g)" unfolding tree_routing_Some[OF assms(1), THEN conjunct2] by simp
  finally have "distinct (map rg_key es)" using assms(2) by simp
  note o = routes_orthogonal[OF this, of ns routeDefaults]
  have "orthogonal (route_at (routeEdges ns es routeDefaults) a b)" for a b
    using o by (auto simp: route_at_def or_nil_def list_all_iff dest!: map_of_SomeD split: option.splits)
  then show ?thesis using assms(3,4) by (auto simp: drawn_edges_def drawn_of_def Let_def split: if_splits)
qed

definition sample_laid :: laid_graph where
  "sample_laid = \<lparr>tg_nodes = [\<lparr>ln_key = ''a'', ln_x = 0, ln_y = 0, ln_width = 10, ln_height = 10, ln_nodeType = ''resource'', ln_via = None\<rparr>,
       \<lparr>ln_key = ''b'', ln_x = 90, ln_y = 40, ln_width = 10, ln_height = 10, ln_nodeType = ''resource'', ln_via = None\<rparr>],
     tg_edges = [\<lparr>le_from = ''a'', le_to = ''b'', le_link = False, le_points = [at_point 5 5, at_point 85 45]\<rparr>]\<rparr>"

theorem drawn_orthogonal_witness:
  "\<exists>ns es d. tree_routing sample_laid [] = Some (ns, es) \<and> d \<in> set (drawn_edges sample_laid (routeEdges ns es routeDefaults)) \<and> orthogonal (de_points d)"
proof -
  have "tree_routing sample_laid [] \<noteq> None" by (rule tree_routing_total) (auto simp: sample_laid_def laid_at_def)
  then obtain ns es where r: "tree_routing sample_laid [] = Some (ns, es)" by auto
  have k: "distinct (map (\<lambda>e. edge_key (le_from e, le_to e)) (tg_edges sample_laid))" by (simp add: sample_laid_def)
  have f: "\<not> is_flow sample_laid ''a''" "\<not> is_flow sample_laid ''b''" by (simp_all add: is_flow_def laid_at_def sample_laid_def)
  let ?d = "\<lparr>de_from = ''a'', de_via = ''a'', de_to = ''b'', de_points = route_at (routeEdges ns es routeDefaults) ''a'' ''b'', de_link = False\<rparr>"
  have "?d \<in> set (drawn_edges sample_laid (routeEdges ns es routeDefaults))" using f by (simp add: drawn_edges_def drawn_of_def sample_laid_def Let_def)
  then show ?thesis using drawn_orthogonal[OF r k, of ?d] f r by fastforce
qed

end
