(* ===== verification/Status_Pages.thy ===== *)
theory Status_Pages
  imports Config_Dialogs Permission Branding_Views
begin

text \<open>
  Pages that watch what runs: the logs of a container (\<open>pages/ApplicationLog\<close> and its
  \<open>LogContainer\<close>), the status of an environment (\<open>pages/ApplicationStatus/index.tsx\<close>) and the dialog
  that runs a pipeline (\<open>components/RunPipeline\<close>). Requests under way and timers are part of the
  state; a timer is known by its number, as the browser knows it.
\<close>

section \<open>The lines of a log\<close>

record log_line =
  ll_content :: string
  ll_timestamp :: string

text \<open>A line starts with a date where its first character is a number. What is white space counts as
  zero.\<close>

definition reads_as_digit :: "char \<Rightarrow> bool" where
  "reads_as_digit c \<longleftrightarrow> c \<in> set ''0123456789'' \<or> of_char c \<in> {9, 10, 11, 12, 13, 32, 160 :: nat}"

definition to_line :: "string \<Rightarrow> log_line" where
  "to_line line =
     (case index_of (CHR '' '') line of
        Some idx \<Rightarrow> if idx > 0 \<and> reads_as_digit (hd line) then \<lparr>ll_content = drop (idx + 1) line, ll_timestamp = take idx line\<rparr>
                    else \<lparr>ll_content = line, ll_timestamp = []\<rparr>
      | None \<Rightarrow> \<lparr>ll_content = line, ll_timestamp = []\<rparr>)"

definition toLogLines :: "string \<Rightarrow> log_line list" where
  "toLogLines logs = map to_line (filter (\<lambda>l. l \<noteq> []) (split_on (CHR 0x0A) logs))"

definition downloadLog :: "log_line list \<Rightarrow> string" where
  "downloadLog logs = join_with [CHR 0x0A] (map ll_content logs)"

section \<open>The log of a container\<close>

text \<open>The container watched is its pod and its name; what is asked for is a container and whether of the run
  before.\<close>

record log_view =
  lv_target :: "(string \<times> string) option"
  lv_autoRefresh :: bool
  lv_logs :: "log_line list"
  lv_previous :: bool
  lv_loading :: bool
  lv_timeout :: "nat option"
  lv_timers :: "nat list"
  lv_next :: nat
  lv_asked :: "((string \<times> string) \<times> bool) list"
  lv_closed :: bool
  lv_failed :: bool

definition new_log_view :: "(string \<times> string) option \<Rightarrow> log_view" where
  "new_log_view target =
     \<lparr>lv_target = target, lv_autoRefresh = True, lv_logs = [], lv_previous = False, lv_loading = False, lv_timeout = None, lv_timers = [], lv_next = 1,
      lv_asked = [], lv_closed = False, lv_failed = False\<rparr>"

definition watched :: "log_view \<Rightarrow> (string \<times> string) option" where
  "watched st = (case lv_target st of Some (pod, container) \<Rightarrow> if container \<noteq> [] then Some (pod, container) else None | None \<Rightarrow> None)"

definition loadContainerLog :: "log_view \<Rightarrow> log_view" where
  "loadContainerLog st = (case watched st of Some t \<Rightarrow> st\<lparr>lv_asked := lv_asked st @ [(t, lv_previous st)]\<rparr> | None \<Rightarrow> st\<lparr>lv_loading := False\<rparr>)"

definition log_mount :: "(string \<times> string) option \<Rightarrow> log_view" where
  "log_mount target = loadContainerLog (new_log_view target)"

text \<open>An answer has the log, an error, or neither; it is followed by a timer where the log is refreshed.\<close>

definition log_answer :: "(string \<times> string) \<times> bool \<Rightarrow> (string option \<times> string option) answer \<Rightarrow> log_view \<Rightarrow> log_view" where
  "log_answer r a st =
     (let st = st\<lparr>lv_asked := remove1 r (lv_asked st), lv_loading := False\<rparr>;
          st = (case a of
                  Answered (logs, err) \<Rightarrow>
                    (let st = (if truthy logs then st\<lparr>lv_logs := toLogLines (the logs)\<rparr> else st)
                     in if truthy err then st\<lparr>lv_logs := toLogLines (the err)\<rparr> else st)
                | _ \<Rightarrow> st)
      in if a = Rejected then st\<lparr>lv_failed := True\<rparr>
         else if lv_autoRefresh st then st\<lparr>lv_timeout := Some (lv_next st), lv_timers := lv_timers st @ [lv_next st], lv_next := lv_next st + 1\<rparr> else st)"

definition log_timer :: "nat \<Rightarrow> log_view \<Rightarrow> log_view" where
  "log_timer n st = loadContainerLog (st\<lparr>lv_timers := remove1 n (lv_timers st)\<rparr>)"

definition clear_timeout :: "log_view \<Rightarrow> log_view" where
  "clear_timeout st = (case lv_timeout st of Some n \<Rightarrow> st\<lparr>lv_timers := filter (\<lambda>m. m \<noteq> n) (lv_timers st)\<rparr> | None \<Rightarrow> st)"

definition log_receive :: "(string \<times> string) option \<Rightarrow> log_view \<Rightarrow> log_view" where
  "log_receive target st =
     (if target \<noteq> lv_target st then loadContainerLog ((clear_timeout st)\<lparr>lv_target := target, lv_logs := [], lv_loading := True\<rparr>) else st)"

definition log_unmount :: "log_view \<Rightarrow> log_view" where
  "log_unmount st = (clear_timeout st)\<lparr>lv_closed := True\<rparr>"

definition setAutoRefresh :: "bool \<Rightarrow> log_view \<Rightarrow> log_view" where
  "setAutoRefresh v st =
     (let st = st\<lparr>lv_autoRefresh := v\<rparr>;
          st = (if \<not> v \<and> lv_timeout st \<noteq> None then (clear_timeout st)\<lparr>lv_timeout := None\<rparr> else st)
      in if v \<and> lv_timeout st = None then loadContainerLog st else st)"

inductive log_step :: "log_view \<Rightarrow> log_view \<Rightarrow> bool" where
  log_told: "r \<in> set (lv_asked st) \<Longrightarrow> log_step st (log_answer r a st)"
| log_waited: "n \<in> set (lv_timers st) \<Longrightarrow> log_step st (log_timer n st)"
| log_given: "\<not> lv_closed st \<Longrightarrow> log_step st (log_receive target st)"
| log_switched: "\<not> lv_closed st \<Longrightarrow> log_step st (setAutoRefresh v st)"
| log_before: "\<not> lv_closed st \<Longrightarrow> log_step st (st\<lparr>lv_previous := v\<rparr>)"
| log_closes: "log_step st (log_unmount st)"

section \<open>The pods of the log page\<close>

record log_page =
  lp_pods :: "(string \<times> string) list option"
  lp_pod :: "string option"
  lp_containers :: "string list option"
  lp_activePod :: string
  lp_activeComponent :: string
  lp_activeContainer :: string
  lp_disabled :: bool

definition new_log_page :: log_page where
  "new_log_page = \<lparr>lp_pods = Some [], lp_pod = None, lp_containers = None, lp_activePod = [], lp_activeComponent = [], lp_activeContainer = [], lp_disabled = True\<rparr>"

text \<open>A pod that is not listed becomes an empty object, and reading its name throws.\<close>

definition handlePodNameChange :: "string \<Rightarrow> log_page \<Rightarrow> string + log_page" where
  "handlePodNameChange name st =
     (if name \<in> fst ` set (or_nil (lp_pods st))
      then Inr (st\<lparr>lp_activePod := name, lp_activeContainer := [], lp_pod := Some name, lp_disabled := False\<rparr>)
      else Inl ''TypeError'')"

definition pods_answer :: "string option \<Rightarrow> (string \<times> string) list option \<Rightarrow> log_page \<Rightarrow> string + log_page" where
  "pods_answer query res st =
     (case or_nil res of
        [] \<Rightarrow> Inr (st\<lparr>lp_pods := Some []\<rparr>)
      | (first, _) # _ \<Rightarrow> handlePodNameChange (if truthy query then the query else first) (st\<lparr>lp_pods := res, lp_activePod := []\<rparr>))"

definition handleContainerNameChange :: "string \<Rightarrow> log_page \<Rightarrow> log_page" where
  "handleContainerNameChange name st = st\<lparr>lp_activeContainer := name\<rparr>"

definition pod_detail_answer :: "string list option \<Rightarrow> log_page \<Rightarrow> log_page" where
  "pod_detail_answer containers st =
     handleContainerNameChange (case or_nil containers of c # _ \<Rightarrow> c | [] \<Rightarrow> []) (st\<lparr>lp_containers := containers\<rparr>)"

definition handleComponentNameChange :: "string \<Rightarrow> log_page \<Rightarrow> log_page" where
  "handleComponentNameChange name st = st\<lparr>lp_activeComponent := name, lp_activePod := [], lp_activeContainer := []\<rparr>"

definition getPodNameList :: "log_page \<Rightarrow> string list" where
  "getPodNameList st =
     map fst (filter (\<lambda>(name, component). name \<noteq> [] \<and> (lp_activeComponent st = [] \<or> component = lp_activeComponent st)) (or_nil (lp_pods st)))"

definition getComponentNameList :: "(string \<times> string option) list \<Rightarrow> (string \<times> string) list" where
  "getComponentNameList components = map (\<lambda>(name, alias). (or_str alias name, name)) components"

section \<open>The status of an environment\<close>

text \<open>What is asked for: the resources applied or their tree, for a component and a target.\<close>

datatype resource_query = Applied "string option" "string option" | Tree "string option" "string option"

record env_status =
  es_mode :: string
  es_component :: "string option"
  es_target :: "string option"
  es_resources :: "string list"
  es_resourceLoading :: bool
  es_deployLoading :: bool
  es_asked :: "resource_query list"

definition new_env_status :: "string option \<Rightarrow> env_status" where
  "new_env_status view =
     \<lparr>es_mode = statusMode view, es_component = None, es_target = None, es_resources = [], es_resourceLoading = False, es_deployLoading = False, es_asked = []\<rparr>"

definition ask_resources :: "bool \<Rightarrow> resource_query \<Rightarrow> env_status \<Rightarrow> env_status" where
  "ask_resources silent q st = (if silent then st else st\<lparr>es_resourceLoading := True\<rparr>)\<lparr>es_asked := es_asked st @ [q]\<rparr>"

text \<open>Whether the application and the environment are known is the first argument.\<close>

definition loadResourceTree :: "bool \<Rightarrow> bool \<Rightarrow> env_status \<Rightarrow> env_status" where
  "loadResourceTree known silent st = (if known \<and> \<not> es_resourceLoading st then ask_resources silent (Tree (es_component st) (es_target st)) st else st)"

definition loadApplicationAppliedResources :: "bool \<Rightarrow> bool \<Rightarrow> env_status \<Rightarrow> env_status" where
  "loadApplicationAppliedResources known silent st =
     (if es_mode st = ''resource-graph'' then loadResourceTree known silent st
      else if known then ask_resources silent (Applied (es_component st) (es_target st)) st else st)"

definition resources_answer :: "resource_query \<Rightarrow> string list option answer \<Rightarrow> env_status \<Rightarrow> env_status" where
  "resources_answer q a st =
     (let st = st\<lparr>es_asked := remove1 q (es_asked st), es_resourceLoading := False\<rparr>
      in case a of Answered (Some rs) \<Rightarrow> st\<lparr>es_resources := rs\<rparr> | Rejected \<Rightarrow> st | _ \<Rightarrow> st\<lparr>es_resources := []\<rparr>)"

definition status_loaded :: "bool \<Rightarrow> bool \<Rightarrow> bool \<Rightarrow> env_status \<Rightarrow> env_status" where
  "status_loaded has_status known silent st = (if has_status then loadApplicationAppliedResources known silent st else st)"

definition status_updateQuery :: "bool \<Rightarrow> string list option \<Rightarrow> string option \<Rightarrow> string option \<Rightarrow> env_status \<Rightarrow> env_status" where
  "status_updateQuery known targets target component st =
     loadApplicationAppliedResources known False
       (st\<lparr>es_target := (case target of Some t \<Rightarrow> if t \<in> set (or_nil targets) then Some t else None | None \<Rightarrow> None), es_component := component\<rparr>)"

definition onChangeMode :: "bool \<Rightarrow> string \<Rightarrow> env_status \<Rightarrow> env_status" where
  "onChangeMode known mode st =
     (let st = st\<lparr>es_mode := mode\<rparr> in if mode = ''overview'' \<or> mode = ''resource-graph'' then loadApplicationAppliedResources known False st else st)"

text \<open>Deploying: the workflow of the environment is named after it; without the environment reading its name
  throws. A workflow that is running is refused with its own code.\<close>

definition onDeploy :: "string list \<Rightarrow> string \<Rightarrow> bool \<Rightarrow> env_status \<Rightarrow> string + (string \<times> bool) \<times> env_status" where
  "onDeploy envs env force st =
     (if env \<in> set envs then Inr ((''workflow-'' @ env, force), st\<lparr>es_deployLoading := True\<rparr>) else Inl ''TypeError'')"

datatype deploy_next = DeployGo string | DeployStay | DeployForce | DeployReport int

definition deploy_answer :: "string \<Rightarrow> (int + (string \<times> string option) option) \<Rightarrow> env_status \<Rightarrow> deploy_next \<times> env_status" where
  "deploy_answer app a st =
     (case a of
        Inr (Some (env, record)) \<Rightarrow>
          (if truthy record then DeployGo (''/applications/'' @ app @ ''/envbinding/'' @ env @ ''/workflow/records/'' @ the record) else DeployStay,
           st\<lparr>es_deployLoading := False\<rparr>)
      | Inr None \<Rightarrow> (DeployStay, st)
      | Inl code \<Rightarrow> (if code = 10004 then DeployForce else DeployReport code, st))"

definition deploy_cancel :: "env_status \<Rightarrow> env_status" where
  "deploy_cancel st = st\<lparr>es_deployLoading := False\<rparr>"

section \<open>Running a pipeline\<close>

record run_dialog =
  ru_loading :: bool
  ru_contexts :: "(string, (string \<times> string) list) js_map"
  ru_context :: "(string \<times> (string \<times> string) list \<times> bool) option"
  ru_noContext :: bool
  ru_contextName :: string
  ru_addContext :: bool

definition new_run_dialog :: run_dialog where
  "new_run_dialog = \<lparr>ru_loading = True, ru_contexts = [], ru_context = None, ru_noContext = False, ru_contextName = [], ru_addContext = False\<rparr>"

definition onNewContext :: "run_dialog \<Rightarrow> run_dialog" where
  "onNewContext st = st\<lparr>ru_addContext := True\<rparr>"

definition onEditPipelineContext :: "bool \<Rightarrow> string \<Rightarrow> run_dialog \<Rightarrow> run_dialog" where
  "onEditPipelineContext clone key st = st\<lparr>ru_addContext := True, ru_context := Some (key, or_nil (map_of (ru_contexts st) key), clone)\<rparr>"

definition context_cancel :: "run_dialog \<Rightarrow> run_dialog" where
  "context_cancel st = st\<lparr>ru_addContext := False\<rparr>"

definition context_saved :: "run_dialog \<Rightarrow> run_dialog" where
  "context_saved st = st\<lparr>ru_loading := True, ru_addContext := False\<rparr>"

definition contexts_answer :: "(string, (string \<times> string) list) js_map option answer \<Rightarrow> run_dialog \<Rightarrow> run_dialog" where
  "contexts_answer a st =
     (case a of Answered (Some cs) \<Rightarrow> st\<lparr>ru_contexts := cs\<rparr> | Rejected \<Rightarrow> st | _ \<Rightarrow> st\<lparr>ru_contexts := []\<rparr>)\<lparr>ru_loading := False\<rparr>"

definition context_deleted :: "run_dialog \<Rightarrow> run_dialog" where
  "context_deleted st = st\<lparr>ru_loading := True\<rparr>"

definition pick_context :: "string \<Rightarrow> run_dialog \<Rightarrow> run_dialog" where
  "pick_context key st = st\<lparr>ru_contextName := (if ru_contextName st \<noteq> key then key else [])\<rparr>"

definition okButtonDisable :: "run_dialog \<Rightarrow> bool" where
  "okButtonDisable st \<longleftrightarrow> ru_contextName st = [] \<and> \<not> ru_noContext st"

definition onRunPipeline :: "run_dialog \<Rightarrow> string" where
  "onRunPipeline st = ru_contextName st"

text \<open>The form of a context: the name and values it starts with, and whether it updates one.\<close>

definition context_form :: "run_dialog \<Rightarrow> (string \<times> (string, string) js_map) option" where
  "context_form st = map_option (\<lambda>(name, vals, clone). (if clone then name @ ''-clone'' else name, js_map_of vals)) (ru_context st)"

definition context_edits :: "run_dialog \<Rightarrow> bool" where
  "context_edits st \<longleftrightarrow> (case ru_context st of Some (_, _, clone) \<Rightarrow> \<not> clone | None \<Rightarrow> False)"

section \<open>Logs are read as they were written\<close>

definition print_line :: "log_line \<Rightarrow> string" where
  "print_line l = ll_timestamp l @ '' '' @ ll_content l"

definition dated_line :: "log_line \<Rightarrow> bool" where
  "dated_line l \<longleftrightarrow> ll_timestamp l \<noteq> [] \<and> hd (ll_timestamp l) \<in> set ''0123456789'' \<and> CHR '' '' \<notin> set (ll_timestamp l) \<and>
     CHR 0x0A \<notin> set (ll_timestamp l) \<and> CHR 0x0A \<notin> set (ll_content l)"

lemma to_line_print: "dated_line l \<Longrightarrow> to_line (print_line l) = l"
  by (cases l) (auto simp: to_line_def print_line_def dated_line_def index_of_append reads_as_digit_def hd_append)

text \<open>A log written with the time before each line is read line by line as it was written, with its
  times, however many lines it has.\<close>

theorem toLogLines_roundtrip:
  assumes "list_all dated_line lines"
  shows "toLogLines (join_with [CHR 0x0A] (map print_line lines)) = lines"
proof (cases "lines = []")
  case False
  have "\<forall>w \<in> set (map print_line lines). CHR 0x0A \<notin> set w" using assms by (auto simp: list_all_iff dated_line_def print_line_def)
  then have s: "split_on (CHR 0x0A) (join_with [CHR 0x0A] (map print_line lines)) = map print_line lines" using False by (intro split_join) simp_all
  have "filter (\<lambda>l. l \<noteq> []) (map print_line lines) = map print_line lines" by (auto simp: filter_id_conv print_line_def)
  then show ?thesis unfolding toLogLines_def s using assms by (simp add: to_line_print list_all_iff map_idI)
qed (simp add: toLogLines_def)

theorem toLogLines_roundtrip_witness:
  "toLogLines (join_with [CHR 0x0A] (map print_line [\<lparr>ll_content = ''started'', ll_timestamp = ''2024-01-01''\<rparr>])) = [\<lparr>ll_content = ''started'', ll_timestamp = ''2024-01-01''\<rparr>]"
  by (rule toLogLines_roundtrip) (simp add: dated_line_def)

text \<open>A line of a stack, which starts with a tab, is taken to have a time.\<close>

lemma tab_line_dated: "to_line ([CHR 0x09] @ ''at Main.run (Main.java)'') = \<lparr>ll_content = ''Main.run (Main.java)'', ll_timestamp = [CHR 0x09] @ ''at''\<rparr>"
  by code_simp

section \<open>A log is followed\<close>

definition log_inv :: "log_view \<Rightarrow> bool" where
  "log_inv st \<longleftrightarrow> (\<not> lv_autoRefresh st \<longrightarrow> lv_timeout st = None) \<and>
     (\<not> lv_closed st \<and> lv_autoRefresh st \<and> watched st \<noteq> None \<and> \<not> lv_failed st \<longrightarrow> lv_asked st \<noteq> [] \<or> lv_timers st \<noteq> [])"

lemma watched_cong: "lv_target st' = lv_target st \<Longrightarrow> watched st' = watched st"
  by (simp add: watched_def)

lemma load_log_inv: "\<not> lv_autoRefresh st \<longrightarrow> lv_timeout st = None \<Longrightarrow> log_inv (loadContainerLog st)"
  by (auto simp: log_inv_def loadContainerLog_def watched_def split: option.splits)

lemma clear_timeout_fields [simp]:
  "lv_autoRefresh (clear_timeout st) = lv_autoRefresh st" "lv_timeout (clear_timeout st) = lv_timeout st"
  "lv_closed (clear_timeout st) = lv_closed st" "lv_target (clear_timeout st) = lv_target st"
  by (simp_all add: clear_timeout_def split: option.splits)

lemma log_answer_inv: "log_inv st \<Longrightarrow> log_inv (log_answer r a st)"
  by (cases a) (auto simp: log_inv_def log_answer_def Let_def split: prod.splits)

lemma log_step_inv: "log_step st st' \<Longrightarrow> log_inv st \<Longrightarrow> log_inv st'"
proof (induction rule: log_step.induct)
  case (log_told r st a)
  then show ?case by (intro log_answer_inv)
next
  case (log_waited n st)
  then show ?case unfolding log_timer_def by (intro load_log_inv) (simp add: log_inv_def)
next
  case (log_given st target)
  then have "log_inv (loadContainerLog ((clear_timeout st)\<lparr>lv_target := target, lv_logs := [], lv_loading := True\<rparr>))"
    by (intro load_log_inv) (simp add: log_inv_def)
  then show ?case using log_given by (simp add: log_receive_def)
next
  case (log_switched st v)
  show ?case
  proof (cases "v \<and> lv_timeout st = None")
    case True
    then have "setAutoRefresh v st = loadContainerLog (st\<lparr>lv_autoRefresh := True\<rparr>)" by (simp add: setAutoRefresh_def)
    then show ?thesis using load_log_inv[of "st\<lparr>lv_autoRefresh := True\<rparr>"] by simp
  next
    case False
    show ?thesis
    proof (cases v)
      case True
      then have "lv_autoRefresh st" "setAutoRefresh v st = st\<lparr>lv_autoRefresh := True\<rparr>" using False log_switched.prems by (auto simp: setAutoRefresh_def log_inv_def)
      then show ?thesis using log_switched.prems watched_cong[of "st\<lparr>lv_autoRefresh := True\<rparr>" st] by (simp add: log_inv_def)
    next
      case False
      then show ?thesis by (simp add: setAutoRefresh_def log_inv_def Let_def)
    qed
  qed
next
  case (log_before st v)
  then show ?case using watched_cong[of "st\<lparr>lv_previous := v\<rparr>" st] by (simp add: log_inv_def)
next
  case (log_closes st)
  then show ?case by (simp add: log_unmount_def log_inv_def)
qed

interpretation log_watch: machine log_step log_inv "\<lambda>st. \<exists>target. st = log_mount target"
  by unfold_locales (auto intro: log_step_inv load_log_inv simp: log_mount_def new_log_view_def)

text \<open>While the log of a container is open and refreshes itself, and no request for it has failed, it is
  being asked for or a timer is set that will ask: switching the refreshing off and on and going
  from one container to another never leaves it standing still.\<close>

theorem log_followed:
  assumes "log_step\<^sup>*\<^sup>* (log_mount target) st" and "\<not> lv_closed st" and "lv_autoRefresh st" and "watched st \<noteq> None" and "\<not> lv_failed st"
  shows "lv_asked st \<noteq> [] \<or> lv_timers st \<noteq> []"
  using log_watch.reachable_inv[OF _ assms(1)] assms(2-5) by (auto simp: log_inv_def)

theorem log_followed_witness:
  "let st = setAutoRefresh True (setAutoRefresh False (log_mount (Some (''pod'', ''c'')))) in watched st \<noteq> None \<and> (lv_asked st \<noteq> [] \<or> lv_timers st \<noteq> [])"
proof -
  define m where "m = log_mount (Some (''pod'', ''c''))"
  define off where "off = setAutoRefresh False m"
  define st where "st = setAutoRefresh True off"
  have f: "\<not> lv_closed m" "\<not> lv_closed off" "watched st \<noteq> None" "\<not> lv_closed st" "lv_autoRefresh st" "\<not> lv_failed st"
    unfolding st_def off_def m_def by code_simp+
  have "log_step m off" unfolding off_def by (rule log_switched[OF f(1)])
  moreover have "log_step off st" unfolding st_def by (rule log_switched[OF f(2)])
  ultimately have "log_step\<^sup>*\<^sup>* m st" by simp
  then have "lv_asked st \<noteq> [] \<or> lv_timers st \<noteq> []" unfolding m_def using f by (intro log_followed)
  then show ?thesis using f(3) unfolding Let_def st_def off_def m_def by blast
qed

section \<open>Where these pages go wrong\<close>

text \<open>A log that is closed while it is being asked for sets a timer again. Going to another container while
  the first is being asked for leaves two askings going, and may show the log of the first.\<close>

lemma closed_log_asks: "lv_autoRefresh st \<Longrightarrow> lv_timers (log_answer r (Answered x) (log_unmount st)) \<noteq> []"
  by (auto simp: log_answer_def log_unmount_def Let_def split: prod.splits)

lemma log_doubles:
  "let st = log_receive (Some (''p'', ''b'')) (log_mount (Some (''p'', ''a'')));
       st' = log_answer ((''p'', ''a''), False) (Answered (Some ''of a'', None)) (log_answer ((''p'', ''b''), False) (Answered (Some ''of b'', None)) st)
   in lv_timers st' = [1, 2] \<and> lv_asked st' = [] \<and> lv_target st' = Some (''p'', ''b'') \<and> map ll_content (lv_logs st') = [''of a'']"
  by code_simp

text \<open>A pod named in the address that is gone makes the page throw.\<close>

lemma pod_gone_throws: "res = Some ((p, c) # ps) \<Longrightarrow> q \<notin> fst ` set (or_nil res) \<Longrightarrow> q \<noteq> [] \<Longrightarrow> pods_answer (Some q) res st = Inl ''TypeError''"
  by (simp add: pods_answer_def handlePodNameChange_def truthy_iff)

text \<open>Going to the graph of the resources while the list of them loads asks for no tree, and the list is then
  shown in its place; a failed deploy leaves the button loading, one without an environment throws.\<close>

lemma tree_not_asked:
  assumes "es_resourceLoading st" and "es_asked st = [q]"
  shows "let st' = resources_answer q (Answered (Some rs)) (onChangeMode known ''resource-graph'' st)
    in es_mode st' = ''resource-graph'' \<and> es_asked st' = [] \<and> es_resources st' = rs"
  using assms by (simp add: onChangeMode_def loadApplicationAppliedResources_def loadResourceTree_def resources_answer_def Let_def)

lemma failed_deploy_loads: "onDeploy envs env force st = Inr (r, st') \<Longrightarrow> code \<noteq> 10004 \<Longrightarrow> es_deployLoading (snd (deploy_answer app (Inl code) st'))"
  by (auto simp: onDeploy_def deploy_answer_def split: if_splits)

lemma deploy_no_env_throws: "env \<notin> set envs \<Longrightarrow> onDeploy envs env force st = Inl ''TypeError''"
  by (simp add: onDeploy_def)

text \<open>A new context opens as the one that was edited before and would replace it; a context that was removed
  is still the one that is run.\<close>

lemma new_context_edits: "context_edits (onNewContext (context_cancel (onEditPipelineContext False key st)))"
  by (simp add: context_edits_def onNewContext_def context_cancel_def onEditPipelineContext_def)

lemma removed_context_runs:
  "key \<noteq> [] \<Longrightarrow> let st' = contexts_answer (Answered (Some [])) (context_deleted (pick_context key new_run_dialog)) in \<not> okButtonDisable st' \<and> onRunPipeline st' = key"
  by (simp add: contexts_answer_def context_deleted_def pick_context_def new_run_dialog_def okButtonDisable_def onRunPipeline_def Let_def)

text \<open>The buttons to clone and to remove a context name what they need by another name than the one that is
  checked, and nothing to check is allowed to everybody.\<close>

lemma unnamed_request_allowed: "checkPermission None project (Some user)"
  by (simp add: checkPermission_def)

end
