(* ===== verification/Spec2Isabelle.thy ===== *)
theory Spec2Isabelle
  imports Studio_State Run_Loops Expression_Complete Menu_Service Component_Dependencies Edge_Routing
    Backend_Session Graph_Layout Definition_Utils Url_Query Plugin_Reports Resource_Utils Search_Forms Form_Schema Branding_Views
    Field_Rows Field_Choices Step_Layout Run_Pages App_Config_Page Addon_Pages
    Tree_Graph Status_Pages
begin

text \<open>
  \<^bold>\<open>A verification library for the client of VelaUX\<close>

  VelaUX is the web interface of KubeVela. Its client is a React application in TypeScript
  (\<open>packages/velaux-ui\<close>, with the types it shares with plugins in \<open>packages/velaux-data\<close>),
  served by a Go backend. What the client decides by itself, as opposed to what it draws or asks
  the backend for, is in plain functions and a few stateful services; these theories model them
  and prove what they promise. Paths below are under \<open>packages/velaux-ui/src\<close>.

  \<^bold>\<open>Parts and theories\<close>

  \<^item> \<open>Js_Prelude\<close>: the JavaScript idioms every part uses (optional values and truthiness, maps in
    enumeration order, strings, decimal numbers, JSON), and three contracts of machines as
    locales: \<open>preserving\<close>, \<open>machine\<close> and \<open>growing\<close>. The studio, the menu service and the
    backend session interpret them on their own step relations, and their invariants rest on it.
  \<^item> \<open>Graph_Search\<close>: graphs as the code builds them, the stack search several files repeat, its
    correctness, and the locale \<open>wait_graph\<close>.
  \<^item> \<open>Step_Dependencies\<close> (\<open>components/PipelineGraph/dependencies.ts\<close>): what a step waits on, the
    edges drawn, the order of steps. The graph of the studio and that of a run interpret
    \<open>wait_graph\<close>. Shown: the edges drawn keep the waits (their transitive closure), none is
    implied by the others, ordering is a permutation that respects every wait outside a cycle.
  \<^item> \<open>Studio_Edit\<close>, \<open>Loop_Edit\<close>, \<open>Studio_State\<close> (\<open>components/WorkflowStudio\<close>): the edits of
    the workflow studio, its loops and what an expression may read, and its React state with
    every handler, as a transition system (\<open>studio_trans\<close>). Shown: names stay distinct through
    any sequence of actions, dependencies drawn never close a loop, moves offered are safe,
    the waits after a step is added are exactly known, with when one is lost or a loop closed,
    deleting leaves nothing dangling and changes no other wait, the key check is exact.
  \<^item> \<open>Run_Loops\<close> (\<open>components/PipelineGraph/status.ts\<close>, \<open>loop.ts\<close>): the status of a run, and the
    passes of a loop in lanes: each lane holds exactly the passes of its item, with progress that counts them.
  \<^item> \<open>Expression_Scan\<close>, \<open>Expression_Complete\<close> (\<open>extends/ExpressionEditor/completion.ts\<close>,
    \<open>components/WorkflowStudio/condition.ts\<close>): where expressions open and close, what is
    suggested and what hovering shows. The two scanners of the file agree, and spans are ordered
    and within the value.
  \<^item> \<open>Permission\<close> (\<open>utils/permission.ts\<close>, \<open>utils/currentProject.ts\<close> and the callers that name a
    resource): the locale \<open>deny_overrides\<close> is the contract of a decision; the code's decision
    interprets it. Matching is equivalent to the node-wise wildcard rule, and the decision to
    its specification.
  \<^item> \<open>Menu_Service\<close> (\<open>services/MenuService.tsx\<close>): the menu tables and the service as a transition
    system: names stay distinct, whatever answers arrive each menu of the plugins is there once,
    as the first to arrive has it, a workspace lists exactly what is permitted.
  \<^item> \<open>App_Health\<close> (\<open>AppStatus/health.ts\<close>, \<open>utils/status.ts\<close>, \<open>utils/policies.ts\<close>,
    \<open>utils/sourceStatus.ts\<close>, \<open>components/TreeGraph/pods.ts\<close>): an application's health refines
    the maximum of a linear order.
  \<^item> \<open>Component_Dependencies\<close> (\<open>utils/dependencies.ts\<close>, \<open>ComponentList/model.ts\<close>,
    \<open>ApplicationGraph/sources.ts\<close>, \<open>flows.ts\<close>, \<open>origins.ts\<close>): the search for dependents is exact
    and the options offered close no cycle.
  \<^item> \<open>Edge_Routing\<close>, \<open>Graph_Layout\<close> (\<open>components/TreeGraph/orthogonal.ts\<close>, \<open>layout.ts\<close>,
    \<open>traits.ts\<close>): the router of the graph. Every edge has a route of right angles, ports follow
    the order of their targets, lanes stay apart where there is room; the shift into view and
    the rows of chips lose nothing.
  \<^item> \<open>Step_Layout\<close> (\<open>components/PipelineGraph/layout.tsx\<close>): the graph of steps, placed by the
    layout library (an argument) and routed by the router above. Shown: the cards are in view,
    every edge between two cards has a route, the middle of a route halves it.
  \<^item> \<open>Studio_Dialogs\<close> (\<open>WorkflowStudio/add-step.tsx\<close>, \<open>loop-items.tsx\<close>, \<open>graph.tsx\<close>): the
    dialogs of the studio as transition systems. Shown: every type on offer is in its category,
    nothing is added until every stage is valid, switching what a loop repeats over loses nothing.
  \<^item> \<open>Studio_Pages\<close> (\<open>pages/ApplicationWorkflowStudio\<close>, \<open>PipelineStudio\<close>,
    \<open>SharedWorkflowStudio\<close>, \<open>WorkflowStudio/settings.tsx\<close>, \<open>confirm.tsx\<close>): the pages around the
    studio and their settings as transition systems, the answers of the backend coming in any
    order, and the canary setting. Shown: the step types offered are those of the environment,
    a copy of a shared workflow that has been loaded runs as the reference did, who may not change a shared workflow
    does not; and what the pages take for saved though it is not.
  \<^item> \<open>Run_Pages\<close> (\<open>pages/ApplicationWorkflowStatus\<close>, \<open>PipelineRunPage\<close>): a run asked for again
    and again until it has finished, with the details of its steps. Shown: the asking goes on
    until then, by one timer at most, and ends after the page is closed, with what was still to be
    answered; and where a failed or a late answer misleads it.
  \<^item> \<open>Config_Dialogs\<close> (\<open>pages/ApplicationConfig/components\<close>): the dialogs for sources, policies,
    traits and components. The locale \<open>faithful_edit\<close> is the contract of a dialog that saves what
    is not changed as it was, interpreted on all of them but that for traits, which breaks it; of a
    policy it is shown exactly which are saved as they were.
  \<^item> \<open>Settings_Dialogs\<close> (\<open>TriggerDialog\<close>, \<open>pages/EnvPage\<close>, \<open>pages/Configs\<close>): the dialogs for
    triggers, environments and configs, on the same contract, which that for triggers breaks.
  \<^item> \<open>Search_Page\<close> (\<open>components/QuickSearch/index.tsx\<close>, \<open>pages/ApplicationInstanceList\<close>,
    \<open>components/TreeGraph/utils.tsx\<close>): the search palette as a transition system (\<open>search_step\<close>)
    over the menus and the ranking, what it finds and remembers, each as it was found; loading an environment's
    instances, links with placeholders, and the keys and sizes of the nodes of a graph.
  \<^item> \<open>App_Config_Page\<close> (\<open>pages/ApplicationConfig/index.tsx\<close>): the page that opens the dialogs, as a
    transition system (\<open>app_page_step\<close>). Shown: a dialog that is closed has nothing in it, and the
    component types offered are those of the namespaces deployed to.
  \<^item> \<open>Addon_Pages\<close> (\<open>pages/Addons\<close>): the addons with their tags and their order, the registries and
    the details of an addon (\<open>addon_step\<close>), whose status is asked for while it is changing.
  \<^item> \<open>Tree_Graph\<close> (\<open>components/TreeGraph/index.tsx\<close>): what a tree of resources puts on the graph, as
    the calls to the graph library, and the edges drawn of a layout, routed by \<open>Edge_Routing\<close>.
    Shown: exactly when every edge is between nodes of the tree, flows are labels and not stops, and
    edges turn at right angles.
  \<^item> \<open>Status_Pages\<close> (\<open>pages/ApplicationLog\<close>, \<open>pages/ApplicationStatus/index.tsx\<close>,
    \<open>components/RunPipeline\<close>): the lines of a log and following it (\<open>log_step\<close>), the resources of an
    environment and running a pipeline.
  \<^item> \<open>Backend_Session\<close> (\<open>services/BackendService.ts\<close>, \<open>utils/storage.ts\<close>, \<open>utils/errors.ts\<close>,
    \<open>utils/resetLogin.ts\<close>, \<open>api/status.ts\<close>): requests, answers and the token refresh as a
    transition system (\<open>session_step\<close>), a request being a number the caller never reuses.
    Shown: no request is lost or settles twice, a refresh retries all that waited; and where
    the queue of the code deadlocks.
  \<^item> \<open>Url_Query\<close> (\<open>services/LocationService.ts\<close>): queries printed, parsed and updated, with the
    round trip of those it keeps, and a text it does not.
  \<^item> \<open>Plugin_Reports\<close> (\<open>services/plugin/PluginCache.ts\<close>, \<open>pages/Reports/view.ts\<close>, \<open>csv.ts\<close>):
    the plugin cache, charts, the tracker that lets only the latest request answer, and the CSV
    with a reader (of this development) it round-trips through where every line break is quoted.
  \<^item> \<open>Form_Schema\<close> (\<open>components/UISchema/index.tsx\<close>): the forms generated from a definition's
    schema. Which parameters show, under which conditions and in which sections; the rules of
    their values; and the state of a form, its expressions and the server's checks of them, as a
    transition system (\<open>form_step\<close>), in which the values registered as the form is drawn are any.
    Shown: what the parent of a form hears of its validity, and when, an answer to the present
    values is exact, and where an answer that comes late is not.
  \<^item> \<open>Branding_Views\<close> (\<open>utils/terminology.ts\<close>, \<open>utils/theme.ts\<close>,
    \<open>services/CustomisationService.ts\<close>, \<open>AppTabs/add.ts\<close>, \<open>TreeGraph/tooltip.ts\<close>): terms
    renamed in every text, the branding of the page as a transition system, tabs and tooltips.
    Shown: renaming changes whole words only, and the page follows the last branding.
  \<^item> \<open>Field_Widgets\<close>, \<open>Field_Rows\<close>, \<open>Field_Choices\<close> (\<open>extends/\<close>): the widgets of generated forms.
    The values of a chart flattened and nested again, maps and lists of structures as rows, the
    rows of a map and of a list as transition systems, and the choices loaded for a form, their
    requests answered in any order. Shown: round trips of what is not edited, the list widget
    holds and hands over exactly the list as edited, no row overwrites another, the versions offered
    are those of the chart named, and loading charts ends, answered or failed; and where a failed
    request leaves the list of versions loading.
  \<^item> \<open>Definition_Utils\<close>, \<open>Resource_Utils\<close>, \<open>Search_Forms\<close>: the smaller utilities (versions,
    restrictions, labels, sources, quoted messages, quantities, pickers, names, restart plans,
    quick search, filters, the new service form, definition modules).

  \<^bold>\<open>How the code is read\<close>

  A class or interface is a record, a union a datatype; React state and module variables are a
  record passed and returned, and their operations are steps where their order matters. An
  operation that throws returns a sum or an option. A loop is structural recursion or a function
  with a measure; none needs fuel, so every definition is total and every result above is
  about what is returned, not about what might be.

  Taken as arguments: the clock and the parsing and formatting of dates (the \<open>moment\<close> library),
  \<open>Number\<close> and \<open>BigInt\<close> of a text, the order of \<open>localeCompare\<close> as a key, the answers of the
  backend. Numbers of the graph are exact rationals, where the code has doubles; other numbers
  are integers. Characters are code units below 256, and case conversion acts on ASCII letters.

  \<^bold>\<open>Not modelled\<close>

  The Go backend. Rendering: the markup of the pages, dialogs and widgets, and the pages and
  layouts that are not named above, whose state is form values and request results kept as they
  come (projects, users, roles, targets, clusters, settings, the lists of applications and
  pipelines, the login). The stores under \<open>model/\<close>, whose effects
  put an answer of the backend in the store, and the API clients, one call per endpoint.
  The set-up of translations, and styles. Within the files modelled: texts with characters outside the
  character type (\<open>flowLine\<close>, \<open>repositoryOptions\<close>), the history object of the location
  service, and sizes formatted by a logarithm.
\<close>

end
